(* ===== verification/Prelude.thy ===== *)
theory Prelude
  imports Main "HOL-Library.Word"
begin

text \<open>
  Generic material shared by all components: the hint collections of the development,
  the machine integers of the source (Go's \<open>int64\<close>, read as an \<open>int\<close> with the
  wrap-around written out), errors as values, and lemmas on lists and maps.
\<close>

named_theorems go_simps \<open>characteristic equations of the Go library functions\<close>
named_theorems frame \<open>state components an operation leaves alone\<close>
named_theorems inv_intro \<open>operations that preserve an invariant\<close>

subsection \<open>Machine integers\<close>

text \<open>Two's complement wrap-around of \<open>int64\<close> arithmetic.\<close>

definition wrap64 :: "int \<Rightarrow> int" where
  "wrap64 x = (x + 2 ^ 63) mod 2 ^ 64 - 2 ^ 63"

definition int64 :: "int \<Rightarrow> bool" where
  "int64 x \<longleftrightarrow> - (2 ^ 63) \<le> x \<and> x < 2 ^ 63"

lemma wrap64_id [simp]: "int64 x \<Longrightarrow> wrap64 x = x"
  by (simp add: wrap64_def int64_def)

lemma int64_wrap64 [simp, intro]: "int64 (wrap64 x)"
proof -
  have "0 \<le> (x + 2 ^ 63) mod 2 ^ 64" and "(x + 2 ^ 63) mod 2 ^ 64 < 2 ^ 64"
    by simp_all
  then show ?thesis
    by (simp add: wrap64_def int64_def)
qed

lemma wrap64_idem [simp]: "wrap64 (wrap64 x) = wrap64 x"
  by simp

lemma wrap64_sint: "wrap64 x = sint (word_of_int x :: 64 word)"
  by (simp add: wrap64_def sint_sbintrunc' signed_take_bit_eq_take_bit_shift take_bit_eq_mod
        signed_of_int)

subsection \<open>Lists\<close>

text \<open>The insertion order of an association: the first entry of a list that satisfies \<open>P\<close>.\<close>

lemma find_Some_set: "List.find P xs = Some x \<Longrightarrow> x \<in> set xs \<and> P x"
  by (auto simp: find_Some_iff)

lemma find_None_not: "List.find P xs = None \<longleftrightarrow> (\<forall>x \<in> set xs. \<not> P x)"
  by (auto simp: find_None_iff)

lemma set_remove1_append:
  "distinct xs \<Longrightarrow> set (remove1 x xs @ [x]) = insert x (set xs)"
  by auto

lemma take_eq_append: "take n xs = ys \<Longrightarrow> xs = ys @ drop n xs"
  by (metis append_take_drop_id)

lemma sum_list_le_length_mult:
  "\<forall>x \<in> set xs. f x \<le> (b::nat) \<Longrightarrow> sum_list (map f xs) \<le> length xs * b"
  by (induction xs) auto

subsection \<open>Maps\<close>

text \<open>Removing a set of keys, as a loop of Go's \<open>delete\<close> does.\<close>

definition del_keys :: "('k \<rightharpoonup> 'v) \<Rightarrow> 'k list \<Rightarrow> ('k \<rightharpoonup> 'v)" where
  "del_keys m ks = foldl (\<lambda>acc k. acc(k := None)) m ks"

lemma del_keys_apply: "del_keys m ks k = (if k \<in> set ks then None else m k)"
  unfolding del_keys_def by (induction ks arbitrary: m) auto

lemma del_keys_cong: "set ks = set ks' \<Longrightarrow> del_keys m ks = del_keys m ks'"
  by (rule ext) (simp add: del_keys_apply)

lemma dom_del_keys: "dom (del_keys m ks) = dom m - set ks"
  by (auto simp: del_keys_apply dom_def)

lemma del_keys_Nil [simp]: "del_keys m [] = m"
  by (simp add: del_keys_def)

end
