(* ===== verification/Go_Strings.thy ===== *)
theory Go_Strings
  imports Prelude
begin

text \<open>
  The part of Go's \<open>strings\<close> and \<open>unicode/utf8\<close> packages the program uses. A Go string is a
  byte sequence, so it is a \<open>string\<close> here (a \<open>char\<close> is a byte). The functions work on
  bytes and treat the UTF-8 encoded white space characters exactly; the case tables of
  Unicode beyond ASCII are a parameter, used only on strings with a non-ASCII byte,
  as in the library's own fast path.
\<close>

subsection \<open>Prefixes, search, splitting\<close>

definition has_prefix :: "string \<Rightarrow> string \<Rightarrow> bool" where
  "has_prefix p s \<longleftrightarrow> take (length p) s = p"

definition has_suffix :: "string \<Rightarrow> string \<Rightarrow> bool" where
  "has_suffix p s \<longleftrightarrow> has_prefix (rev p) (rev s)"

definition trim_prefix :: "string \<Rightarrow> string \<Rightarrow> string" where
  "trim_prefix p s = (if has_prefix p s then drop (length p) s else s)"

text \<open>\<open>strings.Index\<close>: \<open>None\<close> is the result -1.\<close>

fun index_of :: "string \<Rightarrow> string \<Rightarrow> nat option" where
  "index_of w [] = (if w = [] then Some 0 else None)"
| "index_of w (c # s) =
     (if has_prefix w (c # s) then Some 0 else map_option Suc (index_of w s))"

definition contains :: "string \<Rightarrow> string \<Rightarrow> bool" where
  "contains w s \<longleftrightarrow> index_of w s \<noteq> None"

text \<open>\<open>strings.Split\<close>, \<open>strings.SplitN(s, c, 2)\<close> and \<open>strings.Join\<close>.\<close>

fun split_on :: "char \<Rightarrow> string \<Rightarrow> string list" where
  "split_on c [] = [[]]"
| "split_on c (x # s) =
     (if x = c then [] # split_on c s
      else (case split_on c s of [] \<Rightarrow> [[x]] | p # ps \<Rightarrow> (x # p) # ps))"

definition split_n2 :: "char \<Rightarrow> string \<Rightarrow> string list" where
  "split_n2 c s = (case index_of [c] s of None \<Rightarrow> [s] | Some i \<Rightarrow> [take i s, drop (Suc i) s])"

fun join :: "string \<Rightarrow> string list \<Rightarrow> string" where
  "join sep [] = []"
| "join sep [x] = x"
| "join sep (x # y # zs) = x @ sep @ join sep (y # zs)"

text \<open>\<open>strings.ReplaceAll\<close> for a non-empty pattern.\<close>

function replace_all :: "string \<Rightarrow> string \<Rightarrow> string \<Rightarrow> string" where
  "replace_all w r [] = []"
| "replace_all w r (c # s) =
     (if w \<noteq> [] \<and> has_prefix w (c # s) then r @ replace_all w r (drop (length w) (c # s))
      else c # replace_all w r s)"
  by pat_completeness auto
termination
  by (relation "measure (\<lambda>(w, r, s). length s)") auto

lemma has_prefix_Nil [simp]: "has_prefix [] s"
  by (simp add: has_prefix_def)

lemma has_prefix_Cons [simp]:
  "has_prefix (a # p) [] \<longleftrightarrow> False"
  "has_prefix (a # p) (b # s) \<longleftrightarrow> a = b \<and> has_prefix p s"
  by (auto simp: has_prefix_def)

lemma has_prefix_of_Nil [simp]: "has_prefix w [] \<longleftrightarrow> w = []"
  by (auto simp: has_prefix_def)

lemma replace_all_single: "replace_all [c] r s = concat (map (\<lambda>x. if x = c then r else [x]) s)"
  by (induction "[c]" r s rule: replace_all.induct) auto

lemma has_prefix_append: "has_prefix p (p @ s)"
  by (simp add: has_prefix_def)

lemma has_prefixE: "has_prefix p s \<Longrightarrow> s = p @ drop (length p) s"
  by (metis append_take_drop_id has_prefix_def)

lemma has_prefix_append_iff: "has_prefix p s \<longleftrightarrow> (\<exists>t. s = p @ t)"
  using has_prefixE has_prefix_append by blast

lemma trim_prefix_single:
  "trim_prefix [a] [] = []" "trim_prefix [a] (b # s) = (if a = b then s else b # s)"
  by (auto simp: trim_prefix_def)

lemma index_of_single_None: "index_of [c] s = None \<longleftrightarrow> c \<notin> set s"
  by (induction s) auto

lemma index_of_single_Some:
  "index_of [c] s = Some i \<longleftrightarrow> i < length s \<and> s ! i = c \<and> c \<notin> set (take i s)"
proof (induction s arbitrary: i)
  case Nil
  then show ?case by simp
next
  case (Cons x s)
  then show ?case by (cases i) auto
qed

lemma index_of_split: "c \<notin> set p \<Longrightarrow> index_of [c] (p @ c # s) = Some (length p)"
  by (simp add: index_of_single_Some nth_append)

lemma index_of_Some_prefix:
  "index_of w s = Some i \<Longrightarrow> i + length w \<le> length s \<and> has_prefix w (drop i s)"
proof (induction w s arbitrary: i rule: index_of.induct)
  case (1 w)
  then show ?case by (auto split: if_splits)
next
  case (2 w c s)
  show ?case
  proof (cases "has_prefix w (c # s)")
    case True
    then have "length w \<le> length (c # s)"
      by (metis has_prefix_append_iff le_add1 length_append)
    with True "2.prems" show ?thesis by auto
  next
    case False
    with 2 show ?thesis by auto
  qed
qed

lemma contains_single [simp]: "contains [c] s \<longleftrightarrow> c \<in> set s"
  using index_of_single_None by (auto simp: contains_def)

lemma contains_iff: "contains w s \<longleftrightarrow> (\<exists>a b. s = a @ w @ b)"
proof
  assume "contains w s"
  then obtain i where i: "index_of w s = Some i"
    by (auto simp: contains_def)
  then obtain t where "drop i s = w @ t"
    using index_of_Some_prefix has_prefix_append_iff by blast
  then have "s = take i s @ w @ t"
    by (metis append_take_drop_id)
  then show "\<exists>a b. s = a @ w @ b" by blast
next
  assume "\<exists>a b. s = a @ w @ b"
  then obtain a b where "s = a @ w @ b" by blast
  then show "contains w s"
  proof (induction a arbitrary: s)
    case Nil
    then have "has_prefix w s" by (simp add: has_prefix_append)
    then show ?case by (cases s) (auto simp: contains_def)
  next
    case (Cons x a)
    then show ?case by (auto simp: contains_def)
  qed
qed

lemma split_n2_found: "c \<notin> set p \<Longrightarrow> split_n2 c (p @ c # s) = [p, s]"
  by (simp add: split_n2_def index_of_split)

lemma split_on_nonempty [simp]: "split_on c s \<noteq> []"
  by (induction s) (auto split: list.splits)

lemma split_on_no_sep: "c \<notin> set s \<Longrightarrow> split_on c s = [s]"
  by (induction s) auto

lemma split_on_parts: "p \<in> set (split_on c s) \<Longrightarrow> c \<notin> set p"
  by (induction s arbitrary: p) (auto split: list.splits if_splits)

lemma join_split_on: "join [c] (split_on c s) = s"
proof (induction s)
  case Nil
  then show ?case by simp
next
  case (Cons x s)
  then show ?case
    by (cases "split_on c s"; cases "tl (split_on c s)") (auto split: list.splits)
qed

subsection \<open>White space\<close>

text \<open>The UTF-8 encodings of the characters \<open>unicode.IsSpace\<close> accepts.\<close>

definition space_seqs :: "string list" where
  "space_seqs =
    [[CHR 0x20], [CHR 0x0A], [CHR 0x09], [CHR 0x0D], [CHR 0x0B], [CHR 0x0C],
     [CHR 0xC2, CHR 0x85], [CHR 0xC2, CHR 0xA0], [CHR 0xE1, CHR 0x9A, CHR 0x80],
     [CHR 0xE2, CHR 0x80, CHR 0x80], [CHR 0xE2, CHR 0x80, CHR 0x81],
     [CHR 0xE2, CHR 0x80, CHR 0x82], [CHR 0xE2, CHR 0x80, CHR 0x83],
     [CHR 0xE2, CHR 0x80, CHR 0x84], [CHR 0xE2, CHR 0x80, CHR 0x85],
     [CHR 0xE2, CHR 0x80, CHR 0x86], [CHR 0xE2, CHR 0x80, CHR 0x87],
     [CHR 0xE2, CHR 0x80, CHR 0x88], [CHR 0xE2, CHR 0x80, CHR 0x89],
     [CHR 0xE2, CHR 0x80, CHR 0x8A], [CHR 0xE2, CHR 0x80, CHR 0xA8],
     [CHR 0xE2, CHR 0x80, CHR 0xA9], [CHR 0xE2, CHR 0x80, CHR 0xAF],
     [CHR 0xE2, CHR 0x81, CHR 0x9F], [CHR 0xE3, CHR 0x80, CHR 0x80]]"

text \<open>The length of the first word of \<open>ws\<close> at the head of \<open>s\<close>, 0 if there is none.\<close>

definition head_len :: "string list \<Rightarrow> string \<Rightarrow> nat" where
  "head_len ws s = (case List.find (\<lambda>w. has_prefix w s) ws of None \<Rightarrow> 0 | Some w \<Rightarrow> length w)"

function strip :: "string list \<Rightarrow> string \<Rightarrow> string" where
  "strip ws s = (if s = [] \<or> head_len ws s = 0 then s else strip ws (drop (head_len ws s) s))"
  by pat_completeness auto
termination
  by (relation "measure (\<lambda>(ws, s). length s)") auto

declare strip.simps [simp del]

definition trim_left :: "string \<Rightarrow> string" where
  "trim_left s = strip space_seqs s"

definition trim_right :: "string \<Rightarrow> string" where
  "trim_right s = rev (strip (map rev space_seqs) (rev s))"

definition trim_space :: "string \<Rightarrow> string" where
  "trim_space s = trim_right (trim_left s)"

text \<open>\<open>strings.Fields\<close>, with the bytes of the current field accumulated in reverse.\<close>

function fields_aux :: "string \<Rightarrow> string \<Rightarrow> string list" where
  "fields_aux cur s =
    (if s = [] then (if cur = [] then [] else [rev cur])
     else if head_len space_seqs s = 0 then fields_aux (hd s # cur) (tl s)
     else (if cur = [] then [] else [rev cur]) @ fields_aux [] (drop (head_len space_seqs s) s))"
  by pat_completeness auto
termination
  by (relation "measure (\<lambda>(cur, s). length s)") auto

declare fields_aux.simps [simp del]

definition split_fields :: "string \<Rightarrow> string list" where
  "split_fields s = fields_aux [] s"

lemma head_len_zero:
  "[] \<notin> set ws \<Longrightarrow> head_len ws s = 0 \<longleftrightarrow> (\<forall>w \<in> set ws. \<not> has_prefix w s)"
  by (auto simp: head_len_def find_None_iff dest!: find_Some_set split: option.splits)

lemma head_len_Nil [simp]: "[] \<notin> set ws \<Longrightarrow> head_len ws [] = 0"
proof -
  assume "[] \<notin> set ws"
  then have "List.find (\<lambda>w. has_prefix w []) ws = None"
    by (auto simp: find_None_iff has_prefix_def)
  then show ?thesis by (simp add: head_len_def)
qed

lemma strip_fix [simp]: "head_len ws s = 0 \<Longrightarrow> strip ws s = s"
  by (simp add: strip.simps)

lemma strip_Nil [simp]: "strip ws [] = []"
  by (simp add: strip.simps)

lemma strip_suffix: "\<exists>p. s = p @ strip ws s"
proof (induction ws s rule: strip.induct)
  case (1 ws s)
  show ?case
  proof (cases "s = [] \<or> head_len ws s = 0")
    case True
    then show ?thesis by (auto simp: strip.simps [of ws s])
  next
    case False
    from "1.IH" [OF this]
    obtain p where "drop (head_len ws s) s = p @ strip ws (drop (head_len ws s) s)" ..
    then have "s = (take (head_len ws s) s @ p) @ strip ws (drop (head_len ws s) s)"
      by (metis append.assoc append_take_drop_id)
    with False have "s = (take (head_len ws s) s @ p) @ strip ws s"
      by (simp add: strip.simps [of ws s])
    then show ?thesis by blast
  qed
qed

lemma strip_head: "strip ws s = [] \<or> head_len ws (strip ws s) = 0"
proof (induction ws s rule: strip.induct)
  case (1 ws s)
  then show ?case
    by (cases "s = [] \<or> head_len ws s = 0") (auto simp: strip.simps [of ws s])
qed

lemma strip_idem [simp]: "strip ws (strip ws s) = strip ws s"
  using strip_head by (metis strip_Nil strip_fix)

lemma length_strip: "length (strip ws s) \<le> length s"
  using strip_suffix [of s ws] by (metis length_append le_add2)

lemma length_trim_left: "length (trim_left s) \<le> length s"
  by (simp add: trim_left_def length_strip)

lemma length_trim_right: "length (trim_right s) \<le> length s"
  by (simp add: trim_right_def) (metis length_rev length_strip)

lemma length_trim_space: "length (trim_space s) \<le> length s"
  using le_trans length_trim_left length_trim_right trim_space_def by metis

lemma set_strip: "set (strip ws s) \<subseteq> set s"
  using strip_suffix [of s ws] by (metis set_append Un_upper2)

lemma set_trim_left: "set (trim_left s) \<subseteq> set s"
  by (simp add: trim_left_def set_strip)

lemma set_trim_right: "set (trim_right s) \<subseteq> set s"
  using set_strip [of _ "rev s"] by (simp add: trim_right_def)

lemma set_trim_space: "set (trim_space s) \<subseteq> set s"
  using set_trim_left set_trim_right trim_space_def by (metis subset_trans)

lemma head_len_prefix:
  assumes "head_len ws (t @ u) = 0" and "[] \<notin> set ws"
  shows "head_len ws t = 0"
proof (rule ccontr)
  assume "head_len ws t \<noteq> 0"
  then obtain w where "w \<in> set ws" and "has_prefix w t"
    by (auto simp: head_len_def dest!: find_Some_set split: option.splits)
  then have "w \<in> set ws" and "has_prefix w (t @ u)"
    by (auto simp: has_prefix_append_iff)
  then obtain v where "List.find (\<lambda>w. has_prefix w (t @ u)) ws = Some v" and "v \<in> set ws"
    using find_None_not find_Some_set by (metis (mono_tags, lifting) not_Some_eq)
  with assms show False
    by (auto simp: head_len_def)
qed

text \<open>A string with no white space at either end.\<close>

definition trimmed :: "string \<Rightarrow> bool" where
  "trimmed s \<longleftrightarrow> head_len space_seqs s = 0 \<and> head_len (map rev space_seqs) (rev s) = 0"

lemma space_seqs_nonempty [simp]: "[] \<notin> set space_seqs" "[] \<notin> rev ` set space_seqs"
  by (auto simp: space_seqs_def)

lemma trimmed_Nil [simp]: "trimmed []"
  by (simp add: trimmed_def)

lemma trim_space_trimmed: "trimmed s \<Longrightarrow> trim_space s = s"
  by (simp add: trimmed_def trim_space_def trim_left_def trim_right_def)

lemma trimmed_trim_space [simp, intro]: "trimmed (trim_space s)"
proof -
  let ?u = "trim_left s" and ?t = "trim_space s"
  have "head_len space_seqs ?u = 0"
    using strip_head [of space_seqs s] by (auto simp: trim_left_def)
  moreover obtain p where "rev ?u = p @ rev ?t"
    using strip_suffix [of "rev ?u" "map rev space_seqs"] by (auto simp: trim_space_def trim_right_def)
  then have "?u = ?t @ rev p"
    by (metis rev_append rev_rev_ident)
  ultimately have "head_len space_seqs ?t = 0"
    using head_len_prefix by (metis space_seqs_nonempty(1))
  moreover have "head_len (map rev space_seqs) (rev ?t) = 0"
    using strip_head [of "map rev space_seqs" "rev ?u"]
    by (auto simp: trim_space_def trim_right_def)
  ultimately show ?thesis by (simp add: trimmed_def)
qed

lemma trim_space_idem [simp]: "trim_space (trim_space s) = trim_space s"
  by (simp add: trim_space_trimmed)

lemma trim_space_Nil [simp]: "trim_space [] = []"
  by (simp add: trim_space_def trim_left_def trim_right_def)

subsection \<open>Case\<close>

text \<open>
  The Unicode tables beyond ASCII, on whole strings: \<open>strings.ToLower\<close>, \<open>strings.ToUpper\<close>
  and \<open>strings.EqualFold\<close> where an argument has a byte above 0x7F.
\<close>

record unicode =
  uni_lower :: "string \<Rightarrow> string"
  uni_upper :: "string \<Rightarrow> string"
  uni_fold :: "string \<Rightarrow> string \<Rightarrow> bool"

definition is_ascii :: "string \<Rightarrow> bool" where
  "is_ascii s \<longleftrightarrow> list_all (\<lambda>c. (of_char c :: nat) < 128) s"

definition ascii_lower :: "char \<Rightarrow> char" where
  "ascii_lower c = (let n = of_char c :: nat in if 65 \<le> n \<and> n \<le> 90 then char_of (n + 32) else c)"

definition ascii_upper :: "char \<Rightarrow> char" where
  "ascii_upper c = (let n = of_char c :: nat in if 97 \<le> n \<and> n \<le> 122 then char_of (n - 32) else c)"

definition to_lower :: "unicode \<Rightarrow> string \<Rightarrow> string" where
  "to_lower U s = (if is_ascii s then map ascii_lower s else uni_lower U s)"

definition to_upper :: "unicode \<Rightarrow> string \<Rightarrow> string" where
  "to_upper U s = (if is_ascii s then map ascii_upper s else uni_upper U s)"

definition equal_fold :: "unicode \<Rightarrow> string \<Rightarrow> string \<Rightarrow> bool" where
  "equal_fold U s t =
    (if is_ascii s \<and> is_ascii t then map ascii_lower s = map ascii_lower t else uni_fold U s t)"

definition is_digit :: "char \<Rightarrow> bool" where
  "is_digit c \<longleftrightarrow> 48 \<le> (of_char c :: nat) \<and> (of_char c :: nat) \<le> 57"

text \<open>A table that changes nothing, for concrete evaluations on ASCII text.\<close>

definition ascii_only :: unicode where
  "ascii_only = \<lparr>uni_lower = id, uni_upper = id, uni_fold = (=)\<rparr>"

lemma is_ascii_Nil [simp]: "is_ascii []"
  by (simp add: is_ascii_def)

lemma is_ascii_append [simp]: "is_ascii (s @ t) \<longleftrightarrow> is_ascii s \<and> is_ascii t"
  by (simp add: is_ascii_def)

lemma is_ascii_Cons [simp]: "is_ascii (c # s) \<longleftrightarrow> (of_char c :: nat) < 128 \<and> is_ascii s"
  by (simp add: is_ascii_def)

lemma to_lower_Nil [simp]: "to_lower U [] = []"
  by (simp add: to_lower_def)

lemma of_char_ascii_lower:
  "(of_char (ascii_lower c) :: nat) =
    (let n = of_char c in if 65 \<le> n \<and> n \<le> 90 then n + 32 else n)"
  by (auto simp: ascii_lower_def Let_def)

lemma ascii_lower_idem [simp]: "ascii_lower (ascii_lower c) = ascii_lower c"
  by (simp add: ascii_lower_def Let_def)

lemma is_ascii_map_lower [simp]: "is_ascii (map ascii_lower s) \<longleftrightarrow> is_ascii s"
  unfolding is_ascii_def by (induction s) (auto simp: of_char_ascii_lower Let_def)

lemma to_lower_ascii: "is_ascii s \<Longrightarrow> to_lower U s = map ascii_lower s"
  by (simp add: to_lower_def)

lemma to_lower_idem_ascii: "is_ascii s \<Longrightarrow> to_lower U (to_lower U s) = to_lower U s"
  by (simp add: to_lower_def comp_def)

lemma is_ascii_to_lower: "is_ascii s \<Longrightarrow> is_ascii (to_lower U s)"
  by (simp add: to_lower_def)

lemma equal_fold_refl_ascii: "is_ascii s \<Longrightarrow> equal_fold U s s"
  by (simp add: equal_fold_def)

lemma equal_fold_Nil: "is_ascii s \<Longrightarrow> equal_fold U s [] \<longleftrightarrow> s = []"
  by (auto simp: equal_fold_def)

end
