(* ===== verification/Identity.thy ===== *)
theory Identity
  imports Go_Strings
begin

text \<open>
  \<open>pkg/identity/identity.go\<close> with the sender and message types of \<open>pkg/bus/types.go\<close> and
  \<open>pkg/constants/channels.go\<close>: canonical \<open>platform:id\<close> identifiers and the matching of a
  sender against an allow-list entry. An empty string is Go's zero value of a field.
\<close>

subsection \<open>Types\<close>

record peer =
  p_Kind :: string
  p_ID :: string

record sender_info =
  Platform :: string
  PlatformID :: string
  CanonicalID :: string
  Username :: string
  DisplayName :: string

definition no_sender :: sender_info where
  "no_sender = \<lparr>Platform = [], PlatformID = [], CanonicalID = [], Username = [], DisplayName = []\<rparr>"

record inbound_message =
  im_Channel :: string
  im_SenderID :: string
  im_Sender :: sender_info
  im_ChatID :: string
  im_Content :: string
  im_Media :: "string list"
  im_Peer :: peer
  im_MessageID :: string
  im_MediaScope :: string
  im_SessionKey :: string
  im_Metadata :: "string \<rightharpoonup> string"

record media_part =
  mp_Type :: string
  mp_Ref :: string
  mp_Caption :: string
  mp_Filename :: string
  mp_ContentType :: string

record outbound_message =
  om_Channel :: string
  om_ChatID :: string
  om_Content :: string
  om_Parts :: "media_part list"

definition internal_channels :: "string list" where
  "internal_channels = [''cli'', ''system'', ''subagent'']"

definition is_internal_channel :: "string \<Rightarrow> bool" where
  "is_internal_channel channel \<longleftrightarrow> channel \<in> set internal_channels"

subsection \<open>Canonical identifiers\<close>

definition build_canonical_id :: "unicode \<Rightarrow> string \<Rightarrow> string \<Rightarrow> string" where
  "build_canonical_id U platform platformID =
    (let p = to_lower U (trim_space platform);
         i = trim_space platformID
     in if p = [] \<or> i = [] then [] else p @ '':'' @ i)"

definition parse_canonical_id :: "string \<Rightarrow> (string \<times> string) option" where
  "parse_canonical_id canonical =
    (let c = trim_space canonical in
     case index_of '':'' c of
       None \<Rightarrow> None
     | Some idx \<Rightarrow>
         if idx = 0 \<or> idx = length c - 1 then None
         else Some (take idx c, drop (Suc idx) c))"

definition is_numeric :: "string \<Rightarrow> bool" where
  "is_numeric s \<longleftrightarrow> s \<noteq> [] \<and> list_all is_digit s"

subsection \<open>Allow-list entries\<close>

text \<open>\<open>id|user\<close> is split at the first bar unless the bar comes first.\<close>

definition split_compound :: "string \<Rightarrow> string \<times> string" where
  "split_compound s =
    (case index_of ''|'' s of
       Some (Suc i) \<Rightarrow> (take (Suc i) s, drop (Suc (Suc i)) s)
     | _ \<Rightarrow> (s, []))"

definition match_allowed :: "unicode \<Rightarrow> sender_info \<Rightarrow> string \<Rightarrow> bool" where
  "match_allowed U sender allowed0 =
    (let allowed = trim_space allowed0;
         legacy =
           (let trimmed = trim_prefix ''@'' allowed;
                (allowedID, allowedUser) = split_compound trimmed
            in if PlatformID sender \<noteq> [] \<and> PlatformID sender = allowedID then True
               else if Username sender \<noteq> [] \<and>
                       (Username sender = trimmed \<or> Username sender = allowedUser) then True
               else if allowedUser \<noteq> [] \<and> PlatformID sender \<noteq> [] \<and> PlatformID sender = allowedID
                 then True
               else if allowedUser \<noteq> [] \<and> Username sender \<noteq> [] \<and> Username sender = allowedUser
                 then True
               else False)
     in if allowed = [] then False
        else case parse_canonical_id allowed of
          Some (platform, i) \<Rightarrow>
            if \<not> is_numeric platform then
              (let candidate = build_canonical_id U platform i in
               if candidate \<noteq> [] \<and> CanonicalID sender \<noteq> []
               then equal_fold U (CanonicalID sender) candidate
               else equal_fold U platform (Platform sender) \<and> PlatformID sender = i)
            else legacy
        | None \<Rightarrow> legacy)"

subsection \<open>Building and parsing\<close>

lemma space_seq_no_colon: "\<forall>w \<in> set space_seqs. CHR '':'' \<notin> set w"
  by (simp add: space_seqs_def)

lemma rev_space_seq_no_colon: "\<forall>w \<in> set (map rev space_seqs). CHR '':'' \<notin> set w"
  by (simp add: space_seqs_def)

lemma has_prefix_before:
  "has_prefix w (a @ c # b) \<Longrightarrow> c \<notin> set w \<Longrightarrow> has_prefix w a"
proof (induction w arbitrary: a)
  case Nil
  then show ?case by simp
next
  case (Cons x w)
  then show ?case by (cases a) auto
qed

lemma head_len_append_sep:
  assumes "head_len ws a = 0" and "\<forall>w \<in> set ws. c \<notin> set w" and "[] \<notin> set ws"
  shows "head_len ws (a @ c # b) = 0"
proof -
  have "List.find (\<lambda>w. has_prefix w (a @ c # b)) ws = None"
  proof (rule ccontr)
    assume "\<not> ?thesis"
    then obtain w where "w \<in> set ws" and w: "has_prefix w (a @ c # b)"
      using find_Some_set by fastforce
    then have "has_prefix w a"
      using assms(2) has_prefix_before by metis
    with \<open>w \<in> set ws\<close> assms(1,3) show False
      by (auto simp: head_len_def find_None_iff dest!: find_Some_set split: option.splits)
  qed
  then show ?thesis by (simp add: head_len_def)
qed

lemma trimmed_sep:
  assumes "trimmed p" and "trimmed i"
  shows "trimmed (p @ CHR '':'' # i)"
proof -
  have "head_len space_seqs (p @ CHR '':'' # i) = 0"
    using assms(1) by (intro head_len_append_sep space_seq_no_colon) (simp_all add: trimmed_def)
  moreover have "head_len (map rev space_seqs) (rev i @ CHR '':'' # rev p) = 0"
    using assms(2)
    by (intro head_len_append_sep rev_space_seq_no_colon) (simp_all add: trimmed_def)
  ultimately show ?thesis by (simp add: trimmed_def)
qed

lemma parse_canonical_sep:
  assumes "trimmed p" "trimmed i" "p \<noteq> []" "i \<noteq> []" "CHR '':'' \<notin> set p"
  shows "parse_canonical_id (p @ CHR '':'' # i) = Some (p, i)"
  using assms by (simp add: parse_canonical_id_def trim_space_trimmed trimmed_sep index_of_split)

lemma is_numeric_Nil [simp]: "\<not> is_numeric []"
  by (simp add: is_numeric_def)

lemma parse_canonical_parts:
  assumes "parse_canonical_id s = Some (p, i)"
  shows "p \<noteq> []" and "i \<noteq> []" and "CHR '':'' \<notin> set p" and "trim_space s = p @ CHR '':'' # i"
proof -
  let ?c = "trim_space s"
  from assms obtain k where k: "index_of '':'' ?c = Some k" "k \<noteq> 0" "k \<noteq> length ?c - 1"
      and pi: "p = take k ?c" "i = drop (Suc k) ?c"
    by (auto simp: parse_canonical_id_def Let_def split: option.splits if_splits)
  from k(1) have kc: "k < length ?c" "?c ! k = CHR '':''" "CHR '':'' \<notin> set (take k ?c)"
    by (auto simp: index_of_single_Some)
  from k kc pi show "p \<noteq> []" "i \<noteq> []" "CHR '':'' \<notin> set p"
    by auto
  from kc pi show "?c = p @ CHR '':'' # i"
    by (metis append_take_drop_id Cons_nth_drop_Suc)
qed

lemma ascii_lower_eqD:
  "ascii_lower c = d \<Longrightarrow> \<not> (97 \<le> (of_char d :: nat) \<and> of_char d \<le> (122 :: nat)) \<Longrightarrow> c = d"
  by (auto simp: ascii_lower_def Let_def split: if_splits)

lemma ascii_lower_colon [simp]: "ascii_lower CHR '':'' = CHR '':''"
  by (simp add: ascii_lower_def)

text \<open>Lower case does not turn a letter into white space.\<close>

lemma head_len_lower:
  assumes "is_ascii s" and "head_len ws s = 0" and "[] \<notin> set ws"
    and ws: "\<forall>w \<in> set ws. (of_char (hd w) :: nat) < 97 \<and> length w = 1
               \<or> 128 \<le> (of_char (hd w) :: nat)"
  shows "head_len ws (map ascii_lower s) = 0"
proof (cases s)
  case Nil
  with assms(2,3) show ?thesis by simp
next
  case (Cons c t)
  have "\<not> has_prefix w (map ascii_lower s)" if w: "w \<in> set ws" for w
  proof
    assume pre: "has_prefix w (map ascii_lower s)"
    from w assms(3) have "w \<noteq> []" by metis
    then obtain d v where wd: "w = d # v"
      by (cases w) auto
    from pre wd Cons have eq: "ascii_lower c = d" by simp
    from ws w wd have d: "(of_char d :: nat) < 97 \<and> v = [] \<or> 128 \<le> (of_char d :: nat)"
      by fastforce
    then have "c = d"
      using ascii_lower_eqD [OF eq] by auto
    moreover have "(of_char c :: nat) < 128"
      using assms(1) Cons by (simp add: is_ascii_def)
    ultimately have "has_prefix w s"
      using d wd Cons by auto
    with assms(2,3) w show False by (simp add: head_len_zero)
  qed
  with assms(3) show ?thesis by (simp add: head_len_zero)
qed

lemma trimmed_lower: "is_ascii s \<Longrightarrow> trimmed s \<Longrightarrow> trimmed (map ascii_lower s)"
  unfolding trimmed_def rev_map
  by (intro conjI head_len_lower) (simp_all add: space_seqs_def is_ascii_def list_all_iff)

lemma colon_notin_lower: "CHR '':'' \<notin> set s \<Longrightarrow> CHR '':'' \<notin> set (map ascii_lower s)"
  by (auto dest!: sym [THEN ascii_lower_eqD])

lemma is_ascii_trim: "is_ascii s \<Longrightarrow> is_ascii (trim_space s)"
  using set_trim_space [of s] by (auto simp: is_ascii_def list_all_iff)

text \<open>
  A canonical identifier built from an ASCII platform without a colon parses back into
  the lower-cased, trimmed platform and the trimmed platform identifier, whatever the
  identifier contains (colons included).
\<close>

theorem parse_build_canonical_id:
  assumes "is_ascii platform" and "CHR '':'' \<notin> set platform"
    and "trim_space platform \<noteq> []" and "trim_space platformID \<noteq> []"
  shows "parse_canonical_id (build_canonical_id U platform platformID) =
    Some (map ascii_lower (trim_space platform), trim_space platformID)"
proof -
  let ?p = "map ascii_lower (trim_space platform)"
  have asc: "is_ascii (trim_space platform)"
    using assms(1) by (rule is_ascii_trim)
  then have "build_canonical_id U platform platformID = ?p @ CHR '':'' # trim_space platformID"
    using assms(3,4) by (simp add: build_canonical_id_def to_lower_ascii)
  moreover have "trimmed ?p" and "CHR '':'' \<notin> set ?p"
    using asc assms(2) set_trim_space [of platform]
    by (auto intro!: trimmed_lower colon_notin_lower simp del: set_map)
  ultimately show ?thesis
    using assms(3,4) by (simp add: parse_canonical_sep)
qed

theorem parse_build_canonical_id_witness:
  "parse_canonical_id (build_canonical_id ascii_only '' Telegram'' ''12:34 '') =
    Some (''telegram'', ''12:34'')"
proof -
  have "parse_canonical_id (build_canonical_id ascii_only '' Telegram'' ''12:34 '') =
    Some (map ascii_lower (trim_space '' Telegram''), trim_space ''12:34 '')"
    by (rule parse_build_canonical_id) (code_simp+)
  also have "\<dots> = Some (''telegram'', ''12:34'')"
    by code_simp
  finally show ?thesis .
qed

subsection \<open>Which senders an entry admits\<close>

lemma colon_append_eq:
  "CHR '':'' \<notin> set a \<Longrightarrow> CHR '':'' \<notin> set b \<Longrightarrow>
    a @ CHR '':'' # s = b @ CHR '':'' # t \<longleftrightarrow> a = b \<and> s = t"
proof (induction a arbitrary: b)
  case Nil
  then show ?case by (cases b) auto
next
  case (Cons x a)
  then show ?case by (cases b) auto
qed

lemma parse_canonical_None:
  "CHR '':'' \<notin> set (trim_space s) \<Longrightarrow> parse_canonical_id s = None"
  by (simp add: parse_canonical_id_def Let_def index_of_single_None [THEN iffD2])

lemma match_allowed_blank: "trim_space e = [] \<Longrightarrow> \<not> match_allowed U sender e"
  by (simp add: match_allowed_def)

text \<open>
  An entry without a colon admits exactly the senders whose platform identifier is its
  part before the bar, or whose user name is the part after the bar or the whole entry
  without a leading at sign; the two trailing checks of the source add nothing.
\<close>

theorem match_allowed_legacy:
  assumes "CHR '':'' \<notin> set e" and "trim_space e \<noteq> []"
  shows "match_allowed U sender e \<longleftrightarrow>
    (let t = trim_prefix ''@'' (trim_space e) in
      PlatformID sender \<noteq> [] \<and> PlatformID sender = fst (split_compound t) \<or>
      Username sender \<noteq> [] \<and> (Username sender = t \<or> Username sender = snd (split_compound t)))"
proof -
  have "parse_canonical_id (trim_space e) = None"
    using assms(1) set_trim_space [of e] by (intro parse_canonical_None) auto
  with assms(2) show ?thesis
    by (auto simp: match_allowed_def Let_def split: prod.splits)
qed

theorem match_allowed_legacy_witness:
  "match_allowed ascii_only (no_sender\<lparr>Username := ''alice''\<rparr>) '' 123456|alice''"
  by (subst match_allowed_legacy) code_simp+

text \<open>
  A sender without any identity (no platform identifier, no user name and no canonical
  identifier) matches no entry at all.
\<close>

theorem match_allowed_anonymous:
  assumes "PlatformID sender = []" and "Username sender = []" and "CanonicalID sender = []"
  shows "\<not> match_allowed U sender e"
proof (cases "parse_canonical_id (trim_space e)")
  case None
  with assms show ?thesis by (auto simp: match_allowed_def Let_def split: prod.splits)
next
  case (Some pi)
  obtain p i where pi: "pi = (p, i)" by force
  with Some have "i \<noteq> []" by (simp add: parse_canonical_parts)
  with assms Some pi show ?thesis
    by (auto simp: match_allowed_def Let_def split: prod.splits)
qed

theorem match_allowed_anonymous_witness: "\<not> match_allowed ascii_only no_sender ''telegram:1''"
  by (rule match_allowed_anonymous) (simp_all add: no_sender_def)

lemma match_allowed_canonical:
  assumes "parse_canonical_id e = Some (p, i)" and "\<not> is_numeric p"
    and "CanonicalID sender \<noteq> []" and "is_ascii (CanonicalID sender)" and "is_ascii e"
    and "trim_space p \<noteq> []" and "trim_space i \<noteq> []"
  shows "match_allowed U sender e \<longleftrightarrow>
    map ascii_lower (CanonicalID sender) =
      map ascii_lower (trim_space p) @ CHR '':'' # map ascii_lower (trim_space i)"
proof -
  have e: "trim_space e = p @ CHR '':'' # i"
    using parse_canonical_parts [OF assms(1)] by blast
  have "is_ascii (p @ CHR '':'' # i)"
    using is_ascii_trim [OF assms(5)] e by simp
  then have asc: "is_ascii p" "is_ascii i" "is_ascii (trim_space p)" "is_ascii (trim_space i)"
    by (simp_all add: is_ascii_trim)
  have parse: "parse_canonical_id (p @ CHR '':'' # i) = Some (p, i)"
    using assms(1) e by (simp add: parse_canonical_id_def trim_space_idem [of e, unfolded e])
  have "build_canonical_id U p i = map ascii_lower (trim_space p) @ CHR '':'' # trim_space i"
    using asc assms(6,7) by (simp add: build_canonical_id_def to_lower_ascii)
  moreover have "is_ascii (map ascii_lower (trim_space p) @ CHR '':'' # trim_space i)"
    using asc by simp
  ultimately show ?thesis
    using assms(2,3,4) e parse
    by (simp add: match_allowed_def equal_fold_def comp_def)
qed

text \<open>
  Entries do not cross platforms: a sender whose canonical identifier was built for a
  platform matches a canonical \<open>platform:id\<close> entry only if the platforms agree up to case and
  white space. The identifiers are compared without regard to case as well.
\<close>

theorem match_allowed_same_platform:
  assumes "is_ascii plat" "is_ascii pid" "CHR '':'' \<notin> set plat"
    and "trim_space plat \<noteq> []" "trim_space pid \<noteq> []"
    and "CanonicalID sender = build_canonical_id U plat pid"
    and "is_ascii e" "parse_canonical_id e = Some (q, i)" "\<not> is_numeric q"
    and "trim_space q \<noteq> []" "trim_space i \<noteq> []"
  shows "match_allowed U sender e \<longleftrightarrow>
    map ascii_lower (trim_space plat) = map ascii_lower (trim_space q) \<and>
    map ascii_lower (trim_space pid) = map ascii_lower (trim_space i)"
proof -
  let ?p = "map ascii_lower (trim_space plat)" and ?q = "map ascii_lower (trim_space q)"
  have asc: "is_ascii (trim_space plat)" "is_ascii (trim_space pid)"
    using assms(1,2) by (simp_all add: is_ascii_trim)
  have cid: "CanonicalID sender = ?p @ CHR '':'' # trim_space pid"
    using assms(4-6) asc by (simp add: build_canonical_id_def to_lower_ascii)
  then have "is_ascii (CanonicalID sender)" "CanonicalID sender \<noteq> []"
    using asc by simp_all
  then have "match_allowed U sender e \<longleftrightarrow>
      ?p @ CHR '':'' # map ascii_lower (trim_space pid) = ?q @ CHR '':'' # map ascii_lower (trim_space i)"
    using match_allowed_canonical [OF assms(8,9) _ _ assms(7,10,11), of sender U] cid
    by (simp add: comp_def)
  moreover have "CHR '':'' \<notin> set ?p" and "CHR '':'' \<notin> set ?q"
    using assms(3) parse_canonical_parts(3) [OF assms(8)] set_trim_space [of plat]
      set_trim_space [of q]
    by (auto intro!: colon_notin_lower simp del: set_map)
  ultimately show ?thesis
    by (simp add: colon_append_eq del: set_map)
qed

theorem match_allowed_same_platform_witness:
  "\<not> match_allowed ascii_only (no_sender\<lparr>CanonicalID := build_canonical_id ascii_only ''irc'' ''Bob''\<rparr>)
      ''slack:bob'' \<and>
   match_allowed ascii_only (no_sender\<lparr>CanonicalID := build_canonical_id ascii_only ''irc'' ''Bob''\<rparr>)
      ''IRC:bob''"
proof (intro conjI)
  show "\<not> match_allowed ascii_only
      (no_sender\<lparr>CanonicalID := build_canonical_id ascii_only ''irc'' ''Bob''\<rparr>) ''slack:bob''"
    by (subst match_allowed_same_platform [of "''irc''" "''Bob''" _ _ _ "''slack''" "''bob''"])
      code_simp+
  show "match_allowed ascii_only
      (no_sender\<lparr>CanonicalID := build_canonical_id ascii_only ''irc'' ''Bob''\<rparr>) ''IRC:bob''"
    by (subst match_allowed_same_platform [of "''irc''" "''Bob''" _ _ _ "''IRC''" "''bob''"])
      code_simp+
qed

end
