(* ===== verification/Go_Chan.thy ===== *)
theory Go_Chan
  imports Prelude
begin

text \<open>
  Buffered Go channels: a first-in first-out buffer of bounded capacity with a closed flag.
  Sending on a full channel blocks, sending on a closed one panics, receiving from a closed
  and empty one returns at once with \<open>ok = false\<close>, and closing twice panics. The interface
  \<open>bounded_fifo\<close> states what the users of a queue rely on.
\<close>

record 'm go_chan =
  buf :: "'m list"
  cap :: nat
  chan_closed :: bool

datatype 'm send_result =
    Sent "'m go_chan"
  | SendBlocks
  | SendPanics

datatype 'm recv_result =
    Received 'm "'m go_chan"
  | RecvClosed
  | RecvBlocks

definition make_chan :: "nat \<Rightarrow> 'm go_chan" where
  "make_chan n = \<lparr>buf = [], cap = n, chan_closed = False\<rparr>"

definition chan_send :: "'m go_chan \<Rightarrow> 'm \<Rightarrow> 'm send_result" where
  "chan_send q m =
    (if chan_closed q then SendPanics
     else if length (buf q) < cap q then Sent (q\<lparr>buf := buf q @ [m]\<rparr>)
     else SendBlocks)"

definition chan_recv :: "'m go_chan \<Rightarrow> 'm recv_result" where
  "chan_recv q =
    (case buf q of
       m # ms \<Rightarrow> Received m (q\<lparr>buf := ms\<rparr>)
     | [] \<Rightarrow> if chan_closed q then RecvClosed else RecvBlocks)"

text \<open>\<open>close(q)\<close>; \<open>None\<close> is the panic of closing a closed channel.\<close>

definition chan_close :: "'m go_chan \<Rightarrow> 'm go_chan option" where
  "chan_close q = (if chan_closed q then None else Some (q\<lparr>chan_closed := True\<rparr>))"

subsection \<open>What users of a queue rely on\<close>

text \<open>
  A queue operation is a send or a receive; the log of a run keeps what was accepted and what
  was taken out.
\<close>

datatype 'm queue_op = Put 'm | Take

locale bounded_fifo =
  fixes put :: "'q \<Rightarrow> 'm \<Rightarrow> 'q option"
    and get :: "'q \<Rightarrow> ('m \<times> 'q) option"
    and contents :: "'q \<Rightarrow> 'm list"
    and bound :: "'q \<Rightarrow> nat"
    and valid :: "'q \<Rightarrow> bool"
  assumes put_contents: "valid q \<Longrightarrow> put q m = Some q' \<Longrightarrow> contents q' = contents q @ [m]"
    and put_valid: "valid q \<Longrightarrow> put q m = Some q' \<Longrightarrow> valid q' \<and> bound q' = bound q"
    and get_contents: "valid q \<Longrightarrow> get q = Some (m, q') \<Longrightarrow> contents q = m # contents q'"
    and get_valid: "valid q \<Longrightarrow> get q = Some (m, q') \<Longrightarrow> valid q' \<and> bound q' = bound q"
    and get_some: "valid q \<Longrightarrow> contents q \<noteq> [] \<Longrightarrow> get q \<noteq> None"
    and contents_bound: "valid q \<Longrightarrow> length (contents q) \<le> bound q"
begin

text \<open>One operation on the queue with its logs; a refused operation changes nothing.\<close>

definition op_step :: "'m queue_op \<Rightarrow> 'q \<times> 'm list \<times> 'm list \<Rightarrow> 'q \<times> 'm list \<times> 'm list" where
  "op_step x = (\<lambda>(q, accepted, taken).
    case x of
      Put m \<Rightarrow> (case put q m of Some q' \<Rightarrow> (q', accepted @ [m], taken) | None \<Rightarrow> (q, accepted, taken))
    | Take \<Rightarrow> (case get q of
        Some (m, q') \<Rightarrow> (q', accepted, taken @ [m]) | None \<Rightarrow> (q, accepted, taken)))"

definition logged :: "'q \<times> 'm list \<times> 'm list \<Rightarrow> bool" where
  "logged = (\<lambda>(q, accepted, taken). valid q \<and> accepted = taken @ contents q)"

lemma op_step_logged: "logged s \<Longrightarrow> logged (op_step x s)"
  by (cases s; cases x)
    (auto simp: logged_def op_step_def put_contents get_contents
      dest: put_valid get_valid split: option.splits)

text \<open>Whatever the interleaving of senders and receivers, messages leave in the order they came.\<close>

lemma run_logged: "logged s \<Longrightarrow> logged (fold op_step xs s)"
  by (induction xs arbitrary: s) (simp_all add: op_step_logged)

lemma taken_prefix:
  assumes "logged (q, [], [])" and "fold op_step xs (q, [], []) = (q', accepted, taken)"
  shows "\<exists>rest. accepted = taken @ rest \<and> length rest \<le> bound q'"
  using run_logged [OF assms(1), of xs] assms(2) contents_bound [of q']
  by (auto simp: logged_def)

end

subsection \<open>Go channels are bounded queues\<close>

definition try_send :: "'m go_chan \<Rightarrow> 'm \<Rightarrow> 'm go_chan option" where
  "try_send q m = (case chan_send q m of Sent q' \<Rightarrow> Some q' | _ \<Rightarrow> None)"

definition try_recv :: "'m go_chan \<Rightarrow> ('m \<times> 'm go_chan) option" where
  "try_recv q = (case chan_recv q of Received m q' \<Rightarrow> Some (m, q') | _ \<Rightarrow> None)"

definition chan_ok :: "'m go_chan \<Rightarrow> bool" where
  "chan_ok q \<longleftrightarrow> length (buf q) \<le> cap q"

lemma chan_ok_make [simp]: "chan_ok (make_chan n)"
  by (simp add: chan_ok_def make_chan_def)

lemma try_send_Some:
  "try_send q m = Some q' \<longleftrightarrow>
    \<not> chan_closed q \<and> length (buf q) < cap q \<and> q' = q\<lparr>buf := buf q @ [m]\<rparr>"
  by (auto simp: try_send_def chan_send_def)

lemma try_recv_Some:
  "try_recv q = Some (m, q') \<longleftrightarrow> (\<exists>ms. buf q = m # ms \<and> q' = q\<lparr>buf := ms\<rparr>)"
  by (auto simp: try_recv_def chan_recv_def split: list.splits)

lemma try_recv_None: "try_recv q = None \<longleftrightarrow> buf q = []"
  by (auto simp: try_recv_def chan_recv_def split: list.splits)

interpretation gq: bounded_fifo try_send try_recv buf cap chan_ok
  by unfold_locales (auto simp: try_send_Some try_recv_Some try_recv_None chan_ok_def
    simp del: not_None_eq)

lemmas chan_rules = gq.put_contents gq.put_valid gq.get_contents gq.get_valid gq.contents_bound

lemma chan_send_frame:
  "chan_send q m = Sent q' \<Longrightarrow> chan_closed q' = chan_closed q \<and> cap q' = cap q"
  by (auto simp: chan_send_def split: if_splits)

lemma chan_send_panics: "chan_send q m = SendPanics \<longleftrightarrow> chan_closed q"
  by (simp add: chan_send_def)

end
