(* ===== verification/Bus.thy ===== *)
theory Bus
  imports Identity Go_Chan
begin

text \<open>
  \<open>pkg/bus/bus.go\<close>: the message bus between channels and the bridge. Every call is a small
  program whose atomic steps (reading the closed flag, reading the context, one \<open>select\<close>)
  interleave with those of the other calls; a \<open>select\<close> with several ready cases may take any
  of them. The ghost fields of a run record what was accepted and what left each queue.
\<close>

subsection \<open>The bus and its calls\<close>

datatype bus_error = ErrBusClosed | CtxErr

definition default_bus_buffer_size :: nat where
  "default_bus_buffer_size = 64"

record message_bus =
  inbound :: "inbound_message go_chan"
  outbound :: "outbound_message go_chan"
  bus_done :: bool
  closed :: bool

definition new_message_bus :: message_bus where
  "new_message_bus =
    \<lparr>inbound = make_chan default_bus_buffer_size, outbound = make_chan default_bus_buffer_size,
     bus_done = False, closed = False\<rparr>"

text \<open>The case a \<open>select\<close> takes.\<close>

datatype case_choice = OnQueue | OnDone | OnCtx

text \<open>Where a publishing call and a closing call are.\<close>

datatype pub_pc = PubLoad | PubCtx | PubSelect
datatype close_pc = CloseSwap | CloseDone | DrainInbound nat | DrainOutbound nat

datatype 'm pub_next =
    PubAt pub_pc
  | PubAccepted "'m go_chan"
  | PubError bus_error

text \<open>
  One step of a publishing call on queue \<open>q\<close> with message \<open>m\<close>, in a bus whose flags are given;
  \<open>None\<close> when the chosen case is not ready.
\<close>

definition publish_step ::
  "message_bus \<Rightarrow> bool \<Rightarrow> 'm go_chan \<Rightarrow> 'm \<Rightarrow> case_choice \<Rightarrow> pub_pc \<Rightarrow> 'm pub_next option" where
  "publish_step mb cancelled q m b pc =
    (case pc of
       PubLoad \<Rightarrow> Some (if closed mb then PubError ErrBusClosed else PubAt PubCtx)
     | PubCtx \<Rightarrow> Some (if cancelled then PubError CtxErr else PubAt PubSelect)
     | PubSelect \<Rightarrow>
         (case b of
            OnQueue \<Rightarrow> map_option PubAccepted (try_send q m)
          | OnDone \<Rightarrow> if bus_done mb then Some (PubError ErrBusClosed) else None
          | OnCtx \<Rightarrow> if cancelled then Some (PubError CtxErr) else None))"

text \<open>A receiving call is one \<open>select\<close>; the queues of the bus are never closed.\<close>

definition receive_step ::
  "message_bus \<Rightarrow> bool \<Rightarrow> 'm go_chan \<Rightarrow> case_choice \<Rightarrow> (('m \<times> 'm go_chan) option) option" where
  "receive_step mb cancelled q b =
    (case b of
       OnQueue \<Rightarrow> map_option Some (try_recv q)
     | OnDone \<Rightarrow> if bus_done mb then Some None else None
     | OnCtx \<Rightarrow> if cancelled then Some None else None)"

datatype call =
    PublishInbound inbound_message pub_pc
  | ConsumeInbound
  | PublishOutbound outbound_message pub_pc
  | SubscribeOutbound
  | CloseBus close_pc

datatype reply =
    PubReply "bus_error option"
  | InboundReply "inbound_message option"
  | OutboundReply "outbound_message option"
  | CloseReply

text \<open>The record of a run: what each queue accepted, and what left it (delivered or drained).\<close>

record bus_log =
  in_accepted :: "inbound_message list"
  in_left :: "(bool \<times> inbound_message) list"
  out_accepted :: "outbound_message list"
  out_left :: "(bool \<times> outbound_message) list"

datatype next_call = Running call | Returned reply

definition publish_inbound_step ::
  "message_bus \<Rightarrow> bus_log \<Rightarrow> bool \<Rightarrow> case_choice \<Rightarrow> inbound_message \<Rightarrow> pub_pc \<Rightarrow>
    (message_bus \<times> bus_log \<times> next_call) option" where
  "publish_inbound_step mb lg cancelled b m pc =
    (case publish_step mb cancelled (inbound mb) m b pc of
       None \<Rightarrow> None
     | Some (PubAt pc') \<Rightarrow> Some (mb, lg, Running (PublishInbound m pc'))
     | Some (PubError e) \<Rightarrow> Some (mb, lg, Returned (PubReply (Some e)))
     | Some (PubAccepted q) \<Rightarrow>
         Some (mb\<lparr>inbound := q\<rparr>, lg\<lparr>in_accepted := in_accepted lg @ [m]\<rparr>, Returned (PubReply None)))"

definition publish_outbound_step ::
  "message_bus \<Rightarrow> bus_log \<Rightarrow> bool \<Rightarrow> case_choice \<Rightarrow> outbound_message \<Rightarrow> pub_pc \<Rightarrow>
    (message_bus \<times> bus_log \<times> next_call) option" where
  "publish_outbound_step mb lg cancelled b m pc =
    (case publish_step mb cancelled (outbound mb) m b pc of
       None \<Rightarrow> None
     | Some (PubAt pc') \<Rightarrow> Some (mb, lg, Running (PublishOutbound m pc'))
     | Some (PubError e) \<Rightarrow> Some (mb, lg, Returned (PubReply (Some e)))
     | Some (PubAccepted q) \<Rightarrow>
         Some (mb\<lparr>outbound := q\<rparr>, lg\<lparr>out_accepted := out_accepted lg @ [m]\<rparr>, Returned (PubReply None)))"

definition consume_inbound_step ::
  "message_bus \<Rightarrow> bus_log \<Rightarrow> bool \<Rightarrow> case_choice \<Rightarrow> (message_bus \<times> bus_log \<times> next_call) option" where
  "consume_inbound_step mb lg cancelled b =
    (case receive_step mb cancelled (inbound mb) b of
       None \<Rightarrow> None
     | Some None \<Rightarrow> Some (mb, lg, Returned (InboundReply None))
     | Some (Some (m, q)) \<Rightarrow>
         Some (mb\<lparr>inbound := q\<rparr>, lg\<lparr>in_left := in_left lg @ [(True, m)]\<rparr>,
               Returned (InboundReply (Some m))))"

definition subscribe_outbound_step ::
  "message_bus \<Rightarrow> bus_log \<Rightarrow> bool \<Rightarrow> case_choice \<Rightarrow> (message_bus \<times> bus_log \<times> next_call) option" where
  "subscribe_outbound_step mb lg cancelled b =
    (case receive_step mb cancelled (outbound mb) b of
       None \<Rightarrow> None
     | Some None \<Rightarrow> Some (mb, lg, Returned (OutboundReply None))
     | Some (Some (m, q)) \<Rightarrow>
         Some (mb\<lparr>outbound := q\<rparr>, lg\<lparr>out_left := out_left lg @ [(True, m)]\<rparr>,
               Returned (OutboundReply (Some m))))"

text \<open>\<open>Close\<close>: swap the flag, close \<open>done\<close>, empty the inbound and then the outbound queue.\<close>

definition close_step ::
  "message_bus \<Rightarrow> bus_log \<Rightarrow> close_pc \<Rightarrow> message_bus \<times> bus_log \<times> next_call" where
  "close_step mb lg pc =
    (case pc of
       CloseSwap \<Rightarrow>
         if closed mb then (mb, lg, Returned CloseReply)
         else (mb\<lparr>closed := True\<rparr>, lg, Running (CloseBus CloseDone))
     | CloseDone \<Rightarrow> (mb\<lparr>bus_done := True\<rparr>, lg, Running (CloseBus (DrainInbound 0)))
     | DrainInbound drained \<Rightarrow>
         (case try_recv (inbound mb) of
            Some (m, q) \<Rightarrow>
              (mb\<lparr>inbound := q\<rparr>, lg\<lparr>in_left := in_left lg @ [(False, m)]\<rparr>,
               Running (CloseBus (DrainInbound (Suc drained))))
          | None \<Rightarrow> (mb, lg, Running (CloseBus (DrainOutbound drained))))
     | DrainOutbound drained \<Rightarrow>
         (case try_recv (outbound mb) of
            Some (m, q) \<Rightarrow>
              (mb\<lparr>outbound := q\<rparr>, lg\<lparr>out_left := out_left lg @ [(False, m)]\<rparr>,
               Running (CloseBus (DrainOutbound (Suc drained))))
          | None \<Rightarrow> (mb, lg, Returned CloseReply)))"

definition call_step ::
  "message_bus \<Rightarrow> bus_log \<Rightarrow> bool \<Rightarrow> case_choice \<Rightarrow> call \<Rightarrow>
    (message_bus \<times> bus_log \<times> next_call) option" where
  "call_step mb lg cancelled b c =
    (case c of
       PublishInbound m pc \<Rightarrow> publish_inbound_step mb lg cancelled b m pc
     | ConsumeInbound \<Rightarrow> consume_inbound_step mb lg cancelled b
     | PublishOutbound m pc \<Rightarrow> publish_outbound_step mb lg cancelled b m pc
     | SubscribeOutbound \<Rightarrow> subscribe_outbound_step mb lg cancelled b
     | CloseBus pc \<Rightarrow> Some (close_step mb lg pc))"

subsection \<open>Concurrent runs\<close>

text \<open>
  The calls under way, by thread; whose context is cancelled; the replies given. Any thread
  may start a call, any context may be cancelled, and any call under way may take a step.
\<close>

record bus_run =
  rn_bus :: message_bus
  rn_log :: bus_log
  rn_calls :: "nat \<rightharpoonup> call"
  rn_cancelled :: "nat set"
  rn_replies :: "(nat \<times> reply) list"

definition first_step :: "call \<Rightarrow> bool" where
  "first_step c \<longleftrightarrow> (case c of
      PublishInbound _ pc \<Rightarrow> pc = PubLoad
    | PublishOutbound _ pc \<Rightarrow> pc = PubLoad
    | CloseBus pc \<Rightarrow> pc = CloseSwap
    | _ \<Rightarrow> True)"

definition init_run :: bus_run where
  "init_run =
    \<lparr>rn_bus = new_message_bus,
     rn_log = \<lparr>in_accepted = [], in_left = [], out_accepted = [], out_left = []\<rparr>,
     rn_calls = Map.empty, rn_cancelled = {}, rn_replies = []\<rparr>"

inductive bus_moves :: "bus_run \<Rightarrow> bus_run \<Rightarrow> bool" where
  start: "rn_calls s t = None \<Longrightarrow> first_step c \<Longrightarrow>
    bus_moves s (s\<lparr>rn_calls := (rn_calls s)(t \<mapsto> c)\<rparr>)"
| cancel: "bus_moves s (s\<lparr>rn_cancelled := insert t (rn_cancelled s)\<rparr>)"
| run: "rn_calls s t = Some c \<Longrightarrow>
    call_step (rn_bus s) (rn_log s) (t \<in> rn_cancelled s) b c = Some (mb, lg, Running c') \<Longrightarrow>
    bus_moves s (s\<lparr>rn_bus := mb, rn_log := lg, rn_calls := (rn_calls s)(t \<mapsto> c')\<rparr>)"
| return: "rn_calls s t = Some c \<Longrightarrow>
    call_step (rn_bus s) (rn_log s) (t \<in> rn_cancelled s) b c = Some (mb, lg, Returned r) \<Longrightarrow>
    bus_moves s (s\<lparr>rn_bus := mb, rn_log := lg, rn_calls := (rn_calls s)(t := None),
                   rn_replies := rn_replies s @ [(t, r)]\<rparr>)"

inductive bus_reach :: "bus_run \<Rightarrow> bool" where
  reach_init: "bus_reach init_run"
| reach_step: "bus_reach s \<Longrightarrow> bus_moves s s' \<Longrightarrow> bus_reach s'"

inductive_cases bus_movesE: "bus_moves s s'"

subsection \<open>The invariant of the bus\<close>

definition queue_inv :: "bool \<Rightarrow> 'm go_chan \<Rightarrow> 'm list \<Rightarrow> (bool \<times> 'm) list \<Rightarrow> bool" where
  "queue_inv dn q accepted left \<longleftrightarrow>
    chan_ok q \<and> cap q = default_bus_buffer_size \<and> \<not> chan_closed q \<and>
    accepted = map snd left @ buf q \<and> (\<not> dn \<longrightarrow> list_all fst left)"

definition bus_inv :: "message_bus \<Rightarrow> bus_log \<Rightarrow> bool" where
  "bus_inv mb lg \<longleftrightarrow>
    queue_inv (bus_done mb) (inbound mb) (in_accepted lg) (in_left lg) \<and>
    queue_inv (bus_done mb) (outbound mb) (out_accepted lg) (out_left lg) \<and>
    (bus_done mb \<longrightarrow> closed mb)"

text \<open>What a call under way knows about the bus.\<close>

definition call_ok :: "message_bus \<Rightarrow> call \<Rightarrow> bool" where
  "call_ok mb c \<longleftrightarrow> (case c of
      CloseBus CloseDone \<Rightarrow> closed mb
    | CloseBus (DrainInbound _) \<Rightarrow> bus_done mb
    | CloseBus (DrainOutbound _) \<Rightarrow> bus_done mb
    | _ \<Rightarrow> True)"

definition delivered_in :: "(nat \<times> reply) list \<Rightarrow> inbound_message list" where
  "delivered_in rs = List.map_filter (\<lambda>r. case snd r of InboundReply x \<Rightarrow> x | _ \<Rightarrow> None) rs"

definition delivered_out :: "(nat \<times> reply) list \<Rightarrow> outbound_message list" where
  "delivered_out rs = List.map_filter (\<lambda>r. case snd r of OutboundReply x \<Rightarrow> x | _ \<Rightarrow> None) rs"

definition run_inv :: "bus_run \<Rightarrow> bool" where
  "run_inv s \<longleftrightarrow>
    bus_inv (rn_bus s) (rn_log s) \<and>
    (\<forall>t c. rn_calls s t = Some c \<longrightarrow> call_ok (rn_bus s) c) \<and>
    delivered_in (rn_replies s) = map snd (filter fst (in_left (rn_log s))) \<and>
    delivered_out (rn_replies s) = map snd (filter fst (out_left (rn_log s)))"

lemma queue_inv_put:
  "queue_inv dn q accepted left \<Longrightarrow> try_send q m = Some q' \<Longrightarrow> queue_inv dn q' (accepted @ [m]) left"
  by (auto simp: queue_inv_def try_send_Some chan_ok_def)

lemma queue_inv_get:
  "queue_inv dn q accepted left \<Longrightarrow> try_recv q = Some (m, q') \<Longrightarrow> dn \<or> d \<Longrightarrow>
    queue_inv dn q' accepted (left @ [(d, m)])"
  by (auto simp: queue_inv_def try_recv_Some chan_ok_def)

lemma queue_inv_done: "queue_inv dn q accepted left \<Longrightarrow> queue_inv True q accepted left"
  by (simp add: queue_inv_def)

text \<open>How a step of a call may change the bus: the flags only rise.\<close>

definition flags_rise :: "message_bus \<Rightarrow> message_bus \<Rightarrow> bool" where
  "flags_rise mb mb' \<longleftrightarrow> (closed mb \<longrightarrow> closed mb') \<and> (bus_done mb \<longrightarrow> bus_done mb')"

lemma call_ok_rise: "call_ok mb c \<Longrightarrow> flags_rise mb mb' \<Longrightarrow> call_ok mb' c"
  by (auto simp: call_ok_def flags_rise_def split: call.splits close_pc.splits)

lemmas call_step_defs = call_step_def publish_inbound_step_def publish_outbound_step_def
  consume_inbound_step_def subscribe_outbound_step_def close_step_def

lemmas call_splits = option.splits prod.splits call.splits close_pc.splits pub_next.splits if_splits

lemma publish_step_accepted:
  "publish_step mb cn q m b pc = Some (PubAccepted q') \<Longrightarrow> try_send q m = Some q'"
  by (auto simp: publish_step_def split: pub_pc.splits case_choice.splits if_splits)

lemma receive_step_some:
  "receive_step mb cn q b = Some (Some (m, q')) \<Longrightarrow> try_recv q = Some (m, q')"
  by (auto simp: receive_step_def split: case_choice.splits if_splits)

lemmas queue_inv_publish = queue_inv_put [OF _ publish_step_accepted]
lemmas queue_inv_receive = queue_inv_get [OF _ receive_step_some]

lemma call_step_rise: "call_step mb lg cn b c = Some (mb', lg', nc) \<Longrightarrow> flags_rise mb mb'"
  by (auto simp: call_step_defs flags_rise_def split: call_splits)

lemma call_step_inv:
  assumes "bus_inv mb lg" and "call_ok mb c" and "call_step mb lg cn b c = Some (mb', lg', nc)"
  shows "bus_inv mb' lg'"
  using assms
  by (auto simp: call_step_defs bus_inv_def call_ok_def
      intro: queue_inv_publish queue_inv_receive queue_inv_get queue_inv_done split: call_splits)

lemma call_step_ok:
  assumes "call_ok mb c" and "call_step mb lg cn b c = Some (mb', lg', Running c')"
  shows "call_ok mb' c'"
  using assms by (auto simp: call_step_defs call_ok_def split: call_splits)

definition new_in :: "next_call \<Rightarrow> inbound_message list" where
  "new_in nc = (case nc of Returned (InboundReply (Some m)) \<Rightarrow> [m] | _ \<Rightarrow> [])"

definition new_out :: "next_call \<Rightarrow> outbound_message list" where
  "new_out nc = (case nc of Returned (OutboundReply (Some m)) \<Rightarrow> [m] | _ \<Rightarrow> [])"

lemma call_step_delivers:
  assumes "call_step mb lg cn b c = Some (mb', lg', nc)"
  shows "map snd (filter fst (in_left lg')) = map snd (filter fst (in_left lg)) @ new_in nc"
    and "map snd (filter fst (out_left lg')) = map snd (filter fst (out_left lg)) @ new_out nc"
  using assms
  by (auto simp: call_step_defs new_in_def new_out_def split: call_splits)

lemma delivered_snoc [simp]:
  "delivered_in (rs @ [(t, r)]) = delivered_in rs @ new_in (Returned r)"
  "delivered_out (rs @ [(t, r)]) = delivered_out rs @ new_out (Returned r)"
  by (auto simp: delivered_in_def delivered_out_def new_in_def new_out_def map_filter_def
      split: reply.splits option.splits)

lemma new_running [simp]: "new_in (Running c) = []" "new_out (Running c) = []"
  by (simp_all add: new_in_def new_out_def)

lemma first_step_ok: "first_step c \<Longrightarrow> call_ok mb c"
  by (auto simp: first_step_def call_ok_def split: call.splits)

lemma bus_moves_inv: "bus_moves s s' \<Longrightarrow> run_inv s \<Longrightarrow> run_inv s'"
proof (induction rule: bus_moves.induct)
  case (start s t c)
  then show ?case by (auto simp: run_inv_def first_step_ok)
next
  case (cancel s t)
  then show ?case by (simp add: run_inv_def)
next
  case (run s t c b mb lg c')
  then have ok: "call_ok (rn_bus s) c" "bus_inv (rn_bus s) (rn_log s)"
    by (auto simp: run_inv_def)
  have "\<forall>t' d. rn_calls s t' = Some d \<longrightarrow> call_ok mb d"
    using run call_step_rise [OF run(2)] by (auto simp: run_inv_def intro: call_ok_rise)
  with run ok show ?case
    using call_step_inv [OF ok(2) ok(1) run(2)] call_step_ok [OF ok(1) run(2)]
      call_step_delivers [OF run(2)]
    by (auto simp: run_inv_def)
next
  case (return s t c b mb lg r)
  then have ok: "call_ok (rn_bus s) c" "bus_inv (rn_bus s) (rn_log s)"
    by (auto simp: run_inv_def)
  have "\<forall>t' d. rn_calls s t' = Some d \<longrightarrow> call_ok mb d"
    using return call_step_rise [OF return(2)] by (auto simp: run_inv_def intro: call_ok_rise)
  with return ok show ?case
    using call_step_inv [OF ok(2) ok(1) return(2)] call_step_delivers [OF return(2)]
    by (auto simp: run_inv_def)
qed

lemma init_run_inv: "run_inv init_run"
  by (simp add: run_inv_def init_run_def bus_inv_def queue_inv_def new_message_bus_def
      make_chan_def chan_ok_def delivered_in_def delivered_out_def map_filter_def)

lemma bus_reach_inv: "bus_reach s \<Longrightarrow> run_inv s"
  by (induction rule: bus_reach.induct) (auto intro: init_run_inv bus_moves_inv)

subsection \<open>Schedules\<close>

text \<open>An executable scheduler for the runs above.\<close>

datatype bus_event = Start nat call | CancelCtx nat | Step nat case_choice

definition bus_exec1 :: "bus_event \<Rightarrow> bus_run \<Rightarrow> bus_run option" where
  "bus_exec1 e s =
    (case e of
       Start t c \<Rightarrow>
         if rn_calls s t = None \<and> first_step c then Some (s\<lparr>rn_calls := (rn_calls s)(t \<mapsto> c)\<rparr>)
         else None
     | CancelCtx t \<Rightarrow> Some (s\<lparr>rn_cancelled := insert t (rn_cancelled s)\<rparr>)
     | Step t b \<Rightarrow>
         (case rn_calls s t of
            None \<Rightarrow> None
          | Some c \<Rightarrow>
              (case call_step (rn_bus s) (rn_log s) (t \<in> rn_cancelled s) b c of
                 None \<Rightarrow> None
               | Some (mb, lg, Running c') \<Rightarrow>
                   Some (s\<lparr>rn_bus := mb, rn_log := lg, rn_calls := (rn_calls s)(t \<mapsto> c')\<rparr>)
               | Some (mb, lg, Returned r) \<Rightarrow>
                   Some (s\<lparr>rn_bus := mb, rn_log := lg, rn_calls := (rn_calls s)(t := None),
                           rn_replies := rn_replies s @ [(t, r)]\<rparr>))))"

fun bus_exec :: "bus_event list \<Rightarrow> bus_run \<Rightarrow> bus_run option" where
  "bus_exec [] s = Some s"
| "bus_exec (e # es) s = (case bus_exec1 e s of None \<Rightarrow> None | Some s' \<Rightarrow> bus_exec es s')"

lemma bus_exec1_moves: "bus_exec1 e s = Some s' \<Longrightarrow> bus_moves s s'"
  by (auto simp: bus_exec1_def intro: bus_moves.intros
      split: bus_event.splits option.splits next_call.splits if_splits)

lemma bus_exec_reach: "bus_exec es s = Some s' \<Longrightarrow> bus_reach s \<Longrightarrow> bus_reach s'"
  by (induction es arbitrary: s)
    (auto dest: reach_step [OF _ bus_exec1_moves] split: option.splits)

lemmas bus_exec_init = bus_exec_reach [OF _ reach_init]

definition the_run :: "bus_event list \<Rightarrow> bus_run" where
  "the_run es = (case bus_exec es init_run of Some s \<Rightarrow> s | None \<Rightarrow> init_run)"

lemma the_run_reach [simp]: "bus_reach (the_run es)"
  by (auto simp: the_run_def intro: bus_exec_init reach_init split: option.splits)

subsection \<open>Delivery\<close>

definition some_message :: "string \<Rightarrow> inbound_message" where
  "some_message content =
    \<lparr>im_Channel = ''irc'', im_SenderID = ''u'', im_Sender = no_sender, im_ChatID = ''c'',
     im_Content = content, im_Media = [], im_Peer = \<lparr>p_Kind = ''direct'', p_ID = ''u''\<rparr>,
     im_MessageID = [], im_MediaScope = [], im_SessionKey = ''irc:c'', im_Metadata = Map.empty\<rparr>"

text \<open>
  C8. In every reachable state of any interleaving of publishers, consumers, cancellations and
  closers, each queue holds at most 64 messages, and every accepted message has left in the
  order of acceptance or is still queued: nothing is duplicated, reordered or lost. As long as
  \<open>Close\<close> has not closed \<open>done\<close>, what left is exactly what consumers were given.
\<close>

theorem bus_delivery:
  assumes "bus_reach s"
  shows "length (buf (inbound (rn_bus s))) \<le> 64 \<and> length (buf (outbound (rn_bus s))) \<le> 64 \<and>
    in_accepted (rn_log s) = map snd (in_left (rn_log s)) @ buf (inbound (rn_bus s)) \<and>
    out_accepted (rn_log s) = map snd (out_left (rn_log s)) @ buf (outbound (rn_bus s)) \<and>
    delivered_in (rn_replies s) = map snd (filter fst (in_left (rn_log s))) \<and>
    delivered_out (rn_replies s) = map snd (filter fst (out_left (rn_log s))) \<and>
    (bus_done (rn_bus s) \<or>
      in_accepted (rn_log s) = delivered_in (rn_replies s) @ buf (inbound (rn_bus s)) \<and>
      out_accepted (rn_log s) = delivered_out (rn_replies s) @ buf (outbound (rn_bus s)))"
  using bus_reach_inv [OF assms]
  by (auto simp: run_inv_def bus_inv_def queue_inv_def chan_ok_def default_bus_buffer_size_def
      filter_True list_all_iff)

theorem bus_delivery_witness:
  "in_accepted (rn_log (the_run [Start 0 (PublishInbound (some_message ''a'') PubLoad),
      Step 0 OnQueue, Step 0 OnQueue, Step 0 OnQueue])) = [some_message ''a'']
   \<and> length (buf (inbound (rn_bus (the_run [Start 0 (PublishInbound (some_message ''a'') PubLoad),
      Step 0 OnQueue, Step 0 OnQueue, Step 0 OnQueue])))) \<le> 64"
  using bus_delivery [OF the_run_reach [of "[Start 0 (PublishInbound (some_message ''a'') PubLoad),
      Step 0 OnQueue, Step 0 OnQueue, Step 0 OnQueue]"]]
  by (auto simp: the_run_def bus_exec1_def init_run_def first_step_def call_step_def
      publish_inbound_step_def publish_step_def new_message_bus_def make_chan_def try_send_def
      chan_send_def default_bus_buffer_size_def)

subsection \<open>Closing\<close>

text \<open>A call on its own: it takes the case \<open>b\<close> in every \<open>select\<close> until it returns.\<close>

fun run_call ::
  "nat \<Rightarrow> message_bus \<Rightarrow> bus_log \<Rightarrow> bool \<Rightarrow> case_choice \<Rightarrow> call \<Rightarrow>
    (message_bus \<times> bus_log \<times> reply) option" where
  "run_call 0 mb lg cn b c = None"
| "run_call (Suc n) mb lg cn b c =
    (case call_step mb lg cn b c of
       None \<Rightarrow> None
     | Some (mb', lg', Running c') \<Rightarrow> run_call n mb' lg' cn b c'
     | Some (mb', lg', Returned r) \<Rightarrow> Some (mb', lg', r))"

definition refused :: "call \<Rightarrow> reply \<Rightarrow> bool" where
  "refused c r \<longleftrightarrow> (case c of
      PublishInbound _ _ \<Rightarrow> \<exists>e. r = PubReply (Some e)
    | PublishOutbound _ _ \<Rightarrow> \<exists>e. r = PubReply (Some e)
    | ConsumeInbound \<Rightarrow> r = InboundReply None
    | SubscribeOutbound \<Rightarrow> r = OutboundReply None
    | CloseBus _ \<Rightarrow> r = CloseReply)"

lemma run_drain_outbound:
  "length (buf (outbound mb)) < n \<Longrightarrow>
    \<exists>mb' lg'. run_call n mb lg cn b (CloseBus (DrainOutbound d)) = Some (mb', lg', CloseReply)"
proof (induction n arbitrary: mb lg d)
  case (Suc n)
  then show ?case
    by (cases "buf (outbound mb)")
      (auto simp: call_step_def close_step_def try_recv_def chan_recv_def split: if_splits)
qed simp

lemma run_drain_inbound:
  "length (buf (inbound mb)) + length (buf (outbound mb)) + 1 < n \<Longrightarrow>
    \<exists>mb' lg'. run_call n mb lg cn b (CloseBus (DrainInbound d)) = Some (mb', lg', CloseReply)"
proof (induction n arbitrary: mb lg d)
  case (Suc n)
  show ?case
  proof (cases "buf (inbound mb)")
    case Nil
    then show ?thesis
      using Suc.prems run_drain_outbound [of mb n lg cn b d]
      by (auto simp: call_step_def close_step_def try_recv_def chan_recv_def split: if_splits)
  next
    case (Cons m ms)
    then show ?thesis
      using Suc by (auto simp: call_step_def close_step_def try_recv_def chan_recv_def)
  qed
qed simp

lemma run_publish_done:
  assumes "bus_done mb" and "n \<ge> 3"
  shows "\<exists>e. run_call n mb lg cn OnDone (PublishInbound m pc) = Some (mb, lg, PubReply (Some e))"
    and "\<exists>e. run_call n mb lg cn OnDone (PublishOutbound m' pc) = Some (mb, lg, PubReply (Some e))"
proof -
  from assms(2) obtain k where n: "n = Suc (Suc (Suc k))"
    by (metis Suc_le_D numeral_3_eq_3 Suc_le_mono)
  from assms(1) show "\<exists>e. run_call n mb lg cn OnDone (PublishInbound m pc) =
      Some (mb, lg, PubReply (Some e))"
    by (cases pc) (auto simp: n call_step_def publish_inbound_step_def publish_step_def)
  from assms(1) show "\<exists>e. run_call n mb lg cn OnDone (PublishOutbound m' pc) =
      Some (mb, lg, PubReply (Some e))"
    by (cases pc) (auto simp: n call_step_def publish_outbound_step_def publish_step_def)
qed

lemma run_receive_done:
  assumes "bus_done mb" and "n > 0"
  shows "run_call n mb lg cn OnDone ConsumeInbound = Some (mb, lg, InboundReply None)"
    and "run_call n mb lg cn OnDone SubscribeOutbound = Some (mb, lg, OutboundReply None)"
  using assms
  by (cases n; simp add: call_step_def consume_inbound_step_def subscribe_outbound_step_def
      receive_step_def)+

lemma run_close:
  "length (buf (inbound mb)) + length (buf (outbound mb)) + 3 < n \<Longrightarrow>
    \<exists>mb' lg'. run_call n mb lg cn b (CloseBus pc) = Some (mb', lg', CloseReply)"
proof (cases pc)
  case CloseSwap
  assume len: "length (buf (inbound mb)) + length (buf (outbound mb)) + 3 < n"
  then obtain k where n: "n = Suc (Suc k)" and k: "length (buf (inbound mb)) + length (buf (outbound mb)) + 1 < k"
    by (cases n; cases "n - 1") auto
  show ?thesis
    using run_drain_inbound [of "mb\<lparr>closed := True, bus_done := True\<rparr>" k lg cn b 0] k
    by (auto simp: CloseSwap n call_step_def close_step_def)
next
  case CloseDone
  assume len: "length (buf (inbound mb)) + length (buf (outbound mb)) + 3 < n"
  then obtain k where n: "n = Suc k" and k: "length (buf (inbound mb)) + length (buf (outbound mb)) + 1 < k"
    by (cases n) auto
  show ?thesis
    using run_drain_inbound [of "mb\<lparr>bus_done := True\<rparr>" k lg cn b 0] k
    by (auto simp: CloseDone n call_step_def close_step_def)
qed (simp_all add: run_drain_inbound run_drain_outbound)



text \<open>
  A publisher that read the closed flag before \<open>Close\<close> can still choose the queue
  afterwards: in a reachable state \<open>Close\<close> has returned, the publisher was told that its message
  was accepted, and the message stays in the queue that \<open>Close\<close> has already drained.
\<close>

theorem publish_after_close:
  "\<exists>s m. bus_reach s \<and> rn_calls s = Map.empty \<and> rn_replies s = [(1, CloseReply), (0, PubReply None)] \<and>
    buf (inbound (rn_bus s)) = [m] \<and> bus_done (rn_bus s)"
proof -
  let ?s = "the_run [Start 0 (PublishInbound (some_message ''a'') PubLoad), Step 0 OnQueue,
    Step 0 OnQueue, Start 1 (CloseBus CloseSwap), Step 1 OnQueue, Step 1 OnQueue, Step 1 OnQueue,
    Step 1 OnQueue, Step 0 OnQueue]"
  have "rn_calls ?s = Map.empty \<and> rn_replies ?s = [(1, CloseReply), (0, PubReply None)] \<and>
    buf (inbound (rn_bus ?s)) = [some_message ''a''] \<and> bus_done (rn_bus ?s)"
    by (simp add: the_run_def bus_exec1_def init_run_def first_step_def call_step_def
        publish_inbound_step_def publish_step_def new_message_bus_def make_chan_def try_send_def
        chan_send_def default_bus_buffer_size_def close_step_def try_recv_def chan_recv_def)
  then show ?thesis
    using the_run_reach by blast
qed

end
