(* ===== verification/Go_Numbers.thy ===== *)
theory Go_Numbers
  imports Go_Strings
begin

text \<open>
  Numbers as text: \<open>strconv.FormatUint(n, 16)\<close>, decimal integers as \<open>%d\<close> and \<open>encoding/json\<close>
  print them, and reading them back.
\<close>

subsection \<open>Hexadecimal\<close>

definition hex_digit :: "nat \<Rightarrow> char" where
  "hex_digit d = ''0123456789abcdef'' ! d"

text \<open>\<open>strconv.FormatUint(n, 16)\<close>\<close>

fun format_hex :: "nat \<Rightarrow> string" where
  "format_hex n = (if n < 16 then [hex_digit n] else format_hex (n div 16) @ [hex_digit (n mod 16)])"

declare format_hex.simps [simp del]

fun hex_value :: "string \<Rightarrow> nat" where
  "hex_value [] = 0"
| "hex_value (c # cs) =
    (if is_digit c then of_char c - 48 else of_char c - 87) * 16 ^ length cs + hex_value cs"

lemma hex_value_append: "hex_value (xs @ ys) = hex_value xs * 16 ^ length ys + hex_value ys"
  by (induction xs) (simp_all add: algebra_simps power_add)

lemma less_16_cases:
  "(d::nat) < 16 \<Longrightarrow> d = 0 \<or> d = 1 \<or> d = 2 \<or> d = 3 \<or> d = 4 \<or> d = 5 \<or> d = 6 \<or> d = 7 \<or> d = 8 \<or>
    d = 9 \<or> d = 10 \<or> d = 11 \<or> d = 12 \<or> d = 13 \<or> d = 14 \<or> d = 15"
  by arith

lemma hex_value_digit: "d < 16 \<Longrightarrow> hex_value [hex_digit d] = d"
  by (drule less_16_cases) (auto simp: hex_digit_def is_digit_def)

lemma hex_digit_not_colon: "d < 16 \<Longrightarrow> hex_digit d \<noteq> CHR '':''"
  by (drule less_16_cases) (auto simp: hex_digit_def)

lemma hex_value_format: "hex_value (format_hex n) = n"
proof (induction n rule: format_hex.induct)
  case (1 n)
  show ?case
  proof (cases "n < 16")
    case True
    then show ?thesis by (simp add: format_hex.simps [of n] hex_value_digit del: hex_value.simps)
  next
    case False
    with 1 show ?thesis
      by (simp add: format_hex.simps [of n] hex_value_append hex_value_digit del: hex_value.simps)
  qed
qed

lemma format_hex_inject: "format_hex m = format_hex n \<longleftrightarrow> m = n"
  by (metis hex_value_format)

lemma format_hex_no_colon: "CHR '':'' \<notin> set (format_hex n)"
proof (induction n rule: format_hex.induct)
  case (1 n)
  then show ?case
    using hex_digit_not_colon [of n] hex_digit_not_colon [of "n mod 16"]
    by (auto simp: format_hex.simps [of n])
qed

subsection \<open>Decimal\<close>

definition digit :: "nat \<Rightarrow> char" where
  "digit d = char_of (48 + d)"

fun format_nat :: "nat \<Rightarrow> string" where
  "format_nat n = (if n < 10 then [digit n] else format_nat (n div 10) @ [digit (n mod 10)])"

declare format_nat.simps [simp del]

definition format_int :: "int \<Rightarrow> string" where
  "format_int i = (if i < 0 then CHR ''-'' # format_nat (nat (- i)) else format_nat (nat i))"

definition decimal_value :: "string \<Rightarrow> nat" where
  "decimal_value s = foldl (\<lambda>a c. a * 10 + (of_char c - 48)) 0 s"

lemma of_char_digit: "d < 10 \<Longrightarrow> of_char (digit d) = 48 + d"
  by (simp add: digit_def)

lemma is_digit_digit: "d < 10 \<Longrightarrow> is_digit (digit d)"
  by (simp add: is_digit_def of_char_digit)

lemma format_nat_digits: "list_all is_digit (format_nat n)"
proof (induction n rule: format_nat.induct)
  case (1 n)
  then show ?case
    by (cases "n < 10") (simp_all add: format_nat.simps [of n] is_digit_digit)
qed

lemma format_nat_nonempty: "format_nat n \<noteq> []"
  by (simp add: format_nat.simps [of n])

lemma decimal_value_format: "decimal_value (format_nat n) = n"
proof (induction n rule: format_nat.induct)
  case (1 n)
  then show ?case
    by (cases "n < 10") (simp_all add: format_nat.simps [of n] decimal_value_def of_char_digit)
qed

lemma format_nat_inject: "format_nat m = format_nat n \<longleftrightarrow> m = n"
  by (metis decimal_value_format)

lemma takeWhile_digits:
  "list_all is_digit ds \<Longrightarrow> (rest = [] \<or> \<not> is_digit (hd rest)) \<Longrightarrow>
    takeWhile is_digit (ds @ rest) = ds \<and> dropWhile is_digit (ds @ rest) = rest"
  by (cases rest) (auto simp: list_all_iff takeWhile_append dropWhile_append)

end
