(* ===== verification/Base_Channel.thy ===== *)
theory Base_Channel
  imports Identity Go_Numbers
begin

text \<open>
  \<open>pkg/channels/base.go\<close>, \<open>errors.go\<close>, \<open>errutil.go\<close> and \<open>registry.go\<close>: what every channel
  adapter inherits. The allow-list checks, the group trigger, process-unique media scopes,
  the inbound path \<open>HandleMessage\<close> as the list of its effects in order, the classification of
  send errors and the table of channel factories.
\<close>

subsection \<open>Send errors\<close>

datatype sentinel = ErrNotRunning | ErrRateLimit | ErrTemporary | ErrSendFailed

text \<open>An error of a send: a sentinel, one wrapped around a text by \<open>%w\<close>, or any other error.\<close>

datatype send_error =
    Sentinel sentinel
  | Wrapped sentinel string
  | OtherError string

fun sentinel_text :: "sentinel \<Rightarrow> string" where
  "sentinel_text ErrNotRunning = ''channel not running''"
| "sentinel_text ErrRateLimit = ''rate limited''"
| "sentinel_text ErrTemporary = ''temporary failure''"
| "sentinel_text ErrSendFailed = ''send failed''"

fun error_text :: "send_error \<Rightarrow> string" where
  "error_text (Sentinel s) = sentinel_text s"
| "error_text (Wrapped s t) = sentinel_text s @ '': '' @ t"
| "error_text (OtherError t) = t"

text \<open>\<open>errors.Is\<close> against a sentinel\<close>

definition is_err :: "send_error \<Rightarrow> sentinel \<Rightarrow> bool" where
  "is_err e s \<longleftrightarrow> (case e of Sentinel s' \<Rightarrow> s' = s | Wrapped s' _ \<Rightarrow> s' = s | OtherError _ \<Rightarrow> False)"

definition classify_send_error :: "int \<Rightarrow> send_error \<Rightarrow> send_error" where
  "classify_send_error statusCode rawErr =
    (if statusCode = 429 then Wrapped ErrRateLimit (error_text rawErr)
     else if statusCode \<ge> 500 then Wrapped ErrTemporary (error_text rawErr)
     else if statusCode \<ge> 400 then Wrapped ErrSendFailed (error_text rawErr)
     else rawErr)"

definition classify_net_error :: "send_error option \<Rightarrow> send_error option" where
  "classify_net_error err =
    (case err of None \<Rightarrow> None | Some e \<Rightarrow> Some (Wrapped ErrTemporary (error_text e)))"

subsection \<open>Process-unique identifiers and media scopes\<close>

text \<open>The atomic counter is a 64-bit word; the identifier uses its new value.\<close>

definition unique_id :: "string \<Rightarrow> 64 word \<Rightarrow> string \<times> 64 word" where
  "unique_id prefix counter = (let n = counter + 1 in (prefix @ format_hex (unat n), n))"

definition build_media_scope ::
  "string \<Rightarrow> 64 word \<Rightarrow> string \<Rightarrow> string \<Rightarrow> string \<Rightarrow> string \<times> 64 word" where
  "build_media_scope prefix counter channel chatID messageID =
    (let (i, counter') =
       (if messageID = [] then unique_id prefix counter else (messageID, counter))
     in (channel @ '':'' @ chatID @ '':'' @ i, counter'))"

subsection \<open>The base channel\<close>

record group_trigger =
  MentionOnly :: bool
  Prefixes :: "string list"

text \<open>
  What the concrete channel offers: whether it can show a typing indicator or add a reaction,
  and whether such a call succeeds.
\<close>

record channel_owner =
  own_typing :: "(string \<Rightarrow> bool) option"
  own_reaction :: "(string \<Rightarrow> string \<Rightarrow> bool) option"

record base_channel =
  bc_running :: bool
  bc_name :: string
  bc_allowList :: "string list"
  bc_maxMessageLength :: int
  bc_groupTrigger :: group_trigger
  bc_mediaStore :: bool
  bc_stateRecorder :: bool
  bc_owner :: "channel_owner option"
  bc_reasoningChannelID :: string

definition new_base_channel ::
  "string \<Rightarrow> string list \<Rightarrow> (base_channel \<Rightarrow> base_channel) list \<Rightarrow> base_channel" where
  "new_base_channel name allowList opts =
    fold (\<lambda>opt bc. opt bc) opts
      \<lparr>bc_running = False, bc_name = name, bc_allowList = allowList, bc_maxMessageLength = 0,
       bc_groupTrigger = \<lparr>MentionOnly = False, Prefixes = []\<rparr>, bc_mediaStore = False,
       bc_stateRecorder = False, bc_owner = None, bc_reasoningChannelID = []\<rparr>"

definition with_max_message_length :: "int \<Rightarrow> base_channel \<Rightarrow> base_channel" where
  "with_max_message_length n bc = bc\<lparr>bc_maxMessageLength := n\<rparr>"

definition with_group_trigger :: "group_trigger \<Rightarrow> base_channel \<Rightarrow> base_channel" where
  "with_group_trigger gt bc = bc\<lparr>bc_groupTrigger := gt\<rparr>"

definition with_reasoning_channel_id :: "string \<Rightarrow> base_channel \<Rightarrow> base_channel" where
  "with_reasoning_channel_id i bc = bc\<lparr>bc_reasoningChannelID := i\<rparr>"

definition set_running :: "bool \<Rightarrow> base_channel \<Rightarrow> base_channel" where
  "set_running r bc = bc\<lparr>bc_running := r\<rparr>"

definition should_respond_in_group ::
  "base_channel \<Rightarrow> bool \<Rightarrow> string \<Rightarrow> bool \<times> string" where
  "should_respond_in_group c isMentioned content =
    (let gt = bc_groupTrigger c in
     if isMentioned then (True, trim_space content)
     else if MentionOnly gt then (False, content)
     else if Prefixes gt \<noteq> [] then
       (case List.find (\<lambda>p. p \<noteq> [] \<and> has_prefix p content) (Prefixes gt) of
          Some p \<Rightarrow> (True, trim_space (trim_prefix p content))
        | None \<Rightarrow> (False, content))
     else (True, trim_space content))"

definition entry_allows :: "string \<Rightarrow> string \<Rightarrow> bool" where
  "entry_allows senderID allowed =
    (let (idPart, userPart) = split_compound senderID;
         trimmed = trim_prefix ''@'' allowed;
         (allowedID, allowedUser) = split_compound trimmed
     in senderID = allowed \<or> idPart = allowed \<or> senderID = trimmed \<or> idPart = trimmed \<or>
        idPart = allowedID \<or> (allowedUser \<noteq> [] \<and> senderID = allowedUser) \<or>
        (userPart \<noteq> [] \<and> (userPart = allowed \<or> userPart = trimmed \<or> userPart = allowedUser)))"

definition is_allowed :: "base_channel \<Rightarrow> string \<Rightarrow> bool" where
  "is_allowed c senderID \<longleftrightarrow>
    bc_allowList c = [] \<or> list_ex (entry_allows senderID) (bc_allowList c)"

definition is_allowed_sender :: "unicode \<Rightarrow> base_channel \<Rightarrow> sender_info \<Rightarrow> bool" where
  "is_allowed_sender U c sender \<longleftrightarrow>
    bc_allowList c = [] \<or> list_ex (match_allowed U sender) (bc_allowList c)"

text \<open>A sender with a structured identity is checked as such, any other by its raw identifier.\<close>

definition sender_permitted :: "unicode \<Rightarrow> base_channel \<Rightarrow> sender_info \<Rightarrow> string \<Rightarrow> bool" where
  "sender_permitted U c sender senderID \<longleftrightarrow>
    (if CanonicalID sender \<noteq> [] \<or> PlatformID sender \<noteq> [] then is_allowed_sender U c sender
     else is_allowed c senderID)"

datatype channel_effect =
    StartTyping string
  | RecordTypingStop string string
  | ReactToMessage string string
  | RecordReactionUndo string string
  | PublishInboundMessage inbound_message

definition typing_effects :: "base_channel \<Rightarrow> string \<Rightarrow> channel_effect list" where
  "typing_effects c chatID =
    (case bc_owner c of
       Some ow \<Rightarrow> if bc_stateRecorder c then
           (case own_typing ow of
              Some ok \<Rightarrow> StartTyping chatID # (if ok chatID then [RecordTypingStop (bc_name c) chatID] else [])
            | None \<Rightarrow> [])
         else []
     | None \<Rightarrow> [])"

definition reaction_effects :: "base_channel \<Rightarrow> string \<Rightarrow> string \<Rightarrow> channel_effect list" where
  "reaction_effects c chatID messageID =
    (case bc_owner c of
       Some ow \<Rightarrow> if bc_stateRecorder c then
           (case own_reaction ow of
              Some ok \<Rightarrow>
                if messageID \<noteq> [] then
                  ReactToMessage chatID messageID #
                    (if ok chatID messageID then [RecordReactionUndo (bc_name c) chatID] else [])
                else []
            | None \<Rightarrow> [])
         else []
     | None \<Rightarrow> [])"

text \<open>
  \<open>HandleMessage\<close>: its effects in order and the new value of the identifier counter. A caller
  passes no sender or one; the zero sender has only empty fields.
\<close>

definition handle_message ::
  "unicode \<Rightarrow> string \<Rightarrow> 64 word \<Rightarrow> base_channel \<Rightarrow> peer \<Rightarrow> string \<Rightarrow> string \<Rightarrow> string \<Rightarrow> string \<Rightarrow>
    string list \<Rightarrow> (string \<rightharpoonup> string) \<Rightarrow> sender_info list \<Rightarrow> channel_effect list \<times> 64 word" where
  "handle_message U prefix counter c peer messageID senderID chatID content media metadata senderOpts =
    (let sender = (case senderOpts of [] \<Rightarrow> no_sender | s # _ \<Rightarrow> s)
     in if \<not> sender_permitted U c sender senderID then ([], counter)
     else let resolved = (if CanonicalID sender \<noteq> [] then CanonicalID sender else senderID);
              (scope, counter') = build_media_scope prefix counter (bc_name c) chatID messageID;
              msg = \<lparr>im_Channel = bc_name c, im_SenderID = resolved, im_Sender = sender,
                     im_ChatID = chatID, im_Content = content, im_Media = media, im_Peer = peer,
                     im_MessageID = messageID, im_MediaScope = scope,
                     im_SessionKey = bc_name c @ '':'' @ chatID, im_Metadata = metadata\<rparr>
     in (typing_effects c chatID @ reaction_effects c chatID messageID @ [PublishInboundMessage msg],
         counter'))"

subsection \<open>Channel factories\<close>

definition register_factory :: "(string \<rightharpoonup> 'f) \<Rightarrow> string \<Rightarrow> 'f \<Rightarrow> (string \<rightharpoonup> 'f)" where
  "register_factory factories name f = factories(name \<mapsto> f)"

definition get_factory :: "(string \<rightharpoonup> 'f) \<Rightarrow> string \<Rightarrow> 'f option" where
  "get_factory factories name = factories name"

subsection \<open>Which errors are retried\<close>

lemma is_err_simps [simp]:
  "is_err (Sentinel s) t \<longleftrightarrow> s = t"
  "is_err (Wrapped s x) t \<longleftrightarrow> s = t"
  "\<not> is_err (OtherError x) t"
  by (simp_all add: is_err_def)

lemma classify_net_error_temporary:
  "classify_net_error (Some e) = Some e' \<Longrightarrow> is_err e' s \<longleftrightarrow> s = ErrTemporary"
  by (auto simp: classify_net_error_def)

subsection \<open>Group triggers\<close>

text \<open>
  In a group the bot answers exactly when it is mentioned, or mentions are not required
  and either no prefix is configured or a non-empty configured prefix starts the message; a
  message it does not answer keeps its content, one it answers loses surrounding white space.
\<close>

theorem should_respond_in_group_iff:
  "fst (should_respond_in_group c isMentioned content) =
      (isMentioned \<or> \<not> MentionOnly (bc_groupTrigger c) \<and>
        (Prefixes (bc_groupTrigger c) = [] \<or>
         list_ex (\<lambda>p. p \<noteq> [] \<and> has_prefix p content) (Prefixes (bc_groupTrigger c)))) \<and>
   (if fst (should_respond_in_group c isMentioned content)
    then trimmed (snd (should_respond_in_group c isMentioned content))
    else snd (should_respond_in_group c isMentioned content) = content)"
  by (auto simp: should_respond_in_group_def Let_def list_ex_iff find_None_iff
      dest: find_Some_set split: option.splits)

subsection \<open>Media scopes\<close>

lemma last_colon_eq:
  "CHR '':'' \<notin> set a \<Longrightarrow> CHR '':'' \<notin> set b \<Longrightarrow>
    s @ CHR '':'' # a = t @ CHR '':'' # b \<Longrightarrow> a = b"
  using colon_append_eq [of "rev a" "rev b" "rev s" "rev t"]
  by (metis append_assoc append_Cons append_Nil rev.simps(2) rev_append rev_rev_ident set_rev)

text \<open>
  Two messages without a message identifier never share a media scope, whatever their
  channels and chats, as long as the process has counted them differently: releasing the media
  of one cannot release those of the other.
\<close>

theorem build_media_scope_unique:
  assumes "CHR '':'' \<notin> set prefix" and "counter \<noteq> counter'"
  shows "fst (build_media_scope prefix counter channel chat []) \<noteq>
    fst (build_media_scope prefix counter' channel' chat' [])"
proof
  let ?i = "prefix @ format_hex (unat (counter + 1))"
  let ?j = "prefix @ format_hex (unat (counter' + 1))"
  assume "fst (build_media_scope prefix counter channel chat []) =
    fst (build_media_scope prefix counter' channel' chat' [])"
  then have "(channel @ '':'' @ chat) @ CHR '':'' # ?i = (channel' @ '':'' @ chat') @ CHR '':'' # ?j"
    by (simp add: build_media_scope_def unique_id_def Let_def)
  then have "?i = ?j"
    by (rule last_colon_eq [rotated 2]) (use assms(1) format_hex_no_colon in auto)
  then have "unat (counter + 1) = unat (counter' + 1)"
    by (simp add: format_hex_inject)
  then have "counter = counter'"
    by (metis add_right_cancel word_unat_eq_iff)
  with assms(2) show False by simp
qed

theorem build_media_scope_unique_witness:
  "fst (build_media_scope ''ab01'' 0 ''irc'' ''c'' []) \<noteq>
    fst (build_media_scope ''ab01'' 1 ''irc'' ''c'' [])"
  by (rule build_media_scope_unique) simp_all

subsection \<open>The inbound path\<close>

lemma effects_publish:
  "list_all (\<lambda>x. case x of PublishInboundMessage _ \<Rightarrow> False | _ \<Rightarrow> True) (typing_effects c chat)"
  "list_all (\<lambda>x. case x of PublishInboundMessage _ \<Rightarrow> False | _ \<Rightarrow> True) (reaction_effects c chat mid)"
  by (simp_all add: typing_effects_def reaction_effects_def split: option.split)

lemma list_ex_published:
  "list_ex (\<lambda>e. case e of PublishInboundMessage im \<Rightarrow> P im | _ \<Rightarrow> False) es \<longleftrightarrow>
    (\<exists>im. PublishInboundMessage im \<in> set es \<and> P im)"
proof (induction es)
  case (Cons e es)
  then show ?case by (cases e) auto
qed simp

lemma handle_message_published:
  assumes "handle_message U prefix n c peer mid sid chat content media md [sender] = (effs, n')"
  shows "if sender_permitted U c sender sid
    then \<exists>msg pre. effs = pre @ [PublishInboundMessage msg] \<and>
        list_all (\<lambda>x. case x of PublishInboundMessage _ \<Rightarrow> False | _ \<Rightarrow> True) pre \<and>
        im_SessionKey msg = bc_name c @ '':'' @ chat \<and> im_Channel msg = bc_name c \<and>
        im_ChatID msg = chat \<and> im_Content msg = content \<and> im_Sender msg = sender \<and>
        im_SenderID msg = (if CanonicalID sender \<noteq> [] then CanonicalID sender else sid)
    else effs = [] \<and> n' = n"
proof (cases "sender_permitted U c sender sid")
  case True
  let ?pre = "typing_effects c chat @ reaction_effects c chat mid"
  have "list_all (\<lambda>x. case x of PublishInboundMessage _ \<Rightarrow> False | _ \<Rightarrow> True) ?pre"
    by (simp add: effects_publish)
  moreover obtain msg where "effs = ?pre @ [PublishInboundMessage msg]"
      "im_SessionKey msg = bc_name c @ '':'' @ chat" "im_Channel msg = bc_name c"
      "im_ChatID msg = chat" "im_Content msg = content" "im_Sender msg = sender"
      "im_SenderID msg = (if CanonicalID sender \<noteq> [] then CanonicalID sender else sid)"
    using True assms by (auto simp: handle_message_def Let_def split: prod.splits)
  ultimately show ?thesis
    using True by (simp only: if_True) (intro exI [of _ msg] exI [of _ ?pre], simp)
qed (use assms in \<open>auto simp: handle_message_def Let_def\<close>)

lemma handle_message_media:
  assumes "handle_message U prefix n c peer mid sid chat content media md opts = (effs, n')"
    and "PublishInboundMessage im \<in> set effs"
  shows "im_Media im = media \<and> im_MediaScope im = fst (build_media_scope prefix n (bc_name c) chat mid)"
proof -
  have "PublishInboundMessage im \<notin> set (typing_effects c chat @ reaction_effects c chat mid)"
    using effects_publish [of c chat] by (fastforce simp: list_all_iff)
  with assms show ?thesis
    by (auto simp: handle_message_def Let_def split: if_splits prod.splits)
qed

text \<open>
  C9. A channel with an allow-list does nothing at all for a sender it does not admit, neither
  typing nor publishing; for an admitted one it publishes exactly one message, last, under the
  session key \<open>channel:chat\<close> and with the canonical identity when there is one. A sender with a
  structured identity is admitted by an entry it matches, any other by the legacy comparison.
\<close>

theorem handle_message_gate:
  assumes "bc_allowList c \<noteq> []"
    and "handle_message U prefix n c peer mid sid chat content media md [sender] = (effs, n')"
  shows "(effs = [] \<and> n' = n \<longleftrightarrow>
      \<not> list_ex (\<lambda>e. if CanonicalID sender \<noteq> [] \<or> PlatformID sender \<noteq> [] then match_allowed U sender e
                    else entry_allows sid e) (bc_allowList c)) \<and>
    (effs = [] \<or>
      (\<exists>msg pre. effs = pre @ [PublishInboundMessage msg] \<and>
        list_all (\<lambda>x. case x of PublishInboundMessage _ \<Rightarrow> False | _ \<Rightarrow> True) pre \<and>
        im_SessionKey msg = bc_name c @ '':'' @ chat \<and> im_Channel msg = bc_name c \<and>
        im_ChatID msg = chat \<and> im_Content msg = content \<and> im_Sender msg = sender \<and>
        im_SenderID msg = (if CanonicalID sender \<noteq> [] then CanonicalID sender else sid)))"
proof -
  have P: "sender_permitted U c sender sid = list_ex (\<lambda>e. if CanonicalID sender \<noteq> [] \<or> PlatformID sender \<noteq> []
      then match_allowed U sender e else entry_allows sid e) (bc_allowList c)"
    using assms(1) by (simp add: sender_permitted_def is_allowed_sender_def is_allowed_def)
  from handle_message_published [OF assms(2)] show ?thesis
    unfolding P [symmetric] by (auto split: if_splits)
qed

definition sample_channel :: base_channel where
  "sample_channel = (new_base_channel ''irc'' [''irc:bob''] [])\<lparr>bc_owner :=
    Some \<lparr>own_typing = Some (\<lambda>_. True), own_reaction = None\<rparr>, bc_stateRecorder := True\<rparr>"

theorem handle_message_gate_witness:
  "handle_message ascii_only ''p'' 0 sample_channel \<lparr>p_Kind = ''direct'', p_ID = ''eve''\<rparr> [] ''eve''
     ''eve'' ''hi'' [] Map.empty
     [no_sender\<lparr>Platform := ''irc'', PlatformID := ''eve'', CanonicalID := ''irc:eve''\<rparr>] = ([], 0)"
proof -
  let ?eve = "no_sender\<lparr>Platform := ''irc'', PlatformID := ''eve'', CanonicalID := ''irc:eve''\<rparr>"
  obtain effs n where r: "handle_message ascii_only ''p'' 0 sample_channel
      \<lparr>p_Kind = ''direct'', p_ID = ''eve''\<rparr> [] ''eve'' ''eve'' ''hi'' [] Map.empty [?eve] = (effs, n)"
    by (metis surj_pair)
  have "bc_allowList sample_channel \<noteq> []" by code_simp
  moreover have "\<not> list_ex (\<lambda>e. if CanonicalID ?eve \<noteq> [] \<or> PlatformID ?eve \<noteq> []
      then match_allowed ascii_only ?eve e else entry_allows ''eve'' e) (bc_allowList sample_channel)"
    by code_simp
  ultimately show ?thesis
    using handle_message_gate [OF _ r] r by simp
qed

subsection \<open>What an adapter may publish\<close>

text \<open>
  The well-formed messages of a platform: they carry the name of their channel and the session key made
  from it, a sender of the platform with his canonical identifier, whom the channel admits, and a peer
  that is a group, a channel, or a direct chat named by the sender or the chat.
\<close>

definition peer_ok :: "sender_info \<Rightarrow> string \<Rightarrow> peer \<Rightarrow> bool" where
  "peer_ok sender chat p \<longleftrightarrow> p_Kind p \<in> {''direct'', ''group'', ''channel''} \<and>
    (p_Kind p = ''direct'' \<longrightarrow> p_ID p = PlatformID sender \<or> p_ID p = chat)"

definition inbound_wf :: "unicode \<Rightarrow> string \<Rightarrow> base_channel \<Rightarrow> inbound_message \<Rightarrow> bool" where
  "inbound_wf U platform bc im \<longleftrightarrow>
    im_Channel im = bc_name bc \<and> im_SessionKey im = bc_name bc @ '':'' @ im_ChatID im \<and>
    Platform (im_Sender im) = platform \<and>
    CanonicalID (im_Sender im) = build_canonical_id U platform (PlatformID (im_Sender im)) \<and>
    im_SenderID im =
      (if CanonicalID (im_Sender im) \<noteq> [] then CanonicalID (im_Sender im) else PlatformID (im_Sender im)) \<and>
    is_allowed_sender U bc (im_Sender im) \<and> peer_ok (im_Sender im) (im_ChatID im) (im_Peer im)"

text \<open>Effects of \<open>HandleMessage\<close> for a sender of the platform whom the adapter identified and checked.\<close>

definition passed_on :: "unicode \<Rightarrow> string \<Rightarrow> base_channel \<Rightarrow> channel_effect list \<Rightarrow> bool" where
  "passed_on U platform bc effs \<longleftrightarrow>
    (\<exists>prefix n peer mid chat content media md sender n'.
      handle_message U prefix n bc peer mid (PlatformID sender) chat content media md [sender] = (effs, n') \<and>
      is_allowed_sender U bc sender \<and> Platform sender = platform \<and>
      CanonicalID sender = build_canonical_id U platform (PlatformID sender) \<and> peer_ok sender chat peer)"

lemma passed_onI:
  assumes "handle_message U prefix n bc peer mid sid chat content media md [sender] = (effs, n')"
    and "is_allowed_sender U bc sender" "sid = PlatformID sender" "Platform sender = platform"
    and "CanonicalID sender = build_canonical_id U platform (PlatformID sender)" "peer_ok sender chat peer"
  shows "passed_on U platform bc effs"
  using assms unfolding passed_on_def by blast

text \<open>The contract between an adapter and the base channel: whatever the handler of an event does is passed on.\<close>

locale inbound_adapter =
  fixes U :: unicode and platform :: string and base :: "'c \<Rightarrow> base_channel"
    and handle :: "'e \<Rightarrow> 'c \<Rightarrow> channel_effect list"
  assumes passes_on: "handle x c \<noteq> [] \<Longrightarrow> passed_on U platform (base c) (handle x c)"
begin

lemma publishes_one:
  assumes "handle x c \<noteq> []"
  shows "\<exists>pre im. handle x c = pre @ [PublishInboundMessage im] \<and>
    list_all (\<lambda>e. case e of PublishInboundMessage _ \<Rightarrow> False | _ \<Rightarrow> True) pre \<and> inbound_wf U platform (base c) im"
proof -
  from passes_on [OF assms] obtain prefix n peer mid chat content media md sender n' where
    run: "handle_message U prefix n (base c) peer mid (PlatformID sender) chat content media md [sender] = (handle x c, n')"
    and sender: "is_allowed_sender U (base c) sender" "Platform sender = platform"
      "CanonicalID sender = build_canonical_id U platform (PlatformID sender)" "peer_ok sender chat peer"
    unfolding passed_on_def by blast
  have "sender_permitted U (base c) sender (PlatformID sender)"
    using run assms by (auto simp: handle_message_def Let_def split: if_splits prod.splits)
  moreover define im where "im = \<lparr>im_Channel = bc_name (base c),
      im_SenderID = (if CanonicalID sender \<noteq> [] then CanonicalID sender else PlatformID sender), im_Sender = sender,
      im_ChatID = chat, im_Content = content, im_Media = media, im_Peer = peer, im_MessageID = mid,
      im_MediaScope = fst (build_media_scope prefix n (bc_name (base c)) chat mid),
      im_SessionKey = bc_name (base c) @ '':'' @ chat, im_Metadata = md\<rparr>"
  ultimately have "handle x c = (typing_effects (base c) chat @ reaction_effects (base c) chat mid) @ [PublishInboundMessage im]"
    using run by (auto simp: handle_message_def Let_def split: prod.splits)
  moreover have "inbound_wf U platform (base c) im"
    using sender by (simp add: im_def inbound_wf_def)
  ultimately have "\<exists>im. handle x c = (typing_effects (base c) chat @ reaction_effects (base c) chat mid) @ [PublishInboundMessage im] \<and>
      inbound_wf U platform (base c) im" by blast
  moreover have "list_all (\<lambda>e. case e of PublishInboundMessage _ \<Rightarrow> False | _ \<Rightarrow> True)
      (typing_effects (base c) chat @ reaction_effects (base c) chat mid)"
    by (simp add: effects_publish)
  ultimately show ?thesis by blast
qed

lemma published_well_formed:
  assumes "PublishInboundMessage im \<in> set (handle x c)"
  shows "inbound_wf U platform (base c) im"
proof -
  from assms have "handle x c \<noteq> []" by auto
  from publishes_one [OF this] assms show ?thesis by (fastforce simp: list_all_iff)
qed

end

text \<open>A channel without a colon in its name shares no session with another one.\<close>

lemma session_key_inject:
  assumes "inbound_wf U platform bc im" "inbound_wf U' platform' bc' im'"
    and "CHR '':'' \<notin> set (bc_name bc)" "CHR '':'' \<notin> set (bc_name bc')"
  shows "im_SessionKey im = im_SessionKey im' \<longleftrightarrow> im_Channel im = im_Channel im' \<and> im_ChatID im = im_ChatID im'"
  using assms colon_append_eq [of "bc_name bc" "bc_name bc'" "im_ChatID im" "im_ChatID im'"]
  by (auto simp: inbound_wf_def)

end
