(* ===== verification/Go_Runes.thy ===== *)
theory Go_Runes
  imports Go_Strings
begin

text \<open>
  Conversions between byte strings and runes: Go's \<open>[]rune(s)\<close> (every byte that does not start
  a well-formed UTF-8 sequence becomes U+FFFD, width one) and \<open>string(runes)\<close>.
\<close>

type_synonym rune = nat

definition byte_at :: "string \<Rightarrow> nat \<Rightarrow> nat" where
  "byte_at s i = (if i < length s then of_char (s ! i) else 0)"

definition cont_byte :: "nat \<Rightarrow> bool" where
  "cont_byte b \<longleftrightarrow> 128 \<le> b \<and> b \<le> 191"

text \<open>\<open>utf8.DecodeRuneInString\<close> on a non-empty string: the rune and its width.\<close>

definition decode_rune :: "string \<Rightarrow> rune \<times> nat" where
  "decode_rune s =
    (let b0 = byte_at s 0; b1 = byte_at s 1; b2 = byte_at s 2; b3 = byte_at s 3
     in if b0 < 128 then (b0, 1)
     else if 0xC2 \<le> b0 \<and> b0 \<le> 0xDF \<and> cont_byte b1 then ((b0 - 0xC0) * 64 + (b1 - 128), 2)
     else if 0xE0 \<le> b0 \<and> b0 \<le> 0xEF \<and> cont_byte b1 \<and> cont_byte b2 \<and>
             (b0 = 0xE0 \<longrightarrow> 0xA0 \<le> b1) \<and> (b0 = 0xED \<longrightarrow> b1 \<le> 0x9F)
       then ((b0 - 0xE0) * 4096 + (b1 - 128) * 64 + (b2 - 128), 3)
     else if 0xF0 \<le> b0 \<and> b0 \<le> 0xF4 \<and> cont_byte b1 \<and> cont_byte b2 \<and> cont_byte b3 \<and>
             (b0 = 0xF0 \<longrightarrow> 0x90 \<le> b1) \<and> (b0 = 0xF4 \<longrightarrow> b1 \<le> 0x8F)
       then ((b0 - 0xF0) * 262144 + (b1 - 128) * 4096 + (b2 - 128) * 64 + (b3 - 128), 4)
     else (0xFFFD, 1))"

function runes_of :: "string \<Rightarrow> rune list" where
  "runes_of [] = []"
| "runes_of (c # s) = (let (r, w) = decode_rune (c # s) in r # runes_of (drop w (c # s)))"
  by pat_completeness auto
termination
  by (relation "measure length") (auto simp: decode_rune_def Let_def split: if_splits)

text \<open>The bytes of a rune; surrogates and values out of range are encoded as U+FFFD.\<close>

definition scalar :: "rune \<Rightarrow> rune" where
  "scalar r = (if 0xD800 \<le> r \<and> r \<le> 0xDFFF \<or> r > 0x10FFFF then 0xFFFD else r)"

definition rune_bytes :: "rune \<Rightarrow> nat list" where
  "rune_bytes r =
    (if r < 128 then [r]
     else if r < 2048 then [0xC0 + r div 64, 128 + r mod 64]
     else if r < 65536 then [0xE0 + r div 4096, 128 + r div 64 mod 64, 128 + r mod 64]
     else [0xF0 + r div 262144, 128 + r div 4096 mod 64, 128 + r div 64 mod 64, 128 + r mod 64])"

definition encode_rune :: "rune \<Rightarrow> string" where
  "encode_rune r = map char_of (rune_bytes (scalar r))"

definition string_of_runes :: "rune list \<Rightarrow> string" where
  "string_of_runes rs = concat (map encode_rune rs)"

lemma string_of_runes_simps [simp]:
  "string_of_runes [] = []"
  "string_of_runes (r # rs) = encode_rune r @ string_of_runes rs"
  by (simp_all add: string_of_runes_def)

text \<open>Evaluation of ASCII runes without the bounds of the other ones.\<close>

lemma encode_rune_code [code]:
  "encode_rune r = (if r < 128 then [char_of r] else map char_of (rune_bytes (scalar r)))"
  by (simp add: encode_rune_def rune_bytes_def scalar_def)

lemma runes_of_ascii: "is_ascii s \<Longrightarrow> runes_of s = map of_char s"
  by (induction s) (simp_all add: decode_rune_def byte_at_def Let_def)

lemma string_of_runes_ascii: "is_ascii s \<Longrightarrow> string_of_runes (map of_char s) = s"
  by (induction s) (simp_all add: encode_rune_def rune_bytes_def scalar_def)

lemma length_runes_of: "length (runes_of s) \<le> length s"
proof (induction s rule: runes_of.induct)
  case (2 c s)
  obtain r w where d: "decode_rune (c # s) = (r, w)" by force
  then have "0 < w"
    by (auto simp: decode_rune_def Let_def split: if_splits)
  then have "length (drop w (c # s)) < length (c # s)"
    by simp
  with 2 [OF refl] d show ?case
    by (simp del: drop_Suc_Cons length_Cons add: length_Cons [symmetric])
qed simp

subsection \<open>Encoding and decoding\<close>

lemma split_64:
  "(r::nat) = r div 64 * 64 + r mod 64"
  "r div 64 = r div 4096 * 64 + r div 64 mod 64"
  "r div 4096 = r div 262144 * 64 + r div 4096 mod 64"
  by (simp_all add: div_mult2_eq [of r 64 64, simplified] div_mult2_eq [of r 4096 64, simplified])

lemma byte_at_bytes:
  "byte_at (map char_of ns @ s) i =
    (if i < length ns then ns ! i mod 256 else byte_at s (i - length ns))"
  by (auto simp: byte_at_def nth_append)

lemma byte_at_short:
  "byte_at (char_of a # s) 0 = a mod 256"
  "byte_at (c # char_of a # s) 1 = a mod 256"
  "byte_at (c # char_of a # s) (Suc 0) = a mod 256"
  "byte_at (c # d # char_of a # s) 2 = a mod 256"
  "byte_at (c # d # e # char_of a # s) 3 = a mod 256"
  by (simp_all add: byte_at_def)

lemma scalar_range: "scalar r \<le> 0x10FFFF" "\<not> (0xD800 \<le> scalar r \<and> scalar r \<le> 0xDFFF)"
  by (auto simp: scalar_def)

lemma decode_three:
  assumes "a < 16" "b < 64" "c < 64" "a = 0 \<longrightarrow> 32 \<le> b" "a = 13 \<longrightarrow> b < 32"
  shows "decode_rune (char_of (0xE0 + a) # char_of (128 + b) # char_of (128 + c) # s) =
    (a * 4096 + b * 64 + c, 3)"
  using assms unfolding decode_rune_def byte_at_short Let_def cont_byte_def by auto

lemma decode_four:
  assumes "a < 5" "b < 64" "c < 64" "e < 64" "a = 0 \<longrightarrow> 16 \<le> b" "a = 4 \<longrightarrow> b < 16"
  shows "decode_rune (char_of (0xF0 + a) # char_of (128 + b) # char_of (128 + c) # char_of (128 + e) # s) =
    (a * 262144 + b * 4096 + c * 64 + e, 4)"
  using assms unfolding decode_rune_def byte_at_short Let_def cont_byte_def by auto

lemma decode_bytes:
  assumes "r \<le> 0x10FFFF" "\<not> (0xD800 \<le> r \<and> r \<le> 0xDFFF)"
  shows "decode_rune (map char_of (rune_bytes r) @ s) = (r, length (rune_bytes r))"
proof -
  note d = split_64 [of r]
  have m: "r mod 64 < 64" "r div 64 mod 64 < 64" "r div 4096 mod 64 < 64" by simp_all
  consider "r < 128" | "128 \<le> r" "r < 2048" | "2048 \<le> r" "r < 65536" | "65536 \<le> r" by linarith
  then show ?thesis
  proof cases
    case 1
    then show ?thesis
      by (simp add: decode_rune_def rune_bytes_def byte_at_short Let_def)
  next
    case 2
    define a b where ab: "a = r div 64" "b = r mod 64"
    then have "a < 32" "2 \<le> a" "b < 64" "r = a * 64 + b" using 2 m d(1) by auto
    with 2 show ?thesis
      by (simp add: decode_rune_def rune_bytes_def byte_at_short Let_def cont_byte_def ab [symmetric])
  next
    case 3
    define a b c where abc: "a = r div 4096" "b = r div 64 mod 64" "c = r mod 64"
    then have bc: "b < 64" "c < 64" using m by auto
    have r: "r = a * 4096 + b * 64 + c" using d(1,2) unfolding abc by linarith
    then have "a < 16" "a = 0 \<longrightarrow> 32 \<le> b" "a = 13 \<longrightarrow> b < 32" using 3 assms r bc by auto
    with 3 show ?thesis
      using decode_three [OF _ bc, of a s] r [symmetric] unfolding abc by (simp add: rune_bytes_def)
  next
    case 4
    define a b c e where abce: "a = r div 262144" "b = r div 4096 mod 64" "c = r div 64 mod 64" "e = r mod 64"
    then have bc: "b < 64" "c < 64" "e < 64" using m by auto
    have r: "r = a * 262144 + b * 4096 + c * 64 + e" using d unfolding abce by linarith
    then have "a < 5" "a = 0 \<longrightarrow> 16 \<le> b" "a = 4 \<longrightarrow> b < 16" using 4 assms r bc by auto
    with 4 show ?thesis
      using decode_four [OF _ bc, of a s] r [symmetric] unfolding abce by (simp add: rune_bytes_def)
  qed
qed

lemma decode_encode: "decode_rune (encode_rune r @ s) = (scalar r, length (encode_rune r))"
  by (simp add: encode_rune_def decode_bytes scalar_range)

lemma encode_rune_Cons: "\<exists>c t. encode_rune r = c # t"
  by (simp add: encode_rune_def rune_bytes_def)

text \<open>Decoding what was encoded gives the runes back, up to the replacement of surrogates.\<close>

lemma runes_of_string_of_runes: "runes_of (string_of_runes rs) = map scalar rs"
proof (induction rs)
  case (Cons r rs)
  obtain c t where ct: "encode_rune r = c # t"
    using encode_rune_Cons by blast
  have "runes_of (encode_rune r @ string_of_runes rs) = scalar r # runes_of (string_of_runes rs)"
    using decode_encode [of r "string_of_runes rs"] by (simp add: ct)
  with Cons show ?case by simp
qed simp

end
