(* ===== verification/Split.thy ===== *)
theory Split
  imports Go_Runes
begin

text \<open>
  \<open>pkg/channels/split.go\<close>: \<open>SplitMessage\<close> on the runes of a message. Indices are integers,
  because the search functions return \<open>start - 1\<close> or -1 when they find nothing. A slice
  expression with bounds out of order panics, and the loop is a partial function: \<open>None\<close> is
  a call that never returns.
\<close>


subsection \<open>Runes and slices\<close>

definition is_ws :: "rune \<Rightarrow> bool" where
  "is_ws r \<longleftrightarrow> r = 32 \<or> r = 9 \<or> r = 10 \<or> r = 13"

text \<open>\<open>unicode.IsSpace\<close>\<close>

definition is_space_rune :: "rune \<Rightarrow> bool" where
  "is_space_rune r \<longleftrightarrow> 9 \<le> r \<and> r \<le> 13 \<or> r = 32 \<or> r = 0x85 \<or> r = 0xA0 \<or> r = 0x1680 \<or>
    0x2000 \<le> r \<and> r \<le> 0x200A \<or> r = 0x2028 \<or> r = 0x2029 \<or> r = 0x202F \<or> r = 0x205F \<or> r = 0x3000"

definition trim_runes_right :: "(rune \<Rightarrow> bool) \<Rightarrow> rune list \<Rightarrow> rune list" where
  "trim_runes_right P rs = rev (dropWhile P (rev rs))"

definition trim_runes :: "rune list \<Rightarrow> rune list" where
  "trim_runes rs = trim_runes_right is_space_rune (dropWhile is_space_rune rs)"

definition slice :: "rune list \<Rightarrow> int \<Rightarrow> int \<Rightarrow> rune list" where
  "slice rs a b = take (nat (b - a)) (drop (nat a) rs)"

subsection \<open>Search functions\<close>

text \<open>The downward loop \<open>for i := end - 1; i >= lo; i--\<close> with its fall-through value.\<close>

function find_down :: "(rune \<Rightarrow> bool) \<Rightarrow> rune list \<Rightarrow> int \<Rightarrow> int \<Rightarrow> int \<Rightarrow> int" where
  "find_down P rs i lo none =
    (if i \<ge> lo then (if P (rs ! nat i) then i else find_down P rs (i - 1) lo none) else none)"
  by pat_completeness auto
termination
  by (relation "measure (\<lambda>(P, rs, i, lo, none). nat (i - lo + 1))") auto

declare find_down.simps [simp del]

definition find_last_newline :: "rune list \<Rightarrow> int \<Rightarrow> int \<Rightarrow> int \<Rightarrow> int" where
  "find_last_newline rs start end window =
    find_down (\<lambda>r. r = 10) rs (end - 1) (max (end - window) start) (start - 1)"

definition find_last_space :: "rune list \<Rightarrow> int \<Rightarrow> int \<Rightarrow> int \<Rightarrow> int" where
  "find_last_space rs start end window =
    find_down (\<lambda>r. r = 32 \<or> r = 9) rs (end - 1) (max (end - window) start) (start - 1)"

definition fence_at :: "rune list \<Rightarrow> int \<Rightarrow> int \<Rightarrow> bool" where
  "fence_at rs i end \<longleftrightarrow>
    i + 2 < end \<and> rs ! nat i = 96 \<and> rs ! nat (i + 1) = 96 \<and> rs ! nat (i + 2) = 96"

function unclosed_loop :: "rune list \<Rightarrow> int \<Rightarrow> int \<Rightarrow> bool \<Rightarrow> int \<Rightarrow> int" where
  "unclosed_loop rs i end inb lastOpen =
    (if i < end then
       if fence_at rs i end
       then unclosed_loop rs (i + 3) end (\<not> inb) (if \<not> inb then i else lastOpen)
       else unclosed_loop rs (i + 1) end inb lastOpen
     else if inb then lastOpen else -1)"
  by pat_completeness auto
termination
  by (relation "measure (\<lambda>(rs, i, end, inb, lastOpen). nat (end - i))") auto

declare unclosed_loop.simps [simp del]

definition find_last_unclosed :: "rune list \<Rightarrow> int \<Rightarrow> int \<Rightarrow> int" where
  "find_last_unclosed rs start end = unclosed_loop rs start end False (-1)"

function find_next_closing :: "rune list \<Rightarrow> int \<Rightarrow> int \<Rightarrow> int" where
  "find_next_closing rs i end =
    (if i < end then (if fence_at rs i end then i + 3 else find_next_closing rs (i + 1) end) else -1)"
  by pat_completeness auto
termination
  by (relation "measure (\<lambda>(rs, i, end). nat (end - i))") auto

declare find_next_closing.simps [simp del]

function find_newline_from :: "rune list \<Rightarrow> int \<Rightarrow> int" where
  "find_newline_from rs i =
    (if i < int (length rs) then (if rs ! nat i = 10 then i else find_newline_from rs (i + 1))
     else -1)"
  by pat_completeness auto
termination
  by (relation "measure (\<lambda>(rs, i). nat (int (length rs) - i))") auto

declare find_newline_from.simps [simp del]

subsection \<open>One iteration of the loop\<close>

datatype split_next =
    Finished "rune list list"
  | Next "rune list list" "rune list" int
  | SliceBounds

text \<open>Skip the white space at the start of the next chunk.\<close>

definition skip_ws :: "rune list \<Rightarrow> int \<Rightarrow> int" where
  "skip_ws rs i = i + int (length (takeWhile is_ws (drop (nat i) rs)))"

text \<open>The tail of the loop body: emit \<open>runes[start:msgEnd]\<close> and advance.\<close>

definition emit :: "rune list \<Rightarrow> int \<Rightarrow> int \<Rightarrow> int \<Rightarrow> split_next" where
  "emit rs start msgEnd effectiveLimit =
    (let e = (if msgEnd \<le> start then start + effectiveLimit else msgEnd)
     in Next [slice rs start e] rs (skip_ws rs e))"

text \<open>Close the fence at \<open>splitAt\<close> and reopen it with its header in front of the rest.\<close>

definition split_inside :: "rune list \<Rightarrow> int \<Rightarrow> int \<Rightarrow> rune list \<Rightarrow> split_next" where
  "split_inside rs start splitAt header =
    (if splitAt < start then SliceBounds
     else Next [trim_runes_right is_ws (slice rs start splitAt) @ [10, 96, 96, 96]]
            (trim_runes (header @ [10] @ slice rs splitAt (int (length rs)))) 0)"

definition split_fence :: "int \<Rightarrow> rune list \<Rightarrow> int \<Rightarrow> int \<Rightarrow> int \<Rightarrow> int \<Rightarrow> split_next" where
  "split_fence maxLen rs start msgEnd unclosedIdx effectiveLimit =
    (let totalLen = int (length rs);
         closingIdx = find_next_closing rs msgEnd totalLen
     in if closingIdx > 0 \<and> closingIdx - start \<le> maxLen then emit rs start closingIdx effectiveLimit
     else let headerEnd = find_newline_from rs unclosedIdx;
              header = trim_runes (if headerEnd = -1 then slice rs unclosedIdx (unclosedIdx + 3)
                                   else slice rs unclosedIdx headerEnd);
              headerEndIdx = (if headerEnd \<noteq> -1 then headerEnd
                              else unclosedIdx + int (length header));
              innerLimit = min (start + maxLen - 5) totalLen
     in if msgEnd > headerEndIdx + 20 then
          let betterEnd = find_last_newline rs start innerLimit 200
          in split_inside rs start (if betterEnd > headerEndIdx then betterEnd else innerLimit) header
     else let newEnd0 = find_last_newline rs start unclosedIdx 200;
              newEnd = (if newEnd0 \<le> start then find_last_space rs start unclosedIdx 100 else newEnd0)
     in if newEnd > start then emit rs start newEnd effectiveLimit
     else if unclosedIdx - start > 20 then emit rs start unclosedIdx effectiveLimit
     else split_inside rs start innerLimit header)"

definition effective_limit :: "int \<Rightarrow> int" where
  "effective_limit maxLen =
    (let b = max (maxLen div 10) 50;
         codeBlockBuffer = (if b > maxLen div 2 then maxLen div 2 else b)
     in max (maxLen - codeBlockBuffer) (maxLen div 2))"

definition split_step :: "int \<Rightarrow> rune list \<Rightarrow> int \<Rightarrow> split_next" where
  "split_step maxLen rs start =
    (let totalLen = int (length rs)
     in if totalLen - start \<le> maxLen then Finished [slice rs start totalLen]
     else let effectiveLimit = effective_limit maxLen;
              end = start + effectiveLimit;
              e1 = find_last_newline rs start end 200;
              e2 = (if e1 \<le> start then find_last_space rs start end 100 else e1);
              msgEnd = (if e2 \<le> start then end else e2);
              unclosedIdx = find_last_unclosed rs start msgEnd
     in if unclosedIdx \<ge> 0 \<and> totalLen > msgEnd
        then split_fence maxLen rs start msgEnd unclosedIdx effectiveLimit
        else emit rs start msgEnd effectiveLimit)"

datatype split_error = SliceBoundsOutOfRange

partial_function (option) split_loop ::
  "int \<Rightarrow> rune list \<Rightarrow> int \<Rightarrow> rune list list \<Rightarrow> (split_error + rune list list) option" where
  "split_loop maxLen rs start messages =
    (if start < int (length rs) then
       (case split_step maxLen rs start of
          Finished ms \<Rightarrow> Some (Inr (messages @ ms))
        | Next ms rs' start' \<Rightarrow> split_loop maxLen rs' start' (messages @ ms)
        | SliceBounds \<Rightarrow> Some (Inl SliceBoundsOutOfRange))
     else Some (Inr messages))"

definition split_message :: "rune list \<Rightarrow> int \<Rightarrow> (split_error + rune list list) option" where
  "split_message content maxLen =
    (if maxLen \<le> 0 then Some (Inr (if content = [] then [] else [content]))
     else split_loop maxLen content 0 [])"

subsection \<open>Bounds of the searches\<close>

lemma length_slice: "0 \<le> a \<Longrightarrow> b \<le> int (length rs) \<Longrightarrow> length (slice rs a b) = nat (b - a)"
  by (simp add: slice_def)

lemma length_slice_le: "length (slice rs a b) \<le> nat (b - a)"
  by (simp add: slice_def)

lemma find_down_bounds:
  "find_down P rs i lo none = none \<or>
   lo \<le> find_down P rs i lo none \<and> find_down P rs i lo none \<le> i"
proof (induction P rs i lo none rule: find_down.induct)
  case (1 P rs i lo none)
  then show ?case
    by (auto simp: find_down.simps [of P rs i lo none])
qed

lemma find_last_newline_bounds:
  "find_last_newline rs start end w = start - 1 \<or>
   start \<le> find_last_newline rs start end w \<and> end - w \<le> find_last_newline rs start end w \<and>
   find_last_newline rs start end w < end"
  using find_down_bounds [of "\<lambda>r. r = 10" rs "end - 1" "max (end - w) start" "start - 1"]
  by (auto simp: find_last_newline_def)

lemma find_last_space_bounds:
  "find_last_space rs start end w = start - 1 \<or>
   start \<le> find_last_space rs start end w \<and> find_last_space rs start end w < end"
  using find_down_bounds
    [of "\<lambda>r. r = 32 \<or> r = 9" rs "end - 1" "max (end - w) start" "start - 1"]
  by (auto simp: find_last_space_def)

lemma unclosed_loop_bounds:
  "unclosed_loop rs i end inb l = -1 \<or> unclosed_loop rs i end inb l = l \<or>
   i \<le> unclosed_loop rs i end inb l \<and> unclosed_loop rs i end inb l + 2 < end"
proof (induction rs i "end" inb l rule: unclosed_loop.induct)
  case (1 rs i "end" inb l)
  show ?case
  proof (cases "i < end \<and> fence_at rs i end")
    case True
    then have "i + 2 < end" by (simp add: fence_at_def)
    with True 1 show ?thesis
      by (auto simp: unclosed_loop.simps [of rs i "end"])
  next
    case False
    with 1 show ?thesis
      by (auto simp: unclosed_loop.simps [of rs i "end"])
  qed
qed

lemma find_last_unclosed_bounds:
  "find_last_unclosed rs start end = -1 \<or>
   start \<le> find_last_unclosed rs start end \<and> find_last_unclosed rs start end + 2 < end"
  using unclosed_loop_bounds [of rs start "end" False "-1"]
  by (auto simp: find_last_unclosed_def)

lemma find_next_closing_bounds:
  "find_next_closing rs i end = -1 \<or>
   i + 3 \<le> find_next_closing rs i end \<and> find_next_closing rs i end \<le> end"
proof (induction rs i "end" rule: find_next_closing.induct)
  case (1 rs i "end")
  then show ?case
    by (auto simp: find_next_closing.simps [of rs i "end"] fence_at_def)
qed

lemma find_newline_from_bounds:
  "find_newline_from rs i = -1 \<or>
   i \<le> find_newline_from rs i \<and> find_newline_from rs i < int (length rs) \<and>
   10 \<notin> set (slice rs i (find_newline_from rs i))" if "0 \<le> i"
  using that
proof (induction rs i rule: find_newline_from.induct)
  case (1 rs i)
  show ?case
  proof (cases "i < int (length rs) \<and> rs ! nat i \<noteq> 10")
    case True
    let ?j = "find_newline_from rs (i + 1)"
    from True have eq: "find_newline_from rs i = ?j"
      by (simp add: find_newline_from.simps [of rs i])
    from True 1 have IH: "?j = -1 \<or> i + 1 \<le> ?j \<and> ?j < int (length rs) \<and> 10 \<notin> set (slice rs (i + 1) ?j)"
      by simp
    have "slice rs i ?j = rs ! nat i # slice rs (i + 1) ?j" if "i + 1 \<le> ?j"
    proof -
      have "nat i < length rs" and "nat (i + 1) = Suc (nat i)"
        using True "1.prems" by auto
      then have "drop (nat i) rs = rs ! nat i # drop (nat (i + 1)) rs"
        by (simp only: Cons_nth_drop_Suc)
      moreover have "nat (?j - i) = Suc (nat (?j - (i + 1)))"
        using that by simp
      ultimately show ?thesis by (simp add: slice_def)
    qed
    with IH True eq show ?thesis by auto
  next
    case False
    then show ?thesis
      by (auto simp: find_newline_from.simps [of rs i] slice_def)
  qed
qed

lemma length_trim_runes_right: "length (trim_runes_right P rs) \<le> length rs"
  by (metis trim_runes_right_def length_dropWhile_le length_rev)

lemma length_trim_runes: "length (trim_runes rs) \<le> length rs"
  using length_trim_runes_right length_dropWhile_le le_trans unfolding trim_runes_def by blast

lemma trim_runes_infix: "\<exists>a b. rs = a @ trim_runes rs @ b"
proof -
  let ?u = "dropWhile is_space_rune rs"
  have "rs = takeWhile is_space_rune rs @ ?u" by simp
  moreover have "?u = trim_runes rs @ rev (takeWhile is_space_rune (rev ?u))"
    unfolding trim_runes_def trim_runes_right_def
    by (metis rev_append rev_rev_ident takeWhile_dropWhile_id)
  ultimately show ?thesis by metis
qed

lemma effective_limit_bounds: "0 < m \<Longrightarrow> 0 < effective_limit m \<and> effective_limit m \<le> m"
  by (auto simp: effective_limit_def Let_def)

lemma skip_ws_bounds: "i \<le> skip_ws rs i"
  by (simp add: skip_ws_def)

lemma find_newline_from_none:
  "0 \<le> i \<Longrightarrow> find_newline_from rs i = -1 \<Longrightarrow> 10 \<notin> set (drop (nat i) rs)"
proof (induction rs i rule: find_newline_from.induct)
  case (1 rs i)
  show ?case
  proof (cases "i < int (length rs)")
    case True
    with "1.prems" have "rs ! nat i \<noteq> 10" and "find_newline_from rs (i + 1) = -1"
      by (auto simp: find_newline_from.simps [of rs i] split: if_splits)
    with True 1 have "10 \<notin> set (drop (nat (i + 1)) rs)" and "nat (i + 1) = Suc (nat i)"
      by auto
    moreover have "drop (nat i) rs = rs ! nat i # drop (Suc (nat i)) rs"
      using True "1.prems"(1) by (simp add: Cons_nth_drop_Suc)
    ultimately show ?thesis
      using \<open>rs ! nat i \<noteq> 10\<close> by simp
  next
    case False
    then show ?thesis by simp
  qed
qed

lemma slice_infix: "\<exists>a b. rs = a @ slice rs i j @ b"
  by (metis append_take_drop_id slice_def)

subsection \<open>What one iteration does\<close>

text \<open>A fence header: part of one line of the text.\<close>

definition header_of :: "rune list \<Rightarrow> rune list \<Rightarrow> bool" where
  "header_of rs h \<longleftrightarrow> 10 \<notin> set h \<and> (\<exists>a b. rs = a @ h @ b)"

lemma header_of_trim:
  assumes "10 \<notin> set (slice rs i j)"
  shows "header_of rs (trim_runes (slice rs i j))"
proof -
  obtain a b c d where "rs = a @ slice rs i j @ b"
    and "slice rs i j = c @ trim_runes (slice rs i j) @ d"
    using slice_infix trim_runes_infix by metis
  with assms show ?thesis
    unfolding header_of_def by (metis append.assoc UnI1 UnI2 set_append)
qed

lemma emit_eq: "start < e \<Longrightarrow> emit rs start e l = Next [slice rs start e] rs (skip_ws rs e)"
  by (simp add: emit_def)

text \<open>
  The three outcomes of an iteration: the rest fits; a chunk of between one and \<open>maxLen\<close>
  runes is emitted and the position advances; or the text is split inside a code block at a
  point at most \<open>maxLen - 5\<close> runes after the start.
\<close>

lemma split_fence_cases:
  assumes "0 < m" "0 \<le> start" "int (length rs) - start > m"
    and "start < e" "e \<le> start + m" "start \<le> u" "u < e"
  shows "(\<exists>e'. start < e' \<and> e' \<le> start + m \<and>
      split_fence m rs start e u l = Next [slice rs start e'] rs (skip_ws rs e')) \<or>
    (\<exists>sp h. header_of rs h \<and> sp \<le> start + m - 5 \<and>
      (sp = start + m - 5 \<or> start \<le> sp \<and> start + m - 205 \<le> sp) \<and>
      split_fence m rs start e u l = split_inside rs start sp h)"
proof -
  let ?n = "int (length rs)"
  let ?c = "find_next_closing rs e ?n"
  let ?he = "find_newline_from rs u"
  let ?h = "trim_runes (if ?he = -1 then slice rs u (u + 3) else slice rs u ?he)"
  let ?hi = "if ?he \<noteq> -1 then ?he else u + int (length ?h)"
  let ?il = "min (start + m - 5) ?n"
  let ?ne0 = "find_last_newline rs start u 200"
  let ?ne = "if ?ne0 \<le> start then find_last_space rs start u 100 else ?ne0"
  have il: "?il = start + m - 5" using assms by simp
  have "set (slice rs u (u + 3)) \<subseteq> set (drop (nat u) rs)"
    by (auto simp: slice_def dest: in_set_takeD)
  then have "10 \<notin> set (if ?he = -1 then slice rs u (u + 3) else slice rs u ?he)"
    using find_newline_from_none [of u rs] find_newline_from_bounds [of u rs] assms by auto
  then have hdr: "header_of rs ?h"
    by (auto intro: header_of_trim)
  have he: "?he = -1 \<or> u \<le> ?he"
    using find_newline_from_bounds [of u rs] assms by auto
  consider (close) "?c > 0 \<and> ?c - start \<le> m"
    | (inside) "\<not> (?c > 0 \<and> ?c - start \<le> m)" "e > ?hi + 20"
    | (before) "\<not> (?c > 0 \<and> ?c - start \<le> m)" "\<not> e > ?hi + 20" by blast
  then show ?thesis
  proof cases
    case close
    then have "e + 3 \<le> ?c" using find_next_closing_bounds [of rs e ?n] by auto
    then have "start < ?c" "?c \<le> start + m" using close assms by auto
    moreover have "split_fence m rs start e u l = emit rs start ?c l"
      using close by (simp add: split_fence_def Let_def)
    ultimately show ?thesis by (auto simp: emit_eq)
  next
    case inside
    let ?b = "find_last_newline rs start ?il 200"
    let ?sp = "if ?b > ?hi then ?b else ?il"
    have "split_fence m rs start e u l = split_inside rs start ?sp ?h"
      unfolding split_fence_def Let_def by (simp only: inside if_False if_True)
    moreover have "start \<le> ?hi" using he assms by auto
    then have "?sp \<le> start + m - 5" "?sp = start + m - 5 \<or> start \<le> ?sp \<and> start + m - 205 \<le> ?sp"
      using find_last_newline_bounds [of rs start ?il 200] il by auto
    ultimately show ?thesis using hdr by blast
  next
    case before
    have eq: "split_fence m rs start e u l =
        (if ?ne > start then emit rs start ?ne l
         else if u - start > 20 then emit rs start u l else split_inside rs start ?il ?h)"
      unfolding split_fence_def Let_def by (simp only: before if_False)
    have ne: "?ne < u \<or> ?ne \<le> start"
      using find_last_newline_bounds [of rs start u 200] find_last_space_bounds [of rs start u 100]
        assms by auto
    consider "?ne > start" | "\<not> ?ne > start" "u - start > 20" | "\<not> ?ne > start" "\<not> u - start > 20"
      by blast
    then show ?thesis
    proof cases
      case 1
      then have "split_fence m rs start e u l = Next [slice rs start ?ne] rs (skip_ws rs ?ne)"
        by (simp only: eq if_True emit_eq)
      moreover have "?ne \<le> start + m" using 1 ne assms by linarith
      ultimately show ?thesis using 1 by blast
    next
      case 2
      then have "start < u" and "u \<le> start + m" using assms by linarith+
      moreover from this 2 have "split_fence m rs start e u l = Next [slice rs start u] rs (skip_ws rs u)"
        by (simp only: eq if_False if_True emit_eq)
      ultimately show ?thesis by blast
    next
      case 3
      then have "split_fence m rs start e u l = split_inside rs start (start + m - 5) ?h"
        by (simp only: eq if_False il)
      with hdr show ?thesis by blast
    qed
  qed
qed

lemma split_step_cases:
  assumes "0 < m" "0 \<le> start"
  obtains (fin) "int (length rs) - start \<le> m"
      "split_step m rs start = Finished [slice rs start (int (length rs))]"
    | (chunk) e where "m < int (length rs) - start" "start < e" "e \<le> start + m"
      "split_step m rs start = Next [slice rs start e] rs (skip_ws rs e)"
    | (inside) sp h where "m < int (length rs) - start" "header_of rs h" "sp \<le> start + m - 5"
      "sp = start + m - 5 \<or> start \<le> sp \<and> start + m - 205 \<le> sp"
      "split_step m rs start = split_inside rs start sp h"
proof (cases "int (length rs) - start \<le> m")
  case True
  then show ?thesis by (intro fin) (simp_all add: split_step_def)
next
  case False
  let ?l = "effective_limit m"
  let ?e1 = "find_last_newline rs start (start + ?l) 200"
  let ?e2 = "if ?e1 \<le> start then find_last_space rs start (start + ?l) 100 else ?e1"
  let ?e = "if ?e2 \<le> start then start + ?l else ?e2"
  let ?u = "find_last_unclosed rs start ?e"
  have l: "0 < ?l" "?l \<le> m" using effective_limit_bounds assms by auto
  have e: "start < ?e" "?e \<le> start + m"
    using find_last_newline_bounds [of rs start "start + ?l" 200] l
      find_last_space_bounds [of rs start "start + ?l" 100] by auto
  have u: "?u \<ge> 0 \<Longrightarrow> start \<le> ?u \<and> ?u < ?e"
    using find_last_unclosed_bounds [of rs start ?e] by auto
  have eq: "split_step m rs start = (if ?u \<ge> 0 \<and> int (length rs) > ?e
      then split_fence m rs start ?e ?u ?l else emit rs start ?e ?l)"
    unfolding split_step_def Let_def by (simp only: False if_False)
  show ?thesis
  proof (cases "?u \<ge> 0 \<and> int (length rs) > ?e")
    case True
    have step: "split_step m rs start = split_fence m rs start ?e ?u ?l"
      by (rule trans [OF eq if_P [OF True]])
    have "(\<exists>e'. start < e' \<and> e' \<le> start + m \<and>
        split_fence m rs start ?e ?u ?l = Next [slice rs start e'] rs (skip_ws rs e')) \<or>
      (\<exists>sp h. header_of rs h \<and> sp \<le> start + m - 5 \<and>
        (sp = start + m - 5 \<or> start \<le> sp \<and> start + m - 205 \<le> sp) \<and>
        split_fence m rs start ?e ?u ?l = split_inside rs start sp h)"
      using u True False e assms by (intro split_fence_cases) auto
    with step show ?thesis using chunk inside False by (metis not_le)
  next
    case no: False
    have "split_step m rs start = Next [slice rs start ?e] rs (skip_ws rs ?e)"
      using trans [OF eq if_not_P [OF no]] emit_eq [OF e(1)] by metis
    then show ?thesis using chunk [of ?e] e False by linarith
  qed
qed

subsection \<open>Rules for the loop\<close>

text \<open>Partial correctness: an invariant of the iterations gives a property of the result.\<close>

lemma split_loop_rule:
  assumes ret: "split_loop m rs start msgs = Some r" and init: "I rs start msgs"
    and step: "\<And>rs s ms ms' rs' s'. I rs s ms \<Longrightarrow> s < int (length rs) \<Longrightarrow>
      split_step m rs s = Next ms' rs' s' \<Longrightarrow> I rs' s' (ms @ ms')"
    and fin: "\<And>rs s ms ms'. I rs s ms \<Longrightarrow> s < int (length rs) \<Longrightarrow>
      split_step m rs s = Finished ms' \<Longrightarrow> Q (Inr (ms @ ms'))"
    and stop: "\<And>rs s ms. I rs s ms \<Longrightarrow> \<not> s < int (length rs) \<Longrightarrow> Q (Inr ms)"
    and panic: "\<And>rs s ms. I rs s ms \<Longrightarrow> s < int (length rs) \<Longrightarrow>
      split_step m rs s = SliceBounds \<Longrightarrow> Q (Inl SliceBoundsOutOfRange)"
  shows "Q r"
proof -
  have "I rs start msgs \<longrightarrow> Q r"
  proof (rule split_loop.raw_induct [where P = "\<lambda>m' rs s ms r. m' = m \<longrightarrow> I rs s ms \<longrightarrow> Q r",
        OF _ ret, THEN mp, OF _ refl])
    fix f m' rs s ms r
    assume IH: "\<And>m' rs s ms r. f m' rs s ms = Some r \<Longrightarrow> m' = m \<longrightarrow> I rs s ms \<longrightarrow> Q r"
      and eq: "(if s < int (length rs) then
         (case split_step m' rs s of
            Finished ms' \<Rightarrow> Some (Inr (ms @ ms'))
          | Next ms' rs' s' \<Rightarrow> f m' rs' s' (ms @ ms')
          | SliceBounds \<Rightarrow> Some (Inl SliceBoundsOutOfRange))
       else Some (Inr ms)) = Some r"
    show "m' = m \<longrightarrow> I rs s ms \<longrightarrow> Q r"
    proof (intro impI)
      assume m: "m' = m" and I: "I rs s ms"
      show "Q r"
      proof (cases "s < int (length rs)")
        case True
        then show ?thesis
          using eq m I IH step fin panic by (cases "split_step m rs s") fastforce+
      next
        case False
        then show ?thesis using eq I stop by auto
      qed
    qed
  qed
  with init show ?thesis by blast
qed

text \<open>Termination: every iteration that goes on leaves fewer runes.\<close>

lemma split_loop_total:
  assumes "I rs start"
    and step: "\<And>rs s ms rs' s'. I rs s \<Longrightarrow> s < int (length rs) \<Longrightarrow> split_step m rs s = Next ms rs' s' \<Longrightarrow>
      I rs' s' \<and> int (length rs') - s' < int (length rs) - s"
  shows "\<exists>r. split_loop m rs start msgs = Some r"
  using assms(1)
proof (induction "nat (int (length rs) - start)" arbitrary: rs start msgs rule: less_induct)
  case less
  show ?case
  proof (cases "start < int (length rs)")
    case True
    show ?thesis
    proof (cases "split_step m rs start")
      case (Next ms rs' s')
      with step [OF less.prems True] have "I rs' s'"
        and "nat (int (length rs') - s') < nat (int (length rs) - start)"
        using True by auto
      then have "\<exists>r. split_loop m rs' s' (msgs @ ms) = Some r"
        by (intro less.hyps)
      with True Next show ?thesis by (simp add: split_loop.simps [of m rs start])
    qed (use True in \<open>simp_all add: split_loop.simps [of m rs start]\<close>)
  next
    case False
    then show ?thesis by (simp add: split_loop.simps [of m rs start])
  qed
qed

lemma split_step_start:
  "0 < m \<Longrightarrow> 0 \<le> s \<Longrightarrow> split_step m rs s = Next ms rs' s' \<Longrightarrow> 0 \<le> s'"
  by (erule split_step_cases [of m s rs])
    (auto simp: split_inside_def skip_ws_def split: if_splits)

lemma length_split_inside_chunk:
  "length (trim_runes_right P (slice rs s sp) @ [10, 96, 96, 96]) \<le> nat (sp - s) + 4"
  using length_trim_runes_right [of P "slice rs s sp"] length_slice_le [of rs s sp] by simp

lemma split_step_length:
  assumes "0 < m" "0 \<le> s"
    and "split_step m rs s = Next ms rs' s' \<or> split_step m rs s = Finished ms" "c \<in> set ms"
  shows "int (length c) \<le> m"
  using assms(1,2)
proof (cases rule: split_step_cases [of m s rs])
  case fin
  then show ?thesis using assms length_slice_le [of rs s "int (length rs)"] by auto
next
  case (chunk e)
  then show ?thesis using assms length_slice_le [of rs s e] by auto
next
  case (inside sp h)
  then show ?thesis
    using assms length_split_inside_chunk [of is_ws rs s sp]
    by (auto simp: split_inside_def split: if_splits)
qed

subsection \<open>The contract of \<open>SplitMessage\<close>\<close>

lemma split_message_chunks:
  assumes "split_message content m = Some (Inr chunks)" and "0 < m" and "c \<in> set chunks"
  shows "int (length c) \<le> m"
proof -
  let ?Q = "\<lambda>r. \<forall>cs. r = Inr cs \<longrightarrow> (\<forall>c \<in> set cs. int (length c) \<le> m)"
  have "?Q (Inr chunks :: split_error + rune list list)"
  proof (rule split_loop_rule [where I = "\<lambda>rs s ms. 0 \<le> s \<and> (\<forall>c \<in> set ms. int (length c) \<le> m)"
        and Q = ?Q])
    show "split_loop m content 0 [] = Some (Inr chunks)"
      using assms(1,2) by (simp add: split_message_def)
  next
    fix rs s and ms ms' :: "rune list list" and rs' s'
    assume I: "0 \<le> s \<and> (\<forall>c \<in> set ms. int (length c) \<le> m)"
      and st: "split_step m rs s = Next ms' rs' s'"
    have "\<forall>c \<in> set ms'. int (length c) \<le> m"
      using split_step_length [OF assms(2)] I st by blast
    with I show "0 \<le> s' \<and> (\<forall>c \<in> set (ms @ ms'). int (length c) \<le> m)"
      using split_step_start [OF assms(2) _ st] by auto
  next
    fix rs s and ms ms' :: "rune list list"
    assume I: "0 \<le> s \<and> (\<forall>c \<in> set ms. int (length c) \<le> m)"
      and st: "split_step m rs s = Finished ms'"
    have "\<forall>c \<in> set ms'. int (length c) \<le> m"
      using split_step_length [OF assms(2)] I st by blast
    with I show "?Q (Inr (ms @ ms'))" by auto
  qed simp_all
  with assms(3) show ?thesis by blast
qed

text \<open>
  C26. Every chunk \<open>SplitMessage\<close> returns has at most \<open>maxLen\<close> runes, the closing fences it adds
  included, for every positive \<open>maxLen\<close>.
\<close>

theorem split_message_chunk_length:
  assumes "split_message content m = Some (Inr chunks)" and "0 < m" and "c \<in> set chunks"
  shows "int (length c) \<le> m"
  using assms by (rule split_message_chunks)

theorem split_message_chunk_length_witness:
  "split_message [97, 98, 32, 99, 100] 4 = Some (Inr [[97, 98], [99, 100]]) \<and>
   int (length [97, 98 :: nat]) \<le> 4"
proof -
  have "split_message [97, 98, 32, 99, 100] 4 = Some (Inr [[97, 98], [99, 100]])"
    by (simp add: split_message_def split_loop.simps split_step_def effective_limit_def
        find_last_newline_def find_last_space_def find_last_unclosed_def find_down.simps
        unclosed_loop.simps fence_at_def emit_def slice_def skip_ws_def is_ws_def Let_def)
  with split_message_chunk_length [OF this, of "[97, 98]"] show ?thesis by simp
qed

text \<open>No slice expression of the loop is out of bounds when \<open>maxLen\<close> is at least five.\<close>

lemma split_step_no_panic:
  assumes "5 \<le> m" "0 \<le> s"
  shows "split_step m rs s \<noteq> SliceBounds"
proof -
  have "0 < m" "0 \<le> s" using assms by auto
  then show ?thesis
    using assms(1) by (cases rule: split_step_cases [of m s rs]) (auto simp: split_inside_def)
qed

lemma split_loop_no_panic:
  assumes "split_loop m rs s msgs = Some r" and "5 \<le> m" and "0 \<le> s"
  shows "\<exists>cs. r = Inr cs"
proof (rule split_loop_rule [OF assms(1), where I = "\<lambda>rs s ms. 0 \<le> s" and Q = "\<lambda>r. \<exists>cs. r = Inr cs"])
  show "0 \<le> s" by fact
next
  fix rs s and ms ms' :: "rune list list" and rs' s'
  assume "0 \<le> s" "split_step m rs s = Next ms' rs' s'"
  then show "0 \<le> s'"
    using assms(2) split_step_start by (metis less_le_trans zero_less_numeral)
next
  fix rs s and ms :: "rune list list"
  assume "0 \<le> s" "split_step m rs s = SliceBounds"
  then show "\<exists>cs. (Inl SliceBoundsOutOfRange :: split_error + rune list list) = Inr cs"
    using split_step_no_panic assms(2) by blast
qed blast+

subsection \<open>When the loop returns\<close>

text \<open>The length of the longest line, \<open>n\<close> runes of the current line being read already.\<close>

fun longest_line :: "nat \<Rightarrow> rune list \<Rightarrow> nat" where
  "longest_line n [] = n"
| "longest_line n (r # rs) =
     (if r = 10 then max n (longest_line 0 rs) else longest_line (Suc n) rs)"

definition short_lines :: "nat \<Rightarrow> rune list \<Rightarrow> bool" where
  "short_lines L rs \<longleftrightarrow> (\<forall>a b c. rs = a @ b @ c \<longrightarrow> 10 \<notin> set b \<longrightarrow> length b \<le> L)"

lemma longest_line_mono: "n \<le> n' \<Longrightarrow> longest_line n rs \<le> longest_line n' rs"
  by (induction n rs arbitrary: n' rule: longest_line.induct) (auto simp: max.coboundedI1)

lemma longest_line_ge: "n \<le> longest_line n rs"
  by (induction n rs rule: longest_line.induct) auto

lemma longest_line_block: "10 \<notin> set b \<Longrightarrow> n + length b \<le> longest_line n (b @ c)"
proof (induction b arbitrary: n)
  case Nil
  then show ?case using longest_line_ge by simp
next
  case (Cons r b)
  then have "Suc n + length b \<le> longest_line (Suc n) (b @ c)" using Cons.IH [of "Suc n"] by simp
  with Cons.prems show ?case by auto
qed

lemma longest_line_suffix: "longest_line 0 s \<le> longest_line n (a @ s)"
proof (induction a arbitrary: n)
  case Nil
  then show ?case by (simp add: longest_line_mono)
next
  case (Cons r a)
  then show ?case by (simp add: max.coboundedI2)
qed

lemma short_lines_longest: "longest_line 0 rs \<le> L \<Longrightarrow> short_lines L rs"
  unfolding short_lines_def
  using longest_line_block [of _ 0] longest_line_suffix le_trans by (metis add_0)

lemma short_lines_infix: "short_lines L (a @ x @ b) \<Longrightarrow> short_lines L x"
  unfolding short_lines_def by (metis append.assoc)

lemma short_lines_header: "short_lines L rs \<Longrightarrow> header_of rs h \<Longrightarrow> length h \<le> L"
  unfolding short_lines_def header_of_def by blast

lemma short_lines_join:
  assumes "length h \<le> L" "short_lines L t"
  shows "short_lines L (h @ 10 # t)"
  unfolding short_lines_def
proof (intro allI impI)
  fix a b c
  assume eq: "h @ 10 # t = a @ b @ c" and nl: "10 \<notin> set b"
  show "length b \<le> L"
  proof (cases "length a \<le> length h")
    case True
    then have "h = a @ drop (length a) h"
      using eq by (metis append_eq_conv_conj append_take_drop_id take_append take_all_iff
          diff_is_0_eq take0 append_Nil2)
    then obtain u where u: "h = a @ u" "u @ 10 # t = b @ c"
      using eq by (metis append.assoc same_append_eq)
    have "length b \<le> length u"
    proof (rule ccontr)
      assume longer: "\<not> ?thesis"
      obtain v where "b = u @ v" "10 # t = v @ c"
        using u(2) longer by (auto simp: append_eq_append_conv2)
      moreover from this longer have "v \<noteq> []" by auto
      ultimately show False using nl by (cases v) auto
    qed
    with u(1) assms(1) show ?thesis by simp
  next
    case False
    then obtain u where "a = h @ u" "10 # t = u @ b @ c" "u \<noteq> []"
      using eq False by (auto simp: append_eq_append_conv2)
    then obtain v where "t = v @ b @ c" by (cases u) auto
    with assms(2) nl show ?thesis unfolding short_lines_def by blast
  qed
qed

lemma split_inside_short:
  assumes short: "short_lines L rs" and hdr: "header_of rs h" and m: "int L + 206 < m"
    and sp: "0 \<le> s" "s \<le> sp" "s + m - 205 \<le> sp" "sp \<le> int (length rs)"
    and eq: "split_inside rs s sp h = Next ms rs' s'"
  shows "short_lines L rs' \<and> int (length rs') - s' < int (length rs) - s"
proof -
  let ?t = "slice rs sp (int (length rs))"
  have rs': "rs' = trim_runes (h @ 10 # ?t)" "s' = 0"
    using eq sp(2) by (auto simp: split_inside_def)
  obtain a b where "rs = a @ ?t @ b" using slice_infix by metis
  then have "short_lines L ?t" using short short_lines_infix by metis
  moreover have h: "length h \<le> L" using short hdr by (rule short_lines_header)
  ultimately have "short_lines L (h @ 10 # ?t)" by (rule short_lines_join [rotated])
  then have "short_lines L rs'"
    using rs' trim_runes_infix short_lines_infix by metis
  moreover have "length rs' \<le> length h + 1 + length ?t"
    using rs' length_trim_runes [of "h @ 10 # ?t"] by simp
  moreover have "int (length ?t) = int (length rs) - sp"
    using sp by (simp add: length_slice)
  ultimately show ?thesis using h m sp rs'(2) by linarith
qed

text \<open>
  C28. \<open>SplitMessage\<close> returns, without a panic, on every message whose lines are all shorter
  than \<open>maxLen - 206\<close> runes, whatever code blocks the message has.
\<close>

theorem split_message_returns:
  assumes "int (longest_line 0 content) + 206 < m"
  shows "\<exists>chunks. split_message content m = Some (Inr chunks)"
proof -
  let ?L = "longest_line 0 content"
  let ?I = "\<lambda>rs s. (0::int) \<le> s \<and> short_lines ?L rs"
  have m: "0 < m" "5 \<le> m" using assms by auto
  have "\<exists>r. split_loop m content 0 [] = Some r"
  proof (rule split_loop_total [where I = ?I])
    show "?I content 0" by (simp add: short_lines_longest)
  next
    fix rs s ms rs' s'
    assume I: "?I rs s" and st: "split_step m rs s = Next ms rs' s'"
    from m(1) conjunct1 [OF I]
    have "short_lines ?L rs' \<and> int (length rs') - s' < int (length rs) - s"
    proof (cases rule: split_step_cases [of m s rs])
      case fin
      then show ?thesis using st by simp
    next
      case (chunk e)
      then show ?thesis using st I skip_ws_bounds [of e rs] by auto
    next
      case (inside sp h)
      show ?thesis
        by (rule split_inside_short [OF _ inside(2) assms, of s sp ms])
          (use I inside st assms in auto)
    qed
    then show "?I rs' s' \<and> int (length rs') - s' < int (length rs) - s"
      using split_step_start [OF m(1) _ st] I by blast
  qed
  then obtain r where r: "split_loop m content 0 [] = Some r" by blast
  with split_loop_no_panic [OF r m(2)] m(1) show ?thesis
    by (auto simp: split_message_def)
qed

theorem split_message_returns_witness:
  "\<exists>chunks. split_message ([96, 96, 96, 10] @ concat (replicate 60 [120, 120, 120, 10])) 210 =
    Some (Inr chunks)"
  by (rule split_message_returns) code_simp

subsection \<open>Messages without code blocks\<close>

fun has_fence :: "rune list \<Rightarrow> bool" where
  "has_fence (a # b # c # rs) = (a = 96 \<and> b = 96 \<and> c = 96 \<or> has_fence (b # c # rs))"
| "has_fence _ = False"

lemma has_fence_Cons: "has_fence rs \<Longrightarrow> has_fence (r # rs)"
  by (cases rs rule: has_fence.cases) auto

lemma has_fence_drop: "has_fence (drop n rs) \<Longrightarrow> has_fence rs"
proof (induction n arbitrary: rs)
  case 0
  then show ?case by simp
next
  case (Suc n)
  then show ?case by (cases rs) (auto intro: has_fence_Cons)
qed

lemma fence_at_has_fence:
  assumes "0 \<le> i" "end \<le> int (length rs)" "fence_at rs i end"
  shows "has_fence rs"
proof -
  let ?k = "nat i"
  have "?k + 2 < length rs" and "rs ! ?k = 96" "rs ! Suc ?k = 96" "rs ! Suc (Suc ?k) = 96"
    using assms by (auto simp: fence_at_def nat_add_distrib)
  then have "drop ?k rs = 96 # 96 # 96 # drop (?k + 3) rs"
    by (metis Cons_nth_drop_Suc Suc_lessD add_2_eq_Suc' add_Suc_right eval_nat_numeral(3))
  then have "has_fence (drop ?k rs)" by simp
  then show ?thesis by (rule has_fence_drop)
qed

lemma unclosed_loop_no_fence:
  "\<forall>j. i \<le> j \<and> j < end \<longrightarrow> \<not> fence_at rs j end \<Longrightarrow>
    unclosed_loop rs i end inb l = (if inb then l else -1)"
proof (induction rs i "end" inb l rule: unclosed_loop.induct)
  case (1 rs i "end" inb l)
  then show ?case
    by (auto simp: unclosed_loop.simps [of rs i "end"])
qed

lemma split_step_no_fence:
  assumes "\<not> has_fence rs" "0 < m" "0 \<le> s"
  shows "split_step m rs s = Finished [slice rs s (int (length rs))] \<or>
    (\<exists>e. s < e \<and> e < int (length rs) \<and> split_step m rs s = Next [slice rs s e] rs (skip_ws rs e))"
proof (cases "int (length rs) - s \<le> m")
  case True
  then show ?thesis by (simp add: split_step_def)
next
  case False
  have l: "0 < effective_limit m" "effective_limit m \<le> m"
    using effective_limit_bounds assms(2) by auto
  have "find_last_unclosed rs s e = -1" if "e \<le> s + effective_limit m" for e
  proof -
    have "\<not> fence_at rs j e" if "s \<le> j" for j
      using fence_at_has_fence [of j e rs] that \<open>e \<le> _\<close> False assms l by linarith
    then show ?thesis
      unfolding find_last_unclosed_def by (subst unclosed_loop_no_fence) auto
  qed
  note none = this
  let ?l = "effective_limit m"
  let ?e1 = "find_last_newline rs s (s + ?l) 200"
  let ?e2 = "if ?e1 \<le> s then find_last_space rs s (s + ?l) 100 else ?e1"
  let ?e = "if ?e2 \<le> s then s + ?l else ?e2"
  have e: "s < ?e" "?e \<le> s + ?l"
    using find_last_newline_bounds [of rs s "s + ?l" 200] l
      find_last_space_bounds [of rs s "s + ?l" 100] by auto
  have "split_step m rs s = emit rs s ?e ?l"
    using none [OF e(2)] False unfolding split_step_def Let_def by simp
  then have "split_step m rs s = Next [slice rs s ?e] rs (skip_ws rs ?e)"
    using emit_eq [OF e(1)] by (rule trans)
  moreover have "?e < int (length rs)" using e(2) l(2) False by linarith
  ultimately show ?thesis using e(1) by blast
qed

lemma filter_dropWhile_ws: "filter (\<lambda>r. \<not> is_ws r) (dropWhile is_ws rs) = filter (\<lambda>r. \<not> is_ws r) rs"
  by (induction rs) auto

lemma drop_skip_ws: "0 \<le> e \<Longrightarrow> drop (nat (skip_ws rs e)) rs = dropWhile is_ws (drop (nat e) rs)"
  by (simp add: skip_ws_def nat_add_distrib dropWhile_eq_drop add.commute)

lemma slice_drop: "0 \<le> s \<Longrightarrow> s \<le> e \<Longrightarrow> slice rs s e @ drop (nat e) rs = drop (nat s) rs"
proof -
  assume "0 \<le> s" "s \<le> e"
  then have "nat e = nat (e - s) + nat s" by auto
  then show ?thesis by (simp only: slice_def drop_drop [symmetric] append_take_drop_id)
qed

lemma split_no_fence_total:
  assumes "\<not> has_fence content" "0 < m"
  shows "\<exists>r. split_loop m content 0 [] = Some r"
proof (rule split_loop_total [where I = "\<lambda>rs s. rs = content \<and> 0 \<le> s"])
  fix rs s ms rs' s'
  assume I: "rs = content \<and> 0 \<le> s" and st: "split_step m rs s = Next ms rs' s'"
  with split_step_no_fence [of content m s] assms obtain e
    where "s < e" "rs' = content" "s' = skip_ws content e" by auto
  with I skip_ws_bounds [of e content]
  show "(rs' = content \<and> 0 \<le> s') \<and> int (length rs') - s' < int (length rs) - s" by auto
qed simp

text \<open>Without a code fence the chunks are stretches of the message.\<close>

lemma split_message_stretches:
  assumes "\<not> has_fence content" "0 < m"
  shows "\<exists>chunks. split_message content m = Some (Inr chunks) \<and>
    (\<forall>c \<in> set chunks. int (length c) \<le> m \<and> (\<exists>a b. content = a @ c @ b))"
proof -
  obtain r where r: "split_loop m content 0 [] = Some r"
    using split_no_fence_total [OF assms] by blast
  let ?Q = "\<lambda>cs. \<forall>c \<in> set cs. \<exists>a b. content = a @ c @ b"
  have "\<exists>cs. r = Inr cs \<and> ?Q cs"
  proof (rule split_loop_rule [OF r, where Q = "\<lambda>r. \<exists>cs. r = Inr cs \<and> ?Q cs" and
        I = "\<lambda>rs s ms. rs = content \<and> 0 \<le> s \<and> ?Q ms"])
    fix rs s and ms ms' :: "rune list list" and rs' s'
    assume I: "rs = content \<and> 0 \<le> s \<and> ?Q ms" and st: "split_step m rs s = Next ms' rs' s'"
    with split_step_no_fence [of content m s] assms obtain e
      where e: "s < e" "ms' = [slice content s e]" "rs' = content" "s' = skip_ws content e" by auto
    with I slice_infix [of content s e] skip_ws_bounds [of e content]
    show "rs' = content \<and> 0 \<le> s' \<and> ?Q (ms @ ms')" by auto
  next
    fix rs s and ms ms' :: "rune list list"
    assume I: "rs = content \<and> 0 \<le> s \<and> ?Q ms" and "split_step m rs s = Finished ms'"
    with split_step_no_fence [of content m s] assms
    have "ms' = [slice content s (int (length content))]" by auto
    with I slice_infix [of content s] show "\<exists>cs. Inr (ms @ ms') = Inr cs \<and> ?Q cs" by auto
  next
    fix rs s and ms :: "rune list list"
    assume I: "rs = content \<and> 0 \<le> s \<and> ?Q ms" and "split_step m rs s = SliceBounds"
    with split_step_no_fence [of content m s] assms show "\<exists>cs. Inl SliceBoundsOutOfRange = Inr cs \<and> ?Q cs" by auto
  qed auto
  then obtain cs where cs: "r = Inr cs" "?Q cs" by blast
  then have "split_message content m = Some (Inr cs)" using r assms(2) by (simp add: split_message_def)
  with cs(2) split_message_chunks [OF this assms(2)] show ?thesis by blast
qed

text \<open>
  C27. A message without a code fence is split, for any positive \<open>maxLen\<close>, into chunks that hold
  all its characters in order; only white space at the split points may be lost.
\<close>

theorem split_message_preserves:
  assumes "\<not> has_fence content" and "0 < m"
  shows "\<exists>chunks. split_message content m = Some (Inr chunks) \<and>
    filter (\<lambda>r. \<not> is_ws r) (concat chunks) = filter (\<lambda>r. \<not> is_ws r) content"
proof -
  let ?f = "filter (\<lambda>r. \<not> is_ws r)"
  let ?Q = "\<lambda>r. \<exists>cs. r = Inr cs \<and> ?f (concat cs) = ?f content"
  have start: "0 \<le> s'" if "s < e" "0 \<le> s" "s' = skip_ws content e" for s s' e :: int
    using that skip_ws_bounds [of e content] by linarith
  obtain r where r: "split_loop m content 0 [] = Some r"
    using split_no_fence_total [OF assms] by blast
  have "?Q r"
  proof (rule split_loop_rule [OF r, where Q = ?Q and
        I = "\<lambda>rs s ms. rs = content \<and> 0 \<le> s \<and> ?f (concat ms) @ ?f (drop (nat s) content) = ?f content"])
    fix rs s and ms ms' :: "rune list list" and rs' s'
    assume I: "rs = content \<and> 0 \<le> s \<and> ?f (concat ms) @ ?f (drop (nat s) content) = ?f content"
      and st: "split_step m rs s = Next ms' rs' s'"
    with split_step_no_fence [of content m s] assms obtain e
      where e: "s < e" "ms' = [slice content s e]" "rs' = content" "s' = skip_ws content e" by auto
    have "?f (slice content s e) @ ?f (drop (nat s') content) = ?f (drop (nat s) content)"
      using e I slice_drop [of s e content]
      by (simp add: drop_skip_ws filter_dropWhile_ws flip: filter_append)
    with I e start
    show "rs' = content \<and> 0 \<le> s' \<and> ?f (concat (ms @ ms')) @ ?f (drop (nat s') content) = ?f content"
      by auto
  next
    fix rs s and ms ms' :: "rune list list"
    assume I: "rs = content \<and> 0 \<le> s \<and> ?f (concat ms) @ ?f (drop (nat s) content) = ?f content"
      and "s < int (length rs)" and st: "split_step m rs s = Finished ms'"
    with split_step_no_fence [of content m s] assms
    have "ms' = [slice content s (int (length content))]" by auto
    then have "concat ms' = drop (nat s) content"
      using I \<open>s < int (length rs)\<close> by (simp add: slice_def nat_diff_distrib)
    with I show "?Q (Inr (ms @ ms'))" by simp
  next
    fix rs s and ms :: "rune list list"
    assume I: "rs = content \<and> 0 \<le> s \<and> ?f (concat ms) @ ?f (drop (nat s) content) = ?f content"
      and "split_step m rs s = SliceBounds"
    with split_step_no_fence [of content m s] assms show "?Q (Inl SliceBoundsOutOfRange)" by auto
  qed auto
  with r assms(2) show ?thesis by (auto simp: split_message_def)
qed

theorem split_message_preserves_witness:
  "\<exists>chunks. split_message [97, 98, 32, 99, 100] 4 = Some (Inr chunks) \<and>
    filter (\<lambda>r. \<not> is_ws r) (concat chunks) = [97, 98, 99, 100]"
  using split_message_preserves [of "[97, 98, 32, 99, 100]" 4] by (simp add: is_ws_def)

subsection \<open>A message the loop never finishes\<close>

lemma find_down_found:
  "find_down P rs i lo none \<noteq> none \<Longrightarrow> P (rs ! nat (find_down P rs i lo none))"
proof (induction P rs i lo none rule: find_down.induct)
  case (1 P rs i lo none)
  then show ?case
    by (auto simp: find_down.simps [of P rs i lo none] split: if_splits)
qed

lemma find_down_absent:
  "(\<And>j. lo \<le> j \<Longrightarrow> j \<le> i \<Longrightarrow> \<not> P (rs ! nat j)) \<Longrightarrow> find_down P rs i lo none = none"
  using find_down_bounds find_down_found by metis

text \<open>
  A fence header: three backticks and a line without further backticks whose last rune is no
  white space, so that trimming it changes nothing.
\<close>

definition fence_line :: "rune list \<Rightarrow> bool" where
  "fence_line h \<longleftrightarrow> take 3 h = [96, 96, 96] \<and> 96 \<notin> set (drop 3 h) \<and> 10 \<notin> set h \<and>
    \<not> is_space_rune (last h)"

lemma fence_line_nth:
  assumes "fence_line h" "j < length h"
  shows "h ! j \<noteq> 10" and "j < 3 \<Longrightarrow> h ! j = 96" and "3 \<le> j \<Longrightarrow> h ! j \<noteq> 96"
proof -
  have h: "h = [96, 96, 96] @ drop 3 h"
    using assms(1) by (metis append_take_drop_id fence_line_def)
  show "h ! j \<noteq> 10" using assms by (metis fence_line_def nth_mem)
  show "h ! j = 96" if "j < 3"
  proof -
    have "h ! j = [96, 96, 96] ! j"
      using assms(1) that by (metis fence_line_def nth_take)
    moreover have "j = 0 \<or> j = 1 \<or> j = 2" using that by auto
    ultimately show ?thesis by auto
  qed
  show "h ! j \<noteq> 96" if "3 \<le> j"
  proof -
    have "drop 3 h ! (j - 3) \<in> set (drop 3 h)"
      using that assms(2) by (intro nth_mem) auto
    with that assms show ?thesis by (auto simp: fence_line_def)
  qed
qed

lemma trim_runes_id:
  assumes "rs \<noteq> []" "\<not> is_space_rune (hd rs)" "\<not> is_space_rune (last rs)"
  shows "trim_runes rs = rs"
proof -
  have "dropWhile is_space_rune rs = rs" using assms(1,2) by (cases rs) auto
  moreover have "dropWhile is_space_rune (rev rs) = rev rs"
    using assms(1,3) by (cases "rev rs") (auto simp: hd_rev simp flip: hd_rev)
  ultimately show ?thesis by (simp add: trim_runes_def trim_runes_right_def)
qed

lemma find_newline_from_first:
  "10 \<notin> set h \<Longrightarrow> k \<le> length h \<Longrightarrow>
    find_newline_from (h @ 10 # t) (int k) = int (length h)"
proof (induction "length h - k" arbitrary: k)
  case 0
  then show ?case by (simp add: find_newline_from.simps [of _ "int k"] nth_append)
next
  case (Suc d)
  then have "(h @ 10 # t) ! k \<noteq> 10" by (auto simp: nth_append in_set_conv_nth)
  moreover have "find_newline_from (h @ 10 # t) (int (Suc k)) = int (length h)"
    using Suc by (intro Suc.hyps(1)) auto
  then have "find_newline_from (h @ 10 # t) (int k + 1) = int (length h)"
    by (simp add: add.commute)
  ultimately show ?case
    using Suc by (simp add: find_newline_from.simps [of _ "int k"])
qed

lemma find_next_closing_late:
  assumes "\<And>j. i \<le> j \<Longrightarrow> j < b \<Longrightarrow> \<not> fence_at rs j end"
  shows "find_next_closing rs i end = -1 \<or> b + 3 \<le> find_next_closing rs i end"
  using assms
proof (induction rs i "end" rule: find_next_closing.induct)
  case (1 rs i "end")
  then show ?case
    by (force simp: find_next_closing.simps [of rs i "end"])
qed

text \<open>The fences of a text that begins with a long fence line.\<close>

lemma long_fence_nth:
  assumes "fence_line h" "0 \<le> j" "j < int (length h)"
  shows "(h @ 10 # t) ! nat j \<noteq> 10" and "(h @ 10 # t) ! nat j = 96 \<longleftrightarrow> j < 3"
proof -
  have nth: "(h @ 10 # t) ! nat j = h ! nat j" "nat j < length h"
    using assms(2,3) by (auto simp: nth_append)
  with fence_line_nth(1) [OF assms(1)] show "(h @ 10 # t) ! nat j \<noteq> 10" by metis
  show "(h @ 10 # t) ! nat j = 96 \<longleftrightarrow> j < 3"
    using nth fence_line_nth(2,3) [OF assms(1), of "nat j"] by linarith
qed

lemma long_fence_at:
  assumes "fence_line h" "8 \<le> int (length h)"
  shows "3 \<le> q \<Longrightarrow> fence_at (h @ 10 # t) 0 q"
    and "0 < j \<Longrightarrow> j < int (length h) \<Longrightarrow> \<not> fence_at (h @ 10 # t) j q"
proof -
  note bt = long_fence_nth(2) [OF assms(1), where t = t]
  have "(h @ 10 # t) ! nat 0 = 96" "(h @ 10 # t) ! nat (0 + 1) = 96" "(h @ 10 # t) ! nat (0 + 2) = 96"
    using bt [of 0] bt [of "0 + 1"] bt [of "0 + 2"] assms(2) by linarith+
  then show "3 \<le> q \<Longrightarrow> fence_at (h @ 10 # t) 0 q"
    by (simp only: fence_at_def) simp
  show "\<not> fence_at (h @ 10 # t) j q" if "0 < j" "j < int (length h)"
  proof (cases "j + 2 < int (length h)")
    case True
    then show ?thesis using bt [of "j + 2"] that by (simp add: fence_at_def)
  next
    case False
    then have "3 \<le> j" using that assms(2) by auto
    then show ?thesis using bt [of j] that by (simp add: fence_at_def)
  qed
qed

lemma split_inside_long_fence:
  assumes h: "fence_line h" "m \<le> int (length h)" and m: "8 \<le> m"
    and t: "t \<noteq> []" "\<not> is_space_rune (last t)"
  shows "trim_runes h = h" and "\<exists>c. split_inside (h @ 10 # t) 0 (m - 5) h =
    Next [c] (h @ 10 # (drop (nat (m - 5)) h @ 10 # t)) 0"
proof -
  let ?rs = "h @ 10 # t"
  have hne: "h \<noteq> []" using h(2) m by auto
  have hd: "hd h = 96" using fence_line_nth(2) [OF h(1), of 0] hne by (simp add: hd_conv_nth)
  then show "trim_runes h = h"
    using h(1) hne by (intro trim_runes_id) (auto simp: fence_line_def is_space_rune_def)
  have "trim_runes (h @ 10 # drop (nat (m - 5)) ?rs) = h @ 10 # drop (nat (m - 5)) ?rs"
    using hd hne t h(2) m by (intro trim_runes_id) (auto simp: is_space_rune_def)
  moreover have "slice ?rs (m - 5) (int (length ?rs)) = drop (nat (m - 5)) ?rs"
    using m h(2) by (simp add: slice_def)
  moreover have "drop (nat (m - 5)) ?rs = drop (nat (m - 5)) h @ 10 # t"
    using m h(2) by simp
  ultimately show "\<exists>c. split_inside ?rs 0 (m - 5) h =
      Next [c] (h @ 10 # (drop (nat (m - 5)) h @ 10 # t)) 0"
    using m by (simp add: split_inside_def)
qed

lemma split_step_fence_eq:
  assumes "m < int (length rs) - start" "find_last_newline rs start (start + effective_limit m) 200 = e1"
    and "(if e1 \<le> start then find_last_space rs start (start + effective_limit m) 100 else e1) = e2"
    and "(if e2 \<le> start then start + effective_limit m else e2) = e"
    and "find_last_unclosed rs start e = u" "0 \<le> u" "e < int (length rs)"
  shows "split_step m rs start = split_fence m rs start e u (effective_limit m)"
proof -
  have "\<not> int (length rs) - start \<le> m" "u \<ge> 0 \<and> int (length rs) > e" using assms by auto
  then show ?thesis
    by (simp only: split_step_def Let_def assms(2-5) if_False if_True simp_thms)
qed

lemma split_step_long_fence:
  assumes h: "fence_line h" "m \<le> int (length h)" and m: "8 \<le> m"
    and t: "t \<noteq> []" "\<not> is_space_rune (last t)"
  shows "\<exists>c. split_step m (h @ 10 # t) 0 =
    Next [c] (h @ 10 # (drop (nat (m - 5)) h @ 10 # t)) 0"
proof -
  let ?rs = "h @ 10 # t" and ?l = "effective_limit m"
  let ?n = "int (length ?rs)" and ?k = "int (length h)"
  have l: "4 \<le> ?l" "?l \<le> m" using m by (auto simp: effective_limit_def Let_def)
  note nonl = long_fence_nth(1) [OF h(1), where t = t]
    and bt = long_fence_nth(2) [OF h(1), where t = t]
  have k: "8 \<le> ?k" using h(2) m by simp
  note fences = long_fence_at [OF h(1) k, where t = t]
  have e1: "find_last_newline ?rs 0 ?l 200 = -1"
    unfolding find_last_newline_def using nonl l h(2) by (subst find_down_absent) auto
  define e2 where "e2 = find_last_space ?rs 0 ?l 100"
  define e where "e = (if e2 \<le> 0 then ?l else e2)"
  have "e2 = -1 \<or> 0 \<le> e2 \<and> e2 < ?l \<and> (?rs ! nat e2 = 32 \<or> ?rs ! nat e2 = 9)"
    using find_last_space_bounds [of ?rs 0 ?l 100] l
      find_down_found [of "\<lambda>r. r = 32 \<or> r = 9" ?rs "?l - 1" "max (?l - 100) 0" "-1"]
    by (auto simp: find_last_space_def e2_def)
  then have e: "3 \<le> e" "e \<le> ?l"
    using bt [of e2] l h(2) by (auto simp: e_def)
  have "find_last_unclosed ?rs 0 e = unclosed_loop ?rs 3 e True 0"
    using fences(1) [OF e(1)] e unfolding find_last_unclosed_def by (subst unclosed_loop.simps) simp
  also have "\<dots> = 0"
    using fences(2) e l h(2) by (subst unclosed_loop_no_fence) auto
  finally have u: "find_last_unclosed ?rs 0 e = 0" .
  have c: "find_next_closing ?rs e ?n = -1 \<or> m < find_next_closing ?rs e ?n"
    using find_next_closing_late [of e ?k ?rs ?n] fences(2) e h(2) by fastforce
  have he: "find_newline_from ?rs 0 = ?k"
    using find_newline_from_first [of h 0 t] h(1) by (simp add: fence_line_def)
  note tr = split_inside_long_fence(1) [OF assms] and inside = split_inside_long_fence(2) [OF assms]
  have sl: "slice ?rs 0 ?k = h" by (simp add: slice_def)
  have "find_last_newline ?rs 0 0 200 = -1" "find_last_space ?rs 0 0 100 = -1"
    by (simp_all add: find_last_newline_def find_last_space_def find_down.simps)
  then have "split_fence m ?rs 0 e 0 ?l = split_inside ?rs 0 (min (m - 5) ?n) h"
    using c he e l h(2) m tr sl by (auto simp: split_fence_def Let_def)
  moreover have "split_step m ?rs 0 = split_fence m ?rs 0 e 0 ?l"
    using u e1 h(2) e l by (intro split_step_fence_eq [of _ _ _ "-1" e2]) (auto simp: e_def e2_def)
  moreover have "min (m - 5) ?n = m - 5" using h(2) by simp
  ultimately show ?thesis using inside by simp
qed

text \<open>
  The loop never returns on a message that opens with a code fence on a line of at least
  \<open>maxLen\<close> runes: each iteration puts the whole line in front of the rest again, so the text
  to split grows. The message does not have to lack a closing fence.
\<close>

theorem split_message_diverges:
  assumes "fence_line h" "8 \<le> m" "m \<le> int (length h)" "t \<noteq> []" "\<not> is_space_rune (last t)"
  shows "split_message (h @ 10 # t) m = None"
proof (rule ccontr)
  assume "split_message (h @ 10 # t) m \<noteq> None"
  then obtain r where r: "split_loop m (h @ 10 # t) 0 [] = Some r"
    using assms(2) by (auto simp: split_message_def)
  let ?I = "\<lambda>rs s ms. s = 0 \<and> (\<exists>t. rs = h @ 10 # t \<and> t \<noteq> [] \<and> \<not> is_space_rune (last t))"
  have step: "\<exists>c t'. split_step m rs 0 = Next [c] (h @ 10 # t') 0 \<and> t' \<noteq> [] \<and>
      \<not> is_space_rune (last t')" if "?I rs s ms" for rs s and ms :: "rune list list"
  proof -
    from that obtain t where "rs = h @ 10 # t" "t \<noteq> []" "\<not> is_space_rune (last t)" by blast
    then show ?thesis
      using split_step_long_fence [OF assms(1,3,2), of t] by fastforce
  qed
  show False
  proof (rule split_loop_rule [OF r, where I = ?I and Q = "\<lambda>_. False"])
    show "?I (h @ 10 # t) 0 []" using assms by blast
  next
    fix rs s and ms ms' :: "rune list list" and rs' s'
    assume "?I rs s ms" "split_step m rs s = Next ms' rs' s'"
    then show "?I rs' s' (ms @ ms')" using step by fastforce
  next
    fix rs s and ms ms' :: "rune list list"
    assume "?I rs s ms" "split_step m rs s = Finished ms'"
    then show False using step by fastforce
  next
    fix rs s and ms :: "rune list list"
    assume "?I rs s ms" "\<not> s < int (length rs)"
    then show False by auto
  next
    fix rs s and ms :: "rune list list"
    assume "?I rs s ms" "split_step m rs s = SliceBounds"
    then show False using step by fastforce
  qed
qed

theorem split_message_diverges_witness:
  "split_message (([96, 96, 96] @ replicate 10 97) @ 10 # [98, 98]) 10 = None"
  by (rule split_message_diverges)
    (simp_all add: fence_line_def is_space_rune_def)

end
