(* ===== verification/Manager.thy ===== *)
theory Manager
  imports Bus Base_Channel Split
begin

text \<open>
  \<open>pkg/channels/manager.go\<close>: the channel manager. Channels are created from factories, each
  started channel gets a worker with a bounded queue, a dispatcher routes the outbound messages
  of the bus to the queues, workers split and send with retries, and typing indicators and
  reactions registered on the inbound side are undone before a send or by a janitor. A panic of
  the runtime (a send on or a second close of a closed channel) is the result \<open>None\<close>.
  Durations are in milliseconds. Where the code ranges over a map, the order of the iteration
  is an argument.
\<close>

subsection \<open>Typing indicators and reactions\<close>

text \<open>
  A registered function is identified by a number; \<open>sync.Map\<close> keeps one entry per key.
\<close>

type_synonym undo_map = "string \<rightharpoonup> (nat \<times> int)"

record recorder =
  typing_stops :: undo_map
  reaction_undos :: undo_map

definition new_recorder :: recorder where
  "new_recorder = \<lparr>typing_stops = Map.empty, reaction_undos = Map.empty\<rparr>"

definition typing_stop_ttl :: int where
  "typing_stop_ttl = 5 * 60 * 1000"

definition chat_key :: "string \<Rightarrow> string \<Rightarrow> string" where
  "chat_key channel chatID = channel @ '':'' @ chatID"

definition record_typing_stop :: "recorder \<Rightarrow> string \<Rightarrow> string \<Rightarrow> nat \<Rightarrow> int \<Rightarrow> recorder" where
  "record_typing_stop r channel chatID stop now =
    r\<lparr>typing_stops := (typing_stops r)(chat_key channel chatID \<mapsto> (stop, now))\<rparr>"

definition record_reaction_undo :: "recorder \<Rightarrow> string \<Rightarrow> string \<Rightarrow> nat \<Rightarrow> int \<Rightarrow> recorder" where
  "record_reaction_undo r channel chatID undo now =
    r\<lparr>reaction_undos := (reaction_undos r)(chat_key channel chatID \<mapsto> (undo, now))\<rparr>"

text \<open>\<open>LoadAndDelete\<close>: the remaining map and the function to call, if there was an entry.\<close>

definition load_and_delete :: "undo_map \<Rightarrow> string \<Rightarrow> undo_map \<times> nat list" where
  "load_and_delete m key =
    (case m key of None \<Rightarrow> (m, []) | Some (f, _) \<Rightarrow> (m(key := None), [f]))"

text \<open>\<open>preSend\<close>: the functions called are the typing stop and then the reaction undo.\<close>

definition pre_send :: "recorder \<Rightarrow> string \<Rightarrow> string \<Rightarrow> recorder \<times> nat list \<times> nat list" where
  "pre_send r name chatID =
    (let key = chat_key name chatID;
         (ts, stops) = load_and_delete (typing_stops r) key;
         (ru, undos) = load_and_delete (reaction_undos r) key
     in (\<lparr>typing_stops = ts, reaction_undos = ru\<rparr>, stops, undos))"

text \<open>One pass of the janitor over a map whose keys are visited in the order \<open>keys\<close>.\<close>

fun evict :: "int \<Rightarrow> string list \<Rightarrow> undo_map \<Rightarrow> undo_map \<times> nat list" where
  "evict now [] m = (m, [])"
| "evict now (k # ks) m =
    (let (m1, f1) = (case m k of
           Some (f, createdAt) \<Rightarrow> if now - createdAt > typing_stop_ttl then load_and_delete m k else (m, [])
         | None \<Rightarrow> (m, []));
         (m2, f2) = evict now ks m1
     in (m2, f1 @ f2))"

definition janitor_tick :: "int \<Rightarrow> string list \<Rightarrow> string list \<Rightarrow> recorder \<Rightarrow> recorder \<times> nat list \<times> nat list" where
  "janitor_tick now typing_keys reaction_keys r =
    (let (ts, stops) = evict now typing_keys (typing_stops r);
         (ru, undos) = evict now reaction_keys (reaction_undos r)
     in (\<lparr>typing_stops = ts, reaction_undos = ru\<rparr>, stops, undos))"

subsection \<open>Workers\<close>

definition default_channel_queue_size :: nat where "default_channel_queue_size = 16"
definition default_rate_limit :: nat where "default_rate_limit = 10"
definition max_retries :: nat where "max_retries = 3"
definition rate_limit_delay :: nat where "rate_limit_delay = 1000"
definition base_backoff :: nat where "base_backoff = 500"
definition max_backoff :: nat where "max_backoff = 8000"

definition channel_rate_config :: "string \<rightharpoonup> nat" where
  "channel_rate_config = map_of
    [(''telegram'', 20), (''discord'', 1), (''slack'', 1), (''matrix'', 2), (''line'', 10), (''irc'', 2)]"

record channel_worker =
  wk_queue :: "outbound_message go_chan"
  wk_done :: bool
  wk_rate :: nat
  wk_burst :: nat

definition new_channel_worker :: "string \<Rightarrow> channel_worker" where
  "new_channel_worker name =
    (let rateVal = (case channel_rate_config name of Some r \<Rightarrow> r | None \<Rightarrow> default_rate_limit)
     in \<lparr>wk_queue = make_chan default_channel_queue_size, wk_done = False,
         wk_rate = rateVal, wk_burst = max 1 ((rateVal + 1) div 2)\<rparr>)"

text \<open>
  The messages a worker sends for one it receives: messages with media go as they are, others
  are split when they are longer than the limit of the channel. \<open>None\<close> is a split that never
  returns.
\<close>

definition worker_messages ::
  "int \<Rightarrow> outbound_message \<Rightarrow> (split_error + outbound_message list) option" where
  "worker_messages limit msg =
    (let maxLen = (if om_Parts msg = [] then limit else 0);
         content = runes_of (om_Content msg)
     in if maxLen > 0 \<and> int (length content) > maxLen then
          map_option (map_sum id (map (\<lambda>chunk. msg\<lparr>om_Content := string_of_runes chunk\<rparr>)))
            (split_message content maxLen)
        else Some (Inr [msg]))"

datatype send_event = SendCall outbound_message | Delay nat

datatype send_outcome = Delivered | Failed send_error | Abandoned

definition permanent :: "send_error \<Rightarrow> bool" where
  "permanent e \<longleftrightarrow> is_err e ErrNotRunning \<or> is_err e ErrSendFailed"

definition retry_delay :: "send_error \<Rightarrow> nat \<Rightarrow> nat" where
  "retry_delay e attempt =
    (if is_err e ErrRateLimit then rate_limit_delay else min (base_backoff * 2 ^ attempt) max_backoff)"

text \<open>
  The attempts from number \<open>attempt\<close> on. \<open>answers i\<close> is what the i-th \<open>Send\<close> returns and
  \<open>cancelled i\<close> whether the context ends during the delay after it.
\<close>

function send_attempts ::
  "(nat \<Rightarrow> send_error option) \<Rightarrow> (nat \<Rightarrow> bool) \<Rightarrow> outbound_message \<Rightarrow> nat \<Rightarrow>
    send_event list \<times> send_outcome" where
  "send_attempts answers cancelled msg attempt =
    (case answers attempt of
       None \<Rightarrow> ([SendCall msg], Delivered)
     | Some e \<Rightarrow>
         if permanent e then ([SendCall msg], Failed e)
         else if attempt \<ge> max_retries then ([SendCall msg], Failed e)
         else if cancelled attempt then ([SendCall msg, Delay (retry_delay e attempt)], Abandoned)
         else let (evs, res) = send_attempts answers cancelled msg (Suc attempt)
              in (SendCall msg # Delay (retry_delay e attempt) # evs, res))"
  by pat_completeness auto
termination
  by (relation "measure (\<lambda>(_, _, _, attempt). max_retries - attempt)") auto

declare send_attempts.simps [simp del]

text \<open>
  \<open>sendWithRetry\<close>: \<open>waited\<close> says whether the rate limiter granted a token before the context
  ended. The functions called by \<open>preSend\<close> come before every attempt.
\<close>

definition send_with_retry ::
  "bool \<Rightarrow> (nat \<Rightarrow> send_error option) \<Rightarrow> (nat \<Rightarrow> bool) \<Rightarrow> recorder \<Rightarrow> string \<Rightarrow> outbound_message \<Rightarrow>
    recorder \<times> nat list \<times> nat list \<times> send_event list \<times> send_outcome" where
  "send_with_retry waited answers cancelled r name msg =
    (if \<not> waited then (r, [], [], [], Abandoned)
     else let (r', stops, undos) = pre_send r name (om_ChatID msg);
              (evs, res) = send_attempts answers cancelled msg 0
          in (r', stops, undos, evs, res))"

subsection \<open>The retry policy\<close>

definition sends :: "send_event list \<Rightarrow> nat" where
  "sends evs = length (filter (\<lambda>e. case e of SendCall _ \<Rightarrow> True | Delay _ \<Rightarrow> False) evs)"

definition delays :: "send_event list \<Rightarrow> nat" where
  "delays evs = sum_list (map (\<lambda>e. case e of SendCall _ \<Rightarrow> 0 | Delay d \<Rightarrow> d) evs)"

lemma sends_simps [simp]:
  "sends [] = 0" "sends (SendCall m # evs) = Suc (sends evs)" "sends (Delay d # evs) = sends evs"
  by (simp_all add: sends_def)

lemma delays_simps [simp]:
  "delays [] = 0" "delays (SendCall m # evs) = delays evs" "delays (Delay d # evs) = d + delays evs"
  by (simp_all add: delays_def)

definition retried :: "(nat \<Rightarrow> send_error option) \<Rightarrow> (nat \<Rightarrow> bool) \<Rightarrow> nat \<Rightarrow> bool" where
  "retried answers cancelled i \<longleftrightarrow>
    (case answers i of Some e \<Rightarrow> \<not> permanent e \<and> \<not> cancelled i | None \<Rightarrow> False)"

text \<open>What the attempts from number \<open>a\<close> on amount to, \<open>last\<close> being the number of the last one.\<close>

lemma send_attempts_spec:
  assumes "send_attempts answers cancelled msg a = (evs, res)" and "a \<le> max_retries"
  shows "\<exists>last. a \<le> last \<and> last \<le> max_retries \<and> sends evs = Suc last - a \<and>
    (\<forall>i. a \<le> i \<and> i < last \<longrightarrow> retried answers cancelled i) \<and>
    (\<forall>m. SendCall m \<in> set evs \<longrightarrow> m = msg) \<and>
    (case res of
       Delivered \<Rightarrow> answers last = None
     | Failed e \<Rightarrow> answers last = Some e \<and> (permanent e \<or> last = max_retries)
     | Abandoned \<Rightarrow> cancelled last \<and> (\<exists>e. answers last = Some e \<and> \<not> permanent e))"
  using assms
proof (induction answers cancelled msg a arbitrary: evs res rule: send_attempts.induct)
  case (1 answers cancelled msg a)
  show ?case
  proof (cases "answers a")
    case None
    with 1 show ?thesis by (intro exI [of _ a]) (auto simp: send_attempts.simps [of _ _ _ a])
  next
    case (Some e)
    show ?thesis
    proof (cases "permanent e \<or> a \<ge> max_retries \<or> cancelled a")
      case True
      with Some 1 show ?thesis
        by (intro exI [of _ a]) (auto simp: send_attempts.simps [of _ _ _ a] split: if_splits)
    next
      case False
      obtain evs' where rec: "send_attempts answers cancelled msg (Suc a) = (evs', res)"
        and evs: "evs = SendCall msg # Delay (retry_delay e a) # evs'"
        using 1(2) Some False by (auto simp: send_attempts.simps [of _ _ _ a] split: prod.splits)
      have "retried answers cancelled a"
        using Some False by (simp add: retried_def)
      moreover obtain last where "Suc a \<le> last" "last \<le> max_retries" "sends evs' = Suc last - Suc a"
        "\<forall>i. Suc a \<le> i \<and> i < last \<longrightarrow> retried answers cancelled i"
        "\<forall>m. SendCall m \<in> set evs' \<longrightarrow> m = msg"
        "case res of Delivered \<Rightarrow> answers last = None
         | Failed e \<Rightarrow> answers last = Some e \<and> (permanent e \<or> last = max_retries)
         | Abandoned \<Rightarrow> cancelled last \<and> (\<exists>e. answers last = Some e \<and> \<not> permanent e)"
        using 1(1) [OF Some _ _ _ rec] False by auto
      ultimately have "\<forall>i. a \<le> i \<and> i < last \<longrightarrow> retried answers cancelled i"
        by (metis Suc_leI le_neq_implies_less)
      with \<open>Suc a \<le> last\<close> \<open>last \<le> max_retries\<close> \<open>sends evs' = _\<close> \<open>\<forall>m. SendCall m \<in> set evs' \<longrightarrow> _\<close>
        \<open>case res of Delivered \<Rightarrow> _ | Failed e \<Rightarrow> _ e | Abandoned \<Rightarrow> _\<close>
      show ?thesis
        using evs by (intro exI [of _ last]) auto
    qed
  qed
qed

text \<open>Every delay is bounded by that of its attempt.\<close>

lemma retry_delay_bound: "retry_delay e a \<le> max rate_limit_delay (base_backoff * 2 ^ a)"
  by (auto simp: retry_delay_def min_def max_def)

lemma send_attempts_delays:
  "a \<le> max_retries \<Longrightarrow> delays (fst (send_attempts answers cancelled msg a)) \<le>
    (\<Sum>i \<in> {a..<max_retries}. max rate_limit_delay (base_backoff * 2 ^ i))"
proof (induction answers cancelled msg a rule: send_attempts.induct)
  case (1 answers cancelled msg a)
  show ?case
  proof (cases "\<exists>e. answers a = Some e \<and> \<not> permanent e \<and> a < max_retries")
    case False
    then show ?thesis
      by (auto simp: send_attempts.simps [of _ _ _ a] split: option.splits)
  next
    case True
    then obtain e where e: "answers a = Some e" "\<not> permanent e" "a < max_retries" by blast
    have "(\<Sum>i \<in> {a..<max_retries}. max rate_limit_delay (base_backoff * 2 ^ i)) =
        max rate_limit_delay (base_backoff * 2 ^ a) +
        (\<Sum>i \<in> {Suc a..<max_retries}. max rate_limit_delay (base_backoff * 2 ^ i))"
      using e(3) by (simp add: sum.atLeast_Suc_lessThan)
    moreover have "delays (fst (send_attempts answers cancelled msg (Suc a))) \<le>
        (\<Sum>i \<in> {Suc a..<max_retries}. max rate_limit_delay (base_backoff * 2 ^ i))" if "\<not> cancelled a"
      by (rule 1(1) [OF e(1,2)]) (use e(3) that in auto)
    ultimately show ?thesis
      using e retry_delay_bound [of e a]
      by (cases "cancelled a") (auto simp: send_attempts.simps [of _ _ _ a] split: prod.splits)
  qed
qed

text \<open>
  C24. A message is sent at most four times, never again after a send that succeeded, failed
  for good or was followed by the end of the context; a failure is reported only for a
  permanent error or after the fourth attempt; and the delays add up to at most four seconds.
  Nothing is sent when the rate limiter was interrupted.
\<close>

theorem send_with_retry_policy:
  assumes "send_with_retry waited answers cancelled r name msg = (r', stops, undos, evs, res)"
  shows "sends evs \<le> 4 \<and> delays evs \<le> 4000 \<and> (\<forall>m. SendCall m \<in> set evs \<longrightarrow> m = msg) \<and>
    (\<forall>i. Suc i < sends evs \<longrightarrow> retried answers cancelled i) \<and>
    (case res of
       Delivered \<Rightarrow> sends evs > 0 \<and> answers (sends evs - 1) = None
     | Failed e \<Rightarrow> sends evs > 0 \<and> answers (sends evs - 1) = Some e \<and> (permanent e \<or> sends evs = 4)
     | Abandoned \<Rightarrow> if waited then cancelled (sends evs - 1) else evs = [] \<and> r' = r)"
proof (cases waited)
  case False
  with assms show ?thesis by (simp add: send_with_retry_def)
next
  case True
  then have run: "send_attempts answers cancelled msg 0 = (evs, res)"
    using assms by (auto simp: send_with_retry_def split: prod.splits)
  obtain last where "last \<le> max_retries" "sends evs = Suc last"
    "\<forall>i < last. retried answers cancelled i" "\<forall>m. SendCall m \<in> set evs \<longrightarrow> m = msg"
    "case res of Delivered \<Rightarrow> answers last = None
     | Failed e \<Rightarrow> answers last = Some e \<and> (permanent e \<or> last = max_retries)
     | Abandoned \<Rightarrow> cancelled last \<and> (\<exists>e. answers last = Some e \<and> \<not> permanent e)"
    using send_attempts_spec [OF run] by auto
  moreover have "delays evs \<le> 4000"
    using send_attempts_delays [of 0 answers cancelled msg] run
    by (simp add: max_retries_def rate_limit_delay_def base_backoff_def numeral_3_eq_3)
  ultimately show ?thesis
    using True by (auto simp: max_retries_def split: send_outcome.splits)
qed

definition sample_outbound :: outbound_message where
  "sample_outbound = \<lparr>om_Channel = ''irc'', om_ChatID = ''c'', om_Content = ''hi'', om_Parts = []\<rparr>"

theorem send_with_retry_policy_witness:
  "sends (fst (send_attempts (\<lambda>i. if i < 2 then Some (OtherError ''x'') else None) (\<lambda>_. False)
     sample_outbound 0)) = 3"
proof -
  let ?a = "\<lambda>i::nat. if i < 2 then Some (OtherError ''x'') else None"
  obtain evs res where r: "send_attempts ?a (\<lambda>_. False) sample_outbound 0 = (evs, res)" by force
  then have run: "send_with_retry True ?a (\<lambda>_. False) new_recorder ''irc'' sample_outbound =
      (new_recorder, [], [], evs, res)"
    by (simp add: send_with_retry_def pre_send_def new_recorder_def load_and_delete_def)
  have "res = Delivered"
    using r by (auto simp: send_attempts.simps permanent_def max_retries_def)
  with send_with_retry_policy [OF run] have "sends evs > 0" "\<not> sends evs - 1 < 2"
    "\<forall>i. Suc i < sends evs \<longrightarrow> retried ?a (\<lambda>_. False) i"
    by (auto split: if_splits)
  then have "sends evs = 3"
    by (auto simp: retried_def split: if_splits dest!: spec [of _ 2])
  with r show ?thesis by simp
qed

subsection \<open>What a worker sends\<close>

text \<open>
  For a channel with a limit, every message a worker sends without media has at most that
  many runes, and it differs from the message the worker received in its content only.
\<close>

theorem worker_messages_limit:
  assumes "worker_messages limit msg = Some (Inr msgs)" and "0 < limit" and "om_Parts msg = []"
  shows "\<forall>m \<in> set msgs. int (length (runes_of (om_Content m))) \<le> limit \<and>
    om_Channel m = om_Channel msg \<and> om_ChatID m = om_ChatID msg \<and> om_Parts m = []"
proof (cases "int (length (runes_of (om_Content msg))) > limit")
  case False
  with assms have "msgs = [msg]" by (auto simp: worker_messages_def)
  with False assms(3) show ?thesis by simp
next
  case True
  then obtain chunks where c: "split_message (runes_of (om_Content msg)) limit = Some (Inr chunks)"
    and msgs: "msgs = map (\<lambda>chunk. msg\<lparr>om_Content := string_of_runes chunk\<rparr>) chunks"
  proof -
    obtain z where "split_message (runes_of (om_Content msg)) limit = Some z"
      and "map_sum id (map (\<lambda>chunk. msg\<lparr>om_Content := string_of_runes chunk\<rparr>)) z = Inr msgs"
      using True assms by (auto simp: worker_messages_def)
    then show thesis using that by (cases z) auto
  qed
  from assms(3) show ?thesis
    using split_message_chunks [OF c assms(2)] by (auto simp: msgs runes_of_string_of_runes)
qed

theorem worker_messages_limit_witness:
  "worker_messages 4 (sample_outbound\<lparr>om_Content := ''ab cd''\<rparr>) =
    Some (Inr [sample_outbound\<lparr>om_Content := ''ab''\<rparr>, sample_outbound\<lparr>om_Content := ''cd''\<rparr>]) \<and>
   int (length (runes_of ''ab'')) \<le> 4"
proof -
  have "split_message [97, 98, 32, 99, 100] 4 = Some (Inr [[97, 98], [99, 100]])"
    by (simp add: split_message_def split_loop.simps split_step_def effective_limit_def
        find_last_newline_def find_last_space_def find_last_unclosed_def find_down.simps
        unclosed_loop.simps fence_at_def emit_def slice_def skip_ws_def is_ws_def Let_def)
  moreover have "runes_of ''ab cd'' = [97, 98, 32, 99, 100]" by code_simp
  moreover have "string_of_runes [97, 98] = ''ab'' \<and> string_of_runes [99, 100] = ''cd''"
    using string_of_runes_ascii [of "''ab''"] string_of_runes_ascii [of "''cd''"]
    by (simp add: is_ascii_def del: string_of_runes_simps)
  ultimately have w: "worker_messages 4 (sample_outbound\<lparr>om_Content := ''ab cd''\<rparr>) =
    Some (Inr [sample_outbound\<lparr>om_Content := ''ab''\<rparr>, sample_outbound\<lparr>om_Content := ''cd''\<rparr>])"
    by (simp add: worker_messages_def sample_outbound_def del: runes_of.simps string_of_runes_simps)
  from worker_messages_limit [OF this] have "int (length (runes_of ''ab'')) \<le> 4"
    by (simp add: sample_outbound_def del: runes_of.simps)
  with w show ?thesis by simp
qed

subsection \<open>Typing indicators and reactions have one contract\<close>

text \<open>What happens to a registry of undo functions.\<close>

datatype undo_op =
    Register string string nat int
  | Send string string
  | Sweep int "string list"

text \<open>
  A registry, the functions that were called and those whose entry was replaced by a newer one
  before they were called.
\<close>

definition undo_step ::
  "('s \<Rightarrow> string \<Rightarrow> string \<Rightarrow> nat \<Rightarrow> int \<Rightarrow> 's) \<Rightarrow> ('s \<Rightarrow> string \<Rightarrow> string \<Rightarrow> 's \<times> nat list) \<Rightarrow>
   (int \<Rightarrow> string list \<Rightarrow> 's \<Rightarrow> 's \<times> nat list) \<Rightarrow> ('s \<Rightarrow> undo_map) \<Rightarrow>
   undo_op \<Rightarrow> 's \<times> nat list \<times> nat list \<Rightarrow> 's \<times> nat list \<times> nat list" where
  "undo_step recordf takef sweepf entries x = (\<lambda>(s, called, replaced).
    case x of
      Register ch chat f now \<Rightarrow>
        (recordf s ch chat f now, called,
         replaced @ (case entries s (chat_key ch chat) of Some (g, _) \<Rightarrow> [g] | None \<Rightarrow> []))
    | Send ch chat \<Rightarrow> (let (s', fs) = takef s ch chat in (s', called @ fs, replaced))
    | Sweep now ks \<Rightarrow> (let (s', fs) = sweepf now ks s in (s', called @ fs, replaced)))"

definition registered :: "undo_op list \<Rightarrow> nat list" where
  "registered xs = List.map_filter (\<lambda>x. case x of Register _ _ f _ \<Rightarrow> Some f | _ \<Rightarrow> None) xs"

definition live :: "undo_map \<Rightarrow> nat set" where
  "live m = {f. \<exists>k t. m k = Some (f, t)}"

text \<open>Each function is in one place, and every place holds registered functions.\<close>

definition entries_inj :: "undo_map \<Rightarrow> bool" where
  "entries_inj m \<longleftrightarrow> (\<forall>k k' f t t'. m k = Some (f, t) \<longrightarrow> m k' = Some (f, t') \<longrightarrow> k = k')"

definition accounted :: "nat list \<Rightarrow> undo_map \<Rightarrow> nat list \<Rightarrow> nat list \<Rightarrow> bool" where
  "accounted reg m called replaced \<longleftrightarrow>
    distinct (called @ replaced) \<and> live m \<inter> set (called @ replaced) = {} \<and> entries_inj m \<and>
    set reg = live m \<union> set called \<union> set replaced"

lemma live_delete:
  "entries_inj m \<Longrightarrow> m k = Some (f, t) \<Longrightarrow>
    live m = insert f (live (m(k := None))) \<and> f \<notin> live (m(k := None))"
  unfolding live_def entries_inj_def
  by (auto split: if_splits) (metis option.inject prod.inject)+

lemma live_update: "live (m(k \<mapsto> (f, t))) = insert f (live (m(k := None)))"
  by (auto simp: live_def)

lemma live_absent: "m k = None \<Longrightarrow> live (m(k := None)) = live m"
  by (simp add: fun_upd_idem)

lemma entries_inj_delete: "entries_inj m \<Longrightarrow> entries_inj (m(k := None))"
  unfolding entries_inj_def by auto

lemma entries_inj_update:
  "entries_inj m \<Longrightarrow> f \<notin> live (m(k := None)) \<Longrightarrow> entries_inj (m(k \<mapsto> (f, t)))"
  unfolding entries_inj_def live_def by (auto split: if_splits)

locale undo_registry =
  fixes recordf :: "'s \<Rightarrow> string \<Rightarrow> string \<Rightarrow> nat \<Rightarrow> int \<Rightarrow> 's"
    and takef :: "'s \<Rightarrow> string \<Rightarrow> string \<Rightarrow> 's \<times> nat list"
    and sweepf :: "int \<Rightarrow> string list \<Rightarrow> 's \<Rightarrow> 's \<times> nat list"
    and entries :: "'s \<Rightarrow> undo_map"
  assumes record_entries: "entries (recordf s ch chat f now) = (entries s)(chat_key ch chat \<mapsto> (f, now))"
    and take_load: "takef s ch chat = (s', fs) \<Longrightarrow>
      load_and_delete (entries s) (chat_key ch chat) = (entries s', fs)"
    and sweep_evict: "sweepf now ks s = (s', fs) \<Longrightarrow> evict now ks (entries s) = (entries s', fs)"
begin

lemma load_accounted:
  assumes "load_and_delete m k = (m', fs)" and "accounted reg m called replaced"
  shows "accounted reg m' (called @ fs) replaced"
proof (cases "m k")
  case None
  with assms show ?thesis by (simp add: load_and_delete_def)
next
  case (Some ft)
  obtain f t where ft: "ft = (f, t)" by force
  with Some assms(1) have m': "m' = m(k := None)" and fs: "fs = [f]"
    by (auto simp: load_and_delete_def)
  show ?thesis
    using live_delete [of m k f t] entries_inj_delete [of m k] Some ft assms(2)
    by (auto simp: accounted_def m' fs simp del: fun_upd_apply)
qed

lemma evict_accounted:
  "evict now ks m = (m', fs) \<Longrightarrow> accounted reg m called replaced \<Longrightarrow>
    accounted reg m' (called @ fs) replaced"
proof (induction ks arbitrary: m fs called)
  case (Cons k ks)
  obtain m1 f1 f2 where s: "(case m k of Some (f, createdAt) \<Rightarrow>
        if now - createdAt > typing_stop_ttl then load_and_delete m k else (m, [])
      | None \<Rightarrow> (m, [])) = (m1, f1)" and r: "evict now ks m1 = (m', f2)" and "fs = f1 @ f2"
    using Cons.prems(1) by (auto simp: Let_def split: prod.splits)
  moreover have "accounted reg m1 (called @ f1) replaced"
    using s Cons.prems(2) by (auto split: option.splits if_splits dest: load_accounted)
  ultimately show ?case
    using Cons.IH [OF r, of "called @ f1"] by simp
qed simp

lemma register_accounted:
  assumes "accounted reg m called replaced" and "f \<notin> set reg"
  shows "accounted (reg @ [f]) (m(k \<mapsto> (f, now))) called
    (replaced @ (case m k of Some (g, _) \<Rightarrow> [g] | None \<Rightarrow> []))"
proof (cases "m k")
  case None
  with assms show ?thesis
    using live_update [of m k f now] live_absent [of m k] entries_inj_update [of m f k now]
    by (auto simp: accounted_def simp del: fun_upd_apply)
next
  case (Some gt)
  obtain g t where gt: "gt = (g, t)" by force
  with Some assms show ?thesis
    using live_update [of m k f now] live_delete [of m k g t] entries_inj_update [of m f k now]
    by (auto simp: accounted_def simp del: fun_upd_apply)
qed

lemma step_accounted:
  assumes "accounted reg (entries s) called replaced"
    and "undo_step recordf takef sweepf entries x (s, called, replaced) = (s', called', replaced')"
    and "distinct (reg @ registered [x])"
  shows "accounted (reg @ registered [x]) (entries s') called' replaced'"
proof (cases x)
  case (Register ch chat f now)
  with assms show ?thesis
    by (auto simp: undo_step_def registered_def map_filter_def record_entries intro: register_accounted)
next
  case (Send ch chat)
  with assms show ?thesis
    by (auto simp: undo_step_def registered_def map_filter_def
        intro: load_accounted dest: take_load split: prod.splits)
next
  case (Sweep now ks)
  with assms show ?thesis
    by (auto simp: undo_step_def registered_def map_filter_def
        intro: evict_accounted dest: sweep_evict split: prod.splits)
qed

lemma run_accounted:
  assumes "accounted reg (entries s) called replaced"
    and "fold (undo_step recordf takef sweepf entries) xs (s, called, replaced) = (s', called', replaced')"
    and "distinct (reg @ registered xs)"
  shows "accounted (reg @ registered xs) (entries s') called' replaced'"
  using assms
proof (induction xs arbitrary: reg s called replaced)
  case Nil
  then show ?case by (simp add: registered_def map_filter_def)
next
  case (Cons x xs)
  obtain s1 c1 r1 where st: "undo_step recordf takef sweepf entries x (s, called, replaced) = (s1, c1, r1)"
    by (metis surj_pair)
  have reg: "registered (x # xs) = registered [x] @ registered xs"
    by (simp add: registered_def map_filter_def)
  with Cons.prems have "accounted (reg @ registered [x]) (entries s1) c1 r1"
    by (intro step_accounted [OF _ st]) auto
  with Cons.IH [OF this] Cons.prems st reg show ?case by simp
qed

text \<open>What was replaced stays on the list of the replaced.\<close>

lemma run_replaced:
  "fold (undo_step recordf takef sweepf entries) xs (s, called, replaced) = (s', called', replaced') \<Longrightarrow>
    set replaced \<subseteq> set replaced'"
proof (induction xs arbitrary: s called replaced)
  case (Cons x xs)
  obtain s1 c1 r1 where st: "undo_step recordf takef sweepf entries x (s, called, replaced) = (s1, c1, r1)"
    by (metis surj_pair)
  then have "set replaced \<subseteq> set r1"
    by (auto simp: undo_step_def split: undo_op.splits prod.splits)
  with Cons.IH Cons.prems st show ?case by fastforce
qed simp

end

subsection \<open>The registries of the manager\<close>

definition typing_take :: "recorder \<Rightarrow> string \<Rightarrow> string \<Rightarrow> recorder \<times> nat list" where
  "typing_take r name chatID = (let (r', stops, _) = pre_send r name chatID in (r', stops))"

definition typing_sweep :: "int \<Rightarrow> string list \<Rightarrow> recorder \<Rightarrow> recorder \<times> nat list" where
  "typing_sweep now ks r = (let (r', stops, _) = janitor_tick now ks ks r in (r', stops))"

definition reaction_take :: "recorder \<Rightarrow> string \<Rightarrow> string \<Rightarrow> recorder \<times> nat list" where
  "reaction_take r name chatID = (let (r', _, undos) = pre_send r name chatID in (r', undos))"

definition reaction_sweep :: "int \<Rightarrow> string list \<Rightarrow> recorder \<Rightarrow> recorder \<times> nat list" where
  "reaction_sweep now ks r = (let (r', _, undos) = janitor_tick now ks ks r in (r', undos))"

interpretation ty: undo_registry record_typing_stop typing_take typing_sweep typing_stops
  by unfold_locales
    (auto simp: record_typing_stop_def typing_take_def typing_sweep_def pre_send_def janitor_tick_def
      Let_def split: prod.splits)

interpretation re: undo_registry record_reaction_undo reaction_take reaction_sweep reaction_undos
  by unfold_locales
    (auto simp: record_reaction_undo_def reaction_take_def reaction_sweep_def pre_send_def
      janitor_tick_def Let_def split: prod.splits)

definition typing_step :: "undo_op \<Rightarrow> recorder \<times> nat list \<times> nat list \<Rightarrow> recorder \<times> nat list \<times> nat list" where
  "typing_step = undo_step record_typing_stop typing_take typing_sweep typing_stops"

definition reaction_step :: "undo_op \<Rightarrow> recorder \<times> nat list \<times> nat list \<Rightarrow> recorder \<times> nat list \<times> nat list" where
  "reaction_step = undo_step record_reaction_undo reaction_take reaction_sweep reaction_undos"

lemma accounted_init: "accounted [] Map.empty [] []"
  by (simp add: accounted_def live_def entries_inj_def)

lemma new_recorder_entries [simp]:
  "typing_stops new_recorder = Map.empty" "reaction_undos new_recorder = Map.empty"
  by (simp_all add: new_recorder_def)


lemmas undo_step_defs = typing_step_def reaction_step_def undo_step_def record_typing_stop_def
  record_reaction_undo_def typing_take_def reaction_take_def pre_send_def load_and_delete_def
  registered_def map_filter_def chat_key_def new_recorder_def


text \<open>
  When two messages of one chat arrive before the first is answered, the stop function of
  the first typing indicator is dropped: no later send or janitor pass calls it.
\<close>

theorem typing_stop_lost:
  "1 \<notin> set (fst (snd (fold typing_step
    ([Register ''telegram'' ''c'' 1 0, Register ''telegram'' ''c'' 2 1] @
      filter (\<lambda>x. registered [x] = []) later) (new_recorder, [], []))))"
proof -
  let ?r = "new_recorder\<lparr>typing_stops := [chat_key ''telegram'' ''c'' \<mapsto> (2, 1)]\<rparr>"
  let ?xs = "filter (\<lambda>x. registered [x] = []) later"
  have none: "registered ?xs = []"
    by (induction later) (auto simp: registered_def map_filter_def split: undo_op.splits)
  have run: "fold typing_step [Register ''telegram'' ''c'' 1 0, Register ''telegram'' ''c'' 2 1]
      (new_recorder, [], []) = (?r, [], [1])"
    by (simp add: undo_step_defs)
  have acc: "accounted [1, 2] (typing_stops ?r) [] [1]"
    by (auto simp: accounted_def live_def entries_inj_def split: if_splits)
  obtain r' stopped lost where res: "fold typing_step ?xs (?r, [], [1]) = (r', stopped, lost)"
    by (metis surj_pair)
  then have "distinct (stopped @ lost)" and "1 \<in> set lost"
    using ty.run_accounted [OF acc, of ?xs] ty.run_replaced [of ?xs ?r "[]" "[1]"] none
    by (auto simp: typing_step_def accounted_def)
  with run res show ?thesis by auto
qed

end
