(* ===== verification/Manager_Lifecycle.thy ===== *)
theory Manager_Lifecycle
  imports Manager
begin

text \<open>
  The second half of \<open>pkg/channels/manager.go\<close>: which channels are created, starting and
  stopping them, and the dispatcher that moves messages from the bus to the worker queues,
  interleaved with the workers and with a stop. \<open>None\<close> is a runtime panic.
\<close>

subsection \<open>Creating channels\<close>

record manager =
  mg_channels :: "string \<rightharpoonup> base_channel"
  mg_workers :: "string \<rightharpoonup> channel_worker"
  mg_mediaStore :: bool
  mg_dispatchTask :: bool
  mg_httpServer :: bool

text \<open>The settings of \<open>config.Channels\<close> that decide which channels are enabled.\<close>

record channels_config =
  tg_Enabled :: bool
  tg_Token :: string
  wa_Enabled :: bool
  wa_UseNative :: bool
  wa_BridgeURL :: string
  dc_Enabled :: bool
  dc_Token :: string
  sl_Enabled :: bool
  sl_BotToken :: string
  mx_Enabled :: bool
  mx_Homeserver :: string
  mx_UserID :: string
  mx_AccessToken :: string
  ln_Enabled :: bool
  ln_ChannelAccessToken :: string
  irc_Enabled :: bool
  irc_Server :: string

text \<open>A factory fails or gives a channel with what its concrete type offers.\<close>

type_synonym channel_factory = "channels_config \<Rightarrow> string + (base_channel \<times> channel_owner)"

definition init_channel ::
  "(string \<rightharpoonup> channel_factory) \<Rightarrow> channels_config \<Rightarrow> string \<Rightarrow> manager \<Rightarrow> manager" where
  "init_channel factories cfg name m =
    (case get_factory factories name of
       None \<Rightarrow> m
     | Some f \<Rightarrow>
         (case f cfg of
            Inl _ \<Rightarrow> m
          | Inr (ch, ow) \<Rightarrow>
              let ch1 = (if mg_mediaStore m then ch\<lparr>bc_mediaStore := True\<rparr> else ch);
                  ch2 = ch1\<lparr>bc_stateRecorder := True, bc_owner := Some ow\<rparr>
              in m\<lparr>mg_channels := (mg_channels m)(name \<mapsto> ch2)\<rparr>))"

definition enabled_channels :: "channels_config \<Rightarrow> string list" where
  "enabled_channels c =
    (if tg_Enabled c \<and> tg_Token c \<noteq> [] then [''telegram''] else []) @
    (if wa_Enabled c then
       (if wa_UseNative c then [''whatsapp_native'']
        else if wa_BridgeURL c \<noteq> [] then [''whatsapp''] else [])
     else []) @
    (if dc_Enabled c \<and> dc_Token c \<noteq> [] then [''discord''] else []) @
    (if sl_Enabled c \<and> sl_BotToken c \<noteq> [] then [''slack''] else []) @
    (if mx_Enabled c \<and> mx_Homeserver c \<noteq> [] \<and> mx_UserID c \<noteq> [] \<and> mx_AccessToken c \<noteq> []
     then [''matrix''] else []) @
    (if ln_Enabled c \<and> ln_ChannelAccessToken c \<noteq> [] then [''line''] else []) @
    (if irc_Enabled c \<and> irc_Server c \<noteq> [] then [''irc''] else [])"

definition new_manager :: "(string \<rightharpoonup> channel_factory) \<Rightarrow> channels_config \<Rightarrow> bool \<Rightarrow> manager" where
  "new_manager factories cfg store =
    fold (init_channel factories cfg) (enabled_channels cfg)
      \<lparr>mg_channels = Map.empty, mg_workers = Map.empty, mg_mediaStore = store,
       mg_dispatchTask = False, mg_httpServer = False\<rparr>"

subsection \<open>Starting and stopping\<close>

text \<open>
  \<open>order\<close> is the order in which the map of channels is visited, \<open>start_ok\<close> whether a channel
  starts.
\<close>

definition start_worker :: "(string \<Rightarrow> bool) \<Rightarrow> string \<Rightarrow> manager \<Rightarrow> manager" where
  "start_worker start_ok name m =
    (if mg_channels m name \<noteq> None \<and> start_ok name
     then m\<lparr>mg_workers := (mg_workers m)(name \<mapsto> new_channel_worker name)\<rparr> else m)"

definition start_all :: "string list \<Rightarrow> (string \<Rightarrow> bool) \<Rightarrow> manager \<Rightarrow> string + manager" where
  "start_all order start_ok m =
    (if order = [] then Inl ''no channels enabled''
     else Inr (fold (start_worker start_ok) order (m\<lparr>mg_dispatchTask := True\<rparr>)))"

definition close_worker :: "string \<Rightarrow> manager \<Rightarrow> manager option" where
  "close_worker name m =
    (case mg_workers m name of
       None \<Rightarrow> Some m
     | Some w \<Rightarrow> map_option (\<lambda>q. m\<lparr>mg_workers := (mg_workers m)(name \<mapsto> w\<lparr>wk_queue := q\<rparr>)\<rparr>)
         (chan_close (wk_queue w)))"

fun close_workers :: "string list \<Rightarrow> manager \<Rightarrow> manager option" where
  "close_workers [] m = Some m"
| "close_workers (n # ns) m = (case close_worker n m of None \<Rightarrow> None | Some m' \<Rightarrow> close_workers ns m')"

text \<open>
  \<open>StopAll\<close>: cancel the dispatcher, close every worker queue and wait for the workers, which
  end because the context is cancelled or their queue is closed. The workers stay in the map.
\<close>

definition await_worker :: "string \<Rightarrow> manager \<Rightarrow> manager" where
  "await_worker name m =
    (case mg_workers m name of
       None \<Rightarrow> m
     | Some w \<Rightarrow> m\<lparr>mg_workers := (mg_workers m)(name \<mapsto> w\<lparr>wk_done := True\<rparr>)\<rparr>)"

definition stop_all :: "string list \<Rightarrow> manager \<Rightarrow> manager option" where
  "stop_all order m =
    map_option (fold await_worker order)
      (close_workers order (m\<lparr>mg_httpServer := False, mg_dispatchTask := False\<rparr>))"

definition register_channel :: "string \<Rightarrow> base_channel \<Rightarrow> manager \<Rightarrow> manager" where
  "register_channel name ch m = m\<lparr>mg_channels := (mg_channels m)(name \<mapsto> ch)\<rparr>"

definition unregister_channel :: "string \<Rightarrow> manager \<Rightarrow> manager option" where
  "unregister_channel name m =
    map_option (\<lambda>m'. m'\<lparr>mg_workers := (mg_workers m')(name := None),
                      mg_channels := (mg_channels m')(name := None)\<rparr>)
      (close_worker name m)"

definition get_channel :: "manager \<Rightarrow> string \<Rightarrow> base_channel option" where
  "get_channel m name = mg_channels m name"

definition get_status :: "string list \<Rightarrow> manager \<Rightarrow> (string \<times> bool) list" where
  "get_status order m =
    List.map_filter (\<lambda>n. map_option (\<lambda>ch. (n, bc_running ch)) (mg_channels m n)) order"

datatype direct_send =
    Queued manager
  | QueueFull
  | SendCancelled
  | ChannelNotFound
  | DirectSend outbound_message
  | SendPanic

text \<open>
  \<open>SendToChannel\<close>: with a worker the message goes to its queue, unless the context ends while
  the queue is full; \<open>QueueFull\<close> is a call that is still waiting.
\<close>

definition send_to_channel ::
  "manager \<Rightarrow> bool \<Rightarrow> string \<Rightarrow> string \<Rightarrow> string \<Rightarrow> direct_send" where
  "send_to_channel m cancelled name chatID content =
    (let msg = \<lparr>om_Channel = name, om_ChatID = chatID, om_Content = content, om_Parts = []\<rparr> in
     if mg_channels m name = None then ChannelNotFound
     else case mg_workers m name of
       Some w \<Rightarrow>
         (case chan_send (wk_queue w) msg of
            Sent q \<Rightarrow> Queued (m\<lparr>mg_workers := (mg_workers m)(name \<mapsto> w\<lparr>wk_queue := q\<rparr>)\<rparr>)
          | SendBlocks \<Rightarrow> if cancelled then SendCancelled else QueueFull
          | SendPanics \<Rightarrow> SendPanic)
     | None \<Rightarrow> DirectSend msg)"

subsection \<open>The dispatcher\<close>

datatype dispatcher =
    Subscribing
  | Enqueueing string outbound_message
  | DispatcherStopped
  | DispatcherPanicked

text \<open>
  A run: the dispatcher, whether its context is cancelled, the outbound queue of the bus, and
  what was published, what each worker queue accepted and what each worker took out.
\<close>

record dispatch_run =
  dr_manager :: manager
  dr_dispatcher :: dispatcher
  dr_cancelled :: bool
  dr_outbound :: "outbound_message go_chan"
  dr_published :: "outbound_message list"
  dr_subscribed :: "outbound_message list"
  dr_queued :: "string \<Rightarrow> outbound_message list"
  dr_handled :: "string \<Rightarrow> outbound_message list"

definition routable :: "manager \<Rightarrow> string \<Rightarrow> bool" where
  "routable m name \<longleftrightarrow>
    \<not> is_internal_channel name \<and> mg_channels m name \<noteq> None \<and> mg_workers m name \<noteq> None"

definition dispatch_subscribe :: "dispatch_run \<Rightarrow> dispatch_run option" where
  "dispatch_subscribe s =
    (if dr_dispatcher s \<noteq> Subscribing then None
     else case try_recv (dr_outbound s) of
       None \<Rightarrow> None
     | Some (msg, q) \<Rightarrow>
         Some (s\<lparr>dr_outbound := q, dr_subscribed := dr_subscribed s @ [msg],
                 dr_dispatcher := (if routable (dr_manager s) (om_Channel msg)
                                   then Enqueueing (om_Channel msg) msg else Subscribing)\<rparr>))"

text \<open>The \<open>select\<close> between the queue and the end of the context.\<close>

definition dispatch_enqueue :: "dispatch_run \<Rightarrow> dispatch_run option" where
  "dispatch_enqueue s =
    (case dr_dispatcher s of
       Enqueueing name msg \<Rightarrow>
         (case mg_workers (dr_manager s) name of
            None \<Rightarrow> None
          | Some w \<Rightarrow>
              (case chan_send (wk_queue w) msg of
                 Sent q \<Rightarrow>
                   Some (s\<lparr>dr_manager := (dr_manager s)\<lparr>mg_workers :=
                             (mg_workers (dr_manager s))(name \<mapsto> w\<lparr>wk_queue := q\<rparr>)\<rparr>,
                           dr_queued := (dr_queued s)(name := dr_queued s name @ [msg]),
                           dr_dispatcher := Subscribing\<rparr>)
               | SendBlocks \<Rightarrow> None
               | SendPanics \<Rightarrow> Some (s\<lparr>dr_dispatcher := DispatcherPanicked\<rparr>)))
     | _ \<Rightarrow> None)"

definition dispatch_end :: "dispatch_run \<Rightarrow> dispatch_run option" where
  "dispatch_end s =
    (case dr_dispatcher s of
       DispatcherStopped \<Rightarrow> None
     | DispatcherPanicked \<Rightarrow> None
     | _ \<Rightarrow> if dr_cancelled s then Some (s\<lparr>dr_dispatcher := DispatcherStopped\<rparr>) else None)"

definition worker_take :: "string \<Rightarrow> dispatch_run \<Rightarrow> dispatch_run option" where
  "worker_take name s =
    (case mg_workers (dr_manager s) name of
       None \<Rightarrow> None
     | Some w \<Rightarrow>
         if wk_done w then None
         else (case try_recv (wk_queue w) of
             None \<Rightarrow> None
           | Some (msg, q) \<Rightarrow>
               Some (s\<lparr>dr_manager := (dr_manager s)\<lparr>mg_workers :=
                         (mg_workers (dr_manager s))(name \<mapsto> w\<lparr>wk_queue := q\<rparr>)\<rparr>,
                       dr_handled := (dr_handled s)(name := dr_handled s name @ [msg])\<rparr>)))"

definition worker_end :: "string \<Rightarrow> dispatch_run \<Rightarrow> dispatch_run option" where
  "worker_end name s =
    (case mg_workers (dr_manager s) name of
       None \<Rightarrow> None
     | Some w \<Rightarrow>
         if \<not> wk_done w \<and> (dr_cancelled s \<or> chan_closed (wk_queue w) \<and> buf (wk_queue w) = [])
         then Some (s\<lparr>dr_manager := (dr_manager s)\<lparr>mg_workers :=
                        (mg_workers (dr_manager s))(name \<mapsto> w\<lparr>wk_done := True\<rparr>)\<rparr>\<rparr>)
         else None)"

text \<open>The two parts of \<open>StopAll\<close> that the others see.\<close>

definition stop_cancel :: "dispatch_run \<Rightarrow> dispatch_run" where
  "stop_cancel s = s\<lparr>dr_cancelled := True, dr_manager := (dr_manager s)\<lparr>mg_dispatchTask := False\<rparr>\<rparr>"

definition stop_close :: "string \<Rightarrow> dispatch_run \<Rightarrow> dispatch_run option" where
  "stop_close name s =
    (if dr_cancelled s
     then map_option (\<lambda>m. s\<lparr>dr_manager := m\<rparr>) (close_worker name (dr_manager s)) else None)"

definition bus_publish :: "outbound_message \<Rightarrow> dispatch_run \<Rightarrow> dispatch_run option" where
  "bus_publish msg s =
    map_option (\<lambda>q. s\<lparr>dr_outbound := q, dr_published := dr_published s @ [msg]\<rparr>)
      (try_send (dr_outbound s) msg)"

inductive dispatch_moves :: "dispatch_run \<Rightarrow> dispatch_run \<Rightarrow> bool" where
  publish: "bus_publish msg s = Some s' \<Longrightarrow> dispatch_moves s s'"
| subscribe: "dispatch_subscribe s = Some s' \<Longrightarrow> dispatch_moves s s'"
| enqueue: "dispatch_enqueue s = Some s' \<Longrightarrow> dispatch_moves s s'"
| finish: "dispatch_end s = Some s' \<Longrightarrow> dispatch_moves s s'"
| take: "worker_take name s = Some s' \<Longrightarrow> dispatch_moves s s'"
| leave: "worker_end name s = Some s' \<Longrightarrow> dispatch_moves s s'"
| cancel: "dispatch_moves s (stop_cancel s)"
| close: "stop_close name s = Some s' \<Longrightarrow> dispatch_moves s s'"

definition dispatch_init :: "manager \<Rightarrow> dispatch_run" where
  "dispatch_init m =
    \<lparr>dr_manager = m, dr_dispatcher = Subscribing, dr_cancelled = False,
     dr_outbound = make_chan default_bus_buffer_size, dr_published = [], dr_subscribed = [],
     dr_queued = (\<lambda>_. []), dr_handled = (\<lambda>_. [])\<rparr>"

inductive dispatch_reach :: "manager \<Rightarrow> dispatch_run \<Rightarrow> bool" for m where
  init: "dispatch_reach m (dispatch_init m)"
| step: "dispatch_reach m s \<Longrightarrow> dispatch_moves s s' \<Longrightarrow> dispatch_reach m s'"

inductive_cases dispatch_movesE: "dispatch_moves s s'"

subsection \<open>Order of delivery\<close>

text \<open>What waits between the bus and the queue of a channel.\<close>

definition pending_ok :: "dispatcher \<Rightarrow> string \<Rightarrow> outbound_message list \<Rightarrow> bool" where
  "pending_ok d n p \<longleftrightarrow> (case d of
      Subscribing \<Rightarrow> p = []
    | Enqueueing n' msg \<Rightarrow> p = (if n' = n then [msg] else [])
    | _ \<Rightarrow> length p \<le> 1)"

definition for_channel :: "string \<Rightarrow> outbound_message list \<Rightarrow> outbound_message list" where
  "for_channel n = filter (\<lambda>msg. om_Channel msg = n)"

definition workers_inv :: "manager \<Rightarrow> dispatch_run \<Rightarrow> bool" where
  "workers_inv m s \<longleftrightarrow>
    mg_channels (dr_manager s) = mg_channels m \<and>
    (\<forall>n. mg_workers (dr_manager s) n = None \<longleftrightarrow> mg_workers m n = None) \<and>
    (\<forall>n w. mg_workers (dr_manager s) n = Some w \<longrightarrow>
      chan_ok (wk_queue w) \<and> dr_queued s n = dr_handled s n @ buf (wk_queue w)) \<and>
    (\<forall>n. \<not> routable m n \<longrightarrow> dr_queued s n = [] \<and> dr_handled s n = [])"

definition dispatch_inv :: "manager \<Rightarrow> dispatch_run \<Rightarrow> bool" where
  "dispatch_inv m s \<longleftrightarrow>
    chan_ok (dr_outbound s) \<and>
    dr_published s = dr_subscribed s @ buf (dr_outbound s) \<and>
    (\<forall>n. routable m n \<longrightarrow>
      (\<exists>p. for_channel n (dr_subscribed s) = dr_queued s n @ p \<and> pending_ok (dr_dispatcher s) n p)) \<and>
    (case dr_dispatcher s of Enqueueing n msg \<Rightarrow> om_Channel msg = n \<and> routable m n | _ \<Rightarrow> True)"

lemma workers_inv_routable:
  "workers_inv m s \<Longrightarrow> routable (dr_manager s) n \<longleftrightarrow> routable m n"
  by (simp add: workers_inv_def routable_def)

lemma workers_inv_empty:
  "workers_inv m s \<Longrightarrow> \<not> routable m n \<Longrightarrow> mg_workers (dr_manager s) n = Some w \<Longrightarrow> buf (wk_queue w) = []"
  by (auto simp: workers_inv_def)

subsubsection \<open>Each move keeps the two invariants\<close>

lemmas move_defs = bus_publish_def dispatch_subscribe_def dispatch_enqueue_def dispatch_end_def
  worker_take_def worker_end_def stop_cancel_def stop_close_def close_worker_def chan_close_def

lemma workers_inv_publish: "bus_publish msg s = Some s' \<Longrightarrow> workers_inv m s \<Longrightarrow> workers_inv m s'"
  by (auto simp: bus_publish_def workers_inv_def)

lemma workers_inv_subscribe: "dispatch_subscribe s = Some s' \<Longrightarrow> workers_inv m s \<Longrightarrow> workers_inv m s'"
  by (auto simp: dispatch_subscribe_def workers_inv_def split: if_splits option.splits prod.splits)

lemma workers_inv_end: "dispatch_end s = Some s' \<Longrightarrow> workers_inv m s \<Longrightarrow> workers_inv m s'"
  by (auto simp: dispatch_end_def workers_inv_def split: if_splits dispatcher.splits)

lemma workers_inv_cancel: "workers_inv m s \<Longrightarrow> workers_inv m (stop_cancel s)"
  by (auto simp: stop_cancel_def workers_inv_def)

text \<open>A move that changes the worker of one channel.\<close>

lemma workers_inv_update:
  assumes inv: "workers_inv m s" and w: "mg_workers (dr_manager s) n = Some w"
    and m': "dr_manager s' = (dr_manager s)\<lparr>mg_workers := (mg_workers (dr_manager s))(n \<mapsto> w')\<rparr>"
    and "dr_queued s' = (dr_queued s)(n := a)" and "dr_handled s' = (dr_handled s)(n := h)"
    and "chan_ok (wk_queue w')" and "a = h @ buf (wk_queue w')" and "routable m n \<or> a = []"
  shows "workers_inv m s'"
proof -
  have "mg_workers m n \<noteq> None"
    using inv w by (metis option.distinct(1) workers_inv_def)
  then show ?thesis
    using assms unfolding workers_inv_def by (auto simp del: not_None_eq)
qed

lemma workers_inv_close:
  assumes "stop_close n s = Some s'" and "workers_inv m s"
  shows "workers_inv m s'"
proof (cases "mg_workers (dr_manager s) n")
  case None
  with assms show ?thesis by (auto simp: stop_close_def close_worker_def split: if_splits)
next
  case (Some w)
  with assms show ?thesis
    by (intro workers_inv_update [OF assms(2) Some, where w' = "w\<lparr>wk_queue := (wk_queue w)\<lparr>chan_closed := True\<rparr>\<rparr>"
          and a = "dr_queued s n" and h = "dr_handled s n"])
      (auto simp: stop_close_def close_worker_def chan_close_def workers_inv_def chan_ok_def split: if_splits)
qed

lemma workers_inv_leave:
  assumes "worker_end n s = Some s'" and "workers_inv m s"
  shows "workers_inv m s'"
proof -
  obtain w where w: "mg_workers (dr_manager s) n = Some w"
    and s': "s' = s\<lparr>dr_manager := (dr_manager s)\<lparr>mg_workers :=
        (mg_workers (dr_manager s))(n \<mapsto> w\<lparr>wk_done := True\<rparr>)\<rparr>\<rparr>"
    using assms(1) by (auto simp: worker_end_def split: option.splits if_splits)
  with assms(2) show ?thesis
    by (intro workers_inv_update [OF assms(2) w, where w' = "w\<lparr>wk_done := True\<rparr>"
          and a = "dr_queued s n" and h = "dr_handled s n"])
      (auto simp: workers_inv_def)
qed

lemma chan_send_Sent:
  "chan_send q msg = Sent q' \<Longrightarrow> chan_ok q \<Longrightarrow> buf q' = buf q @ [msg] \<and> chan_ok q'"
  using gq.put_contents [of q msg q'] gq.put_valid [of q msg q'] by (simp add: try_send_def)

lemma workers_inv_enqueue:
  assumes "dispatch_enqueue s = Some s'" and "workers_inv m s" and "dispatch_inv m s"
  shows "workers_inv m s'"
proof -
  obtain n msg w where d: "dr_dispatcher s = Enqueueing n msg" and w: "mg_workers (dr_manager s) n = Some w"
    using assms(1) by (auto simp: dispatch_enqueue_def split: dispatcher.splits option.splits)
  have r: "routable m n"
    using assms(3) d by (simp add: dispatch_inv_def)
  show ?thesis
  proof (cases "chan_send (wk_queue w) msg")
    case (Sent q)
    have "chan_ok (wk_queue w)" "dr_queued s n = dr_handled s n @ buf (wk_queue w)"
      using assms(2) w by (simp_all add: workers_inv_def)
    with Sent show ?thesis
      using assms(1) d w r chan_send_Sent [OF Sent]
      by (intro workers_inv_update [OF assms(2) w, where w' = "w\<lparr>wk_queue := q\<rparr>"
            and a = "dr_queued s n @ [msg]" and h = "dr_handled s n"])
        (auto simp: dispatch_enqueue_def)
  qed (use assms d w in \<open>auto simp: dispatch_enqueue_def workers_inv_def\<close>)
qed

lemma workers_inv_take:
  assumes "worker_take n s = Some s'" and "workers_inv m s"
  shows "workers_inv m s'"
proof -
  obtain w msg q where w: "mg_workers (dr_manager s) n = Some w"
    and q: "try_recv (wk_queue w) = Some (msg, q)"
    and s': "s' = s\<lparr>dr_manager := (dr_manager s)\<lparr>mg_workers :=
        (mg_workers (dr_manager s))(n \<mapsto> w\<lparr>wk_queue := q\<rparr>)\<rparr>,
      dr_handled := (dr_handled s)(n := dr_handled s n @ [msg])\<rparr>"
    using assms(1) by (auto simp: worker_take_def split: option.splits if_splits prod.splits)
  have ok: "chan_ok (wk_queue w)"
    using assms(2) w by (simp add: workers_inv_def)
  have b: "buf (wk_queue w) = msg # buf q" and "chan_ok q"
    using gq.get_contents [OF ok q] gq.get_valid [OF ok q] by simp_all
  moreover have "routable m n"
    using workers_inv_empty [OF assms(2) _ w] b by force
  moreover have "dr_queued s n = dr_handled s n @ buf (wk_queue w)"
    using assms(2) w by (simp add: workers_inv_def)
  ultimately show ?thesis
    by (intro workers_inv_update [OF assms(2) w, where w' = "w\<lparr>wk_queue := q\<rparr>"
          and a = "dr_queued s n" and h = "dr_handled s n @ [msg]"])
      (auto simp: s')
qed

lemma dispatch_inv_publish: "bus_publish msg s = Some s' \<Longrightarrow> dispatch_inv m s \<Longrightarrow> dispatch_inv m s'"
  using gq.put_contents [of "dr_outbound s" msg] gq.put_valid [of "dr_outbound s" msg]
  by (auto simp: bus_publish_def dispatch_inv_def)

lemma dispatch_inv_subscribe:
  assumes "dispatch_subscribe s = Some s'" and "dispatch_inv m s" and "workers_inv m s"
  shows "dispatch_inv m s'"
proof -
  obtain msg q where d: "dr_dispatcher s = Subscribing" and q: "try_recv (dr_outbound s) = Some (msg, q)"
    and s': "s' = s\<lparr>dr_outbound := q, dr_subscribed := dr_subscribed s @ [msg],
      dr_dispatcher := (if routable (dr_manager s) (om_Channel msg)
                        then Enqueueing (om_Channel msg) msg else Subscribing)\<rparr>"
    using assms(1) by (auto simp: dispatch_subscribe_def split: if_splits option.splits prod.splits)
  have "chan_ok (dr_outbound s)" using assms(2) by (simp add: dispatch_inv_def)
  then show ?thesis
    using assms(2) d gq.get_contents [OF _ q] gq.get_valid [OF _ q]
    by (auto simp: s' dispatch_inv_def pending_ok_def for_channel_def
        workers_inv_routable [OF assms(3)])
qed

lemma dispatch_inv_enqueue:
  assumes "dispatch_enqueue s = Some s'" and "dispatch_inv m s"
  shows "dispatch_inv m s'"
proof -
  obtain n msg w where d: "dr_dispatcher s = Enqueueing n msg" and w: "mg_workers (dr_manager s) n = Some w"
    using assms(1) by (auto simp: dispatch_enqueue_def split: dispatcher.splits option.splits)
  show ?thesis
    using assms d w
    by (cases "chan_send (wk_queue w) msg")
      (auto simp: dispatch_enqueue_def dispatch_inv_def pending_ok_def split: if_splits)
qed

lemma dispatch_inv_end:
  assumes "dispatch_end s = Some s'" and "dispatch_inv m s"
  shows "dispatch_inv m s'"
proof -
  have s': "s' = s\<lparr>dr_dispatcher := DispatcherStopped\<rparr>"
    using assms(1) by (auto simp: dispatch_end_def split: dispatcher.splits if_splits)
  have "length p \<le> 1" if "pending_ok (dr_dispatcher s) n p" for n p
    using that by (auto simp: pending_ok_def split: dispatcher.splits)
  then show ?thesis
    using assms(2) by (fastforce simp: s' dispatch_inv_def pending_ok_def)
qed

lemma dispatch_inv_frame:
  "dispatch_inv m s \<Longrightarrow> dr_outbound s' = dr_outbound s \<Longrightarrow> dr_published s' = dr_published s \<Longrightarrow>
    dr_subscribed s' = dr_subscribed s \<Longrightarrow> dr_queued s' = dr_queued s \<Longrightarrow>
    dr_dispatcher s' = dr_dispatcher s \<Longrightarrow> dispatch_inv m s'"
  by (simp add: dispatch_inv_def)

lemma dispatch_moves_inv:
  assumes "dispatch_moves s s'" and "workers_inv m s" and "dispatch_inv m s"
  shows "workers_inv m s' \<and> dispatch_inv m s'"
  using assms
proof cases
  case (take name)
  moreover have "dispatch_inv m s'"
    by (rule dispatch_inv_frame [OF assms(3)])
      (use take in \<open>auto simp: worker_take_def split: option.splits if_splits prod.splits\<close>)
  ultimately show ?thesis using assms(2) workers_inv_take by blast
next
  case (leave name)
  moreover have "dispatch_inv m s'"
    by (rule dispatch_inv_frame [OF assms(3)])
      (use leave in \<open>auto simp: worker_end_def split: option.splits if_splits\<close>)
  ultimately show ?thesis using assms(2) workers_inv_leave by blast
next
  case (close name)
  moreover have "dispatch_inv m s'"
    by (rule dispatch_inv_frame [OF assms(3)])
      (use close in \<open>auto simp: stop_close_def split: if_splits\<close>)
  ultimately show ?thesis using assms(2) workers_inv_close by blast
next
  case cancel
  moreover have "dispatch_inv m s'"
    by (rule dispatch_inv_frame [OF assms(3)]) (use cancel in \<open>auto simp: stop_cancel_def\<close>)
  ultimately show ?thesis using assms(2) workers_inv_cancel by blast
next
  case (publish msg)
  then show ?thesis using assms(2,3) workers_inv_publish dispatch_inv_publish by blast
next
  case subscribe
  then show ?thesis using assms(2,3) workers_inv_subscribe dispatch_inv_subscribe by blast
next
  case enqueue
  then show ?thesis using assms(2,3) workers_inv_enqueue dispatch_inv_enqueue by blast
next
  case finish
  then show ?thesis using assms(2,3) workers_inv_end dispatch_inv_end by blast
qed

subsubsection \<open>Started managers\<close>

definition fresh_workers :: "manager \<Rightarrow> bool" where
  "fresh_workers m \<longleftrightarrow> (\<forall>n w. mg_workers m n = Some w \<longrightarrow> w = new_channel_worker n)"

lemma start_worker_fresh: "fresh_workers m \<Longrightarrow> fresh_workers (start_worker ok n m)"
  unfolding fresh_workers_def start_worker_def by (simp split: if_split)

lemma fold_start_worker:
  "fresh_workers m \<Longrightarrow> fresh_workers (fold (start_worker ok) ns m)"
  by (induction ns arbitrary: m) (simp_all add: start_worker_fresh)

lemma start_all_fresh:
  assumes "start_all order ok m = Inr m'" and "mg_workers m = Map.empty"
  shows "fresh_workers m'"
proof -
  have "m' = fold (start_worker ok) order (m\<lparr>mg_dispatchTask := True\<rparr>)"
    using assms(1) by (simp add: start_all_def split: if_splits)
  moreover have "fresh_workers (m\<lparr>mg_dispatchTask := True\<rparr>)"
    using assms(2) by (simp add: fresh_workers_def)
  ultimately show ?thesis by (simp add: fold_start_worker)
qed

lemma fresh_workersD:
  assumes "fresh_workers m" and "mg_workers m n = Some w"
  shows "buf (wk_queue w) = []" and "chan_ok (wk_queue w)" and "\<not> chan_closed (wk_queue w)"
proof -
  have "w = new_channel_worker n"
    using assms unfolding fresh_workers_def by blast
  then show "buf (wk_queue w) = []" and "chan_ok (wk_queue w)" and "\<not> chan_closed (wk_queue w)"
    by (simp_all add: new_channel_worker_def Let_def make_chan_def chan_ok_def)
qed

lemma dispatch_reach_inv:
  assumes "dispatch_reach m s" and fresh: "fresh_workers m"
  shows "workers_inv m s \<and> dispatch_inv m s"
  using assms(1)
proof (induction rule: dispatch_reach.induct)
  case init
  have "[] = buf (make_chan default_bus_buffer_size)"
    by (simp add: make_chan_def)
  then show ?case
    using fresh_workersD [OF fresh]
    by (simp add: workers_inv_def dispatch_inv_def dispatch_init_def for_channel_def pending_ok_def)
qed (simp add: dispatch_moves_inv)

text \<open>
  C13. After \<open>StartAll\<close>, in any interleaving of publishers, dispatcher, workers and a stop, what
  the worker of a channel has taken is a prefix of the messages published for that channel, in
  order: none is duplicated, reordered or sent to another channel. A channel without a worker,
  and the internal ones, get nothing.
\<close>

theorem dispatch_in_order:
  assumes "start_all order ok m0 = Inr m" and "mg_workers m0 = Map.empty" and "dispatch_reach m s"
  shows "if routable m n
    then \<exists>rest. for_channel n (dr_published s) = dr_handled s n @ rest
    else dr_handled s n = []"
proof (cases "routable m n")
  case True
  have inv: "workers_inv m s" "dispatch_inv m s"
    using dispatch_reach_inv [OF assms(3) start_all_fresh [OF assms(1,2)]] by simp_all
  from True inv obtain w where "mg_workers (dr_manager s) n = Some w"
    unfolding workers_inv_def routable_def by (metis option.exhaust)
  then have "dr_queued s n = dr_handled s n @ buf (wk_queue w)"
    using inv(1) by (simp add: workers_inv_def)
  moreover obtain p where "for_channel n (dr_subscribed s) = dr_queued s n @ p"
    using inv(2) True by (auto simp: dispatch_inv_def)
  moreover have "dr_published s = dr_subscribed s @ buf (dr_outbound s)"
    using inv(2) by (simp add: dispatch_inv_def)
  ultimately show ?thesis
    using True by (auto simp: for_channel_def)
next
  case False
  then show ?thesis
    using dispatch_reach_inv [OF assms(3) start_all_fresh [OF assms(1,2)]]
    by (simp add: workers_inv_def)
qed

definition sample_manager :: manager where
  "sample_manager =
    \<lparr>mg_channels = [''irc'' \<mapsto> new_base_channel ''irc'' [] []], mg_workers = Map.empty,
     mg_mediaStore = True, mg_dispatchTask = False, mg_httpServer = False\<rparr>"

definition sample_started :: manager where
  "sample_started = start_worker (\<lambda>_. True) ''irc'' (sample_manager\<lparr>mg_dispatchTask := True\<rparr>)"

lemma sample_start:
  "start_all [''irc''] (\<lambda>_. True) sample_manager = Inr sample_started"
  "mg_workers sample_manager = Map.empty"
  "mg_workers sample_started = [''irc'' \<mapsto> new_channel_worker ''irc'']"
  "mg_channels sample_started = mg_channels sample_manager"
  by (simp_all add: start_all_def sample_started_def start_worker_def sample_manager_def)

lemma sample_routable: "routable sample_started ''irc''"
  by (simp add: routable_def sample_start is_internal_channel_def internal_channels_def sample_manager_def)

theorem dispatch_in_order_witness:
  "\<exists>rest. for_channel ''irc'' (dr_published (dispatch_init sample_started)) =
    dr_handled (dispatch_init sample_started) ''irc'' @ rest"
  using dispatch_in_order [OF sample_start(1,2) dispatch_reach.init, of "''irc''"] sample_routable
  by simp

subsection \<open>Shutting down\<close>

lemma close_workers_open:
  assumes "distinct ns" and "\<forall>n \<in> set ns. \<exists>w. mg_workers m n = Some w \<and> \<not> chan_closed (wk_queue w)"
  shows "\<exists>m'. close_workers ns m = Some m' \<and> mg_channels m' = mg_channels m \<and>
    (\<forall>n. mg_workers m' n = (if n \<in> set ns
      then map_option (\<lambda>w. w\<lparr>wk_queue := (wk_queue w)\<lparr>chan_closed := True\<rparr>\<rparr>) (mg_workers m n)
      else mg_workers m n))"
  using assms
proof (induction ns arbitrary: m)
  case (Cons n ns)
  then obtain w where w: "mg_workers m n = Some w" "\<not> chan_closed (wk_queue w)"
    by auto
  let ?m = "m\<lparr>mg_workers := (mg_workers m)(n \<mapsto> w\<lparr>wk_queue := (wk_queue w)\<lparr>chan_closed := True\<rparr>\<rparr>)\<rparr>"
  have st: "close_worker n m = Some ?m"
    using w by (simp add: close_worker_def chan_close_def)
  have "\<forall>k \<in> set ns. \<exists>w. mg_workers ?m k = Some w \<and> \<not> chan_closed (wk_queue w)"
    using Cons.prems by auto
  then obtain m' where "close_workers ns ?m = Some m'" "mg_channels m' = mg_channels m"
    "\<forall>k. mg_workers m' k = (if k \<in> set ns
      then map_option (\<lambda>w. w\<lparr>wk_queue := (wk_queue w)\<lparr>chan_closed := True\<rparr>\<rparr>) (mg_workers ?m k)
      else mg_workers ?m k)"
    using Cons.IH [of ?m] Cons.prems(1) by auto
  with st w Cons.prems(1) show ?case by auto
qed simp

lemma fold_await:
  "mg_channels (fold await_worker ns m) = mg_channels m \<and>
   mg_workers (fold await_worker ns m) n =
    (if n \<in> set ns then map_option (\<lambda>w. w\<lparr>wk_done := True\<rparr>) (mg_workers m n) else mg_workers m n)"
proof (induction ns arbitrary: m)
  case (Cons k ns)
  then show ?case
    by (cases "mg_workers m k") (auto simp: await_worker_def option.map_comp o_def)
qed simp

lemma close_workers_closed:
  "n \<in> set ns \<Longrightarrow> mg_workers m n = Some w \<Longrightarrow> chan_closed (wk_queue w) \<Longrightarrow> close_workers ns m = None"
proof (induction ns arbitrary: m)
  case (Cons k ns)
  show ?case
  proof (cases "close_worker k m")
    case (Some m')
    with Cons.prems have "k \<noteq> n"
      by (auto simp: close_worker_def chan_close_def)
    moreover from this Some have "mg_workers m' n = mg_workers m n"
      by (auto simp: close_worker_def split: option.splits)
    ultimately show ?thesis using Cons Some by simp
  qed simp
qed simp



text \<open>
  \<open>StopAll\<close> does not wait for the dispatcher before it closes the queues: with a message on
  its way to a running channel, an interleaving exists in which the dispatcher sends on the
  closed queue and panics.
\<close>

theorem stop_races_with_dispatcher:
  assumes "start_all order ok m0 = Inr m" and "mg_workers m0 = Map.empty" and "routable m n"
    and "om_Channel msg = n"
  shows "\<exists>s. dispatch_reach m s \<and> dr_published s = [msg] \<and> dr_dispatcher s = DispatcherPanicked"
proof -
  obtain w where w: "mg_workers m n = Some w"
    using assms(3) by (auto simp: routable_def)
  have "\<not> chan_closed (wk_queue w)"
    using fresh_workersD(3) [OF start_all_fresh [OF assms(1,2)] w] .
  then have open_w: "chan_close (wk_queue w) = Some ((wk_queue w)\<lparr>chan_closed := True\<rparr>)"
    by (simp add: chan_close_def)
  let ?s1 = "(dispatch_init m)\<lparr>dr_outbound := (make_chan default_bus_buffer_size)\<lparr>buf := [msg]\<rparr>,
    dr_published := [msg]\<rparr>"
  let ?s2 = "?s1\<lparr>dr_outbound := (make_chan default_bus_buffer_size)\<lparr>buf := []\<rparr>,
    dr_subscribed := [msg], dr_dispatcher := Enqueueing n msg\<rparr>"
  let ?m4 = "m\<lparr>mg_dispatchTask := False,
    mg_workers := (mg_workers m)(n \<mapsto> w\<lparr>wk_queue := (wk_queue w)\<lparr>chan_closed := True\<rparr>\<rparr>)\<rparr>"
  let ?s4 = "?s2\<lparr>dr_cancelled := True, dr_manager := ?m4\<rparr>"
  have "bus_publish msg (dispatch_init m) = Some ?s1"
    by (simp add: bus_publish_def dispatch_init_def try_send_Some make_chan_def default_bus_buffer_size_def)
  then have "dispatch_reach m ?s1"
    using dispatch_reach.init dispatch_reach.step dispatch_moves.publish by blast
  moreover have "dispatch_subscribe ?s1 = Some ?s2"
    using assms(3,4) by (simp add: dispatch_subscribe_def dispatch_init_def try_recv_def chan_recv_def make_chan_def)
  ultimately have "dispatch_reach m ?s2"
    using dispatch_reach.step dispatch_moves.subscribe by blast
  then have "dispatch_reach m (stop_cancel ?s2)"
    using dispatch_reach.step dispatch_moves.cancel by blast
  moreover have "stop_close n (stop_cancel ?s2) = Some ?s4"
    using w open_w by (simp add: stop_close_def stop_cancel_def close_worker_def dispatch_init_def)
  ultimately have "dispatch_reach m ?s4"
    using dispatch_reach.step dispatch_moves.close by blast
  moreover have "dispatch_enqueue ?s4 = Some (?s4\<lparr>dr_dispatcher := DispatcherPanicked\<rparr>)"
    by (simp add: dispatch_enqueue_def chan_send_def)
  ultimately have "dispatch_reach m (?s4\<lparr>dr_dispatcher := DispatcherPanicked\<rparr>)"
    using dispatch_reach.step dispatch_moves.enqueue by blast
  then show ?thesis
    by (intro exI [of _ "?s4\<lparr>dr_dispatcher := DispatcherPanicked\<rparr>"]) simp
qed

theorem stop_races_with_dispatcher_witness:
  "\<exists>s. dispatch_reach sample_started s \<and> dr_dispatcher s = DispatcherPanicked"
  using stop_races_with_dispatcher [OF sample_start(1,2) sample_routable, of sample_outbound]
  by (auto simp: sample_outbound_def)

end
