(* ===== verification/Commands.thy ===== *)
theory Commands
  imports Identity
begin

text \<open>
  \<open>pkg/commands\<close>: the slash commands of the bot. Parsing of a command name, the registry of
  definitions, the executor with its sub-commands and the six built-in commands. A handler
  passes the state \<open>'s\<close> of the caller through: the reply function and the callbacks of the
  runtime are functions on that state. Errors are their texts.
\<close>

subsection \<open>Requests\<close>

definition unavailable_msg :: string where
  "unavailable_msg = ''Command unavailable in current context.''"

definition command_prefixes :: "string list" where
  "command_prefixes = [''/'', ''!'']"

definition nth_token :: "string \<Rightarrow> nat \<Rightarrow> string" where
  "nth_token input n =
    (let parts = split_fields (trim_space input) in if n \<ge> length parts then [] else parts ! n)"

definition normalize_command_name :: "unicode \<Rightarrow> string \<Rightarrow> string" where
  "normalize_command_name U name = to_lower U (trim_space name)"

definition trim_command_prefix :: "string \<Rightarrow> string option" where
  "trim_command_prefix token =
    (case List.find (\<lambda>p. has_prefix p token) command_prefixes of
       Some p \<Rightarrow> Some (trim_prefix p token)
     | None \<Rightarrow> None)"

definition parse_command_name :: "unicode \<Rightarrow> string \<Rightarrow> string option" where
  "parse_command_name U input =
    (let token = nth_token input 0 in
     if token = [] then None
     else case trim_command_prefix token of
       None \<Rightarrow> None
     | Some name0 \<Rightarrow>
         let name1 = (case index_of ''@'' name0 of Some i \<Rightarrow> take i name0 | None \<Rightarrow> name0);
             name = normalize_command_name U name1
         in if name = [] then None else Some name)"

definition has_command_prefix :: "string \<Rightarrow> bool" where
  "has_command_prefix input =
    (let token = nth_token input 0 in token \<noteq> [] \<and> trim_command_prefix token \<noteq> None)"

subsection \<open>Definitions\<close>

text \<open>What a definition says about itself; the runtime hands out this part only.\<close>

record sub_meta =
  sm_Name :: string
  sm_Description :: string
  sm_ArgsUsage :: string

record command_meta =
  cm_Name :: string
  cm_Description :: string
  cm_Usage :: string
  cm_SubCommands :: "sub_meta list"

record 's request =
  rq_Channel :: string
  rq_ChatID :: string
  rq_SenderID :: string
  rq_Text :: string
  rq_Reply :: "(string \<Rightarrow> 's \<Rightarrow> string option \<times> 's) option"

record 's runtime =
  rt_GetModelInfo :: "('s \<Rightarrow> string \<times> string) option"
  rt_ListDefinitions :: "('s \<Rightarrow> command_meta list) option"
  rt_GetEnabledChannels :: "('s \<Rightarrow> string list) option"
  rt_SwitchModel :: "(string \<Rightarrow> 's \<Rightarrow> (string + string) \<times> 's) option"
  rt_ClearHistory :: "('s \<Rightarrow> string option \<times> 's) option"
  rt_CancelSession :: "('s \<Rightarrow> bool \<times> 's) option"

text \<open>A handler is called with the reply function made non-nil by the executor.\<close>

type_synonym 's reply_fn = "string \<Rightarrow> 's \<Rightarrow> string option \<times> 's"
type_synonym 's handler = "'s reply_fn \<Rightarrow> string \<Rightarrow> 's runtime option \<Rightarrow> 's \<Rightarrow> string option \<times> 's"

record 's sub_command = sub_meta +
  sc_Handler :: "'s handler option"

record 's command_def =
  cd_Name :: string
  cd_Description :: string
  cd_Usage :: string
  cd_Aliases :: "string list"
  cd_SubCommands :: "'s sub_command list"
  cd_Handler :: "'s handler option"

definition command_meta_of :: "'s command_def \<Rightarrow> command_meta" where
  "command_meta_of d =
    \<lparr>cm_Name = cd_Name d, cm_Description = cd_Description d, cm_Usage = cd_Usage d,
     cm_SubCommands = map sub_meta.truncate (cd_SubCommands d)\<rparr>"

definition effective_usage :: "command_meta \<Rightarrow> string" where
  "effective_usage d =
    (if cm_SubCommands d = [] then cm_Usage d
     else ''/'' @ cm_Name d @ '' ['' @
       join ''|'' (map (\<lambda>sc. sm_Name sc @ (if sm_ArgsUsage sc \<noteq> [] then '' '' @ sm_ArgsUsage sc else []))
         (cm_SubCommands d)) @ '']'')"

definition format_help_message :: "command_meta list \<Rightarrow> string" where
  "format_help_message defs =
    (if defs = [] then ''No commands available.''
     else join [CHR 0x0A] (map (\<lambda>d.
       (if effective_usage d = [] then ''/'' @ cm_Name d else effective_usage d) @ '' - '' @
       (if cm_Description d = [] then ''No description'' else cm_Description d)) defs))"

subsection \<open>The registry\<close>

record 's registry =
  rg_defs :: "'s command_def list"
  rg_index :: "string \<rightharpoonup> nat"

definition register_command_name ::
  "unicode \<Rightarrow> string \<Rightarrow> nat \<Rightarrow> (string \<rightharpoonup> nat) \<Rightarrow> (string \<rightharpoonup> nat)" where
  "register_command_name U name defIndex index =
    (let key = normalize_command_name U name in
     if key = [] then index else if index key \<noteq> None then index else index(key \<mapsto> defIndex))"

definition register_def :: "unicode \<Rightarrow> nat \<times> 's command_def \<Rightarrow> (string \<rightharpoonup> nat) \<Rightarrow> (string \<rightharpoonup> nat)" where
  "register_def U = (\<lambda>(i, d) index.
    fold (\<lambda>name. register_command_name U name i) (cd_Name d # cd_Aliases d) index)"

definition new_registry :: "unicode \<Rightarrow> 's command_def list \<Rightarrow> 's registry" where
  "new_registry U defs =
    \<lparr>rg_defs = defs, rg_index = fold (register_def U) (enumerate 0 defs) Map.empty\<rparr>"

definition registry_definitions :: "'s registry \<Rightarrow> 's command_def list" where
  "registry_definitions r = rg_defs r"

definition registry_lookup :: "unicode \<Rightarrow> 's registry \<Rightarrow> string \<Rightarrow> 's command_def option" where
  "registry_lookup U r name =
    (let key = normalize_command_name U name in
     if key = [] then None
     else case rg_index r key of None \<Rightarrow> None | Some idx \<Rightarrow> Some (rg_defs r ! idx))"

subsection \<open>The executor\<close>

datatype execute_outcome = OutcomePassthrough | OutcomeHandled

record execute_result =
  er_Outcome :: execute_outcome
  er_Command :: string
  er_Err :: "string option"

definition handled :: "string \<Rightarrow> string option \<times> 's \<Rightarrow> execute_result \<times> 's" where
  "handled name = (\<lambda>(err, s). (\<lparr>er_Outcome = OutcomeHandled, er_Command = name, er_Err = err\<rparr>, s))"

definition passthrough :: "string \<Rightarrow> 's \<Rightarrow> execute_result \<times> 's" where
  "passthrough name s = (\<lparr>er_Outcome = OutcomePassthrough, er_Command = name, er_Err = None\<rparr>, s)"

definition execute_definition ::
  "unicode \<Rightarrow> 's request \<Rightarrow> 's runtime option \<Rightarrow> 's command_def \<Rightarrow> 's \<Rightarrow> execute_result \<times> 's" where
  "execute_definition U req rt def s =
    (let reply = (case rq_Reply req of Some f \<Rightarrow> f | None \<Rightarrow> (\<lambda>_ s. (None, s)))
     in if cd_SubCommands def = [] then
          (case cd_Handler def of
             None \<Rightarrow> passthrough (cd_Name def) s
           | Some h \<Rightarrow> handled (cd_Name def) (h reply (rq_Text req) rt s))
        else
          let subName = nth_token (rq_Text req) 1;
              usage = effective_usage (command_meta_of def)
          in if subName = [] then handled (cd_Name def) (reply (''Usage: '' @ usage) s)
             else case List.find (\<lambda>sc. normalize_command_name U (sm_Name sc) =
                                        normalize_command_name U subName) (cd_SubCommands def) of
               Some sc \<Rightarrow>
                 (case sc_Handler sc of
                    None \<Rightarrow> passthrough (cd_Name def) s
                  | Some h \<Rightarrow> handled (cd_Name def) (h reply (rq_Text req) rt s))
             | None \<Rightarrow>
                 handled (cd_Name def) (reply (''Unknown option: '' @ subName @ ''. Usage: '' @ usage) s))"

definition execute ::
  "unicode \<Rightarrow> 's registry option \<Rightarrow> 's runtime option \<Rightarrow> 's request \<Rightarrow> 's \<Rightarrow> execute_result \<times> 's" where
  "execute U reg rt req s =
    (case parse_command_name U (rq_Text req) of
       None \<Rightarrow> passthrough [] s
     | Some cmdName \<Rightarrow>
         (case reg of
            None \<Rightarrow> passthrough cmdName s
          | Some r \<Rightarrow>
              (case registry_lookup U r cmdName of
                 None \<Rightarrow> passthrough cmdName s
               | Some def \<Rightarrow> execute_definition U req rt def s)))"

subsection \<open>Built-in commands\<close>

definition simple_command :: "string \<Rightarrow> string \<Rightarrow> 's handler \<Rightarrow> 's command_def" where
  "simple_command name desc h =
    \<lparr>cd_Name = name, cd_Description = desc, cd_Usage = CHR ''/'' # name, cd_Aliases = [],
     cd_SubCommands = [], cd_Handler = Some h\<rparr>"

definition sub_command :: "string \<Rightarrow> string \<Rightarrow> string \<Rightarrow> 's handler \<Rightarrow> 's sub_command" where
  "sub_command name desc args h =
    \<lparr>sm_Name = name, sm_Description = desc, sm_ArgsUsage = args, sc_Handler = Some h\<rparr>"

text \<open>The greeting ends with the UTF-8 bytes of a lobster.\<close>

definition start_handler :: "'s handler" where
  "start_handler reply text rt s =
    reply (''Hello! I am EctoClaw '' @ map char_of [0xF0, 0x9F, 0xA6, 0x9E :: nat]) s"

definition stop_handler :: "'s handler" where
  "stop_handler reply text rt s =
    (case Option.bind rt rt_CancelSession of
       None \<Rightarrow> reply ''No active session to stop.'' s
     | Some cancel \<Rightarrow>
         let (ok, s') = cancel s
         in if ok then reply ''Stopped.'' s' else reply ''No active response to stop.'' s')"

definition clear_handler :: "'s handler" where
  "clear_handler reply text rt s =
    (case Option.bind rt rt_ClearHistory of
       None \<Rightarrow> reply unavailable_msg s
     | Some clear \<Rightarrow>
         (case clear s of
            (Some err, s') \<Rightarrow> reply (''Failed to clear chat history: '' @ err) s'
          | (None, s') \<Rightarrow> reply ''Chat history cleared!'' s'))"

definition show_model_handler :: "'s handler" where
  "show_model_handler reply text rt s =
    (case Option.bind rt rt_GetModelInfo of
       None \<Rightarrow> reply unavailable_msg s
     | Some f \<Rightarrow> let (name, provider) = f s
         in reply (''Current Model: '' @ name @ '' (Provider: '' @ provider @ '')'') s)"

definition show_channels_handler :: "'s handler" where
  "show_channels_handler reply text rt s =
    (case Option.bind rt rt_GetEnabledChannels of
       None \<Rightarrow> reply unavailable_msg s
     | Some f \<Rightarrow> let enabled = f s
         in if enabled = [] then reply ''No channels enabled'' s
            else reply (''Enabled Channels:'' @ [CHR 0x0A] @ ''- '' @ join ([CHR 0x0A] @ ''- '') enabled) s)"

definition switch_model_handler :: "'s handler" where
  "switch_model_handler reply text rt s =
    (case Option.bind rt rt_SwitchModel of
       None \<Rightarrow> reply unavailable_msg s
     | Some f \<Rightarrow>
         let value = nth_token text 3 in
         if nth_token text 2 \<noteq> ''to'' \<or> value = [] then reply ''Usage: /switch model to <name>'' s
         else case f value s of
           (Inl err, s') \<Rightarrow> reply err s'
         | (Inr oldModel, s') \<Rightarrow>
             reply (''Switched model from '' @ oldModel @ '' to '' @ value) s')"

definition show_command :: "'s command_def" where
  "show_command =
    \<lparr>cd_Name = ''show'', cd_Description = ''Show current configuration'', cd_Usage = [],
     cd_Aliases = [],
     cd_SubCommands =
       [sub_command ''model'' ''Current model and provider'' [] show_model_handler,
        sub_command ''channels'' ''All enabled channels'' [] show_channels_handler],
     cd_Handler = None\<rparr>"

definition switch_command :: "'s command_def" where
  "switch_command =
    \<lparr>cd_Name = ''switch'', cd_Description = ''Switch model'', cd_Usage = [], cd_Aliases = [],
     cd_SubCommands =
       [sub_command ''model'' ''Switch to a different model'' ''to <name>'' switch_model_handler],
     cd_Handler = None\<rparr>"

text \<open>The metadata of the built-in commands, which \<open>/help\<close> lists when the runtime has none.\<close>

definition builtin_meta :: "command_meta list" where
  "builtin_meta =
    (let simple = (\<lambda>name desc. \<lparr>cm_Name = name, cm_Description = desc, cm_Usage = CHR ''/'' # name,
                                  cm_SubCommands = []\<rparr>)
     in [simple ''start'' ''Start the bot'', simple ''help'' ''Show this help message'',
         simple ''stop'' ''Cancel the in-progress response'',
         command_meta_of (show_command :: unit command_def),
         command_meta_of (switch_command :: unit command_def),
         simple ''clear'' ''Clear the chat history''])"

definition help_handler :: "'s handler" where
  "help_handler reply text rt s =
    reply (format_help_message
      (case Option.bind rt rt_ListDefinitions of Some f \<Rightarrow> f s | None \<Rightarrow> builtin_meta)) s"

definition builtin_definitions :: "'s command_def list" where
  "builtin_definitions =
    [simple_command ''start'' ''Start the bot'' start_handler,
     simple_command ''help'' ''Show this help message'' help_handler,
     simple_command ''stop'' ''Cancel the in-progress response'' stop_handler,
     show_command, switch_command,
     simple_command ''clear'' ''Clear the chat history'' clear_handler]"

lemma builtin_meta_ok: "map command_meta_of (builtin_definitions :: 's command_def list) = builtin_meta"
  by (simp add: builtin_definitions_def builtin_meta_def simple_command_def show_command_def
      switch_command_def command_meta_of_def sub_command_def sub_meta.defs Let_def)

subsection \<open>What the registry finds\<close>

definition command_names :: "unicode \<Rightarrow> 's command_def \<Rightarrow> string set" where
  "command_names U d = set (map (normalize_command_name U) (cd_Name d # cd_Aliases d))"

lemma register_names:
  "fold (\<lambda>name. register_command_name U name i) ns index key =
    (if index key \<noteq> None then index key
     else if key \<noteq> [] \<and> key \<in> set (map (normalize_command_name U) ns) then Some i else None)"
  by (induction ns arbitrary: index) (auto simp: register_command_name_def Let_def)

lemma register_def_apply:
  "register_def U (i, d) index key =
    (if index key \<noteq> None then index key
     else if key \<noteq> [] \<and> key \<in> command_names U d then Some i else None)"
  unfolding register_def_def prod.case register_names command_names_def ..

fun first_index :: "('a \<Rightarrow> bool) \<Rightarrow> nat \<Rightarrow> 'a list \<Rightarrow> nat option" where
  "first_index P n [] = None"
| "first_index P n (x # xs) = (if P x then Some n else first_index P (Suc n) xs)"

lemma register_all:
  "fold (register_def U) (enumerate n defs) index key =
    (if index key \<noteq> None then index key
     else if key = [] then None else first_index (\<lambda>d. key \<in> command_names U d) n defs)"
  by (induction defs arbitrary: n index) (simp_all add: register_def_apply)

lemma first_index_ge: "first_index P n xs = Some i \<Longrightarrow> n \<le> i"
  by (induction xs arbitrary: n) (fastforce split: if_splits)+

lemma first_index_find:
  "(case first_index P n xs of None \<Rightarrow> None | Some i \<Rightarrow> Some (xs ! (i - n))) = List.find P xs"
proof (induction xs arbitrary: n)
  case (Cons x xs)
  show ?case
  proof (cases "P x")
    case False
    have "(case first_index P (Suc n) xs of None \<Rightarrow> None | Some i \<Rightarrow> Some ((x # xs) ! (i - n))) =
        (case first_index P (Suc n) xs of None \<Rightarrow> None | Some i \<Rightarrow> Some (xs ! (i - Suc n)))"
      by (auto dest!: first_index_ge simp: nth_Cons' split: option.splits)
    with False Cons [of "Suc n"] show ?thesis by simp
  qed simp
qed simp

lemma lookup_find:
  "registry_lookup U (new_registry U defs) name =
    (if normalize_command_name U name = [] then None
     else List.find (\<lambda>d. normalize_command_name U name \<in> command_names U d) defs)"
  using first_index_find [where P = "\<lambda>d. normalize_command_name U name \<in> command_names U d" and n = 0 and xs = defs]
  by (auto simp: registry_lookup_def new_registry_def register_all Let_def split: option.splits)

text \<open>
  Looking a name up gives the first definition, in the order of registration, that has the
  name or an alias with the same normal form: a later definition never shadows an earlier one,
  and the index built by \<open>NewRegistry\<close> agrees with a scan of the definitions.
\<close>

theorem registry_lookup_first:
  "registry_lookup U (new_registry U defs) name =
    (if normalize_command_name U name = [] then None
     else List.find (\<lambda>d. normalize_command_name U name \<in>
       set (map (normalize_command_name U) (cd_Name d # cd_Aliases d))) defs)"
  unfolding lookup_find command_names_def ..

subsection \<open>What the executor does\<close>

text \<open>
  Replies are logged next to the state of the runtime, whose callbacks do not reply themselves.
\<close>

definition log_reply :: "('w \<times> string list) reply_fn" where
  "log_reply text = (\<lambda>(w, sent). (None, (w, sent @ [text])))"

definition log_runtime :: "'w runtime \<Rightarrow> ('w \<times> string list) runtime" where
  "log_runtime rt =
    \<lparr>rt_GetModelInfo = map_option (\<lambda>f. f \<circ> fst) (rt_GetModelInfo rt),
     rt_ListDefinitions = map_option (\<lambda>f. f \<circ> fst) (rt_ListDefinitions rt),
     rt_GetEnabledChannels = map_option (\<lambda>f. f \<circ> fst) (rt_GetEnabledChannels rt),
     rt_SwitchModel = map_option (\<lambda>f v (w, sent). (fst (f v w), (snd (f v w), sent))) (rt_SwitchModel rt),
     rt_ClearHistory = map_option (\<lambda>f (w, sent). (fst (f w), (snd (f w), sent))) (rt_ClearHistory rt),
     rt_CancelSession = map_option (\<lambda>f (w, sent). (fst (f w), (snd (f w), sent))) (rt_CancelSession rt)\<rparr>"

definition replies_once :: "('w \<times> string list) handler \<Rightarrow> bool" where
  "replies_once h \<longleftrightarrow>
    (\<forall>text rt w sent. \<exists>w' t. h log_reply text (map_option log_runtime rt) (w, sent) = (None, (w', sent @ [t])))"

lemma handlers_reply_once:
  "replies_once start_handler" "replies_once stop_handler" "replies_once clear_handler"
  "replies_once show_model_handler" "replies_once show_channels_handler"
  "replies_once switch_model_handler" "replies_once help_handler"
  unfolding replies_once_def
  by (auto simp: start_handler_def stop_handler_def clear_handler_def show_model_handler_def
      show_channels_handler_def switch_model_handler_def help_handler_def log_reply_def
      log_runtime_def Let_def split: option.splits prod.splits sum.splits bind_splits)

definition builtin_names :: "string list" where
  "builtin_names = [''start'', ''help'', ''stop'', ''show'', ''switch'', ''clear'']"

definition handler_ok :: "('w \<times> string list) command_def \<Rightarrow> bool" where
  "handler_ok d \<longleftrightarrow>
    (if cd_SubCommands d = [] then \<exists>h. cd_Handler d = Some h \<and> replies_once h
     else \<forall>sc \<in> set (cd_SubCommands d). \<exists>h. sc_Handler sc = Some h \<and> replies_once h)"

lemma builtin_handlers_ok: "d \<in> set builtin_definitions \<Longrightarrow> handler_ok d"
  by (auto simp: builtin_definitions_def simple_command_def show_command_def switch_command_def
      sub_command_def handler_ok_def handlers_reply_once)

lemma replies_onceD:
  "replies_once h \<Longrightarrow> \<exists>w' t. h log_reply text (map_option log_runtime rt) (w, sent) = (None, (w', sent @ [t]))"
  unfolding replies_once_def by blast

lemma execute_definition_once:
  assumes "handler_ok d" and "rq_Reply req = Some log_reply"
  shows "\<exists>w' t. execute_definition U req (map_option log_runtime rt) d (w, sent) =
    (\<lparr>er_Outcome = OutcomeHandled, er_Command = cd_Name d, er_Err = None\<rparr>, (w', sent @ [t]))"
proof (cases "cd_SubCommands d = []")
  case True
  then obtain h where h: "cd_Handler d = Some h" "replies_once h"
    using assms(1) by (auto simp: handler_ok_def)
  with True assms(2) replies_onceD [OF h(2), of "rq_Text req" rt w sent] show ?thesis
    by (auto simp: execute_definition_def handled_def Let_def)
next
  case False
  let ?find = "List.find (\<lambda>sc. normalize_command_name U (sm_Name sc) =
    normalize_command_name U (nth_token (rq_Text req) 1)) (cd_SubCommands d)"
  show ?thesis
  proof (cases "?find")
    case None
    with False assms(2) show ?thesis
      by (auto simp: execute_definition_def handled_def log_reply_def Let_def)
  next
    case (Some sc)
    then obtain h where h: "sc_Handler sc = Some h" "replies_once h"
      using False assms(1) find_Some_set [OF Some] by (auto simp: handler_ok_def)
    with Some False assms(2) replies_onceD [OF h(2), of "rq_Text req" rt w sent] show ?thesis
      by (auto simp: execute_definition_def handled_def log_reply_def Let_def)
  qed
qed

lemma normalize_builtin:
  "n \<in> set builtin_names \<Longrightarrow> normalize_command_name U n = n"
  by (auto simp: builtin_names_def normalize_command_name_def to_lower_ascii trim_space_trimmed
      trimmed_def head_len_zero space_seqs_def ascii_lower_def)

lemma builtin_command_names:
  "List.find (\<lambda>d. key \<in> command_names U d) builtin_definitions \<noteq> None \<longleftrightarrow> key \<in> set builtin_names"
  using normalize_builtin [of "''start''" U] normalize_builtin [of "''help''" U]
    normalize_builtin [of "''stop''" U] normalize_builtin [of "''show''" U]
    normalize_builtin [of "''switch''" U] normalize_builtin [of "''clear''" U]
  by (simp add: builtin_definitions_def command_names_def simple_command_def show_command_def
      switch_command_def builtin_names_def del: not_None_eq)

lemma set_fields_aux: "w \<in> set (fields_aux cur s) \<Longrightarrow> set w \<subseteq> set cur \<union> set s"
proof (induction cur s rule: fields_aux.induct)
  case (1 cur s)
  from 1(3) have "w \<in> set (if s = [] then if cur = [] then [] else [rev cur]
      else if head_len space_seqs s = 0 then fields_aux (hd s # cur) (tl s)
      else (if cur = [] then [] else [rev cur]) @ fields_aux [] (drop (head_len space_seqs s) s))"
    by (simp only: fields_aux.simps [of cur s])
  then show ?case
    using 1(1,2) set_drop_subset [of "head_len space_seqs s" s] hd_in_set [of s] list.set_sel(2) [of s]
    by (fastforce split: if_splits)
qed

lemma is_ascii_subset: "is_ascii s \<Longrightarrow> set t \<subseteq> set s \<Longrightarrow> is_ascii t"
  by (auto simp: is_ascii_def list_all_iff)

lemma is_ascii_nth_token: "is_ascii s \<Longrightarrow> is_ascii (nth_token s n)"
  using set_fields_aux [of "nth_token s n" "[]" "trim_space s"] set_trim_space [of s] nth_mem
  by (fastforce simp: nth_token_def split_fields_def Let_def intro: is_ascii_subset split: if_splits)

lemma is_ascii_take: "is_ascii s \<Longrightarrow> is_ascii (take n s)"
  by (rule is_ascii_subset [OF _ set_take_subset])

lemma is_ascii_drop: "is_ascii s \<Longrightarrow> is_ascii (drop n s)"
  by (rule is_ascii_subset [OF _ set_drop_subset])

lemma normalize_idem:
  "is_ascii s \<Longrightarrow> normalize_command_name U (normalize_command_name U s) = normalize_command_name U s"
  by (simp add: normalize_command_name_def to_lower_ascii is_ascii_trim trimmed_lower trim_space_trimmed
      comp_def)

lemma parse_command_normal:
  assumes "is_ascii text" and "parse_command_name U text = Some name"
  shows "normalize_command_name U name = name" and "name \<noteq> []"
proof -
  obtain n0 where n0: "trim_command_prefix (nth_token text 0) = Some n0"
    and name: "name = normalize_command_name U
      (case index_of ''@'' n0 of Some i \<Rightarrow> take i n0 | None \<Rightarrow> n0)" "name \<noteq> []"
    using assms(2) by (auto simp: parse_command_name_def Let_def split: if_splits option.splits)
  have "is_ascii n0"
    using n0 is_ascii_nth_token [OF assms(1), of 0]
    by (auto simp: trim_command_prefix_def trim_prefix_def is_ascii_drop split: option.splits)
  then have "is_ascii (case index_of ''@'' n0 of Some i \<Rightarrow> take i n0 | None \<Rightarrow> n0)"
    by (simp add: is_ascii_take split: option.split)
  with name show "normalize_command_name U name = name" and "name \<noteq> []"
    by (simp_all add: normalize_idem)
qed

text \<open>
  A message is handled exactly when its first word is a prefix and a built-in name, and
  then the user gets exactly one reply, whatever callbacks the runtime has and whether they
  succeed; any other message passes through without a reply and without touching the state.
\<close>

theorem execute_replies_once:
  fixes w :: 'w
  assumes "is_ascii (rq_Text req)" and "rq_Reply req = Some log_reply"
    and "execute U (Some (new_registry U builtin_definitions)) (map_option log_runtime rt) req
      (w, sent) = (res, (w', sent'))"
  shows "if \<exists>n \<in> set builtin_names. parse_command_name U (rq_Text req) = Some n
    then er_Outcome res = OutcomeHandled \<and> er_Err res = None \<and> (\<exists>t. sent' = sent @ [t])
    else er_Outcome res = OutcomePassthrough \<and> w' = w \<and> sent' = sent"
proof (cases "parse_command_name U (rq_Text req)")
  case None
  with assms(3) show ?thesis by (auto simp: execute_def passthrough_def)
next
  case (Some name)
  note name = parse_command_normal [OF assms(1) Some]
  let ?reg = "new_registry U (builtin_definitions :: ('w \<times> string list) command_def list)"
  have look: "registry_lookup U ?reg name =
      List.find (\<lambda>d. name \<in> command_names U d) builtin_definitions"
    using name by (simp add: lookup_find)
  show ?thesis
  proof (cases "registry_lookup U ?reg name")
    case None
    then have "name \<notin> set builtin_names"
      using look builtin_command_names [of name U] by (metis None)
    with None Some assms(3) show ?thesis
      by (auto simp: execute_def passthrough_def)
  next
    case (Some d)
    then have "handler_ok d"
      using look find_Some_set by (metis builtin_handlers_ok)
    then obtain w1 t where run: "execute_definition U req (map_option log_runtime rt) d (w, sent) =
        (\<lparr>er_Outcome = OutcomeHandled, er_Command = cd_Name d, er_Err = None\<rparr>, (w1, sent @ [t]))"
      using execute_definition_once [OF _ assms(2)] by metis
    have "name \<in> set builtin_names"
      using Some look builtin_command_names by (metis option.distinct(1))
    with Some run assms(3) \<open>parse_command_name U (rq_Text req) = Some name\<close> show ?thesis
      by (auto simp: execute_def)
  qed
qed

definition sample_request :: "string \<Rightarrow> (unit \<times> string list) request" where
  "sample_request text = \<lparr>rq_Channel = ''irc'', rq_ChatID = ''c'', rq_SenderID = ''u'', rq_Text = text,
    rq_Reply = Some log_reply\<rparr>"

theorem execute_replies_once_witness:
  "\<exists>t. snd (snd (execute ascii_only (Some (new_registry ascii_only builtin_definitions)) None
    (sample_request ''/STOP@bot now'') ((), []))) = [t]"
proof -
  obtain res w' sent' where run: "execute ascii_only (Some (new_registry ascii_only builtin_definitions))
      (map_option log_runtime None) (sample_request ''/STOP@bot now'') ((), []) = (res, (w', sent'))"
    by (metis surj_pair)
  have "is_ascii (rq_Text (sample_request ''/STOP@bot now''))"
    by (simp add: sample_request_def is_ascii_def)
  moreover have "parse_command_name ascii_only ''/STOP@bot now'' = Some ''stop''"
    by code_simp
  ultimately show ?thesis
    using execute_replies_once [OF _ _ run] run
    by (fastforce simp: sample_request_def builtin_names_def)
qed

subsection \<open>Views that callbacks leave alone\<close>

text \<open>
  When no callback of the runtime changes a view of the state, a handled command is one reply
  in a state with that view, and a command that passes through changes nothing.
\<close>

definition quiet_callbacks :: "('s \<Rightarrow> 'v) \<Rightarrow> 's runtime option \<Rightarrow> bool" where
  "quiet_callbacks v rt \<longleftrightarrow>
    (\<forall>f. Option.bind rt rt_SwitchModel = Some f \<longrightarrow> (\<forall>x s. v (snd (f x s)) = v s)) \<and>
    (\<forall>f. Option.bind rt rt_ClearHistory = Some f \<longrightarrow> (\<forall>s. v (snd (f s)) = v s)) \<and>
    (\<forall>f. Option.bind rt rt_CancelSession = Some f \<longrightarrow> (\<forall>s. v (snd (f s)) = v s))"

definition one_reply :: "('s \<Rightarrow> 'v) \<Rightarrow> 's reply_fn \<Rightarrow> 's \<Rightarrow> string option \<times> 's \<Rightarrow> bool" where
  "one_reply v reply s r \<longleftrightarrow> (\<exists>t s1. v s1 = v s \<and> r = reply t s1)"

lemma one_reply_now [simp]: "one_reply v reply s (reply t s)"
  unfolding one_reply_def by blast

lemma one_reply_after: "v s1 = v s \<Longrightarrow> one_reply v reply s (reply t s1)"
  unfolding one_reply_def by blast

lemma one_reply_handlers:
  assumes "quiet_callbacks v rt"
  shows "one_reply v reply s (start_handler reply text rt s)"
    and "one_reply v reply s (help_handler reply text rt s)"
    and "one_reply v reply s (show_model_handler reply text rt s)"
    and "one_reply v reply s (show_channels_handler reply text rt s)"
    and "one_reply v reply s (stop_handler reply text rt s)"
    and "one_reply v reply s (clear_handler reply text rt s)"
    and "one_reply v reply s (switch_model_handler reply text rt s)"
  using assms
  by (auto simp: start_handler_def help_handler_def show_model_handler_def show_channels_handler_def
      stop_handler_def clear_handler_def switch_model_handler_def quiet_callbacks_def Let_def
      intro!: one_reply_after split: option.splits prod.splits sum.splits) (metis snd_conv)+

definition one_reply_def_ok :: "('s \<Rightarrow> 'v) \<Rightarrow> 's runtime option \<Rightarrow> 's command_def \<Rightarrow> bool" where
  "one_reply_def_ok v rt d \<longleftrightarrow>
    (\<forall>h. cd_Handler d = Some h \<or> (\<exists>sc \<in> set (cd_SubCommands d). sc_Handler sc = Some h) \<longrightarrow>
      (\<forall>reply text s. one_reply v reply s (h reply text rt s)))"

lemma builtin_one_reply: "quiet_callbacks v rt \<Longrightarrow> d \<in> set builtin_definitions \<Longrightarrow> one_reply_def_ok v rt d"
  by (auto simp: one_reply_def_ok_def builtin_definitions_def simple_command_def show_command_def
      switch_command_def sub_command_def one_reply_handlers)

lemma execute_definition_view:
  assumes "one_reply_def_ok v rt d" and "rq_Reply req = Some reply"
    and "execute_definition U req rt d s = (res, s')"
  shows "er_Outcome res = OutcomePassthrough \<and> s' = s \<or>
    er_Outcome res = OutcomeHandled \<and> (\<exists>t s1. v s1 = v s \<and> s' = snd (reply t s1))"
proof -
  let ?find = "List.find (\<lambda>sc. normalize_command_name U (sm_Name sc) =
    normalize_command_name U (nth_token (rq_Text req) 1)) (cd_SubCommands d)"
  have handled: "er_Outcome res = OutcomeHandled \<and> (\<exists>t s1. v s1 = v s \<and> s' = snd (reply t s1))"
    if "handled n x = (res, s')" and "one_reply v reply s x" for n x
  proof -
    from that(2) obtain t s1 where "v s1 = v s" "x = reply t s1" by (auto simp: one_reply_def)
    moreover have "er_Outcome res = OutcomeHandled" "s' = snd x"
      using that(1) by (auto simp: handled_def split: prod.splits)
    ultimately show ?thesis by blast
  qed
  have run: "one_reply v reply s (h reply (rq_Text req) rt s)"
    if "cd_Handler d = Some h \<or> ?find = Some sc \<and> sc_Handler sc = Some h" for h sc
    using assms(1) that by (auto simp: one_reply_def_ok_def dest!: find_Some_set)
  show ?thesis
  proof (cases "cd_SubCommands d = []")
    case True
    show ?thesis
    proof (cases "cd_Handler d")
      case (Some h)
      with True assms have "handled (cd_Name d) (h reply (rq_Text req) rt s) = (res, s')"
        by (simp add: execute_definition_def Let_def)
      from handled [OF this run [of h]] Some show ?thesis by blast
    qed (use True assms in \<open>auto simp: execute_definition_def passthrough_def Let_def\<close>)
  next
    case False
    show ?thesis
    proof (cases "nth_token (rq_Text req) 1 = [] \<or> ?find = None")
      case True
      then obtain t where "handled (cd_Name d) (reply t s) = (res, s')"
        using False assms(2,3) by (auto simp: execute_definition_def Let_def split: if_splits)
      from handled [OF this] show ?thesis by simp
    next
      case found: False
      then obtain sc where sc: "?find = Some sc" by auto
      show ?thesis
      proof (cases "sc_Handler sc")
        case (Some h)
        with sc found False assms have "handled (cd_Name d) (h reply (rq_Text req) rt s) = (res, s')"
          by (simp add: execute_definition_def Let_def)
        from handled [OF this run [of h sc]] sc Some show ?thesis by blast
      qed (use sc found False assms in \<open>auto simp: execute_definition_def passthrough_def Let_def\<close>)
    qed
  qed
qed

lemma execute_view:
  assumes "quiet_callbacks v rt" and "rq_Reply req = Some reply"
    and "execute U (Some (new_registry U builtin_definitions)) rt req s = (res, s')"
  shows "er_Outcome res = OutcomePassthrough \<and> s' = s \<or>
    er_Outcome res = OutcomeHandled \<and> (\<exists>t s1. v s1 = v s \<and> s' = snd (reply t s1))"
proof (cases "parse_command_name U (rq_Text req)")
  case (Some name)
  show ?thesis
  proof (cases "registry_lookup U (new_registry U (builtin_definitions :: 'a command_def list)) name")
    case None
    with Some assms(3) show ?thesis by (auto simp: execute_def passthrough_def)
  next
    case (Some d)
    then have "d \<in> set builtin_definitions"
      unfolding lookup_find by (metis find_Some_set option.distinct(1))
    from execute_definition_view [OF builtin_one_reply [OF assms(1) this] assms(2), of U s res s']
    show ?thesis using assms(3) Some \<open>parse_command_name U (rq_Text req) = Some name\<close>
      by (simp add: execute_def)
  qed
qed (use assms(3) in \<open>auto simp: execute_def passthrough_def\<close>)

end
