(* ===== verification/Json.thy ===== *)
theory Json
  imports Go_Numbers Go_Runes
begin

text \<open>
  The part of \<open>encoding/json\<close> that the stores rely on: \<open>MarshalIndent(v, "", "  ")\<close> and
  \<open>Unmarshal\<close> for null, booleans, integers, strings, arrays and objects, with the interface
  \<open>codec\<close> for what is written to a file and read back. Strings are escaped as the package
  escapes ASCII text; bytes from 128 on are copied, so texts are meant to be valid UTF-8.
  \<open>JFraction\<close> stands for every number with a fraction or an exponent: no
  field of the source holds one, so its value is not kept.
\<close>

datatype json =
    JNull
  | JBool bool
  | JInt int
  | JFraction
  | JStr string
  | JArr "json list"
  | JObj "(string \<times> json) list"

subsection \<open>Strings\<close>

definition esc_char :: "char \<Rightarrow> string" where
  "esc_char c =
    (let n = (of_char c :: nat) in
     if c = CHR 0x22 \<or> c = CHR 0x5C then [CHR 0x5C, c]
     else if n = 8 then [CHR 0x5C, CHR ''b'']
     else if n = 9 then [CHR 0x5C, CHR ''t'']
     else if n = 10 then [CHR 0x5C, CHR ''n'']
     else if n = 12 then [CHR 0x5C, CHR ''f'']
     else if n = 13 then [CHR 0x5C, CHR ''r'']
     else if n < 32 \<or> c = CHR ''<'' \<or> c = CHR ''>'' \<or> c = CHR ''&''
       then CHR 0x5C # ''u00'' @ [hex_digit (n div 16), hex_digit (n mod 16)]
     else [c])"

definition quote :: "string \<Rightarrow> string" where
  "quote s = CHR 0x22 # concat (map esc_char s) @ [CHR 0x22]"

definition simple_escape :: "char \<Rightarrow> char option" where
  "simple_escape e =
    (if e = CHR 0x22 \<or> e = CHR 0x5C \<or> e = CHR ''/'' then Some e
     else if e = CHR ''b'' then Some (char_of (8::nat))
     else if e = CHR ''t'' then Some (char_of (9::nat))
     else if e = CHR ''n'' then Some (char_of (10::nat))
     else if e = CHR ''f'' then Some (char_of (12::nat))
     else if e = CHR ''r'' then Some (char_of (13::nat))
     else None)"

definition hex_char :: "char \<Rightarrow> nat option" where
  "hex_char c =
    (let n = (of_char c :: nat) in
     if 48 \<le> n \<and> n \<le> 57 then Some (n - 48)
     else if 97 \<le> n \<and> n \<le> 102 then Some (n - 87)
     else if 65 \<le> n \<and> n \<le> 70 then Some (n - 55)
     else None)"

fun hex4 :: "string \<Rightarrow> (nat \<times> string) option" where
  "hex4 (a # b # c # d # t) =
    (case (hex_char a, hex_char b, hex_char c, hex_char d) of
       (Some w, Some x, Some y, Some z) \<Rightarrow> Some (w * 4096 + x * 256 + y * 16 + z, t)
     | _ \<Rightarrow> None)"
| "hex4 _ = None"

lemma hex4_length: "hex4 s = Some (n, t) \<Longrightarrow> length t < length s"
  by (induction s rule: hex4.induct) (auto split: option.splits)

text \<open>The rune of an escape, with what follows it: a surrogate takes its other half along.\<close>

definition escaped_rune :: "nat \<Rightarrow> string \<Rightarrow> nat \<times> string" where
  "escaped_rune n r =
    (case (if 0xD800 \<le> n \<and> n \<le> 0xDBFF \<and> has_prefix [CHR 0x5C, CHR ''u''] r then hex4 (drop 2 r) else None) of
       None \<Rightarrow> (n, r)
     | Some (m, r') \<Rightarrow>
         if 0xDC00 \<le> m \<and> m \<le> 0xDFFF then ((n - 0xD800) * 0x400 + (m - 0xDC00) + 0x10000, r') else (n, r))"

lemma escaped_rune_length: "escaped_rune n r = (m, r') \<Longrightarrow> length r' \<le> length r"
  by (auto simp: escaped_rune_def dest!: hex4_length split: if_splits option.splits)

lemma escaped_rune_plain: "n < 0xD800 \<Longrightarrow> escaped_rune n r = (n, r)"
  by (simp add: escaped_rune_def)

text \<open>The rest of a string literal after its opening quote.\<close>

function unquote :: "string \<Rightarrow> (string \<times> string) option" where
  "unquote s =
    (case s of
       [] \<Rightarrow> None
     | c # t \<Rightarrow>
         if c = CHR 0x22 then Some ([], t)
         else if c = CHR 0x5C then
           (case t of
              [] \<Rightarrow> None
            | e # t' \<Rightarrow>
                if e = CHR ''u'' then
                  (case hex4 t' of
                     None \<Rightarrow> None
                   | Some (n, r) \<Rightarrow>
                       (case escaped_rune n r of
                          (m, r') \<Rightarrow> map_option (\<lambda>(x, q). (encode_rune m @ x, q)) (unquote r')))
                else (case simple_escape e of
                        None \<Rightarrow> None
                      | Some ch \<Rightarrow> map_option (\<lambda>(x, q). (ch # x, q)) (unquote t')))
         else if (of_char c :: nat) < 32 then None
         else map_option (\<lambda>(x, q). (c # x, q)) (unquote t))"
  by pat_completeness auto
termination
proof (relation "measure length")
  fix s :: string and c t e t' p n r m r'
  assume "s = c # t" "t = e # t'" "hex4 t' = Some p" "(n, r) = p" "(m, r') = escaped_rune n r"
  then show "(r', s) \<in> measure length" using hex4_length [of t' n r] escaped_rune_length [of n r m r'] by auto
qed auto

declare unquote.simps [simp del]

lemma hex_char_digit: "d < 16 \<Longrightarrow> hex_char (hex_digit d) = Some d"
  by (drule less_16_cases) (auto simp: hex_digit_def hex_char_def)

lemma encode_rune_ascii: "(of_char c :: nat) < 128 \<Longrightarrow> encode_rune (of_char c) = [c]"
  by (simp add: encode_rune_def rune_bytes_def scalar_def)

lemma unquote_escape_hex:
  assumes "(of_char c :: nat) < 128"
  shows "unquote (CHR 0x5C # ''u00'' @ [hex_digit (of_char c div 16), hex_digit (of_char c mod 16)] @ s) =
    map_option (\<lambda>(x, r). (c # x, r)) (unquote s)"
proof -
  have "hex_char CHR ''0'' = Some 0" by (simp add: hex_char_def)
  then have "hex4 (''00'' @ [hex_digit (of_char c div 16), hex_digit (of_char c mod 16)] @ s) =
      Some (of_char c, s)"
    using assms by (simp add: hex_char_digit)
  then show ?thesis
    using assms
    by (simp add: unquote.simps [of "CHR 0x5C # _"] encode_rune_ascii [OF assms] escaped_rune_plain
        split: option.splits)
qed

lemma unquote_simple_escape:
  "simple_escape e = Some ch \<Longrightarrow>
    unquote (CHR 0x5C # e # s) = map_option (\<lambda>(x, r). (ch # x, r)) (unquote s)"
  by (auto simp: unquote.simps [of "CHR 0x5C # _"] simple_escape_def)

lemma char_eq_of_char: "(of_char c :: nat) = n \<Longrightarrow> c = char_of n"
  by auto

lemma unquote_esc_char: "unquote (esc_char c @ s) = map_option (\<lambda>(x, r). (c # x, r)) (unquote s)"
proof -
  let ?n = "of_char c :: nat"
  consider "c = CHR 0x22 \<or> c = CHR 0x5C" | "?n = 8" | "?n = 9" | "?n = 10" | "?n = 12" | "?n = 13"
    | (hex) "\<not> (c = CHR 0x22 \<or> c = CHR 0x5C)" "?n \<notin> {8, 9, 10, 12, 13}"
        "?n < 32 \<or> c = CHR ''<'' \<or> c = CHR ''>'' \<or> c = CHR ''&''"
    | (plain) "\<not> (c = CHR 0x22 \<or> c = CHR 0x5C)"
        "\<not> (?n < 32 \<or> c = CHR ''<'' \<or> c = CHR ''>'' \<or> c = CHR ''&'')"
    by blast
  then show ?thesis
  proof cases
    case hex
    then have "?n < 128" by auto
    with hex show ?thesis
      using unquote_escape_hex [of c s] by (simp add: esc_char_def Let_def)
  next
    case plain
    then have "esc_char c = [c]" by (auto simp: esc_char_def Let_def)
    with plain show ?thesis by (simp add: unquote.simps [of "c # s"])
  qed (auto simp: esc_char_def Let_def unquote_simple_escape simple_escape_def dest!: char_eq_of_char)
qed

lemma unquote_concat:
  "unquote (concat (map esc_char k) @ CHR 0x22 # s) = Some (k, s)"
proof (induction k)
  case Nil
  then show ?case by (simp add: unquote.simps [of "CHR 0x22 # s"])
next
  case (Cons c k)
  then show ?case by (simp add: unquote_esc_char)
qed

lemma unquote_quote: "unquote (tl (quote k) @ s) = Some (k, s)"
  by (simp add: quote_def unquote_concat)

subsection \<open>Printing\<close>

definition nl :: string where "nl = [CHR 0x0A]"

definition block :: "char \<Rightarrow> char \<Rightarrow> string \<Rightarrow> string list \<Rightarrow> string" where
  "block l r ind xs =
    (if xs = [] then [l, r]
     else [l] @ nl @ ind @ ''  '' @ join ('','' @ nl @ ind @ ''  '') xs @ nl @ ind @ [r])"

fun print_json :: "string \<Rightarrow> json \<Rightarrow> string" where
  "print_json ind JNull = ''null''"
| "print_json ind (JBool b) = (if b then ''true'' else ''false'')"
| "print_json ind (JInt i) = format_int i"
| "print_json ind JFraction = ''0.5''"
| "print_json ind (JStr s) = quote s"
| "print_json ind (JArr vs) = block CHR ''['' CHR '']'' ind (map (print_json (ind @ ''  '')) vs)"
| "print_json ind (JObj kvs) =
    block CHR ''{'' CHR ''}'' ind
      (map (\<lambda>(k, v). quote k @ '': '' @ print_json (ind @ ''  '') v) kvs)"

definition marshal :: "json \<Rightarrow> string" where
  "marshal v = print_json [] v"

subsection \<open>Parsing\<close>

definition json_ws :: "char \<Rightarrow> bool" where
  "json_ws c \<longleftrightarrow> c = CHR '' '' \<or> c = CHR 0x09 \<or> c = CHR 0x0A \<or> c = CHR 0x0D"

definition skip :: "string \<Rightarrow> string" where
  "skip s = dropWhile json_ws s"

text \<open>A number without leading zeros, fraction and exponent, and one with a fraction or an exponent.\<close>

definition parse_nat :: "string \<Rightarrow> (nat \<times> string) option" where
  "parse_nat s =
    (let ds = takeWhile is_digit s; r = dropWhile is_digit s in
     if ds = [] \<or> (hd ds = CHR ''0'' \<and> length ds > 1) \<or>
        (r \<noteq> [] \<and> (hd r = CHR ''.'' \<or> hd r = CHR ''e'' \<or> hd r = CHR ''E''))
     then None else Some (decimal_value ds, r))"

definition skip_exponent :: "string \<Rightarrow> string option" where
  "skip_exponent r =
    (if r \<noteq> [] \<and> (hd r = CHR ''e'' \<or> hd r = CHR ''E'') then
       (let t = (if tl r \<noteq> [] \<and> (hd (tl r) = CHR ''+'' \<or> hd (tl r) = CHR ''-'') then tl (tl r) else tl r)
        in if takeWhile is_digit t = [] then None else Some (dropWhile is_digit t))
     else Some r)"

definition skip_fraction :: "string \<Rightarrow> string option" where
  "skip_fraction s =
    (let ds = takeWhile is_digit s; r = dropWhile is_digit s in
     if ds = [] \<or> (hd ds = CHR ''0'' \<and> length ds > 1) \<or> r = [] then None
     else if hd r = CHR ''.'' then
       (if takeWhile is_digit (tl r) = [] then None else skip_exponent (dropWhile is_digit (tl r)))
     else if hd r = CHR ''e'' \<or> hd r = CHR ''E'' then skip_exponent r
     else None)"

definition parse_number :: "bool \<Rightarrow> string \<Rightarrow> (json \<times> string) option" where
  "parse_number neg s =
    (case parse_nat s of
       Some (n, r) \<Rightarrow> Some (JInt (if neg then - int n else int n), r)
     | None \<Rightarrow> map_option (Pair JFraction) (skip_fraction s))"

definition parse_scalar :: "string \<Rightarrow> (json \<times> string) option" where
  "parse_scalar s =
    (if has_prefix ''null'' s then Some (JNull, drop 4 s)
     else if has_prefix ''true'' s then Some (JBool True, drop 4 s)
     else if has_prefix ''false'' s then Some (JBool False, drop 5 s)
     else case s of
       [] \<Rightarrow> None
     | c # t \<Rightarrow>
         if c = CHR 0x22 then map_option (\<lambda>(x, r). (JStr x, r)) (unquote t)
         else if c = CHR ''-'' then parse_number True t
         else parse_number False s)"

text \<open>The fuel bounds the nesting and the number of elements.\<close>

fun parse_value :: "nat \<Rightarrow> string \<Rightarrow> (json \<times> string) option"
  and parse_elems :: "nat \<Rightarrow> string \<Rightarrow> (json list \<times> string) option"
  and parse_members :: "nat \<Rightarrow> string \<Rightarrow> ((string \<times> json) list \<times> string) option" where
  "parse_value 0 s = None"
| "parse_value (Suc n) s0 =
    (let s = skip s0 in
     if s \<noteq> [] \<and> hd s = CHR ''['' then
       (if skip (tl s) \<noteq> [] \<and> hd (skip (tl s)) = CHR '']'' then Some (JArr [], tl (skip (tl s)))
        else map_option (\<lambda>(vs, r). (JArr vs, r)) (parse_elems n (tl s)))
     else if s \<noteq> [] \<and> hd s = CHR ''{'' then
       (if skip (tl s) \<noteq> [] \<and> hd (skip (tl s)) = CHR ''}'' then Some (JObj [], tl (skip (tl s)))
        else map_option (\<lambda>(kvs, r). (JObj kvs, r)) (parse_members n (tl s)))
     else parse_scalar s)"
| "parse_elems 0 s = None"
| "parse_elems (Suc n) s =
    (case parse_value n s of
       None \<Rightarrow> None
     | Some (v, r0) \<Rightarrow>
         let r = skip r0 in
         if r \<noteq> [] \<and> hd r = CHR '']'' then Some ([v], tl r)
         else if r \<noteq> [] \<and> hd r = CHR '','' then
           map_option (\<lambda>(vs, q). (v # vs, q)) (parse_elems n (tl r))
         else None)"
| "parse_members 0 s = None"
| "parse_members (Suc n) s0 =
    (let s = skip s0 in
     if s = [] \<or> hd s \<noteq> CHR 0x22 then None
     else case unquote (tl s) of
       None \<Rightarrow> None
     | Some (k, r1) \<Rightarrow>
         let r2 = skip r1 in
         if r2 = [] \<or> hd r2 \<noteq> CHR '':'' then None
         else (case parse_value n (tl r2) of
           None \<Rightarrow> None
         | Some (v, r3) \<Rightarrow>
             let r = skip r3 in
             if r \<noteq> [] \<and> hd r = CHR ''}'' then Some ([(k, v)], tl r)
             else if r \<noteq> [] \<and> hd r = CHR '','' then
               map_option (\<lambda>(kvs, q). ((k, v) # kvs, q)) (parse_members n (tl r))
             else None))"

definition unmarshal :: "string \<Rightarrow> json option" where
  "unmarshal s =
    (case parse_value (2 * length s + 1) s of
       Some (v, r) \<Rightarrow> if skip r = [] then Some v else None
     | None \<Rightarrow> None)"

subsection \<open>Reading back what was printed\<close>

fun cost :: "json \<Rightarrow> nat" where
  "cost (JArr vs) = Suc (sum_list (map (\<lambda>v. Suc (cost v)) vs))"
| "cost (JObj kvs) = Suc (sum_list (map (\<lambda>(k, v). Suc (cost v)) kvs))"
| "cost _ = 1"

definition blank :: "string \<Rightarrow> bool" where
  "blank s \<longleftrightarrow> list_all json_ws s"

lemma skip_blank: "blank ind \<Longrightarrow> skip (ind @ s) = skip s"
  by (simp add: skip_def blank_def list_all_iff dropWhile_append)

lemma blank_simps [simp]:
  "blank []" "blank nl" "blank (s @ t) \<longleftrightarrow> blank s \<and> blank t" "blank (CHR '' '' # s) \<longleftrightarrow> blank s"
  by (auto simp: blank_def nl_def json_ws_def)

lemma skip_nonws: "\<not> json_ws c \<Longrightarrow> skip (c # s) = c # s"
  by (simp add: skip_def)

lemma skip_Nil [simp]: "skip [] = []"
  by (simp add: skip_def)

text \<open>What may follow a value.\<close>

definition stops :: "string \<Rightarrow> bool" where
  "stops r \<longleftrightarrow> r = [] \<or> json_ws (hd r) \<or> hd r = CHR '','' \<or> hd r = CHR '']'' \<or> hd r = CHR ''}''"

lemma stops_no_number:
  "stops r \<Longrightarrow> r = [] \<or> \<not> is_digit (hd r) \<and> hd r \<noteq> CHR ''.'' \<and> hd r \<noteq> CHR ''e'' \<and> hd r \<noteq> CHR ''E''"
  by (auto simp: stops_def json_ws_def is_digit_def)

lemma format_nat_no_zero: "n > 0 \<Longrightarrow> hd (format_nat n) \<noteq> CHR ''0''"
proof (induction n rule: format_nat.induct)
  case (1 n)
  show ?case
  proof (cases "n < 10")
    case True
    have "(of_char (digit n) :: nat) \<noteq> of_char CHR ''0''"
      using True 1(2) by (simp add: of_char_digit)
    then have "digit n \<noteq> CHR ''0''" by metis
    with True show ?thesis by (simp add: format_nat.simps [of n])
  next
    case False
    with 1 show ?thesis
      by (simp add: format_nat.simps [of n] hd_append format_nat_nonempty)
  qed
qed

lemma format_nat_0: "format_nat 0 = ''0''"
  by code_simp

lemma parse_format_nat:
  assumes "stops r"
  shows "parse_nat (format_nat n @ r) = Some (n, r)"
proof -
  have r: "r = [] \<or> \<not> is_digit (hd r) \<and> hd r \<noteq> CHR ''.'' \<and> hd r \<noteq> CHR ''e'' \<and> hd r \<noteq> CHR ''E''"
    using assms by (rule stops_no_number)
  then have "takeWhile is_digit (format_nat n @ r) = format_nat n"
    and "dropWhile is_digit (format_nat n @ r) = r"
    using takeWhile_digits [OF format_nat_digits [of n], of r] by blast+
  moreover have "\<not> (hd (format_nat n) = CHR ''0'' \<and> length (format_nat n) > 1)"
    using format_nat_no_zero [of n] format_nat_0 by (cases "n = 0") auto
  ultimately show ?thesis
    using r unfolding parse_nat_def Let_def by (auto simp: decimal_value_format format_nat_nonempty)
qed

lemma format_nat_Cons: "\<exists>c t. format_nat n = c # t \<and> is_digit c"
  using format_nat_digits [of n] format_nat_nonempty [of n] by (cases "format_nat n") auto

lemma parse_scalar_int: "stops r \<Longrightarrow> parse_scalar (format_int i @ r) = Some (JInt i, r)"
proof -
  assume r: "stops r"
  show ?thesis
  proof (cases "i < 0")
    case True
    then show ?thesis
      using parse_format_nat [OF r, of "nat (- i)"] by (simp add: parse_scalar_def parse_number_def format_int_def)
  next
    case False
    obtain c t where c: "format_nat (nat i) = c # t" "is_digit c"
      using format_nat_Cons by blast
    then have "c \<noteq> CHR ''n''" "c \<noteq> CHR ''t''" "c \<noteq> CHR ''f''" "c \<noteq> CHR 0x22" "c \<noteq> CHR ''-''"
      by (auto simp: is_digit_def)
    with c False parse_format_nat [OF r, of "nat i"] show ?thesis
      by (simp add: parse_scalar_def parse_number_def format_int_def)
  qed
qed

lemma parse_scalar_fraction: "stops r \<Longrightarrow> parse_scalar (''0.5'' @ r) = Some (JFraction, r)"
proof -
  assume "stops r"
  then have "r = [] \<or> \<not> is_digit (hd r) \<and> hd r \<noteq> CHR ''.'' \<and> hd r \<noteq> CHR ''e'' \<and> hd r \<noteq> CHR ''E''"
    by (rule stops_no_number)
  then have "takeWhile is_digit r = []" "dropWhile is_digit r = r" "skip_exponent r = Some r"
    by (cases r; simp add: skip_exponent_def)+
  then show ?thesis
    by (simp add: parse_scalar_def parse_number_def parse_nat_def skip_fraction_def is_digit_def Let_def)
qed

lemma print_json_first:
  "\<exists>c t. print_json ind v = c # t \<and> \<not> json_ws c \<and> c \<noteq> CHR '']'' \<and> c \<noteq> CHR ''}'' \<and>
    ((c = CHR ''['' \<longleftrightarrow> (\<exists>vs. v = JArr vs)) \<and> (c = CHR ''{'' \<longleftrightarrow> (\<exists>kvs. v = JObj kvs)))"
proof (cases v)
  case (JInt i)
  then show ?thesis
    using format_nat_Cons [of "nat i"] by (auto simp: format_int_def json_ws_def is_digit_def)
qed (auto simp: json_ws_def quote_def block_def)

text \<open>The elements of a block, each followed by a comma or the closing bracket.\<close>

lemma block_Cons:
  "block l r ind (x # xs) = l # nl @ ind @ ''  '' @ x @
    (if xs = [] then nl @ ind @ [r] else '','' @ tl (block l r ind xs))"
  by (cases xs) (simp_all add: block_def)

definition reads_back :: "json \<Rightarrow> bool" where
  "reads_back v \<longleftrightarrow> (\<forall>n ind s. cost v \<le> n \<longrightarrow> blank ind \<longrightarrow> stops s \<longrightarrow>
    parse_value n (print_json ind v @ s) = Some (v, s))"

lemma parse_value_blank: "blank b \<Longrightarrow> parse_value n (b @ s) = parse_value n s"
  by (cases n) (simp_all add: skip_blank)

lemma parse_value_space: "parse_value n (CHR '' '' # s) = parse_value n s"
  using parse_value_blank [of "'' ''" n s] by simp

lemma parse_members_blank: "blank b \<Longrightarrow> parse_members n (b @ s) = parse_members n s"
  by (cases n) (simp_all add: skip_blank)

lemma stops_simps [simp]:
  "stops (CHR '','' # s)" "stops (nl @ s)" "stops (CHR '']'' # s)" "stops (CHR ''}'' # s)"
  by (simp_all add: stops_def nl_def json_ws_def)

lemma skip_simps [simp]:
  "skip (CHR '','' # s) = CHR '','' # s" "skip (CHR '']'' # s) = CHR '']'' # s"
  "skip (CHR ''}'' # s) = CHR ''}'' # s" "skip (CHR 0x22 # s) = CHR 0x22 # s"
  "skip (CHR '':'' # s) = CHR '':'' # s" "skip (CHR '' '' # s) = skip s"
  by (simp_all add: skip_def json_ws_def)

lemma parse_elems_block:
  assumes "\<forall>v \<in> set vs. reads_back v" and "vs \<noteq> []" and "blank ind"
    and "sum_list (map (\<lambda>v. Suc (cost v)) vs) \<le> n"
  shows "parse_elems n (tl (block CHR ''['' CHR '']'' ind (map (print_json (ind @ ''  '')) vs)) @ s) =
    Some (vs, s)"
  using assms
proof (induction vs arbitrary: n)
  case (Cons v vs)
  then obtain m where n: "n = Suc m" and m: "cost v \<le> m" "sum_list (map (\<lambda>v. Suc (cost v)) vs) \<le> m"
    by (cases n) auto
  have read: "parse_value m (print_json (ind @ ''  '') v @ r) = Some (v, r)" if "stops r" for r
    using Cons.prems m that by (simp add: reads_back_def)
  show ?case
  proof (cases "vs = []")
    case True
    then show ?thesis
      using Cons.prems read by (simp add: n block_Cons parse_value_blank parse_value_space skip_blank)
  next
    case False
    then show ?thesis
      using Cons.prems m read Cons.IH [of m]
      by (simp add: n block_Cons parse_value_blank parse_value_space skip_blank)
  qed
qed simp

lemma parse_members_block:
  assumes "\<forall>(k, v) \<in> set kvs. reads_back v" and "kvs \<noteq> []" and "blank ind"
    and "sum_list (map (\<lambda>(k, v). Suc (cost v)) kvs) \<le> n"
  shows "parse_members n (tl (block CHR ''{'' CHR ''}'' ind
      (map (\<lambda>(k, v). quote k @ '': '' @ print_json (ind @ ''  '') v) kvs)) @ s) = Some (kvs, s)"
  using assms
proof (induction kvs arbitrary: n)
  case (Cons kv kvs)
  obtain k v where kv: "kv = (k, v)" by force
  with Cons.prems obtain m where n: "n = Suc m"
    and m: "cost v \<le> m" "sum_list (map (\<lambda>(k, v). Suc (cost v)) kvs) \<le> m"
    by (cases n) auto
  have read: "parse_value m (print_json (ind @ ''  '') v @ r) = Some (v, r)" if "stops r" for r
    using Cons.prems m kv that by (simp add: reads_back_def)
  have q: "quote k @ r = CHR 0x22 # tl (quote k) @ r" for r
    by (simp add: quote_def)
  show ?case
  proof (cases "kvs = []")
    case True
    then show ?thesis
      using Cons.prems read
      by (simp add: n kv block_Cons skip_blank q unquote_quote parse_value_space)
  next
    case False
    then show ?thesis
      using Cons.prems m read Cons.IH [of m]
      by (simp add: n kv block_Cons skip_blank q unquote_quote parse_value_space)
  qed
qed simp

lemma skip_print: "skip (print_json ind v @ s) = print_json ind v @ s"
  using print_json_first [of ind v] by (auto simp: skip_nonws)

lemma block_tl: "block l r ind xs = l # tl (block l r ind xs)"
  by (simp add: block_def)

lemma first_elem_no_close:
  assumes "vs \<noteq> []" and "blank ind"
  shows "skip (tl (block CHR ''['' CHR '']'' ind (map (print_json (ind @ ''  '')) vs)) @ s) \<noteq> [] \<and>
    hd (skip (tl (block CHR ''['' CHR '']'' ind (map (print_json (ind @ ''  '')) vs)) @ s)) \<noteq> CHR '']''"
proof -
  obtain v vs' where "vs = v # vs'" using assms(1) by (cases vs) auto
  with assms(2) print_json_first [of "ind @ ''  ''" v] show ?thesis
    by (auto simp: block_Cons skip_blank skip_print)
qed

lemma first_member_no_close:
  assumes "kvs \<noteq> []" and "blank ind"
  shows "skip (tl (block CHR ''{'' CHR ''}'' ind (map (\<lambda>(k, v). quote k @ '': '' @ f v) kvs)) @ s) \<noteq> [] \<and>
    hd (skip (tl (block CHR ''{'' CHR ''}'' ind (map (\<lambda>(k, v). quote k @ '': '' @ f v) kvs)) @ s))
      \<noteq> CHR ''}''"
proof -
  obtain k v kvs' where "kvs = (k, v) # kvs'" using assms(1) by (cases kvs) auto
  with assms(2) show ?thesis
    by (auto simp: block_Cons skip_blank quote_def)
qed

lemma reads_back_scalar:
  assumes "\<And>ind s. stops s \<Longrightarrow> parse_scalar (print_json ind v @ s) = Some (v, s)"
    and "cost v = 1" and "\<nexists>vs. v = JArr vs" and "\<nexists>kvs. v = JObj kvs"
  shows "reads_back v"
  unfolding reads_back_def
proof (intro allI impI)
  fix n ind s
  assume "cost v \<le> n" and s: "stops s"
  then obtain m where n: "n = Suc m" using assms(2) by (cases n) auto
  obtain c t where "print_json ind v = c # t" "c \<noteq> CHR ''[''" "c \<noteq> CHR ''{''"
    using print_json_first [of ind v] assms(3,4) by auto
  with assms(1) [OF s, of ind] show "parse_value n (print_json ind v @ s) = Some (v, s)"
    using skip_print [of ind v s] by (simp add: n)
qed

lemma parse_value_arr:
  "parse_elems m b = Some (vs, s) \<Longrightarrow> skip b \<noteq> [] \<and> hd (skip b) \<noteq> CHR '']'' \<Longrightarrow>
    parse_value (Suc m) (CHR ''['' # b) = Some (JArr vs, s)"
  by (simp add: skip_nonws json_ws_def)

lemma parse_value_obj:
  "parse_members m b = Some (kvs, s) \<Longrightarrow> skip b \<noteq> [] \<and> hd (skip b) \<noteq> CHR ''}'' \<Longrightarrow>
    parse_value (Suc m) (CHR ''{'' # b) = Some (JObj kvs, s)"
  by (simp add: skip_nonws json_ws_def)

lemma reads_back_all: "reads_back v"
proof (induction v)
  case JNull
  show ?case by (rule reads_back_scalar) (simp_all add: parse_scalar_def)
next
  case (JBool b)
  show ?case by (rule reads_back_scalar) (simp_all add: parse_scalar_def)
next
  case (JInt i)
  show ?case by (rule reads_back_scalar) (simp_all add: parse_scalar_int)
next
  case JFraction
  show ?case by (rule reads_back_scalar) (simp_all add: parse_scalar_fraction [simplified])
next
  case (JStr k)
  show ?case
    by (rule reads_back_scalar) (simp_all add: parse_scalar_def quote_def unquote_concat)
next
  case (JArr vs)
  show ?case
    unfolding reads_back_def
  proof (intro allI impI)
    fix n ind s
    assume c: "cost (JArr vs) \<le> n" and b: "blank ind"
    then obtain m where n: "n = Suc m" "sum_list (map (\<lambda>v. Suc (cost v)) vs) \<le> m" by (cases n) auto
    show "parse_value n (print_json ind (JArr vs) @ s) = Some (JArr vs, s)"
    proof (cases "vs = []")
      case True
      then show ?thesis by (simp add: n(1) block_def skip_nonws json_ws_def)
    next
      case False
      let ?b = "tl (block CHR ''['' CHR '']'' ind (map (print_json (ind @ ''  '')) vs)) @ s"
      have "print_json ind (JArr vs) @ s = CHR ''['' # ?b"
        by (metis append_Cons block_tl print_json.simps(6))
      moreover have "parse_elems m ?b = Some (vs, s)"
        using JArr by (intro parse_elems_block [OF _ False b n(2)]) simp
      ultimately show ?thesis
        using first_elem_no_close [OF False b, of s] n(1) parse_value_arr by metis
    qed
  qed
next
  case (JObj kvs)
  show ?case
    unfolding reads_back_def
  proof (intro allI impI)
    fix n ind s
    assume c: "cost (JObj kvs) \<le> n" and b: "blank ind"
    then obtain m where n: "n = Suc m" "sum_list (map (\<lambda>(k, v). Suc (cost v)) kvs) \<le> m" by (cases n) auto
    have ih: "\<forall>(k, v) \<in> set kvs. reads_back v" using JObj by fastforce
    show "parse_value n (print_json ind (JObj kvs) @ s) = Some (JObj kvs, s)"
    proof (cases "kvs = []")
      case True
      then show ?thesis by (simp add: n(1) block_def skip_nonws json_ws_def)
    next
      case False
      let ?b = "tl (block CHR ''{'' CHR ''}'' ind
        (map (\<lambda>(k, v). quote k @ '': '' @ print_json (ind @ ''  '') v) kvs)) @ s"
      have "print_json ind (JObj kvs) @ s = CHR ''{'' # ?b"
        by (metis append_Cons block_tl print_json.simps(7))
      moreover have "parse_members m ?b = Some (kvs, s)"
        by (rule parse_members_block [OF ih False b n(2)])
      ultimately show ?thesis
        using first_member_no_close [OF False b, of "print_json (ind @ ''  '')" s] n(1)
          parse_value_obj by metis
    qed
  qed
qed

lemma length_join: "sum_list (map length xs) \<le> length (join sep xs)"
  by (induction sep xs rule: join.induct) auto

lemma length_block: "sum_list (map length xs) + 2 \<le> length (block l r ind xs)"
  using length_join [of xs "'','' @ nl @ ind @ ''  ''"] by (simp add: block_def)

lemma sum_list_mult2: "sum_list (map (\<lambda>x. 2 * f x) xs) = 2 * sum_list (map f xs)" for f :: "'a \<Rightarrow> nat"
  by (induction xs) auto

lemma cost_length: "Suc (cost v) \<le> 2 * length (print_json ind v)"
proof (induction v arbitrary: ind)
  case (JInt i)
  have "Suc 0 \<le> length (format_int i)"
    using format_nat_nonempty by (simp add: format_int_def Suc_le_eq)
  then have "Suc (Suc 0) \<le> 2 * length (format_int i)" by linarith
  then show ?case by simp
next
  case (JArr vs)
  let ?len = "\<lambda>v. length (print_json (ind @ ''  '') v)"
  have "sum_list (map (\<lambda>v. Suc (cost v)) vs) \<le> sum_list (map (\<lambda>v. 2 * ?len v) vs)"
    using JArr by (intro sum_list_mono) blast
  also have "\<dots> = 2 * sum_list (map ?len vs)"
    by (rule sum_list_mult2)
  finally show ?case
    using length_block [of "map (print_json (ind @ ''  '')) vs" "CHR ''[''" "CHR '']''" ind]
    by (simp add: comp_def)
next
  case (JObj kvs)
  let ?mem = "\<lambda>(k, v). quote k @ '': '' @ print_json (ind @ ''  '') v"
  have "Suc (cost v) \<le> 2 * length (?mem (k, v))" if "(k, v) \<in> set kvs" for k v
    using JObj [OF that, of v "ind @ ''  ''"] by simp
  then have "sum_list (map (\<lambda>(k, v). Suc (cost v)) kvs) \<le> sum_list (map (\<lambda>kv. 2 * length (?mem kv)) kvs)"
    by (intro sum_list_mono) auto
  also have "\<dots> = 2 * sum_list (map (\<lambda>kv. length (?mem kv)) kvs)"
    by (rule sum_list_mult2)
  finally show ?case
    using length_block [of "map ?mem kvs" "CHR ''{''" "CHR ''}''" ind]
    by (simp add: comp_def)
qed (auto simp: quote_def)

text \<open>Reading what was printed gives the value back.\<close>

lemma unmarshal_marshal: "unmarshal (marshal v) = Some v"
proof -
  have "cost v \<le> 2 * length (marshal v) + 1"
    using cost_length [of v "[]"] by (simp add: marshal_def)
  moreover have "stops []" by (simp add: stops_def)
  moreover have "blank []" by simp
  ultimately have "parse_value (2 * length (marshal v) + 1) (print_json [] v @ []) = Some (v, [])"
    using reads_back_all [of v] unfolding reads_back_def by blast
  then show ?thesis unfolding unmarshal_def marshal_def by simp
qed

subsection \<open>What a store expects of its file format\<close>

locale codec =
  fixes enc :: "'a \<Rightarrow> string"
    and dec :: "string \<Rightarrow> 'a option"
    and valid :: "'a \<Rightarrow> bool"
  assumes dec_enc: "valid x \<Longrightarrow> dec (enc x) = Some x"
begin

lemma enc_inj: "valid x \<Longrightarrow> valid y \<Longrightarrow> enc x = enc y \<Longrightarrow> x = y"
  by (metis dec_enc option.inject)

end

interpretation js: codec marshal unmarshal "\<lambda>_. True"
  by unfold_locales (rule unmarshal_marshal)

subsection \<open>Objects of strings in compact form\<close>

lemma quote_Cons: "quote s = CHR 0x22 # tl (quote s)"
  by (simp add: quote_def)

lemma parse_quote: "parse_value (Suc n) (quote s @ r) = Some (JStr s, r)"
proof -
  have q: "quote s @ r = CHR 0x22 # (tl (quote s) @ r)" using quote_Cons by (metis append_Cons)
  show ?thesis
    unfolding q by (simp add: Let_def skip_nonws json_ws_def parse_scalar_def unquote_quote)
qed

lemma parse_member:
  "parse_members (Suc (Suc n)) (quote k @ '':'' @ quote v @ '','' @ r) =
     map_option (\<lambda>(kvs, q). ((k, JStr v) # kvs, q)) (parse_members (Suc n) r)"
  "parse_members (Suc (Suc n)) (quote k @ '':'' @ quote v @ ''}'' @ r) = Some ([(k, JStr v)], r)"
proof -
  have q: "quote k @ t = CHR 0x22 # (tl (quote k) @ t)" for t using quote_Cons by (metis append_Cons)
  show "parse_members (Suc (Suc n)) (quote k @ '':'' @ quote v @ '','' @ r) =
     map_option (\<lambda>(kvs, q). ((k, JStr v) # kvs, q)) (parse_members (Suc n) r)"
    "parse_members (Suc (Suc n)) (quote k @ '':'' @ quote v @ ''}'' @ r) = Some ([(k, JStr v)], r)"
    unfolding q [of "'':'' @ _"]
    by (simp_all add: Let_def skip_nonws json_ws_def unquote_quote parse_quote del: parse_value.simps)
qed

lemma parse_brace:
  "parse_value (Suc m) (''{'' @ quote k @ r) = map_option (\<lambda>(kvs, r). (JObj kvs, r)) (parse_members m (quote k @ r))"
proof -
  have q: "quote k @ r = CHR 0x22 # (tl (quote k) @ r)" using quote_Cons by (metis append_Cons)
  show ?thesis unfolding q by (simp add: Let_def skip_nonws json_ws_def)
qed

lemma esc_char_no_newline: "CHR 0x0A \<notin> set (esc_char c)"
proof -
  have h: "hex_digit d \<noteq> CHR 0x0A" if "d < 16" for d
    using that by (drule_tac less_16_cases) (auto simp: hex_digit_def)
  have n: "(of_char c :: nat) < 256" using mod_less_divisor [of 256 "of_char c :: nat"] by simp
  then have d: "(of_char c :: nat) div 16 < 16" by linarith
  show ?thesis
  proof (cases "(of_char c :: nat) = 10")
    case False
    then have "c \<noteq> CHR 0x0A" by auto
    then show ?thesis
      using h [OF d] h [of "of_char c mod 16"] unfolding esc_char_def Let_def by simp
  qed (simp add: esc_char_def)
qed

lemma quote_no_newline: "CHR 0x0A \<notin> set (quote s)"
  by (auto simp: quote_def esc_char_no_newline)

end
