(* ===== verification/Stores.thy ===== *)
theory Stores
  imports Json "HOL-Library.Finite_Map" "HOL-Library.Char_ord" "HOL-Library.List_Lexorder"
begin

text \<open>
  Small files that survive restarts: \<open>pkg/fileutil/file.go\<close> (atomic writes), the session map of
  \<open>pkg/bridge/sessions.go\<close> and the workspace state of \<open>pkg/state/state.go\<close>. The disk is a map
  from paths to contents. An atomic write is the list of the disk states it goes through, so
  that a crash is any of them; each system call may fail.
\<close>

subsection \<open>Atomic writes\<close>

type_synonym disk = "string \<rightharpoonup> string"

datatype write_step = MkdirAll | OpenTemp | WriteData | SyncFile | ChmodFile | CloseFile | RenameFile

text \<open>
  \<open>fails\<close> says which call fails, \<open>partial\<close> how much of the data reaches the file before it is
  complete. A failure after the temporary file was created removes it again.
\<close>

definition write_file_atomic ::
  "(write_step \<Rightarrow> bool) \<Rightarrow> nat \<Rightarrow> disk \<Rightarrow> string \<Rightarrow> string \<Rightarrow> string \<Rightarrow> disk list \<times> string option" where
  "write_file_atomic fails partial d tmp path data =
    (let opened = d(tmp \<mapsto> []);
         partly = d(tmp \<mapsto> take partial data);
         written = d(tmp \<mapsto> data);
         cleaned = d(tmp := None)
     in if fails MkdirAll then ([d], Some ''failed to create directory'')
     else if fails OpenTemp \<or> d tmp \<noteq> None then ([d], Some ''failed to create temp file'')
     else if fails WriteData then ([d, opened, partly, cleaned], Some ''failed to write temp file'')
     else if fails SyncFile then ([d, opened, partly, written, cleaned], Some ''failed to sync temp file'')
     else if fails ChmodFile then ([d, opened, partly, written, cleaned], Some ''failed to set permissions'')
     else if fails CloseFile then ([d, opened, partly, written, cleaned], Some ''failed to close temp file'')
     else if fails RenameFile then ([d, opened, partly, written, cleaned], Some ''failed to rename temp file'')
     else ([d, opened, partly, written, cleaned(path \<mapsto> data)], None))"

lemma write_file_atomic_states:
  assumes "write_file_atomic fails n d tmp path data = (ds, err)" and "tmp \<noteq> path"
  shows "ds \<noteq> [] \<and> (\<forall>d' \<in> set ds. (d' path = d path \<or> d' path = Some data) \<and>
      (\<forall>p. p \<noteq> path \<longrightarrow> p \<noteq> tmp \<longrightarrow> d' p = d p)) \<and>
    last ds = (if err = None then d(path \<mapsto> data) else d)"
  using assms by (auto simp: write_file_atomic_def Let_def fun_upd_idem split: if_splits)



subsection \<open>A value kept in a file\<close>

text \<open>
  Saving encodes the value and writes it atomically; loading decodes the file into an initial
  value, which a missing file leaves alone.
\<close>

locale file_store =
  fixes encf :: "'a \<Rightarrow> string"
    and readf :: "'a \<Rightarrow> string \<Rightarrow> 'a \<times> string option"
    and initial :: "'a"
    and good :: "'a \<Rightarrow> bool"
  assumes read_enc: "good x \<Longrightarrow> readf initial (encf x) = (x, None)"
begin

definition savef :: "(write_step \<Rightarrow> bool) \<Rightarrow> nat \<Rightarrow> disk \<Rightarrow> string \<Rightarrow> string \<Rightarrow> 'a \<Rightarrow> disk list \<times> string option" where
  "savef fails n d tmp path x = write_file_atomic fails n d tmp path (encf x)"

definition restart :: "disk \<Rightarrow> string \<Rightarrow> 'a \<times> string option" where
  "restart d path = (case d path of None \<Rightarrow> (initial, None) | Some s \<Rightarrow> readf initial s)"

lemma restart_new: "good x \<Longrightarrow> d path = Some (encf x) \<Longrightarrow> restart d path = (x, None)"
  by (simp add: restart_def read_enc)

lemma restart_saved:
  assumes "savef fails n d tmp path x = (ds, None)" and "tmp \<noteq> path" and "good x"
  shows "restart (last ds) path = (x, None)"
  using write_file_atomic_states [OF assms(1) [unfolded savef_def] assms(2)] restart_new [OF assms(3)]
  by simp

lemma restart_crashed:
  assumes "savef fails n d tmp path x = (ds, err)" and "tmp \<noteq> path" and "good x" and "d' \<in> set ds"
  shows "restart d' path = restart d path \<or> restart d' path = (x, None)"
  using write_file_atomic_states [OF assms(1) [unfolded savef_def] assms(2)] restart_new [OF assms(3)]
    assms(4)
  by (auto simp: restart_def)

end

subsection \<open>Sessions\<close>

text \<open>
  \<open>data\<close> is a Go map: \<open>None\<close> is the nil map that a file with \<open>null\<close> leaves behind, on which an
  assignment panics.
\<close>

record sessions =
  ss_data :: "(string, string) fmap option"
  ss_path :: string

definition new_sessions :: "string \<Rightarrow> sessions" where
  "new_sessions path = \<lparr>ss_data = Some fmempty, ss_path = path\<rparr>"

definition sessions_get :: "sessions \<Rightarrow> string \<Rightarrow> string option" where
  "sessions_get s key = (case ss_data s of None \<Rightarrow> None | Some m \<Rightarrow> fmlookup m key)"

definition sessions_set :: "string \<Rightarrow> string \<Rightarrow> sessions \<Rightarrow> sessions option" where
  "sessions_set key sessionID s =
    (case ss_data s of None \<Rightarrow> None | Some m \<Rightarrow> Some (s\<lparr>ss_data := Some (fmupd key sessionID m)\<rparr>))"

definition sessions_delete :: "string \<Rightarrow> sessions \<Rightarrow> sessions" where
  "sessions_delete key s = s\<lparr>ss_data := map_option (fmdrop key) (ss_data s)\<rparr>"

text \<open>\<open>json.MarshalIndent\<close> sorts the keys of a map.\<close>

definition sessions_json :: "(string, string) fmap option \<Rightarrow> json" where
  "sessions_json data =
    (case data of None \<Rightarrow> JNull
     | Some m \<Rightarrow> JObj (map (\<lambda>(k, v). (k, JStr v)) (sorted_list_of_fmap m)))"

definition sessions_save ::
  "(write_step \<Rightarrow> bool) \<Rightarrow> nat \<Rightarrow> disk \<Rightarrow> string \<Rightarrow> sessions \<Rightarrow> disk list \<times> string option" where
  "sessions_save fails n d tmp s =
    write_file_atomic fails n d tmp (ss_path s) (marshal (sessions_json (ss_data s)))"

definition sessions_clear ::
  "(write_step \<Rightarrow> bool) \<Rightarrow> nat \<Rightarrow> disk \<Rightarrow> string \<Rightarrow> sessions \<Rightarrow> sessions \<times> disk list \<times> string option" where
  "sessions_clear fails n d tmp s =
    (let s' = s\<lparr>ss_data := Some fmempty\<rparr> in (s', sessions_save fails n d tmp s'))"

text \<open>
  One member of the object: the key is set to the string, or to the empty string when the value
  is null or, with an error, of another type. A nil map is replaced by an empty one.
\<close>

definition session_member :: "string \<times> json \<Rightarrow> (string, string) fmap \<times> bool \<Rightarrow> (string, string) fmap \<times> bool" where
  "session_member = (\<lambda>(k, v) (m, bad).
    case v of JStr s \<Rightarrow> (fmupd k s m, bad) | JNull \<Rightarrow> (fmupd k [] m, bad) | _ \<Rightarrow> (fmupd k [] m, True))"

definition sessions_read ::
  "(string, string) fmap option \<Rightarrow> string \<Rightarrow> (string, string) fmap option \<times> string option" where
  "sessions_read data text =
    (case unmarshal text of
       None \<Rightarrow> (data, Some ''invalid JSON'')
     | Some JNull \<Rightarrow> (None, None)
     | Some (JObj kvs) \<Rightarrow>
         let (m, bad) = fold session_member kvs (case data of Some m \<Rightarrow> m | None \<Rightarrow> fmempty, False)
         in (Some m, if bad then Some ''cannot unmarshal into string'' else None)
     | Some _ \<Rightarrow> (data, Some ''cannot unmarshal into map''))"

text \<open>\<open>unreadable\<close>: the file exists but reading it fails.\<close>

definition sessions_load :: "bool \<Rightarrow> disk \<Rightarrow> sessions \<Rightarrow> sessions \<times> string option" where
  "sessions_load unreadable d s =
    (case d (ss_path s) of
       None \<Rightarrow> (s, None)
     | Some text \<Rightarrow>
         if unreadable then (s, Some ''read error'')
         else let (m, err) = sessions_read (ss_data s) text in (s\<lparr>ss_data := m\<rparr>, err))"

lemma fold_session_member:
  "fold session_member (map (\<lambda>(k, v). (k, JStr v)) kvs) (m, bad) = (m ++\<^sub>f fmap_of_list (rev kvs), bad)"
proof (induction kvs arbitrary: m)
  case (Cons kv kvs)
  obtain k v where kv: "kv = (k, v)" by force
  have "fmupd k v m ++\<^sub>f fmap_of_list (rev kvs) = m ++\<^sub>f fmap_of_list (rev kvs @ [(k, v)])"
    by (rule fmap_ext) (auto simp: fmlookup_of_list map_add_def split: option.splits)
  with Cons kv show ?case by (simp add: session_member_def)
qed (simp add: session_member_def)

lemma fmap_of_rev_sorted: "fmap_of_list (rev (sorted_list_of_fmap m)) = m"
proof -
  have "distinct (map fst (sorted_list_of_fmap m))"
    by (simp add: sorted_list_of_fmap_def comp_def sorted_list_of_fset.rep_eq)
  then have "map_of (rev (sorted_list_of_fmap m)) = map_of (sorted_list_of_fmap m)"
    by (subst map_of_inject_set) (simp_all add: rev_map [symmetric])
  then show ?thesis
    by (intro fmap_ext) (simp add: fmlookup_of_list)
qed

lemma sessions_read_json: "sessions_read (Some fmempty) (marshal (sessions_json (Some m))) = (Some m, None)"
  by (simp add: sessions_read_def sessions_json_def js.dec_enc fold_session_member fmap_of_rev_sorted)

interpretation sess: file_store "\<lambda>m. marshal (sessions_json m)" sessions_read "Some fmempty" "\<lambda>m. m \<noteq> None"
  by unfold_locales (auto simp: sessions_read_json)



subsection \<open>The workspace state\<close>

text \<open>The timestamp is the RFC 3339 text that \<open>time.Time\<close> marshals to.\<close>

record workspace_state =
  LastChannel :: string
  Timestamp :: string

definition zero_state :: workspace_state where
  "zero_state = \<lparr>LastChannel = [], Timestamp = ''0001-01-01T00:00:00Z''\<rparr>"

record state_manager =
  sm_state :: workspace_state
  sm_stateFile :: string

definition state_json :: "workspace_state \<Rightarrow> json" where
  "state_json st =
    JObj ((if LastChannel st = [] then [] else [(''last_channel'', JStr (LastChannel st))]) @
          [(''timestamp'', JStr (Timestamp st))])"

definition save_atomic ::
  "(write_step \<Rightarrow> bool) \<Rightarrow> nat \<Rightarrow> disk \<Rightarrow> string \<Rightarrow> state_manager \<Rightarrow> disk list \<times> string option" where
  "save_atomic fails n d tmp sm =
    write_file_atomic fails n d tmp (sm_stateFile sm) (marshal (state_json (sm_state sm)))"

text \<open>
  One member of the object, keys compared without case as \<open>encoding/json\<close> does; null leaves a
  field alone, another type or an invalid time (\<open>time_ok\<close>) is an error.
\<close>

definition state_member ::
  "(string \<Rightarrow> bool) \<Rightarrow> string \<times> json \<Rightarrow> workspace_state \<times> bool \<Rightarrow> workspace_state \<times> bool" where
  "state_member time_ok = (\<lambda>(k, v) (st, bad).
    if map ascii_lower k = ''last_channel'' then
      (case v of JStr s \<Rightarrow> (st\<lparr>LastChannel := s\<rparr>, bad) | JNull \<Rightarrow> (st, bad) | _ \<Rightarrow> (st, True))
    else if map ascii_lower k = ''timestamp'' then
      (case v of JStr s \<Rightarrow> if time_ok s then (st\<lparr>Timestamp := s\<rparr>, bad) else (st, True)
       | JNull \<Rightarrow> (st, bad) | _ \<Rightarrow> (st, True))
    else (st, bad))"

definition state_read ::
  "(string \<Rightarrow> bool) \<Rightarrow> workspace_state \<Rightarrow> string \<Rightarrow> workspace_state \<times> string option" where
  "state_read time_ok st text =
    (case unmarshal text of
       None \<Rightarrow> (st, Some ''invalid JSON'')
     | Some JNull \<Rightarrow> (st, None)
     | Some (JObj kvs) \<Rightarrow>
         let (st', bad) = fold (state_member time_ok) kvs (st, False)
         in (st', if bad then Some ''cannot unmarshal'' else None)
     | Some _ \<Rightarrow> (st, Some ''cannot unmarshal''))"

definition state_load ::
  "(string \<Rightarrow> bool) \<Rightarrow> bool \<Rightarrow> disk \<Rightarrow> state_manager \<Rightarrow> state_manager \<times> string option" where
  "state_load time_ok unreadable d sm =
    (case d (sm_stateFile sm) of
       None \<Rightarrow> (sm, None)
     | Some text \<Rightarrow>
         if unreadable then (sm, Some ''failed to read state file'')
         else let (st, err) = state_read time_ok (sm_state sm) text in (sm\<lparr>sm_state := st\<rparr>, err))"

text \<open>
  \<open>NewManager\<close>: load the state, or migrate it from the old place when there is none; problems are
  logged only. The result is the manager and the disk it leaves.
\<close>

definition new_state_manager ::
  "(string \<Rightarrow> bool) \<Rightarrow> bool \<Rightarrow> (write_step \<Rightarrow> bool) \<Rightarrow> nat \<Rightarrow> string \<Rightarrow> disk \<Rightarrow> string \<Rightarrow> string \<Rightarrow>
    state_manager \<times> disk" where
  "new_state_manager time_ok unreadable fails n tmp d stateFile oldStateFile =
    (let sm = \<lparr>sm_state = zero_state, sm_stateFile = stateFile\<rparr> in
     case d stateFile of
       None \<Rightarrow>
         (case d oldStateFile of
            None \<Rightarrow> (sm, d)
          | Some text \<Rightarrow>
              let (st, err) = state_read time_ok zero_state text;
                  sm' = sm\<lparr>sm_state := st\<rparr>
              in if err = None then (sm', last (fst (save_atomic fails n d tmp sm'))) else (sm', d))
     | Some _ \<Rightarrow> (fst (state_load time_ok unreadable d sm), d))"

definition set_last_channel ::
  "(write_step \<Rightarrow> bool) \<Rightarrow> nat \<Rightarrow> disk \<Rightarrow> string \<Rightarrow> string \<Rightarrow> string \<Rightarrow> state_manager \<Rightarrow>
    state_manager \<times> disk list \<times> string option" where
  "set_last_channel fails n d tmp now channel sm =
    (let sm' = sm\<lparr>sm_state := \<lparr>LastChannel = channel, Timestamp = now\<rparr>\<rparr>;
         (ds, err) = save_atomic fails n d tmp sm'
     in (sm', ds, map_option (\<lambda>e. ''failed to save state atomically: '' @ e) err))"

definition get_last_channel :: "state_manager \<Rightarrow> string" where
  "get_last_channel sm = LastChannel (sm_state sm)"

lemma state_read_json:
  "time_ok (Timestamp st) \<Longrightarrow> state_read time_ok zero_state (marshal (state_json st)) = (st, None)"
  by (auto simp: state_read_def state_json_def js.dec_enc state_member_def zero_state_def ascii_lower_def)

interpretation stt: file_store "\<lambda>st. marshal (state_json st)" "state_read time_ok" zero_state
  "\<lambda>st. time_ok (Timestamp st)" for time_ok
  by unfold_locales (rule state_read_json)

lemma manager_restart:
  "d (sm_stateFile sm) \<noteq> None \<Longrightarrow>
    get_last_channel (fst (new_state_manager time_ok False ff k t d (sm_stateFile sm) old)) =
      LastChannel (fst (stt.restart time_ok d (sm_stateFile sm)))"
  by (auto simp: new_state_manager_def state_load_def stt.restart_def get_last_channel_def Let_def split: prod.split)

lemma set_last_channel_reloads:
  assumes "set_last_channel fails n d tmp now channel sm = (sm', ds, None)" and "tmp \<noteq> sm_stateFile sm" and "time_ok now"
  shows "get_last_channel (fst (new_state_manager time_ok False ff k t (last ds) (sm_stateFile sm) old)) = channel"
proof -
  let ?st = "\<lparr>LastChannel = channel, Timestamp = now\<rparr>"
  have save: "stt.savef fails n d tmp (sm_stateFile sm) ?st = (ds, None)"
    using assms(1) by (auto simp: set_last_channel_def save_atomic_def stt.savef_def Let_def split: prod.splits)
  with write_file_atomic_states [OF save [unfolded stt.savef_def] assms(2)]
  have "last ds (sm_stateFile sm) \<noteq> None" by simp
  from manager_restart [of "last ds" sm, OF this] stt.restart_saved [OF save assms(2), of time_ok] assms(3)
  show ?thesis by (metis fst_conv workspace_state.select_convs(1) workspace_state.select_convs(2))
qed

text \<open>
  After \<open>SetLastChannel\<close> succeeded, a restarted manager reports that channel; if it failed,
  or the process crashed in between, the restarted manager reports that channel or whatever it
  would have reported before. The old state file is not consulted once the new one exists.
\<close>

theorem last_channel_survives:
  assumes "set_last_channel fails n d tmp now channel sm = (sm', ds, err)" and "tmp \<noteq> sm_stateFile sm"
    and "time_ok now" and "d (sm_stateFile sm) \<noteq> None"
  shows "(err = None \<longrightarrow> get_last_channel (fst (new_state_manager time_ok False ff k t (last ds)
        (sm_stateFile sm) old)) = channel) \<and>
    (\<forall>d' \<in> set ds.
      get_last_channel (fst (new_state_manager time_ok False ff k t d' (sm_stateFile sm) old))
      \<in> {channel, get_last_channel (fst (new_state_manager time_ok False ff k t d (sm_stateFile sm) old))})"
proof -
  let ?st = "\<lparr>LastChannel = channel, Timestamp = now\<rparr>"
  note load = manager_restart [where ff = ff and k = k and t = t and old = old]
  obtain e where save: "stt.savef fails n d tmp (sm_stateFile sm) ?st = (ds, e)" and err: "err = None \<longleftrightarrow> e = None"
    using assms(1) by (auto simp: set_last_channel_def save_atomic_def stt.savef_def Let_def split: prod.splits)
  have states: "ds \<noteq> []" "\<forall>d' \<in> set ds. d' (sm_stateFile sm) \<noteq> None"
    using write_file_atomic_states [OF save [unfolded stt.savef_def] assms(2)] assms(4) by fastforce+
  have good: "time_ok (Timestamp ?st)" using assms(3) by simp
  have "LastChannel (fst (stt.restart time_ok (last ds) (sm_stateFile sm))) = channel" if "err = None"
    using stt.restart_saved [OF _ assms(2), of fails n d ?st ds time_ok] save good err that by simp
  moreover have "LastChannel (fst (stt.restart time_ok d' (sm_stateFile sm)))
      \<in> {channel, LastChannel (fst (stt.restart time_ok d (sm_stateFile sm)))}" if "d' \<in> set ds" for d'
    using stt.restart_crashed [OF save assms(2), of time_ok d'] good that by fastforce
  ultimately show ?thesis
    using load states assms(4) by (metis last_in_set)
qed

theorem last_channel_survives_witness:
  "\<exists>d. get_last_channel (fst (new_state_manager (\<lambda>_. True) False (\<lambda>_. False) 0 ''.t'' d ''state/state.json''
    ''state.json'')) = ''irc:bob''"
proof -
  let ?sm = "\<lparr>sm_state = zero_state, sm_stateFile = ''state/state.json''\<rparr>"
  let ?d = "[''state/state.json'' \<mapsto> ''null'']"
  obtain sm' ds err where r: "set_last_channel (\<lambda>_. False) 0 ?d ''.tmp'' ''2026-01-01T00:00:00Z'' ''irc:bob'' ?sm =
      (sm', ds, err)" by (metis surj_pair)
  then have "err = None"
    by (auto simp: set_last_channel_def save_atomic_def write_file_atomic_def Let_def)
  with last_channel_survives [OF r, of "\<lambda>_. True" "\<lambda>_. False" 0 "''.t''" "''state.json''"]
  show ?thesis by auto
qed

end
