(* ===== verification/Output.thy ===== *)
theory Output
  imports Identity
begin

text \<open>
  \<open>pkg/bridge/output.go\<close>: the file and image markers in the answers of the assistant. The regular
  expressions \<open>(?i)\[FILE:\s*([^\]]+)\]\<close>, the same with \<open>IMAGE\<close> and with either word are matched as
  Go does: leftmost first, \<open>\s*\<close> greedy but giving back one byte when nothing else is left for
  the group.
\<close>

subsection \<open>Matching\<close>

text \<open>\<open>\s\<close> of the regular expressions\<close>

definition re_space :: "char \<Rightarrow> bool" where
  "re_space c \<longleftrightarrow> c = CHR '' '' \<or> c = CHR 0x09 \<or> c = CHR 0x0A \<or> c = CHR 0x0C \<or> c = CHR 0x0D"

text \<open>The word after the opening bracket, compared without case, and its colon.\<close>

definition after_word :: "string \<Rightarrow> string \<Rightarrow> string option" where
  "after_word w s =
    (if map ascii_lower (take (length w) s) = map ascii_lower w then Some (drop (length w) s) else None)"

text \<open>A match at the start of \<open>s\<close>: the captured group and what follows the marker.\<close>

definition match_body :: "string \<Rightarrow> (string \<times> string) option" where
  "match_body s =
    (let body = takeWhile (\<lambda>c. c \<noteq> CHR '']'') s;
         rest = dropWhile (\<lambda>c. c \<noteq> CHR '']'') s;
         stripped = dropWhile re_space body
     in if rest = [] \<or> body = [] then None
        else Some (if stripped = [] then [last body] else stripped, tl rest))"

definition match_marker :: "string list \<Rightarrow> string \<Rightarrow> (string \<times> string) option" where
  "match_marker words s =
    (if \<not> has_prefix ''['' s then None
     else case List.find (\<lambda>w. after_word (w @ '':'') (tl s) \<noteq> None) words of
       None \<Rightarrow> None
     | Some w \<Rightarrow> match_body (the (after_word (w @ '':'') (tl s))))"

lemma match_body_length: "match_body s = Some (g, r) \<Longrightarrow> length r < length s"
proof -
  assume m: "match_body s = Some (g, r)"
  let ?rest = "dropWhile (\<lambda>c. c \<noteq> CHR '']'') s"
  have "?rest \<noteq> []" "r = tl ?rest"
    using m by (auto simp: match_body_def Let_def split: if_splits)
  moreover have "length ?rest \<le> length s" by (rule length_dropWhile_le)
  ultimately show ?thesis by (cases ?rest) auto
qed

lemma after_word_length: "after_word w s = Some t \<Longrightarrow> length t \<le> length s"
  by (auto simp: after_word_def split: if_splits)

lemma match_marker_length:
  assumes "match_marker ws s = Some (g, r)"
  shows "length r < length s"
proof -
  obtain w t where "after_word (w @ '':'') (tl s) = Some t" "match_body t = Some (g, r)"
    using assms by (auto simp: match_marker_def split: if_splits option.splits dest: find_Some_set)
  then show ?thesis
    using after_word_length match_body_length by (metis diff_le_self le_trans length_tl less_le_trans)
qed

text \<open>\<open>FindAllStringSubmatch\<close>: the groups of all matches, and \<open>ReplaceAllString\<close> with nothing.\<close>

function find_markers :: "string list \<Rightarrow> string \<Rightarrow> string list" where
  "find_markers ws s =
    (case match_marker ws s of
       Some (g, r) \<Rightarrow> g # find_markers ws r
     | None \<Rightarrow> (case s of [] \<Rightarrow> [] | _ # t \<Rightarrow> find_markers ws t))"
  by pat_completeness auto
termination
  by (relation "measure (\<lambda>(ws, s). length s)") (auto dest: match_marker_length)

declare find_markers.simps [simp del]

function strip_markers :: "string list \<Rightarrow> string \<Rightarrow> string" where
  "strip_markers ws s =
    (case match_marker ws s of
       Some (g, r) \<Rightarrow> strip_markers ws r
     | None \<Rightarrow> (case s of [] \<Rightarrow> [] | c # t \<Rightarrow> c # strip_markers ws t))"
  by pat_completeness auto
termination
  by (relation "measure (\<lambda>(ws, s). length s)") (auto dest: match_marker_length)

declare strip_markers.simps [simp del]

lemma find_markers_match: "match_marker ws s = Some (g, r) \<Longrightarrow> find_markers ws s = g # find_markers ws r"
  by (simp add: find_markers.simps [of ws s])

lemma strip_markers_match: "match_marker ws s = Some (g, r) \<Longrightarrow> strip_markers ws s = strip_markers ws r"
  by (simp add: strip_markers.simps [of ws s])

text \<open>The markers of a given string, one byte at a time.\<close>

lemma match_marker_skip: "c \<noteq> CHR ''['' \<Longrightarrow> match_marker ws (c # t) = None"
  by (simp add: match_marker_def has_prefix_def)

lemma find_markers_skip: "c \<noteq> CHR ''['' \<Longrightarrow> find_markers ws (c # t) = find_markers ws t"
  by (simp add: find_markers.simps [of ws "c # t"] match_marker_skip)

lemma strip_markers_skip: "c \<noteq> CHR ''['' \<Longrightarrow> strip_markers ws (c # t) = c # strip_markers ws t"
  by (simp add: strip_markers.simps [of ws "c # t"] match_marker_skip)

lemma find_markers_end: "find_markers ws [] = []"
  by (simp add: find_markers.simps [of ws "[]"] match_marker_def has_prefix_def)

lemma strip_markers_end: "strip_markers ws [] = []"
  by (simp add: strip_markers.simps [of ws "[]"] match_marker_def has_prefix_def)

lemma find_markers_bracket: "find_markers ws (CHR ''['' # t) = (case match_marker ws (CHR ''['' # t) of
       Some (g, r) \<Rightarrow> g # find_markers ws r | None \<Rightarrow> find_markers ws t)"
  by (simp split: option.split add: find_markers.simps [of ws "CHR ''['' # t"])

lemma strip_markers_bracket: "strip_markers ws (CHR ''['' # t) = (case match_marker ws (CHR ''['' # t) of
       Some (g, r) \<Rightarrow> strip_markers ws r | None \<Rightarrow> CHR ''['' # strip_markers ws t)"
  by (simp split: option.split add: strip_markers.simps [of ws "CHR ''['' # t"])

lemmas markers_eval = find_markers_skip strip_markers_skip find_markers_end strip_markers_end
  find_markers_bracket strip_markers_bracket match_marker_def has_prefix_def after_word_def match_body_def
  ascii_lower_def re_space_def Let_def

definition parse_output :: "string \<Rightarrow> string \<times> string list" where
  "parse_output raw =
    (trim_space (strip_markers [''IMAGE''] (strip_markers [''FILE''] raw)),
     filter (\<lambda>p. p \<noteq> []) (map trim_space (find_markers [''FILE'', ''IMAGE''] raw)))"

subsection \<open>Answers made of text and markers\<close>

datatype segment = Plain string | FileMarker string | ImageMarker string

fun render :: "segment list \<Rightarrow> string" where
  "render [] = []"
| "render (Plain t # ss) = t @ render ss"
| "render (FileMarker p # ss) = ''[FILE: '' @ p @ '']'' @ render ss"
| "render (ImageMarker p # ss) = ''[IMAGE: '' @ p @ '']'' @ render ss"

fun plain_text :: "segment list \<Rightarrow> string" where
  "plain_text [] = []"
| "plain_text (Plain t # ss) = t @ plain_text ss"
| "plain_text (_ # ss) = plain_text ss"

fun marker_paths :: "segment list \<Rightarrow> string list" where
  "marker_paths [] = []"
| "marker_paths (Plain t # ss) = marker_paths ss"
| "marker_paths (FileMarker p # ss) = trim_space p # marker_paths ss"
| "marker_paths (ImageMarker p # ss) = trim_space p # marker_paths ss"

definition path_ok :: "string \<Rightarrow> bool" where
  "path_ok p \<longleftrightarrow> CHR ''['' \<notin> set p \<and> CHR '']'' \<notin> set p \<and> trim_space p \<noteq> []"

fun segment_ok :: "segment \<Rightarrow> bool" where
  "segment_ok (Plain t) \<longleftrightarrow> CHR ''['' \<notin> set t"
| "segment_ok (FileMarker p) \<longleftrightarrow> path_ok p"
| "segment_ok (ImageMarker p) \<longleftrightarrow> path_ok p"

lemma match_marker_plain: "CHR ''['' \<noteq> c \<Longrightarrow> match_marker ws (c # s) = None"
  by (simp add: match_marker_def)

lemma find_markers_plain:
  "CHR ''['' \<notin> set t \<Longrightarrow> find_markers ws (t @ s) = find_markers ws s"
  by (induction t) (simp_all add: find_markers.simps [of ws "_ # _"] match_marker_plain)

lemma strip_markers_plain:
  "CHR ''['' \<notin> set t \<Longrightarrow> strip_markers ws (t @ s) = t @ strip_markers ws s"
  by (induction t) (simp_all add: strip_markers.simps [of ws "_ # _"] match_marker_plain)

lemma match_body_path:
  assumes "CHR '']'' \<notin> set p" and "dropWhile re_space p \<noteq> []"
  shows "match_body (CHR '' '' # p @ CHR '']'' # s) = Some (dropWhile re_space p, s)"
proof -
  have "takeWhile (\<lambda>c. c \<noteq> CHR '']'') (p @ CHR '']'' # s) = p"
    and "dropWhile (\<lambda>c. c \<noteq> CHR '']'') (p @ CHR '']'' # s) = CHR '']'' # s"
    using assms(1) by (auto simp: takeWhile_append dropWhile_append)
  moreover have "re_space CHR '' ''" by (simp add: re_space_def)
  ultimately show ?thesis using assms(2) by (auto simp: match_body_def Let_def)
qed

text \<open>White space of the expressions is white space of \<open>TrimSpace\<close>.\<close>

lemma re_space_seq: "re_space c \<Longrightarrow> [c] \<in> set space_seqs"
  by (auto simp: re_space_def space_seqs_def)

lemma head_len_one:
  assumes "[c] \<in> set ws" and "\<forall>w \<in> set ws. w \<noteq> [] \<and> (hd w = c \<longrightarrow> length w = 1)"
  shows "head_len ws (c # s) = 1"
proof (cases "List.find (\<lambda>w. has_prefix w (c # s)) ws")
  case None
  with assms(1) show ?thesis by (fastforce simp: find_None_iff)
next
  case (Some w)
  then have "w \<in> set ws" "has_prefix w (c # s)"
    using find_Some_set by fastforce+
  with assms(2) have "length w = 1"
    by (cases w) auto
  with Some show ?thesis by (simp add: head_len_def)
qed

lemma space_seqs_short: "w \<in> set space_seqs \<Longrightarrow> w \<noteq> [] \<and> ((of_char (hd w) :: nat) < 128 \<longrightarrow> length w = 1)"
  by (auto simp: space_seqs_def)

lemma head_len_space: "re_space c \<Longrightarrow> head_len space_seqs (c # s) = 1"
  by (rule head_len_one [OF re_space_seq])
    (use space_seqs_short in \<open>auto simp: re_space_def\<close>)

lemma strip_re_space: "re_space c \<Longrightarrow> strip space_seqs (c # p) = strip space_seqs p"
  by (subst strip.simps) (simp add: head_len_space)

lemma trim_left_re_space: "trim_left (dropWhile re_space p) = trim_left p"
  by (induction p) (simp_all add: trim_left_def strip_re_space)

lemma trim_space_re_space: "trim_space (dropWhile re_space p) = trim_space p"
  by (simp add: trim_space_def trim_left_re_space)

lemma path_ok_drop: "path_ok p \<Longrightarrow> CHR '']'' \<notin> set p \<and> dropWhile re_space p \<noteq> []"
  by (metis path_ok_def trim_space_Nil trim_space_re_space)

lemma match_file_marker:
  assumes "path_ok p" and "''FILE'' \<in> set ws" and "set ws \<subseteq> {''FILE'', ''IMAGE''}"
  shows "match_marker ws (''[FILE: '' @ p @ '']'' @ s) = Some (dropWhile re_space p, s)"
proof -
  have w: "after_word (''FILE'' @ '':'') (tl (''[FILE: '' @ p @ '']'' @ s)) = Some (CHR '' '' # p @ CHR '']'' # s)"
    by (simp add: after_word_def)
  moreover have "after_word (''IMAGE'' @ '':'') (tl (''[FILE: '' @ p @ '']'' @ s)) = None"
    by (simp add: after_word_def ascii_lower_def)
  ultimately have "List.find (\<lambda>w. after_word (w @ '':'') (tl (''[FILE: '' @ p @ '']'' @ s)) \<noteq> None) ws =
      Some ''FILE''"
    using assms(2,3) by (induction ws) auto
  with w show ?thesis
    using match_body_path [of p s] path_ok_drop [OF assms(1)] by (simp add: match_marker_def)
qed

lemma match_image_marker:
  assumes "path_ok p" and "''IMAGE'' \<in> set ws" and "set ws \<subseteq> {''FILE'', ''IMAGE''}"
  shows "match_marker ws (''[IMAGE: '' @ p @ '']'' @ s) = Some (dropWhile re_space p, s)"
proof -
  have w: "after_word (''IMAGE'' @ '':'') (tl (''[IMAGE: '' @ p @ '']'' @ s)) = Some (CHR '' '' # p @ CHR '']'' # s)"
    by (simp add: after_word_def)
  moreover have "after_word (''FILE'' @ '':'') (tl (''[IMAGE: '' @ p @ '']'' @ s)) = None"
    by (simp add: after_word_def ascii_lower_def)
  ultimately have "List.find (\<lambda>w. after_word (w @ '':'') (tl (''[IMAGE: '' @ p @ '']'' @ s)) \<noteq> None) ws =
      Some ''IMAGE''"
    using assms(2,3) by (induction ws) auto
  with w show ?thesis
    using match_body_path [of p s] path_ok_drop [OF assms(1)] by (simp add: match_marker_def)
qed

lemma match_image_as_file: "match_marker [''FILE''] (''[IMAGE: '' @ p @ '']'' @ s) = None"
  by (simp add: match_marker_def after_word_def ascii_lower_def)

lemma find_render:
  "list_all segment_ok ss \<Longrightarrow>
    map trim_space (find_markers [''FILE'', ''IMAGE''] (render ss)) = marker_paths ss"
proof (induction ss)
  case Nil
  show ?case by (simp add: find_markers.simps [of _ "[]"] match_marker_def)
next
  case (Cons x ss)
  show ?case
  proof (cases x)
    case (Plain t)
    with Cons show ?thesis by (simp add: find_markers_plain)
  next
    case (FileMarker p)
    with Cons.prems have "match_marker [''FILE'', ''IMAGE''] (render (x # ss)) =
        Some (dropWhile re_space p, render ss)"
      using match_file_marker [of p "[''FILE'', ''IMAGE'']" "render ss"] by simp
    from find_markers_match [OF this] show ?thesis
      using Cons FileMarker by (simp add: trim_space_re_space)
  next
    case (ImageMarker p)
    with Cons.prems have "match_marker [''FILE'', ''IMAGE''] (render (x # ss)) =
        Some (dropWhile re_space p, render ss)"
      using match_image_marker [of p "[''FILE'', ''IMAGE'']" "render ss"] by simp
    from find_markers_match [OF this] show ?thesis
      using Cons ImageMarker by (simp add: trim_space_re_space)
  qed
qed

definition is_file :: "segment \<Rightarrow> bool" where
  "is_file x \<longleftrightarrow> (case x of FileMarker _ \<Rightarrow> True | _ \<Rightarrow> False)"

lemma strip_file_render:
  "list_all segment_ok ss \<Longrightarrow>
    strip_markers [''FILE''] (render ss) = render (filter (\<lambda>x. \<not> is_file x) ss)"
proof (induction ss)
  case Nil
  show ?case by (simp add: strip_markers.simps [of _ "[]"] match_marker_def)
next
  case (Cons x ss)
  show ?case
  proof (cases x)
    case (Plain t)
    with Cons show ?thesis by (simp add: strip_markers_plain is_file_def)
  next
    case (FileMarker p)
    with Cons.prems have "match_marker [''FILE''] (render (x # ss)) = Some (dropWhile re_space p, render ss)"
      using match_file_marker [of p "[''FILE'']" "render ss"] by simp
    from strip_markers_match [OF this] show ?thesis
      using Cons FileMarker by (simp add: is_file_def)
  next
    case (ImageMarker p)
    have "strip_markers [''FILE''] (''[IMAGE: '' @ p @ '']'' @ render ss) =
        CHR ''['' # strip_markers [''FILE''] ((''IMAGE: '' @ p @ '']'') @ render ss)"
      using match_image_as_file [of p "render ss"]
      by (simp add: strip_markers.simps [of _ "CHR ''['' # _"])
    also have "\<dots> = ''[IMAGE: '' @ p @ '']'' @ strip_markers [''FILE''] (render ss)"
      using Cons.prems ImageMarker by (subst strip_markers_plain) (auto simp: path_ok_def)
    finally show ?thesis
      using Cons ImageMarker by (simp add: is_file_def)
  qed
qed

lemma strip_image_render:
  "list_all segment_ok ss \<Longrightarrow> \<forall>x \<in> set ss. \<not> is_file x \<Longrightarrow>
    strip_markers [''IMAGE''] (render ss) = plain_text ss"
proof (induction ss)
  case Nil
  show ?case by (simp add: strip_markers.simps [of _ "[]"] match_marker_def)
next
  case (Cons x ss)
  show ?case
  proof (cases x)
    case (Plain t)
    with Cons show ?thesis by (simp add: strip_markers_plain)
  next
    case (FileMarker p)
    with Cons.prems show ?thesis by (simp add: is_file_def)
  next
    case (ImageMarker p)
    with Cons.prems have "match_marker [''IMAGE''] (render (x # ss)) = Some (dropWhile re_space p, render ss)"
      using match_image_marker [of p "[''IMAGE'']" "render ss"] by simp
    from strip_markers_match [OF this] show ?thesis
      using Cons ImageMarker by simp
  qed
qed

lemma plain_text_filter: "plain_text (filter (\<lambda>x. \<not> is_file x) ss) = plain_text ss"
  by (induction ss rule: plain_text.induct) (auto simp: is_file_def)

lemma marker_paths_nonempty: "list_all segment_ok ss \<Longrightarrow> p \<in> set (marker_paths ss) \<Longrightarrow> p \<noteq> []"
  by (induction ss rule: marker_paths.induct) (auto simp: path_ok_def)

text \<open>
  C20. An answer made of text and markers, none nested in another, is taken apart exactly: the
  user sees the text without the markers and the delivered files are those of the markers, of
  both kinds, in the order of the answer and trimmed.
\<close>

theorem parse_output_segments:
  assumes "list_all segment_ok ss"
  shows "parse_output (render ss) = (trim_space (plain_text ss), marker_paths ss)"
proof -
  have "list_all segment_ok (filter (\<lambda>x. \<not> is_file x) ss)"
    using assms by (simp add: list_all_iff)
  then have "strip_markers [''IMAGE''] (strip_markers [''FILE''] (render ss)) = plain_text ss"
    by (simp add: strip_file_render [OF assms] strip_image_render plain_text_filter)
  moreover have "filter (\<lambda>p. p \<noteq> []) (marker_paths ss) = marker_paths ss"
    using marker_paths_nonempty [OF assms] by (simp add: filter_True)
  ultimately show ?thesis
    by (simp add: parse_output_def find_render [OF assms])
qed

theorem parse_output_segments_witness:
  "parse_output ''See [FILE: /tmp/a.txt][IMAGE: b.png ] done '' = (''See  done'', [''/tmp/a.txt'', ''b.png''])"
proof -
  let ?ss = "[Plain ''See '', FileMarker ''/tmp/a.txt'', ImageMarker ''b.png '', Plain '' done '']"
  have "list_all segment_ok ?ss" by code_simp
  from parse_output_segments [OF this]
  have "parse_output (render ?ss) = (trim_space (plain_text ?ss), marker_paths ?ss)" .
  moreover have "(trim_space (plain_text ?ss), marker_paths ?ss) = (''See  done'', [''/tmp/a.txt'', ''b.png''])"
    by code_simp
  ultimately show ?thesis by simp
qed

text \<open>The two passes of the stripping can leave a marker behind, or strip one that was not read.\<close>

lemma parse_output_nested:
  "parse_output ''[FI[FILE: a]LE: b]'' = (''[FILE: b]'', [''a''])"
  "parse_output ''[IM[FILE: a]AGE: b]'' = ([], [''a''])"
proof -
  have "find_markers [''FILE'', ''IMAGE''] ''[FI[FILE: a]LE: b]'' = [''a'']"
      "strip_markers [''IMAGE''] (strip_markers [''FILE''] ''[FI[FILE: a]LE: b]'') = ''[FILE: b]''"
      "find_markers [''FILE'', ''IMAGE''] ''[IM[FILE: a]AGE: b]'' = [''a'']"
      "strip_markers [''IMAGE''] (strip_markers [''FILE''] ''[IM[FILE: a]AGE: b]'') = []"
    by (simp_all add: markers_eval)
  moreover have "trim_space ''[FILE: b]'' = ''[FILE: b]''" "trim_space ''a'' = ''a''" "trim_space [] = []"
    by code_simp+
  ultimately show "parse_output ''[FI[FILE: a]LE: b]'' = (''[FILE: b]'', [''a''])"
    "parse_output ''[IM[FILE: a]AGE: b]'' = ([], [''a''])"
    by (simp_all add: parse_output_def)
qed

end
