(* ===== verification/Media.thy ===== *)
theory Media
  imports Prelude "HOL-Library.Char_ord" "HOL-Library.List_Lexorder"
begin

text \<open>
  \<open>pkg/media/store.go\<close>: references to local files, grouped by scope. The store keeps three maps
  that must agree; \<open>media_interface\<close> is the contract of the Go interface \<open>MediaStore\<close> that its
  users rely on. The disk is the set of paths of existing files; where the code ranges over a map
  or a set, the order is an argument. References come from the caller in place of \<open>uuid.New\<close>.
\<close>

subsection \<open>The store\<close>

record media_meta =
  mm_Filename :: string
  mm_ContentType :: string
  mm_Source :: string

record media_entry =
  me_path :: string
  me_meta :: media_meta
  me_storedAt :: int

record media_store =
  ms_refs :: "string \<rightharpoonup> media_entry"
  ms_scopeToRefs :: "string \<rightharpoonup> string set"
  ms_refToScope :: "string \<rightharpoonup> string"
  ms_maxAge :: int

definition new_media_store :: "int \<Rightarrow> media_store" where
  "new_media_store maxAge =
    \<lparr>ms_refs = Map.empty, ms_scopeToRefs = Map.empty, ms_refToScope = Map.empty, ms_maxAge = maxAge\<rparr>"

text \<open>The maps after \<open>Store\<close> registered \<open>ref\<close>.\<close>

definition register_ref :: "media_store \<Rightarrow> string \<Rightarrow> media_meta \<Rightarrow> string \<Rightarrow> int \<Rightarrow> string \<Rightarrow> media_store" where
  "register_ref s localPath meta scope now ref =
    s\<lparr>ms_refs := (ms_refs s)(ref \<mapsto> \<lparr>me_path = localPath, me_meta = meta, me_storedAt = now\<rparr>),
      ms_scopeToRefs := (ms_scopeToRefs s)(scope \<mapsto>
        insert ref (case ms_scopeToRefs s scope of None \<Rightarrow> {} | Some R \<Rightarrow> R)),
      ms_refToScope := (ms_refToScope s)(ref \<mapsto> scope)\<rparr>"

definition media_put ::
  "string set \<Rightarrow> string \<Rightarrow> int \<Rightarrow> media_store \<Rightarrow> string \<Rightarrow> media_meta \<Rightarrow> string \<Rightarrow>
    media_store \<times> (string + string)" where
  "media_put disk ref now s localPath meta scope =
    (if localPath \<notin> disk then (s, Inl (''media store: '' @ localPath @ '': no such file''))
     else (register_ref s localPath meta scope now ref, Inr ref))"

text \<open>
  How the adapters keep a downloaded file: under a reference when there is a store that takes it, by its
  path otherwise.
\<close>

definition store_or_path ::
  "string \<Rightarrow> string set \<Rightarrow> string \<Rightarrow> int \<Rightarrow> string \<Rightarrow> media_store option \<Rightarrow> string \<Rightarrow> string \<Rightarrow> media_store option \<times> string" where
  "store_or_path source disk ref now scope store localPath filename =
    (case store of
       None \<Rightarrow> (None, localPath)
     | Some s \<Rightarrow>
         (case media_put disk ref now s localPath
                 \<lparr>mm_Filename = filename, mm_ContentType = [], mm_Source = source\<rparr> scope of
            (s', Inr r) \<Rightarrow> (Some s', r)
          | (s', Inl _) \<Rightarrow> (Some s', localPath)))"

lemma store_or_path_kept:
  assumes "localPath \<in> disk"
  shows "\<exists>s'. store_or_path source disk ref now scope (Some s) localPath filename = (Some s', ref) \<and>
    ms_refToScope s' = (ms_refToScope s)(ref \<mapsto> scope)"
  using assms by (simp add: store_or_path_def media_put_def register_ref_def)

definition resolve_with_meta :: "media_store \<Rightarrow> string \<Rightarrow> (string \<times> media_meta) option" where
  "resolve_with_meta s ref =
    (case ms_refs s ref of None \<Rightarrow> None | Some e \<Rightarrow> Some (me_path e, me_meta e))"

definition resolve :: "media_store \<Rightarrow> string \<Rightarrow> string option" where
  "resolve s ref = (case ms_refs s ref of None \<Rightarrow> None | Some e \<Rightarrow> Some (me_path e))"

text \<open>The first phase of \<open>ReleaseAll\<close>, on the references of the scope in the order \<open>refs\<close>.\<close>

definition release_refs :: "string \<Rightarrow> string list \<Rightarrow> media_store \<Rightarrow> media_store" where
  "release_refs scope refs s =
    s\<lparr>ms_refs := del_keys (ms_refs s) refs, ms_refToScope := del_keys (ms_refToScope s) refs,
      ms_scopeToRefs := (ms_scopeToRefs s)(scope := None)\<rparr>"

definition paths_of :: "media_store \<Rightarrow> string list \<Rightarrow> string list" where
  "paths_of s refs = List.map_filter (\<lambda>r. map_option me_path (ms_refs s r)) refs"

definition release_all :: "string list \<Rightarrow> string \<Rightarrow> media_store \<Rightarrow> string set \<Rightarrow> media_store \<times> string set" where
  "release_all order scope s disk =
    (case ms_scopeToRefs s scope of
       None \<Rightarrow> (s, disk)
     | Some R \<Rightarrow> (release_refs scope (filter (\<lambda>r. r \<in> R) order) s,
                  disk - set (paths_of s (filter (\<lambda>r. r \<in> R) order))))"

text \<open>The body of the loop of \<open>CleanExpired\<close>.\<close>

definition expire_ref :: "int \<Rightarrow> string \<Rightarrow> media_store \<Rightarrow> media_store" where
  "expire_ref cutoff ref s =
    (case ms_refs s ref of
       None \<Rightarrow> s
     | Some e \<Rightarrow>
         if me_storedAt e < cutoff then
           (let scopes = (case ms_refToScope s ref of
                None \<Rightarrow> ms_scopeToRefs s
              | Some scope \<Rightarrow>
                  (case ms_scopeToRefs s scope of
                     None \<Rightarrow> ms_scopeToRefs s
                   | Some R \<Rightarrow> if R - {ref} = {} then (ms_scopeToRefs s)(scope := None)
                               else (ms_scopeToRefs s)(scope \<mapsto> R - {ref})))
            in s\<lparr>ms_refs := (ms_refs s)(ref := None), ms_refToScope := (ms_refToScope s)(ref := None),
                 ms_scopeToRefs := scopes\<rparr>)
         else s)"

definition expired_refs :: "int \<Rightarrow> media_store \<Rightarrow> string list \<Rightarrow> string list" where
  "expired_refs cutoff s order =
    filter (\<lambda>r. case ms_refs s r of Some e \<Rightarrow> me_storedAt e < cutoff | None \<Rightarrow> False) order"

definition clean_expired ::
  "string list \<Rightarrow> int \<Rightarrow> media_store \<Rightarrow> string set \<Rightarrow> media_store \<times> string set \<times> nat" where
  "clean_expired order now s disk =
    (if ms_maxAge s \<le> 0 then (s, disk, 0)
     else let cutoff = now - ms_maxAge s;
              expired = expired_refs cutoff s order
          in (fold (expire_ref cutoff) order s, disk - set (paths_of s expired), length expired))"

subsection \<open>The contract of a media store\<close>

text \<open>Abstractly, a store maps a reference to its path, metadata, scope and time.\<close>

type_synonym media_spec = "string \<rightharpoonup> (string \<times> media_meta \<times> string \<times> int)"

datatype media_op =
    DoStore string string media_meta string int
  | DoRelease string
  | DoClean int

fun spec_op :: "int \<Rightarrow> media_op \<Rightarrow> media_spec \<Rightarrow> media_spec" where
  "spec_op maxAge (DoStore ref p meta scope now) m = m(ref \<mapsto> (p, meta, scope, now))"
| "spec_op maxAge (DoRelease scope) m =
    (\<lambda>r. case m r of Some (p, meta, sc, t) \<Rightarrow> if sc = scope then None else m r | None \<Rightarrow> None)"
| "spec_op maxAge (DoClean now) m =
    (\<lambda>r. case m r of Some (p, meta, sc, t) \<Rightarrow> if 0 < maxAge \<and> t < now - maxAge then None else m r | None \<Rightarrow> None)"

locale media_interface =
  fixes storef :: "string \<Rightarrow> string \<Rightarrow> media_meta \<Rightarrow> string \<Rightarrow> int \<Rightarrow> 's \<Rightarrow> 's"
    and releasef :: "string \<Rightarrow> 's \<Rightarrow> 's"
    and cleanf :: "int \<Rightarrow> 's \<Rightarrow> 's"
    and abstraction :: "'s \<Rightarrow> media_spec"
    and max_age :: "'s \<Rightarrow> int"
    and valid :: "'s \<Rightarrow> bool"
  assumes store_spec: "valid s \<Longrightarrow> abstraction s ref = None \<Longrightarrow>
      abstraction (storef ref p meta scope now s) =
        spec_op (max_age s) (DoStore ref p meta scope now) (abstraction s)"
    and store_valid: "valid s \<Longrightarrow> abstraction s ref = None \<Longrightarrow>
      valid (storef ref p meta scope now s) \<and> max_age (storef ref p meta scope now s) = max_age s"
    and release_spec: "valid s \<Longrightarrow>
      abstraction (releasef scope s) = spec_op (max_age s) (DoRelease scope) (abstraction s)"
    and release_valid: "valid s \<Longrightarrow> valid (releasef scope s) \<and> max_age (releasef scope s) = max_age s"
    and clean_spec: "valid s \<Longrightarrow>
      abstraction (cleanf now s) = spec_op (max_age s) (DoClean now) (abstraction s)"
    and clean_valid: "valid s \<Longrightarrow> valid (cleanf now s) \<and> max_age (cleanf now s) = max_age s"
begin

fun run_op :: "media_op \<Rightarrow> 's \<Rightarrow> 's" where
  "run_op (DoStore ref p meta scope now) s = storef ref p meta scope now s"
| "run_op (DoRelease scope) s = releasef scope s"
| "run_op (DoClean now) s = cleanf now s"

text \<open>References are stored once.\<close>

fun fresh_run :: "media_op list \<Rightarrow> 's \<Rightarrow> bool" where
  "fresh_run [] s \<longleftrightarrow> True"
| "fresh_run (x # xs) s \<longleftrightarrow>
    (case x of DoStore ref p meta scope now \<Rightarrow> abstraction s ref = None | _ \<Rightarrow> True) \<and>
    fresh_run xs (run_op x s)"

text \<open>Any history of operations with fresh references refines the abstract one.\<close>

lemma run_refines:
  "valid s \<Longrightarrow> fresh_run xs s \<Longrightarrow>
    valid (fold run_op xs s) \<and>
    abstraction (fold run_op xs s) = fold (spec_op (max_age s)) xs (abstraction s)"
proof (induction xs arbitrary: s)
  case (Cons x xs)
  then have "valid (run_op x s) \<and> max_age (run_op x s) = max_age s \<and>
      abstraction (run_op x s) = spec_op (max_age s) x (abstraction s)"
    by (cases x) (simp_all add: store_spec store_valid release_spec release_valid clean_spec clean_valid
        del: spec_op.simps)
  with Cons.IH [of "run_op x s"] Cons.prems(2) show ?case by simp
qed simp

end

subsection \<open>The three maps agree\<close>

text \<open>The sets of references by scope that the map from references to scopes determines.\<close>

definition refs_in :: "(string \<rightharpoonup> string) \<Rightarrow> string \<Rightarrow> string set" where
  "refs_in m scope = {r. m r = Some scope}"

definition scope_sets :: "(string \<rightharpoonup> string) \<Rightarrow> (string \<rightharpoonup> string set)" where
  "scope_sets m scope = (if refs_in m scope = {} then None else Some (refs_in m scope))"

definition media_ok :: "media_store \<Rightarrow> bool" where
  "media_ok s \<longleftrightarrow>
    dom (ms_refToScope s) = dom (ms_refs s) \<and> finite (dom (ms_refs s)) \<and>
    ms_scopeToRefs s = scope_sets (ms_refToScope s)"

definition media_abs :: "media_store \<Rightarrow> media_spec" where
  "media_abs s r =
    (case (ms_refs s r, ms_refToScope s r) of
       (Some e, Some scope) \<Rightarrow> Some (me_path e, me_meta e, scope, me_storedAt e)
     | _ \<Rightarrow> None)"

lemma media_ok_both: "media_ok s \<Longrightarrow> ms_refs s r = None \<longleftrightarrow> ms_refToScope s r = None"
  by (metis domIff media_ok_def)

lemma media_abs_None: "media_ok s \<Longrightarrow> media_abs s r = None \<longleftrightarrow> ms_refs s r = None"
  using media_ok_both [of s r] by (auto simp: media_abs_def split: option.splits)

lemma media_ok_new [simp]: "media_ok (new_media_store a)"
  by (auto simp: media_ok_def new_media_store_def scope_sets_def refs_in_def)

lemma refs_in_store:
  "m ref = None \<Longrightarrow> refs_in (m(ref \<mapsto> scope)) sc = (if sc = scope then insert ref (refs_in m sc) else refs_in m sc)"
  by (auto simp: refs_in_def)

lemma refs_in_delete: "refs_in (m(ref := None)) sc = refs_in m sc - {ref}"
  by (auto simp: refs_in_def)

lemma refs_in_delete_all: "refs_in (del_keys m refs) sc = refs_in m sc - set refs"
  by (auto simp: refs_in_def del_keys_apply)

lemma refs_in_disjoint: "sc \<noteq> scope \<Longrightarrow> refs_in m sc - refs_in m scope = refs_in m sc"
  by (auto simp: refs_in_def)

lemma scope_sets_store:
  "m ref = None \<Longrightarrow> scope_sets (m(ref \<mapsto> scope)) =
    (scope_sets m)(scope \<mapsto> insert ref (case scope_sets m scope of None \<Rightarrow> {} | Some R \<Rightarrow> R))"
  by (rule ext) (simp add: scope_sets_def refs_in_store)

lemma scope_sets_delete_all:
  "set refs = refs_in m scope \<Longrightarrow> scope_sets (del_keys m refs) = (scope_sets m)(scope := None)"
proof (rule ext)
  fix sc
  assume "set refs = refs_in m scope"
  then have "refs_in (del_keys m refs) sc = (if sc = scope then {} else refs_in m sc)"
    by (simp add: refs_in_delete_all refs_in_disjoint)
  then show "scope_sets (del_keys m refs) sc = ((scope_sets m)(scope := None)) sc"
    by (simp add: scope_sets_def)
qed

lemma scope_sets_delete:
  assumes "m ref = Some scope"
  shows "scope_sets (m(ref := None)) =
    (if refs_in m scope - {ref} = {} then (scope_sets m)(scope := None)
     else (scope_sets m)(scope \<mapsto> refs_in m scope - {ref}))"
proof (rule ext)
  fix sc
  have "refs_in m sc - {ref} = refs_in m sc" if "sc \<noteq> scope"
    using assms that by (auto simp: refs_in_def)
  then show "scope_sets (m(ref := None)) sc =
    (if refs_in m scope - {ref} = {} then (scope_sets m)(scope := None)
     else (scope_sets m)(scope \<mapsto> refs_in m scope - {ref})) sc"
    by (cases "sc = scope") (simp_all add: scope_sets_def refs_in_delete)
qed

lemma media_put_ok:
  assumes "media_ok s" and "ms_refs s ref = None"
  shows "media_ok (register_ref s p meta scope now ref)"
    and "media_abs (register_ref s p meta scope now ref) = (media_abs s)(ref \<mapsto> (p, meta, scope, now))"
proof -
  have n: "ms_refToScope s ref = None"
    using assms media_ok_both by blast
  show "media_ok (register_ref s p meta scope now ref)"
    using assms(1) scope_sets_store [where m = "ms_refToScope s", OF n]
    by (simp add: media_ok_def register_ref_def)
  show "media_abs (register_ref s p meta scope now ref) = (media_abs s)(ref \<mapsto> (p, meta, scope, now))"
    by (rule ext) (simp add: media_abs_def register_ref_def)
qed

definition enumerates :: "string list \<Rightarrow> media_store \<Rightarrow> bool" where
  "enumerates order s \<longleftrightarrow> set order = dom (ms_refs s)"

lemma release_filter:
  assumes "media_ok s" and "enumerates order s" and "ms_scopeToRefs s scope = Some R"
  shows "set (filter (\<lambda>r. r \<in> R) order) = refs_in (ms_refToScope s) scope"
  using assms
  by (auto simp: media_ok_def enumerates_def scope_sets_def refs_in_def split: if_splits)

lemma release_all_ok:
  assumes "media_ok s" and "enumerates order s"
  shows "media_ok (fst (release_all order scope s disk))"
    and "media_abs (fst (release_all order scope s disk)) = spec_op a (DoRelease scope) (media_abs s)"
proof -
  have "media_ok (fst (release_all order scope s disk)) \<and>
    media_abs (fst (release_all order scope s disk)) = spec_op a (DoRelease scope) (media_abs s)"
  proof (cases "ms_scopeToRefs s scope")
    case None
    then have "ms_refToScope s r \<noteq> Some scope" for r
      using assms(1) by (auto simp: media_ok_def scope_sets_def refs_in_def split: if_splits)
    then have "media_abs s = spec_op a (DoRelease scope) (media_abs s)"
      by (intro ext) (auto simp: media_abs_def split: option.splits)
    with None assms(1) show ?thesis by (simp add: release_all_def)
  next
    case (Some R)
    let ?refs = "filter (\<lambda>r. r \<in> R) order"
    have refs: "set ?refs = refs_in (ms_refToScope s) scope"
      by (rule release_filter [OF assms Some])
    have "media_ok (release_refs scope ?refs s)"
      using assms(1) scope_sets_delete_all [OF refs]
      by (simp add: media_ok_def release_refs_def dom_del_keys finite_Diff)
    moreover have "media_abs (release_refs scope ?refs s) = spec_op a (DoRelease scope) (media_abs s)"
      using refs media_ok_both [OF assms(1)]
      by (intro ext) (auto simp: media_abs_def release_refs_def del_keys_apply refs_in_def split: option.splits)
    ultimately show ?thesis using Some by (simp add: release_all_def)
  qed
  then show "media_ok (fst (release_all order scope s disk))"
    and "media_abs (fst (release_all order scope s disk)) = spec_op a (DoRelease scope) (media_abs s)"
    by simp_all
qed

lemma expire_ref_ok:
  assumes "media_ok s"
  shows "media_ok (expire_ref cutoff ref s)"
    and "ms_refs (expire_ref cutoff ref s) =
      (case ms_refs s ref of Some e \<Rightarrow> if me_storedAt e < cutoff then (ms_refs s)(ref := None) else ms_refs s
       | None \<Rightarrow> ms_refs s)"
    and "ms_refToScope (expire_ref cutoff ref s) =
      (case ms_refs s ref of Some e \<Rightarrow> if me_storedAt e < cutoff then (ms_refToScope s)(ref := None) else ms_refToScope s
       | None \<Rightarrow> ms_refToScope s)"
proof -
  show "media_ok (expire_ref cutoff ref s)"
  proof (cases "ms_refs s ref")
    case None
    with assms show ?thesis by (simp add: expire_ref_def)
  next
    case (Some e)
    then obtain scope where scope: "ms_refToScope s ref = Some scope"
      using media_ok_both [OF assms, of ref] by auto
    then have "ms_scopeToRefs s scope = Some (refs_in (ms_refToScope s) scope)"
      using assms by (auto simp: media_ok_def scope_sets_def refs_in_def)
    with Some scope assms scope_sets_delete [where m = "ms_refToScope s", OF scope] show ?thesis
      by (simp add: expire_ref_def media_ok_def Let_def)
  qed
qed (simp_all add: expire_ref_def Let_def split: option.split)

definition stale :: "int \<Rightarrow> media_store \<Rightarrow> string \<Rightarrow> bool" where
  "stale cutoff s r \<longleftrightarrow> (case ms_refs s r of Some e \<Rightarrow> me_storedAt e < cutoff | None \<Rightarrow> False)"

lemma fold_expire:
  assumes "media_ok s"
  shows "media_ok (fold (expire_ref cutoff) order s) \<and>
    (\<forall>r. ms_refs (fold (expire_ref cutoff) order s) r =
        (if r \<in> set order \<and> stale cutoff s r then None else ms_refs s r)) \<and>
    (\<forall>r. ms_refToScope (fold (expire_ref cutoff) order s) r =
        (if r \<in> set order \<and> stale cutoff s r then None else ms_refToScope s r))"
  using assms
proof (induction order arbitrary: s)
  case (Cons k order)
  note ok = expire_ref_ok [OF Cons.prems, of cutoff k]
  have "stale cutoff (expire_ref cutoff k s) r \<longleftrightarrow> stale cutoff s r \<and> r \<noteq> k" for r
    using ok(2) by (auto simp: stale_def split: option.splits)
  moreover have "ms_refs (expire_ref cutoff k s) r = (if r = k \<and> stale cutoff s k then None else ms_refs s r)"
    and "ms_refToScope (expire_ref cutoff k s) r = (if r = k \<and> stale cutoff s k then None else ms_refToScope s r)" for r
    using ok(2,3) by (auto simp: stale_def split: option.splits)
  ultimately show ?case
    using Cons.IH [OF ok(1)] by auto
qed simp

lemma clean_expired_ok:
  assumes "media_ok s" and "enumerates order s"
  shows "media_ok (fst (clean_expired order now s disk))"
    and "media_abs (fst (clean_expired order now s disk)) = spec_op (ms_maxAge s) (DoClean now) (media_abs s)"
proof -
  let ?c = "now - ms_maxAge s"
  note f = fold_expire [OF assms(1), of ?c order]
  show "media_ok (fst (clean_expired order now s disk))"
    using f assms(1) by (simp add: clean_expired_def Let_def)
  show "media_abs (fst (clean_expired order now s disk)) = spec_op (ms_maxAge s) (DoClean now) (media_abs s)"
  proof (rule ext)
    fix r
    have "stale ?c s r \<Longrightarrow> r \<in> set order"
      using assms(2) by (auto simp: stale_def enumerates_def split: option.splits)
    then show "media_abs (fst (clean_expired order now s disk)) r =
        spec_op (ms_maxAge s) (DoClean now) (media_abs s) r"
      using f by (auto simp: clean_expired_def Let_def media_abs_def stale_def split: option.splits)
  qed
qed

lemma max_age_frame [frame]:
  "ms_maxAge (register_ref s p meta scope now ref) = ms_maxAge s"
  "ms_maxAge (fst (release_all order scope s disk)) = ms_maxAge s"
  "ms_maxAge (fst (clean_expired order now s disk)) = ms_maxAge s"
proof -
  have "ms_maxAge (fold (expire_ref c) order s) = ms_maxAge s" for c
    by (induction order arbitrary: s) (simp_all add: expire_ref_def Let_def split: option.split)
  then show "ms_maxAge (fst (clean_expired order now s disk)) = ms_maxAge s"
    by (simp add: clean_expired_def Let_def)
qed (simp_all add: register_ref_def release_all_def release_refs_def split: option.split)

text \<open>The order in which the code visits the references does not matter; this is one.\<close>

definition any_order :: "media_store \<Rightarrow> string list" where
  "any_order s = sorted_list_of_set (dom (ms_refs s))"

lemma enumerates_any: "media_ok s \<Longrightarrow> enumerates (any_order s) s"
  by (simp add: enumerates_def any_order_def media_ok_def)

interpretation fm: media_interface
  "\<lambda>ref p meta scope now s. register_ref s p meta scope now ref"
  "\<lambda>scope s. fst (release_all (any_order s) scope s {})"
  "\<lambda>now s. fst (clean_expired (any_order s) now s {})"
  media_abs ms_maxAge media_ok
  by unfold_locales
    (simp_all add: media_abs_None media_put_ok release_all_ok enumerates_any clean_expired_ok
      max_age_frame del: spec_op.simps(2,3))

subsection \<open>Histories of the store\<close>

text \<open>An operation with the order in which it visits the references, on the store and the disk.\<close>

fun media_step :: "media_op \<times> string list \<Rightarrow> media_store \<times> string set \<Rightarrow> media_store \<times> string set" where
  "media_step (DoStore ref p meta scope now, order) (s, disk) = (fst (media_put disk ref now s p meta scope), disk)"
| "media_step (DoRelease scope, order) (s, disk) = release_all order scope s disk"
| "media_step (DoClean now, order) (s, disk) =
    (let (s', disk', _) = clean_expired order now s disk in (s', disk'))"

text \<open>Stored files exist, references are new, and loops visit every reference.\<close>

fun media_history :: "(media_op \<times> string list) list \<Rightarrow> media_store \<times> string set \<Rightarrow> bool" where
  "media_history [] st \<longleftrightarrow> True"
| "media_history ((x, order) # xs) st \<longleftrightarrow>
    (case x of DoStore ref p meta scope now \<Rightarrow> ms_refs (fst st) ref = None \<and> p \<in> snd st
     | _ \<Rightarrow> enumerates order (fst st)) \<and>
    media_history xs (media_step (x, order) st)"

lemma media_store_eqI:
  "media_ok s \<Longrightarrow> media_ok s' \<Longrightarrow> ms_refs s = ms_refs s' \<Longrightarrow> ms_refToScope s = ms_refToScope s' \<Longrightarrow>
    ms_maxAge s = ms_maxAge s' \<Longrightarrow> s = s'"
  by (cases s; cases s') (simp add: media_ok_def)

lemma release_any_order:
  assumes "media_ok s" and "enumerates order s"
  shows "fst (release_all order scope s disk) = fst (release_all (any_order s) scope s {})"
proof (cases "ms_scopeToRefs s scope")
  case (Some R)
  have "set (filter (\<lambda>r. r \<in> R) order) = set (filter (\<lambda>r. r \<in> R) (any_order s))"
    using release_filter [OF assms Some] release_filter [OF assms(1) enumerates_any [OF assms(1)] Some] by simp
  then show ?thesis
    using Some by (simp add: release_all_def release_refs_def del_keys_cong [of "filter (\<lambda>r. r \<in> R) order"])
qed (simp add: release_all_def)

lemma clean_any_order:
  assumes "media_ok s" and "enumerates order s"
  shows "fst (clean_expired order now s disk) = fst (clean_expired (any_order s) now s {})"
proof (rule media_store_eqI)
  have e: "set order = set (any_order s)"
    using assms enumerates_any [OF assms(1)] by (simp add: enumerates_def)
  note f = fold_expire [OF assms(1), of "now - ms_maxAge s"]
  show "ms_refs (fst (clean_expired order now s disk)) = ms_refs (fst (clean_expired (any_order s) now s {}))"
    and "ms_refToScope (fst (clean_expired order now s disk)) =
      ms_refToScope (fst (clean_expired (any_order s) now s {}))"
    using f e by (auto simp: clean_expired_def Let_def)
qed (simp_all add: clean_expired_ok assms enumerates_any max_age_frame)

lemma media_step_run:
  assumes "media_ok (fst st)" and "media_history ((x, order) # xs) st"
  shows "fst (media_step (x, order) st) = fm.run_op x (fst st)"
proof (cases st)
  case (Pair s disk)
  have "fst (media_step (DoClean now, order) (s, disk)) = fst (clean_expired order now s disk)" for now
    by (simp split: prod.split)
  with Pair assms show ?thesis
    by (cases x) (simp_all add: media_put_def release_any_order clean_any_order del: media_step.simps(3))
qed

lemma fm_fresh:
  "media_ok (fst st) \<Longrightarrow> media_history xs st \<Longrightarrow>
    fm.fresh_run (map fst xs) (fst st) \<and> fst (fold media_step xs st) = fold fm.run_op (map fst xs) (fst st)"
proof (induction xs arbitrary: st)
  case (Cons y xs)
  obtain x order where y: "y = (x, order)" by force
  have fresh: "case x of DoStore ref p meta scope now \<Rightarrow> media_abs (fst st) ref = None | _ \<Rightarrow> True"
    using Cons.prems y by (auto simp: media_abs_None split: media_op.splits)
  then have "fm.fresh_run [x] (fst st)" by (simp split: media_op.splits)
  then have "media_ok (fm.run_op x (fst st))"
    using fm.run_refines [OF Cons.prems(1), of "[x]"] by simp
  moreover have step: "fst (media_step y st) = fm.run_op x (fst st)"
    using media_step_run [OF Cons.prems(1), of x order xs] Cons.prems(2) unfolding y by blast
  moreover have "media_history xs (media_step y st)"
    using Cons.prems(2) y by simp
  ultimately have "fm.fresh_run (map fst xs) (fst (media_step y st)) \<and>
      fst (fold media_step xs (media_step y st)) = fold fm.run_op (map fst xs) (fst (media_step y st))"
    by (intro Cons.IH) simp_all
  with fresh y step show ?case by simp
qed simp

text \<open>
  C5. Along any history of storing, releasing and expiring, the three maps of the store agree,
  and a reference resolves exactly as in the abstract store: from being stored until its scope
  is released or it is older than the limit, to the path and metadata it was stored with.
\<close>

theorem media_history_refines:
  assumes "media_history xs (new_media_store maxAge, disk)"
    and "fold media_step xs (new_media_store maxAge, disk) = (s, disk')"
  shows "media_ok s \<and>
    resolve_with_meta s ref =
      map_option (\<lambda>(p, meta, _). (p, meta)) (fold (spec_op maxAge) (map fst xs) Map.empty ref)"
proof -
  have run: "fm.fresh_run (map fst xs) (new_media_store maxAge)" "s = fold fm.run_op (map fst xs) (new_media_store maxAge)"
    using fm_fresh [of "(new_media_store maxAge, disk)" xs] assms by auto
  have "media_ok s \<and> media_abs s = fold (spec_op maxAge) (map fst xs) (media_abs (new_media_store maxAge))"
    using fm.run_refines [OF media_ok_new run(1)] run(2) by (simp add: new_media_store_def)
  moreover have "media_abs (new_media_store maxAge) = Map.empty"
    by (rule ext) (simp add: media_abs_def new_media_store_def)
  moreover have "resolve_with_meta s ref = map_option (\<lambda>(p, meta, _). (p, meta)) (media_abs s ref)" if "media_ok s"
    using media_ok_both [OF that, of ref]
    by (auto simp: resolve_with_meta_def media_abs_def split: option.splits)
  ultimately show ?thesis by simp
qed

definition no_meta :: media_meta where
  "no_meta = \<lparr>mm_Filename = [], mm_ContentType = [], mm_Source = []\<rparr>"

theorem media_history_refines_witness:
  "resolve_with_meta (fst (media_step (DoStore ''media://1'' ''/tmp/a'' no_meta ''irc:c'' 5, [])
      (new_media_store 10, {''/tmp/a''}))) ''media://1'' = Some (''/tmp/a'', no_meta)"
proof -
  let ?x = "(DoStore ''media://1'' ''/tmp/a'' no_meta ''irc:c'' 5, [])"
  obtain s d where st: "fold media_step [?x] (new_media_store 10, {''/tmp/a''}) = (s, d)" by force
  have "media_history [?x] (new_media_store 10, {''/tmp/a''})"
    by (simp add: new_media_store_def)
  from media_history_refines [OF this st, of "''media://1''"] st show ?thesis
    by (simp del: media_step.simps)
qed

text \<open>
  Expiring deletes the file of every expired entry from the disk, whoever created it and
  even when a younger reference to the same path is kept and still resolves to it.
\<close>

theorem expired_file_deleted:
  assumes "0 < ms_maxAge s" and "ms_refs s old = Some e" and "me_storedAt e < now - ms_maxAge s"
    and "enumerates order s" and "media_ok s"
    and "ms_refs s young = Some e'" and "me_path e' = me_path e" and "me_storedAt e' \<ge> now - ms_maxAge s"
    and "clean_expired order now s disk = (s', disk', n)"
  shows "me_path e \<notin> disk' \<and> resolve s' young = Some (me_path e)"
proof -
  have "old \<in> set order"
    using assms(2,4) by (auto simp: enumerates_def)
  then have "me_path e \<in> set (paths_of s (expired_refs (now - ms_maxAge s) s order))"
    using assms(2,3) by (force simp: paths_of_def expired_refs_def map_filter_def)
  moreover have "\<not> stale (now - ms_maxAge s) s young"
    using assms(6,8) by (simp add: stale_def)
  ultimately show ?thesis
    using assms(1,6,7,9) fold_expire [OF assms(5), of "now - ms_maxAge s" order]
    by (auto simp: clean_expired_def Let_def resolve_def)
qed

lemma two_refs_ok:
  "media_ok (register_ref (register_ref (new_media_store 10) p no_meta ''irc:c'' 0 ''a'') p no_meta ''irc:d'' 15 ''b'')"
  by (rule media_put_ok(1), rule media_put_ok(1), rule media_ok_new)
    (simp_all add: new_media_store_def register_ref_def)

theorem expired_file_deleted_witness:
  "\<exists>s' disk' n. clean_expired [''a'', ''b''] 20
      (register_ref (register_ref (new_media_store 10) ''/home/u/thesis.pdf'' no_meta ''irc:c'' 0 ''a'')
        ''/home/u/thesis.pdf'' no_meta ''irc:d'' 15 ''b'') {''/home/u/thesis.pdf''} = (s', disk', n) \<and>
    ''/home/u/thesis.pdf'' \<notin> disk' \<and> resolve s' ''b'' = Some ''/home/u/thesis.pdf''"
proof -
  let ?e = "\<lambda>t. \<lparr>me_path = ''/home/u/thesis.pdf'', me_meta = no_meta, me_storedAt = t\<rparr>"
  let ?s0 = "register_ref (new_media_store 10) ''/home/u/thesis.pdf'' no_meta ''irc:c'' 0 ''a''"
  let ?s = "register_ref ?s0 ''/home/u/thesis.pdf'' no_meta ''irc:d'' 15 ''b''"
  have r: "ms_refs ?s = [''a'' \<mapsto> ?e 0, ''b'' \<mapsto> ?e 15]" "ms_maxAge ?s = 10"
    by (simp_all add: register_ref_def new_media_store_def)
  obtain s' disk' n where run: "clean_expired [''a'', ''b''] 20 ?s {''/home/u/thesis.pdf''} = (s', disk', n)"
    by (metis surj_pair)
  have "enumerates [''a'', ''b''] ?s" by (auto simp: enumerates_def r)
  with expired_file_deleted [OF _ _ _ _ two_refs_ok _ _ _ run, of "''a''" "?e 0" "''b''" "?e 15"] run r
  show ?thesis by auto
qed

end
