(* ===== verification/Go_Path.thy ===== *)
theory Go_Path
  imports Go_Strings
begin

text \<open>
  The lexical functions of \<open>path/filepath\<close> on Unix paths: \<open>Clean\<close>, \<open>Join\<close>, \<open>Base\<close> and \<open>Ext\<close>,
  with the fact that a relative name without a \<open>..\<close> component stays below the directory it is
  joined to.
\<close>

text \<open>The components kept so far are in reverse order.\<close>

fun clean_parts :: "bool \<Rightarrow> string list \<Rightarrow> string list \<Rightarrow> string list" where
  "clean_parts rooted acc [] = rev acc"
| "clean_parts rooted acc (p # ps) =
    (if p = [] \<or> p = ''.'' then clean_parts rooted acc ps
     else if p = ''..'' then
       (case acc of
          [] \<Rightarrow> clean_parts rooted (if rooted then [] else [''..'']) ps
        | a # as \<Rightarrow> clean_parts rooted (if a = ''..'' then ''..'' # a # as else as) ps)
     else clean_parts rooted (p # acc) ps)"

definition is_abs :: "string \<Rightarrow> bool" where
  "is_abs p \<longleftrightarrow> has_prefix ''/'' p"

definition clean :: "string \<Rightarrow> string" where
  "clean p =
    (let body = join ''/'' (clean_parts (is_abs p) [] (split_on CHR ''/'' p)) in
     if is_abs p then CHR ''/'' # body else if body = [] then ''.'' else body)"

definition path_join :: "string list \<Rightarrow> string" where
  "path_join elems =
    (let es = filter (\<lambda>e. e \<noteq> []) elems in if es = [] then [] else clean (join ''/'' es))"

definition trim_slashes :: "string \<Rightarrow> string" where
  "trim_slashes p = rev (dropWhile (\<lambda>c. c = CHR ''/'') (rev p))"

definition base_name :: "string \<Rightarrow> string" where
  "base_name p =
    (if p = [] then ''.''
     else let q = trim_slashes p in
       if q = [] then ''/'' else last (split_on CHR ''/'' q))"

definition ext :: "string \<Rightarrow> string" where
  "ext p =
    (let l = last (split_on CHR ''/'' p) in
     if CHR ''.'' \<in> set l then CHR ''.'' # rev (takeWhile (\<lambda>c. c \<noteq> CHR ''.'') (rev l)) else [])"

definition dir_name :: "string \<Rightarrow> string" where
  "dir_name p = clean (rev (dropWhile (\<lambda>c. c \<noteq> CHR ''/'') (rev p)))"

text \<open>A path lies below a directory when it continues it by a separator.\<close>

definition below :: "string \<Rightarrow> string \<Rightarrow> bool" where
  "below dir p \<longleftrightarrow> has_prefix (dir @ ''/'') p"

subsection \<open>Cleaning\<close>

lemma clean_parts_append:
  "\<forall>p \<in> set ps. p \<noteq> ''..'' \<Longrightarrow>
    clean_parts r acc (ps @ qs) = clean_parts r (rev (filter (\<lambda>p. p \<noteq> [] \<and> p \<noteq> ''.'') ps) @ acc) qs"
  by (induction ps arbitrary: acc) auto

lemma clean_parts_plain:
  "\<forall>p \<in> set ps. p \<noteq> ''..'' \<Longrightarrow>
    clean_parts r acc ps = rev acc @ filter (\<lambda>p. p \<noteq> [] \<and> p \<noteq> ''.'') ps"
  using clean_parts_append [of ps r acc "[]"] by simp

lemma split_on_append: "split_on c (s @ c # t) = split_on c s @ split_on c t"
proof (induction s)
  case (Cons d s)
  then show ?case
    by (cases "split_on c s") auto
qed simp

lemma clean_parts_snoc:
  assumes "p \<noteq> []" and "p \<noteq> ''.''" and "p \<noteq> ''..''"
  shows "clean_parts r acc (ps @ [p]) = clean_parts r acc ps @ [p]"
  by (induction r acc ps rule: clean_parts.induct) (use assms in \<open>auto split: list.splits\<close>)

lemma split_on_free: "c \<notin> set s \<Longrightarrow> split_on c s = [s]"
  by (induction s) auto

lemma join_snoc: "ps \<noteq> [] \<Longrightarrow> join sep (ps @ [p]) = join sep ps @ sep @ p"
  by (induction sep ps rule: join.induct) auto

text \<open>A plain name joined to a clean absolute directory gives a file right below it.\<close>

lemma path_join_plain:
  assumes dir: "is_abs dir" "clean dir = dir" "dir \<noteq> ''/''"
    and name: "CHR ''/'' \<notin> set name" "name \<noteq> []" "name \<noteq> ''.''" "name \<noteq> ''..''"
  shows "path_join [dir, name] = dir @ ''/'' @ name"
proof -
  let ?parts = "clean_parts True [] (split_on CHR ''/'' dir)"
  have abs: "is_abs (dir @ ''/'' @ name)"
    using dir(1) by (cases dir) (auto simp: is_abs_def has_prefix_def)
  have dir_eq: "dir = CHR ''/'' # join ''/'' ?parts"
    using dir(1,2) by (simp add: clean_def Let_def)
  with dir(3) have "?parts \<noteq> []" by (metis join.simps(1))
  moreover have "split_on CHR ''/'' (dir @ ''/'' @ name) = split_on CHR ''/'' dir @ [name]"
    using split_on_append [of "CHR ''/''" dir name] split_on_free [OF name(1)] by simp
  ultimately have "clean (dir @ ''/'' @ name) = (CHR ''/'' # join ''/'' ?parts) @ ''/'' @ name"
    using abs by (simp add: clean_def clean_parts_snoc [OF name(2-4)] join_snoc Let_def)
  then have "clean (dir @ ''/'' @ name) = dir @ ''/'' @ name"
    unfolding dir_eq [symmetric] .
  moreover have "dir \<noteq> []"
    using dir(1) by (auto simp: is_abs_def has_prefix_def)
  ultimately show ?thesis
    using name(2) by (simp add: path_join_def Let_def)
qed

lemma below_join: "below dir (dir @ ''/'' @ name)"
  by (simp add: below_def has_prefix_def)

subsection \<open>Clean paths\<close>

text \<open>
  The parts of a cleaned path, in order: no empty part and no \<open>.\<close>, and \<open>..\<close> only at the start of
  a relative path.
\<close>

definition plain_part :: "string \<Rightarrow> bool" where
  "plain_part p \<longleftrightarrow> p \<noteq> [] \<and> p \<noteq> ''.'' \<and> p \<noteq> ''..'' \<and> CHR ''/'' \<notin> set p"

definition clean_form :: "bool \<Rightarrow> string list \<Rightarrow> bool" where
  "clean_form rooted ps \<longleftrightarrow>
    (\<forall>p \<in> set ps. plain_part p \<or> (\<not> rooted \<and> p = ''..'')) \<and>
    successively (\<lambda>p q. q = ''..'' \<longrightarrow> p = ''..'') ps"

lemma clean_form_rev:
  "clean_form r (rev (p # acc)) \<longleftrightarrow>
    clean_form r (rev acc) \<and> (plain_part p \<or> (\<not> r \<and> p = ''..'')) \<and>
    (p = ''..'' \<longrightarrow> acc = [] \<or> hd acc = ''..'')"
  by (cases acc) (auto simp: clean_form_def successively_append_iff)

lemma clean_parts_form:
  "clean_form r (rev acc) \<Longrightarrow> \<forall>p \<in> set ps. CHR ''/'' \<notin> set p \<Longrightarrow> clean_form r (clean_parts r acc ps)"
proof (induction ps arbitrary: acc)
  case (Cons p ps)
  note IH = Cons.IH and acc = Cons.prems(1)
  have rest: "\<forall>p \<in> set ps. CHR ''/'' \<notin> set p" using Cons.prems(2) by simp
  show ?case
  proof (cases "p = ''..''")
    case True
    show ?thesis
    proof (cases acc)
      case Nil
      have "clean_form r (rev (if r then [] else [''..'']))"
        by (simp add: clean_form_def)
      from IH [OF this rest] True Nil show ?thesis by simp
    next
      case (Cons a as)
      have "clean_form r (rev (if a = ''..'' then ''..'' # a # as else as))"
      proof (cases "a = ''..''")
        case True
        with acc Cons have up: "plain_part ''..'' \<or> \<not> r" by (auto simp only: clean_form_rev)
        have "clean_form r (rev (''..'' # acc))"
          using acc up Cons True by (subst clean_form_rev) (auto simp: plain_part_def)
        with Cons True show ?thesis by simp
      next
        case False
        with acc Cons show ?thesis by (simp only: clean_form_rev if_False)
      qed
      from IH [OF this rest] True Cons show ?thesis by simp
    qed
  next
    case False
    show ?thesis
    proof (cases "p = [] \<or> p = ''.''")
      case True
      with IH [OF acc rest] show ?thesis by auto
    next
      case ne: False
      have "clean_form r (rev (p # acc))"
        using False ne acc Cons.prems(2) by (simp only: clean_form_rev) (simp add: plain_part_def)
      from IH [OF this rest] False ne show ?thesis by simp
    qed
  qed
qed simp

lemma clean_parts_fix_acc: "clean_form r (rev acc @ ps) \<Longrightarrow> clean_parts r acc ps = rev acc @ ps"
proof (induction ps arbitrary: acc)
  case (Cons p ps)
  have next_form: "clean_form r (rev (p # acc) @ ps)" using Cons.prems by simp
  then have p: "plain_part p \<or> \<not> r \<and> p = ''..''" by (simp add: clean_form_def)
  have "p = ''..'' \<Longrightarrow> acc \<noteq> [] \<Longrightarrow> hd acc = ''..''"
    using Cons.prems by (cases acc) (auto simp: clean_form_def successively_append_iff)
  with p Cons.IH [OF next_form] show ?case
    by (cases acc) (auto simp: plain_part_def)
qed simp

lemma clean_parts_fix: "clean_form r ps \<Longrightarrow> clean_parts r [] ps = ps"
  using clean_parts_fix_acc [of r "[]" ps] by simp

lemma split_join: "ps \<noteq> [] \<Longrightarrow> \<forall>p \<in> set ps. c \<notin> set p \<Longrightarrow> split_on c (join [c] ps) = ps"
proof (induction ps rule: rev_nonempty_induct)
  case (snoc p ps)
  have "split_on c (join [c] (ps @ [p])) = split_on c (join [c] ps @ c # p)"
    using join_snoc [OF snoc.hyps(1), of "[c]" p] by simp
  also have "\<dots> = split_on c (join [c] ps) @ split_on c p" by (rule split_on_append)
  also have "\<dots> = ps @ [p]" using snoc by (simp add: split_on_free)
  finally show ?case .
qed (simp add: split_on_free)

lemma clean_form_free: "clean_form r ps \<Longrightarrow> \<forall>p \<in> set ps. CHR ''/'' \<notin> set p"
proof
  fix p
  assume "clean_form r ps" "p \<in> set ps"
  then have "plain_part p \<or> p = ''..''" unfolding clean_form_def by blast
  then show "CHR ''/'' \<notin> set p" by (elim disjE) (simp_all add: plain_part_def)
qed

lemma clean_form_head: "clean_form r (p # ps) \<Longrightarrow> p \<noteq> []"
  by (auto simp: clean_form_def plain_part_def)

text \<open>\<open>Clean\<close> is idempotent.\<close>

definition path_of :: "bool \<Rightarrow> string list \<Rightarrow> string" where
  "path_of rooted ps =
    (if rooted then CHR ''/'' # join ''/'' ps else if ps = [] then ''.'' else join ''/'' ps)"

lemma join_Nil_iff: "clean_form r ps \<Longrightarrow> join ''/'' ps = [] \<longleftrightarrow> ps = []"
  using clean_form_head [of r "hd ps" "tl ps"] by (cases ps rule: remdups_adj.cases) auto

lemma is_abs_path_of: "clean_form r ps \<Longrightarrow> is_abs (path_of r ps) = r"
proof (cases ps)
  case (Cons p qs)
  assume f: "clean_form r ps"
  then obtain c t where "p = c # t" "c \<noteq> CHR ''/''"
    using clean_form_head [of r p qs] clean_form_free [OF f] Cons by (cases p) auto
  then show ?thesis
    using Cons by (cases qs) (auto simp: path_of_def is_abs_def)
qed (auto simp: path_of_def is_abs_def)

lemma clean_path_of: "clean_form r ps \<Longrightarrow> clean (path_of r ps) = path_of r ps"
proof -
  assume f: "clean_form r ps"
  have "clean_parts r [] (split_on CHR ''/'' (path_of r ps)) = ps"
  proof (cases "ps = []")
    case False
    with f have "split_on CHR ''/'' (join ''/'' ps) = ps"
      using split_join [of ps "CHR ''/''"] clean_form_free [of r ps] by auto
    with False clean_parts_fix [OF f] show ?thesis by (auto simp: path_of_def)
  qed (auto simp: path_of_def)
  then show ?thesis
    using is_abs_path_of [OF f] join_Nil_iff [OF f] by (auto simp: clean_def path_of_def Let_def)
qed

lemma clean_obtain:
  obtains ps where "clean_form (is_abs p) ps" "clean p = path_of (is_abs p) ps"
proof
  let ?ps = "clean_parts (is_abs p) [] (split_on CHR ''/'' p)"
  show f: "clean_form (is_abs p) ?ps"
    by (rule clean_parts_form) (auto simp: clean_form_def dest: split_on_parts)
  show "clean p = path_of (is_abs p) ?ps"
    unfolding clean_def path_of_def Let_def using join_Nil_iff [OF f] by (cases "is_abs p") simp_all
qed

lemma clean_idem [simp]: "clean (clean p) = clean p"
  by (rule clean_obtain [of p]) (simp add: clean_path_of)

lemma is_abs_clean [simp]: "is_abs (clean p) = is_abs p"
  by (rule clean_obtain [of p]) (simp add: is_abs_path_of)

text \<open>Parts without \<open>..\<close> stay as they are behind any path.\<close>

lemma clean_parts_behind:
  "list_all plain_part qs \<Longrightarrow> clean_parts r acc (ps @ qs) = clean_parts r acc ps @ qs"
proof (induction qs rule: rev_induct)
  case (snoc q qs)
  then show ?case
    using clean_parts_snoc [of q r acc "ps @ qs"] by (auto simp: plain_part_def)
qed simp

lemma clean_plain_name:
  assumes "is_abs dir" "clean dir \<noteq> ''/''"
    and name: "CHR ''/'' \<notin> set name" "name \<noteq> []" "name \<noteq> ''.''" "name \<noteq> ''..''"
  shows "clean (dir @ ''/'' @ name) = clean dir @ ''/'' @ name"
proof -
  have "is_abs (dir @ ''/'' @ name)" using assms(1) by (cases dir) (auto simp: is_abs_def)
  moreover have "split_on CHR ''/'' (dir @ ''/'' @ name) = split_on CHR ''/'' dir @ [name]"
    using split_on_append [of "CHR ''/''" dir name] split_on_free [OF name(1)] by simp
  moreover have "clean_parts True [] (split_on CHR ''/'' dir) \<noteq> []"
    using assms(1,2) by (auto simp: clean_def Let_def)
  ultimately show ?thesis
    using assms(1) by (simp add: clean_def clean_parts_snoc [OF name(2-4)] join_snoc Let_def)
qed

lemma path_join_three:
  assumes "is_abs (path_join [a, b])" "path_join [a, b] \<noteq> ''/''"
    and "CHR ''/'' \<notin> set name" "name \<noteq> []" "name \<noteq> ''.''" "name \<noteq> ''..''"
  shows "path_join [a, b, name] = path_join [a, b] @ ''/'' @ name"
proof -
  define es where "es = filter (\<lambda>e. e \<noteq> []) [a, b]"
  have es: "es \<noteq> []" "path_join [a, b] = clean (join ''/'' es)"
    using assms(1) by (auto simp: path_join_def es_def is_abs_def Let_def)
  have "is_abs (join ''/'' es)"
    using assms(1) es(2) by simp
  then have "clean (join ''/'' es @ ''/'' @ name) = path_join [a, b] @ ''/'' @ name"
    using clean_plain_name assms(2-) es(2) by simp
  moreover have "path_join [a, b, name] = clean (join ''/'' es @ ''/'' @ name)"
    using assms(4) es(1) by (auto simp: path_join_def es_def Let_def split: if_splits)
  ultimately show ?thesis by simp
qed

end
