(* ===== verification/Bridge.thy ===== *)
theory Bridge
  imports Commands Stores Output Media Go_Path
begin

text \<open>
  \<open>pkg/bridge/loop.go\<close>: the loop that turns inbound messages into invocations of the coding agent.
  \<open>Run\<close> starts one handler per message; a handler is a sequence of phases, and the steps of the
  handlers interleave. The provider's answer is chosen by the environment. Running a command is
  one step.
\<close>

subsection \<open>Helpers\<close>

text \<open>The replacer works on single characters, so it is a map.\<close>

definition sanitize_session_key :: "string \<Rightarrow> string" where
  "sanitize_session_key key =
    map (\<lambda>c. if c = CHR '':'' \<or> c = CHR ''/'' \<or> c = CHR '' '' then CHR ''_'' else c) key"

definition infer_media_type :: "unicode \<Rightarrow> string \<Rightarrow> string" where
  "infer_media_type U path =
    (let e = to_lower U (ext path) in
     if e \<in> {''.jpg'', ''.jpeg'', ''.png'', ''.gif'', ''.webp''} then ''image''
     else if e \<in> {''.mp4'', ''.mov'', ''.avi''} then ''video''
     else if e \<in> {''.mp3'', ''.wav'', ''.ogg'', ''.m4a''} then ''audio''
     else ''file'')"

datatype persist_step = MkdirStep | OpenStep | CreateStep | CopyStep

text \<open>
  \<open>persistInboundFile\<close>: the path handed to the agent, and the file it created (with the
  contents copied from \<open>src\<close>), if any.
\<close>

definition persist_inbound_file ::
  "(persist_step \<Rightarrow> bool) \<Rightarrow> nat \<Rightarrow> string \<Rightarrow> string \<Rightarrow> string \<Rightarrow> string \<times> string option" where
  "persist_inbound_file fails millis src filename0 destDir =
    (if fails MkdirStep then (src, None)
     else let filename = (if filename0 = [] then base_name src else filename0);
              dest = path_join [destDir, format_nat millis @ ''_'' @ filename]
     in if fails OpenStep \<or> fails CreateStep \<or> fails CopyStep then (src, None) else (dest, Some dest))"

subsection \<open>The state of the loop\<close>

record loop =
  lp_sessions :: sessions
  lp_inFlight :: "string set"
  lp_cancelFlights :: "string \<rightharpoonup> nat"
  lp_cancelled :: "nat set"
  lp_typing :: "nat set"
  lp_model :: string
  lp_busOpen :: bool
  lp_outbox :: "outbound_message list"
  lp_disk :: disk
  lp_state :: state_manager
  lp_media :: media_store
  lp_history :: "(string \<times> string) list"

text \<open>What does not change while the loop runs, and the outcome of its system calls.\<close>

record loop_env =
  ev_unicode :: unicode
  ev_channels :: "string list"
  ev_provider :: string
  ev_typing :: "string \<Rightarrow> string \<Rightarrow> bool"
  ev_hasMedia :: bool
  ev_files :: "string set"
  ev_persist :: "persist_step \<Rightarrow> bool"
  ev_millis :: nat
  ev_filesDir :: string
  ev_fails :: "write_step \<Rightarrow> bool"
  ev_now :: string
  ev_newRef :: "media_store \<Rightarrow> string"

definition publish_outbound :: "outbound_message \<Rightarrow> loop \<Rightarrow> string option \<times> loop" where
  "publish_outbound m s =
    (if lp_busOpen s then (None, s\<lparr>lp_outbox := lp_outbox s @ [m]\<rparr>) else (Some ''message bus closed'', s))"

definition text_message :: "inbound_message \<Rightarrow> string \<Rightarrow> outbound_message" where
  "text_message msg t = \<lparr>om_Channel = im_Channel msg, om_ChatID = im_ChatID msg, om_Content = t, om_Parts = []\<rparr>"

definition save_sessions :: "loop_env \<Rightarrow> loop \<Rightarrow> string option \<times> loop" where
  "save_sessions env s =
    (let (ds, err) = sessions_save (ev_fails env) 0 (lp_disk s) ''.tmp'' (lp_sessions s)
     in (err, s\<lparr>lp_disk := last ds\<rparr>))"

definition bridge_registry :: "loop_env \<Rightarrow> loop registry" where
  "bridge_registry env = new_registry (ev_unicode env) builtin_definitions"

text \<open>\<open>buildRuntime\<close>: the callbacks of the commands for one message.\<close>

definition clear_history :: "loop_env \<Rightarrow> string \<Rightarrow> loop \<Rightarrow> string option \<times> loop" where
  "clear_history env key s =
    save_sessions env (s\<lparr>lp_sessions := sessions_delete key (lp_sessions s)\<rparr>)"

definition cancel_session :: "string \<Rightarrow> loop \<Rightarrow> bool \<times> loop" where
  "cancel_session key s =
    (case lp_cancelFlights s key of
       None \<Rightarrow> (False, s)
     | Some t \<Rightarrow> (True, s\<lparr>lp_cancelled := insert t (lp_cancelled s)\<rparr>))"

definition build_runtime :: "loop_env \<Rightarrow> inbound_message \<Rightarrow> loop runtime" where
  "build_runtime env msg =
    \<lparr>rt_GetModelInfo = Some (\<lambda>s. (lp_model s, ev_provider env)),
     rt_ListDefinitions = Some (\<lambda>_. map command_meta_of (registry_definitions (bridge_registry env))),
     rt_GetEnabledChannels = Some (\<lambda>_. ev_channels env),
     rt_SwitchModel = Some (\<lambda>value s. (Inr (lp_model s), s\<lparr>lp_model := value\<rparr>)),
     rt_ClearHistory = Some (clear_history env (im_SessionKey msg)),
     rt_CancelSession = Some (cancel_session (im_SessionKey msg))\<rparr>"

definition run_command :: "loop_env \<Rightarrow> inbound_message \<Rightarrow> loop \<Rightarrow> bool \<times> loop" where
  "run_command env msg s =
    (let req = \<lparr>rq_Channel = im_Channel msg, rq_ChatID = im_ChatID msg, rq_SenderID = im_SenderID msg,
                rq_Text = im_Content msg, rq_Reply = Some (\<lambda>t. publish_outbound (text_message msg t))\<rparr>;
         (res, s') = execute (ev_unicode env) (Some (bridge_registry env)) (Some (build_runtime env msg)) req s
     in (er_Outcome res = OutcomeHandled, s'))"

subsection \<open>The phases of a handler\<close>

datatype outcome =
    Answer string string
  | Canceled
  | ProviderMessage string
  | OtherFailure string

datatype phase =
    Arrived
  | Dedup
  | Register
  | Prepare
  | Invoking string string
  | Unregister
  | Release

text \<open>The message with the paths of the files that came with it.\<close>

definition user_message :: "loop_env \<Rightarrow> loop \<Rightarrow> inbound_message \<Rightarrow> string" where
  "user_message env s msg =
    im_Content msg @
    (if im_Media msg \<noteq> [] \<and> ev_hasMedia env then
       concat (map (\<lambda>ref. case resolve_with_meta (lp_media s) ref of
           None \<Rightarrow> []
         | Some (tempPath, meta) \<Rightarrow>
             [CHR 0x0A] @ ''[file: '' @
             fst (persist_inbound_file (ev_persist env) (ev_millis env) tempPath (mm_Filename meta) (ev_filesDir env)) @
             '']'') (im_Media msg))
     else [])"

text \<open>Storing the files of an answer; one that cannot be stored is skipped.\<close>

definition store_file :: "loop_env \<Rightarrow> string \<Rightarrow> string \<Rightarrow> media_store \<times> media_part list \<Rightarrow> media_store \<times> media_part list" where
  "store_file env key fp = (\<lambda>(ms, parts).
    case media_put (ev_files env) (ev_newRef env ms) (int (ev_millis env)) ms fp
        \<lparr>mm_Filename = base_name fp, mm_ContentType = [], mm_Source = ''bridge''\<rparr> key of
      (ms', Inl _) \<Rightarrow> (ms', parts)
    | (ms', Inr ref) \<Rightarrow>
        (ms', parts @ [\<lparr>mp_Type = infer_media_type (ev_unicode env) fp, mp_Ref = ref, mp_Caption = [],
                       mp_Filename = base_name fp, mp_ContentType = []\<rparr>]))"

definition answer_parts :: "loop_env \<Rightarrow> string \<Rightarrow> string list \<Rightarrow> loop \<Rightarrow> media_store \<times> media_part list" where
  "answer_parts env key filePaths s =
    (if filePaths \<noteq> [] \<and> ev_hasMedia env then fold (store_file env key) filePaths (lp_media s, [])
     else (lp_media s, []))"

definition finish_answer :: "loop_env \<Rightarrow> inbound_message \<Rightarrow> string \<Rightarrow> string \<Rightarrow> string \<Rightarrow> loop \<Rightarrow> loop option" where
  "finish_answer env msg userMessage text sessionID s =
    (let (cleanText, filePaths) = parse_output text;
         (ms, parts) = answer_parts env (im_SessionKey msg) filePaths s;
         s1 = s\<lparr>lp_media := ms\<rparr>;
         s2 = (if cleanText \<noteq> [] \<or> parts \<noteq> []
               then snd (publish_outbound \<lparr>om_Channel = im_Channel msg, om_ChatID = im_ChatID msg,
                                           om_Content = cleanText, om_Parts = parts\<rparr> s1)
               else s1);
         s3 = (if cleanText \<noteq> [] then s2\<lparr>lp_history := lp_history s2 @ [(userMessage, cleanText)]\<rparr> else s2)
     in case (if sessionID \<noteq> [] then sessions_set (im_SessionKey msg) sessionID (lp_sessions s3)
              else Some (lp_sessions s3)) of
       None \<Rightarrow> None
     | Some ss \<Rightarrow>
         let s4 = s3\<lparr>lp_sessions := ss\<rparr>;
             s5 = (if sessionID \<noteq> [] then snd (save_sessions env s4) else s4);
             (sm, ds, _) = set_last_channel (ev_fails env) 0 (lp_disk s5) ''.tmp'' (ev_now env)
                             (im_Channel msg @ '':'' @ im_ChatID msg) (lp_state s5)
         in Some (s5\<lparr>lp_state := sm, lp_disk := last ds\<rparr>))"

definition finish_invocation ::
  "loop_env \<Rightarrow> inbound_message \<Rightarrow> string \<Rightarrow> outcome \<Rightarrow> loop \<Rightarrow> loop option" where
  "finish_invocation env msg userMessage oc s =
    (case oc of
       Canceled \<Rightarrow> Some s
     | ProviderMessage t \<Rightarrow> Some (snd (publish_outbound (text_message msg t) s))
     | OtherFailure e \<Rightarrow> Some (snd (publish_outbound (text_message msg (''Error: '' @ e)) s))
     | Answer text sessionID \<Rightarrow> finish_answer env msg userMessage text sessionID s)"

text \<open>
  One step of handler \<open>t\<close>: the new state and the next phase, or the end of the handler. The
  outer \<open>None\<close> is the panic of an assignment to a nil session map.
\<close>

definition handler_step ::
  "loop_env \<Rightarrow> nat \<Rightarrow> outcome \<Rightarrow> inbound_message \<Rightarrow> phase \<Rightarrow> loop \<Rightarrow> (loop \<times> phase option) option" where
  "handler_step env t oc msg ph s =
    (let key = im_SessionKey msg in
     case ph of
       Arrived \<Rightarrow>
         (let (hd, s') = run_command env msg s in Some (s', if hd then None else Some Dedup))
     | Dedup \<Rightarrow>
         if key \<in> lp_inFlight s
         then Some (snd (publish_outbound
                (text_message msg ''Still working on your last message. Use /stop to cancel.'') s), None)
         else Some (s\<lparr>lp_inFlight := insert key (lp_inFlight s)\<rparr>, Some Register)
     | Register \<Rightarrow> Some (s\<lparr>lp_cancelFlights := (lp_cancelFlights s)(key \<mapsto> t)\<rparr>, Some Prepare)
     | Prepare \<Rightarrow>
         Some (if ev_typing env (im_Channel msg) (im_ChatID msg) then s\<lparr>lp_typing := insert t (lp_typing s)\<rparr> else s,
               Some (Invoking (case sessions_get (lp_sessions s) key of Some i \<Rightarrow> i | None \<Rightarrow> [])
                              (user_message env s msg)))
     | Invoking existing userMessage \<Rightarrow>
         map_option (\<lambda>s'. (s', Some Unregister))
           (finish_invocation env msg userMessage oc (s\<lparr>lp_typing := lp_typing s - {t}\<rparr>))
     | Unregister \<Rightarrow>
         Some (s\<lparr>lp_cancelled := insert t (lp_cancelled s),
                 lp_cancelFlights := (lp_cancelFlights s)(key := None)\<rparr>, Some Release)
     | Release \<Rightarrow> Some (s\<lparr>lp_inFlight := lp_inFlight s - {key}\<rparr>, None))"

end
