(* ===== verification/Bridge_Runs.thy ===== *)
theory Bridge_Runs
  imports Bridge
begin

text \<open>
  What the handlers of \<open>pkg/bridge/loop.go\<close> guarantee while their steps interleave: one
  invocation per session, cancellation and replies that stay within their conversation, at most
  one reply per message. Runs start handlers in any order and close the bus at any time.
\<close>

subsection \<open>What one step changes\<close>

lemma publish_outbound_open:
  "snd (publish_outbound m s) = s\<lparr>lp_outbox := lp_outbox s @ (if lp_busOpen s then [m] else [])\<rparr>"
  by (simp add: publish_outbound_def)

lemma save_sessions_frame:
  "snd (save_sessions env s) = s\<lparr>lp_disk := lp_disk (snd (save_sessions env s))\<rparr>"
  by (simp add: save_sessions_def split: prod.split)

text \<open>The part of the state that the callbacks of a command for session \<open>key\<close> leave alone.\<close>

definition command_view :: "string \<Rightarrow> loop \<Rightarrow>
    (string set \<times> (string \<rightharpoonup> nat) \<times> nat set \<times> bool) \<times> outbound_message list \<times> nat set \<times> (string \<Rightarrow> string option) \<times>
    (string \<times> string) list" where
  "command_view key s =
    ((lp_inFlight s, lp_cancelFlights s, lp_typing s, lp_busOpen s), lp_outbox s,
     lp_cancelled s - set_option (lp_cancelFlights s key),
     (\<lambda>k. if k = key then None else sessions_get (lp_sessions s) k), lp_history s)"

lemma sessions_get_delete:
  "sessions_get (sessions_delete key ss) k = (if k = key then None else sessions_get ss k)"
  by (auto simp: sessions_get_def sessions_delete_def split: option.splits)

lemma sessions_get_set:
  "sessions_set key v ss = Some ss' \<Longrightarrow> sessions_get ss' k = (if k = key then Some v else sessions_get ss k)"
  by (auto simp: sessions_get_def sessions_set_def split: option.splits)

lemma clear_history_view: "command_view key (snd (clear_history env key s)) = command_view key s"
  by (simp add: clear_history_def save_sessions_def command_view_def sessions_get_delete fun_eq_iff
      split: prod.split)

lemma cancel_session_view: "command_view key (snd (cancel_session key s)) = command_view key s"
  by (auto simp: cancel_session_def command_view_def split: option.split)

lemma build_runtime_quiet: "quiet_callbacks (command_view (im_SessionKey msg)) (Some (build_runtime env msg))"
  by (auto simp: quiet_callbacks_def build_runtime_def clear_history_view cancel_session_view)
    (auto simp: command_view_def)

lemma run_command_cases:
  assumes "run_command env msg s = (ok, s')"
  shows "\<not> ok \<and> s' = s \<or>
    ok \<and> (\<exists>t s1. command_view (im_SessionKey msg) s1 = command_view (im_SessionKey msg) s \<and>
      s' = snd (publish_outbound (text_message msg t) s1))"
proof -
  let ?req = "\<lparr>rq_Channel = im_Channel msg, rq_ChatID = im_ChatID msg, rq_SenderID = im_SenderID msg,
    rq_Text = im_Content msg, rq_Reply = Some (\<lambda>t. publish_outbound (text_message msg t))\<rparr>"
  obtain res where "execute (ev_unicode env) (Some (new_registry (ev_unicode env) builtin_definitions))
      (Some (build_runtime env msg)) ?req s = (res, s')" "ok = (er_Outcome res = OutcomeHandled)"
    using assms by (auto simp: run_command_def bridge_registry_def Let_def split: prod.splits)
  from execute_view [OF build_runtime_quiet _ this(1)] this(2) show ?thesis by auto
qed

text \<open>The fields that no step but the bookkeeping ones of \<open>handleMessage\<close> writes.\<close>

definition kept :: "loop \<Rightarrow> loop \<Rightarrow> bool" where
  "kept s s' \<longleftrightarrow> lp_inFlight s' = lp_inFlight s \<and> lp_cancelFlights s' = lp_cancelFlights s \<and>
    lp_typing s' = lp_typing s \<and> lp_busOpen s' = lp_busOpen s"

definition replied :: "inbound_message \<Rightarrow> loop \<Rightarrow> loop \<Rightarrow> nat \<Rightarrow> bool" where
  "replied msg s s' n \<longleftrightarrow> (\<exists>out. lp_outbox s' = lp_outbox s @ out \<and> length out = n \<and>
    list_all (\<lambda>m. om_Channel m = im_Channel msg \<and> om_ChatID m = im_ChatID msg) out)"

definition others_sessions :: "string \<Rightarrow> loop \<Rightarrow> loop \<Rightarrow> bool" where
  "others_sessions key s s' \<longleftrightarrow> (\<forall>k. k \<noteq> key \<longrightarrow> sessions_get (lp_sessions s') k = sessions_get (lp_sessions s) k)"

lemmas step_frame_defs = kept_def replied_def others_sessions_def

lemma run_command_frame:
  assumes "run_command env msg s = (ok, s')"
  shows "kept s s' \<and> others_sessions (im_SessionKey msg) s s' \<and>
    replied msg s s' (if ok \<and> lp_busOpen s then 1 else 0) \<and>
    lp_cancelled s' - lp_cancelled s \<subseteq> set_option (lp_cancelFlights s (im_SessionKey msg))"
  using run_command_cases [OF assms]
proof
  assume "ok \<and> (\<exists>t s1. command_view (im_SessionKey msg) s1 = command_view (im_SessionKey msg) s \<and>
      s' = snd (publish_outbound (text_message msg t) s1))"
  then obtain t s1 where ok and s1: "command_view (im_SessionKey msg) s1 = command_view (im_SessionKey msg) s"
    and s': "s' = snd (publish_outbound (text_message msg t) s1)" by blast
  from s1 have "lp_outbox s1 = lp_outbox s" "lp_busOpen s1 = lp_busOpen s" "kept s s1"
    "others_sessions (im_SessionKey msg) s s1"
    "lp_cancelled s1 - lp_cancelled s \<subseteq> set_option (lp_cancelFlights s (im_SessionKey msg))"
    by (auto simp: command_view_def kept_def others_sessions_def fun_eq_iff split: if_splits)
  then show ?thesis
    using \<open>ok\<close> by (auto simp: s' publish_outbound_open step_frame_defs text_message_def)
qed (auto simp: step_frame_defs)

definition answer_count :: "loop_env \<Rightarrow> inbound_message \<Rightarrow> string \<Rightarrow> loop \<Rightarrow> nat" where
  "answer_count env msg text s =
    (let (cleanText, filePaths) = parse_output text in
     if lp_busOpen s \<and> (cleanText \<noteq> [] \<or> snd (answer_parts env (im_SessionKey msg) filePaths s) \<noteq> [])
     then 1 else 0)"

lemma finish_answer_frame:
  assumes "finish_answer env msg um text sid s = Some s'"
  shows "kept s s' \<and> others_sessions (im_SessionKey msg) s s' \<and> lp_cancelled s' = lp_cancelled s \<and>
    replied msg s s' (answer_count env msg text s) \<and>
    (sid \<noteq> [] \<longrightarrow> sessions_get (lp_sessions s') (im_SessionKey msg) = Some sid)"
  using assms
  by (auto simp: finish_answer_def answer_count_def Let_def step_frame_defs save_sessions_def
      publish_outbound_def sessions_get_set split: prod.splits option.splits if_splits)

text \<open>How many messages a step publishes while the bus is open.\<close>

definition reply_count :: "loop_env \<Rightarrow> inbound_message \<Rightarrow> outcome \<Rightarrow> phase \<Rightarrow> phase option \<Rightarrow> loop \<Rightarrow> nat" where
  "reply_count env msg oc ph nx s =
    (if \<not> lp_busOpen s then 0
     else case ph of
       Arrived \<Rightarrow> if nx = None then 1 else 0
     | Dedup \<Rightarrow> if nx = None then 1 else 0
     | Invoking _ _ \<Rightarrow>
         (case oc of Canceled \<Rightarrow> 0 | ProviderMessage _ \<Rightarrow> 1 | OtherFailure _ \<Rightarrow> 1
          | Answer text _ \<Rightarrow> answer_count env msg text s)
     | _ \<Rightarrow> 0)"

lemma answer_count_typing: "answer_count env msg tx (s\<lparr>lp_typing := T\<rparr>) = answer_count env msg tx s"
  by (cases "parse_output tx") (auto simp: answer_count_def answer_parts_def)

lemma answer_count_closed: "\<not> lp_busOpen s \<Longrightarrow> answer_count env msg text s = 0"
  by (simp add: answer_count_def split: prod.split)

text \<open>The phases in which a handler owns its session, and those in which \<open>/stop\<close> finds it.\<close>

fun owns :: "phase \<Rightarrow> bool" where
  "owns Arrived = False" | "owns Dedup = False" | "owns _ = True"

fun stoppable :: "phase \<Rightarrow> bool" where
  "stoppable Prepare = True" | "stoppable (Invoking _ _) = True" | "stoppable Unregister = True"
| "stoppable _ = False"

fun before_reply :: "phase \<Rightarrow> bool" where
  "before_reply Unregister = False" | "before_reply Release = False" | "before_reply _ = True"

lemma stoppable_owns: "stoppable ph \<Longrightarrow> owns ph"
  by (cases ph) auto

lemma finish_invocation_frame:
  assumes "finish_invocation env msg um oc s = Some s'"
  shows "kept s s' \<and> others_sessions (im_SessionKey msg) s s' \<and> lp_cancelled s' = lp_cancelled s \<and>
    replied msg s s' (reply_count env msg oc (Invoking e um) (Some Unregister) s)"
proof (cases oc)
  case (Answer tx sid)
  with assms finish_answer_frame [of env msg um tx sid s s'] show ?thesis
    by (auto simp: finish_invocation_def reply_count_def answer_count_closed)
qed (use assms in \<open>auto simp: finish_invocation_def reply_count_def step_frame_defs
  publish_outbound_open text_message_def\<close>)

text \<open>Everything a step of a handler may touch.\<close>

lemma handler_step_frame:
  assumes "handler_step env t oc msg ph s = Some (s', nx)"
  shows "others_sessions (im_SessionKey msg) s s' \<and> replied msg s s' (reply_count env msg oc ph nx s) \<and>
    lp_cancelled s' - lp_cancelled s \<subseteq> insert t (set_option (lp_cancelFlights s (im_SessionKey msg))) \<and>
    lp_busOpen s' = lp_busOpen s"
proof (cases ph)
  case Arrived
  then obtain ok where "run_command env msg s = (ok, s')" "nx = (if ok then None else Some Dedup)"
    using assms by (auto simp: handler_step_def Let_def split: prod.splits)
  with run_command_frame [OF this(1)] Arrived show ?thesis
    by (cases ok) (auto simp: reply_count_def kept_def)
next
  case Dedup
  with assms show ?thesis
    by (auto simp: handler_step_def Let_def step_frame_defs reply_count_def publish_outbound_open
        text_message_def split: if_splits)
next
  case (Invoking e um)
  then obtain "nx = Some Unregister"
    and fin: "finish_invocation env msg um oc (s\<lparr>lp_typing := lp_typing s - {t}\<rparr>) = Some s'"
    using assms by (auto simp: handler_step_def Let_def)
  with finish_invocation_frame [OF fin, of e] Invoking show ?thesis
    by (auto simp: step_frame_defs reply_count_def answer_count_typing split: outcome.splits)
qed (use assms in \<open>auto simp: handler_step_def Let_def step_frame_defs reply_count_def split: if_splits\<close>)

text \<open>The bookkeeping of a step.\<close>

lemma handler_step_flow:
  assumes "handler_step env t oc msg ph s = Some (s', nx)"
  shows "(case ph of
       Arrived \<Rightarrow> nx \<in> {None, Some Dedup} \<and> kept s s'
     | Dedup \<Rightarrow> lp_cancelFlights s' = lp_cancelFlights s \<and> lp_typing s' = lp_typing s \<and>
         (if im_SessionKey msg \<in> lp_inFlight s then nx = None \<and> lp_inFlight s' = lp_inFlight s
          else nx = Some Register \<and> lp_inFlight s' = insert (im_SessionKey msg) (lp_inFlight s))
     | Register \<Rightarrow> nx = Some Prepare \<and> lp_inFlight s' = lp_inFlight s \<and> lp_typing s' = lp_typing s \<and>
         lp_cancelFlights s' = (lp_cancelFlights s)(im_SessionKey msg \<mapsto> t)
     | Prepare \<Rightarrow> (\<exists>e um. nx = Some (Invoking e um)) \<and> lp_inFlight s' = lp_inFlight s \<and>
         lp_cancelFlights s' = lp_cancelFlights s \<and> lp_typing s' \<subseteq> insert t (lp_typing s)
     | Invoking _ _ \<Rightarrow> nx = Some Unregister \<and> lp_inFlight s' = lp_inFlight s \<and>
         lp_cancelFlights s' = lp_cancelFlights s \<and> lp_typing s' = lp_typing s - {t}
     | Unregister \<Rightarrow> nx = Some Release \<and> lp_inFlight s' = lp_inFlight s \<and> lp_typing s' = lp_typing s \<and>
         lp_cancelFlights s' = (lp_cancelFlights s)(im_SessionKey msg := None)
     | Release \<Rightarrow> nx = None \<and> lp_inFlight s' = lp_inFlight s - {im_SessionKey msg} \<and>
         lp_typing s' = lp_typing s \<and> lp_cancelFlights s' = lp_cancelFlights s)"
proof (cases ph)
  case Arrived
  then obtain ok where "run_command env msg s = (ok, s')" "nx = (if ok then None else Some Dedup)"
    using assms by (auto simp: handler_step_def Let_def split: prod.splits)
  with run_command_frame [OF this(1)] Arrived show ?thesis
    by (cases ok) auto
next
  case (Invoking e um)
  with assms show ?thesis
    by (auto simp: handler_step_def Let_def kept_def dest!: finish_invocation_frame)
qed (use assms in \<open>auto simp: handler_step_def Let_def publish_outbound_open split: if_splits\<close>)

subsection \<open>Runs of the loop\<close>

text \<open>\<open>br_sent\<close> counts the messages each handler published; the code does not keep it.\<close>

record bridge =
  br_loop :: loop
  br_threads :: "nat \<rightharpoonup> inbound_message \<times> phase"
  br_next :: nat
  br_sent :: "nat \<Rightarrow> nat"

inductive bridge_step :: "loop_env \<Rightarrow> bridge \<Rightarrow> bridge \<Rightarrow> bool" for env where
  arrive: "bridge_step env b
    (b\<lparr>br_threads := (br_threads b)(br_next b \<mapsto> (msg, Arrived)), br_next := Suc (br_next b)\<rparr>)"
| move: "br_threads b t = Some (msg, ph) \<Longrightarrow>
    handler_step env t oc msg ph (br_loop b) = Some (s', nx) \<Longrightarrow>
    bridge_step env b
      (b\<lparr>br_loop := s', br_threads := (br_threads b)(t := map_option (Pair msg) nx),
         br_sent := (br_sent b)(t := br_sent b t + (length (lp_outbox s') - length (lp_outbox (br_loop b))))\<rparr>)"
| close: "bridge_step env b (b\<lparr>br_loop := (br_loop b)\<lparr>lp_busOpen := False\<rparr>\<rparr>)"

definition bridge_init :: "loop \<Rightarrow> bool" where
  "bridge_init s \<longleftrightarrow> lp_inFlight s = {} \<and> lp_cancelFlights s = Map.empty \<and> lp_typing s = {}"

inductive bridge_reach :: "loop_env \<Rightarrow> bridge \<Rightarrow> bool" for env where
  start: "bridge_init s \<Longrightarrow>
    bridge_reach env \<lparr>br_loop = s, br_threads = Map.empty, br_next = 0, br_sent = (\<lambda>_. 0)\<rparr>"
| step: "bridge_reach env b \<Longrightarrow> bridge_step env b b' \<Longrightarrow> bridge_reach env b'"

inductive_cases bridge_stepE: "bridge_step env b b'"

definition owner :: "bridge \<Rightarrow> string \<Rightarrow> nat \<Rightarrow> bool" where
  "owner b k t \<longleftrightarrow> (\<exists>m p. br_threads b t = Some (m, p) \<and> im_SessionKey m = k \<and> owns p)"

definition stoppable_at :: "bridge \<Rightarrow> string \<Rightarrow> nat \<Rightarrow> bool" where
  "stoppable_at b k t \<longleftrightarrow> (\<exists>m p. br_threads b t = Some (m, p) \<and> im_SessionKey m = k \<and> stoppable p)"

definition fresh_inv :: "bridge \<Rightarrow> bool" where
  "fresh_inv b \<longleftrightarrow> (\<forall>t. br_next b \<le> t \<longrightarrow> br_threads b t = None \<and> br_sent b t = 0)"

definition lock_inv :: "bridge \<Rightarrow> bool" where
  "lock_inv b \<longleftrightarrow> (\<forall>k. k \<in> lp_inFlight (br_loop b) \<longleftrightarrow> (\<exists>t. owner b k t)) \<and>
    (\<forall>k t t'. owner b k t \<longrightarrow> owner b k t' \<longrightarrow> t = t')"

definition cancel_inv :: "bridge \<Rightarrow> bool" where
  "cancel_inv b \<longleftrightarrow> (\<forall>k t. lp_cancelFlights (br_loop b) k = Some t \<longleftrightarrow> stoppable_at b k t)"

definition typing_inv :: "bridge \<Rightarrow> bool" where
  "typing_inv b \<longleftrightarrow> (\<forall>t \<in> lp_typing (br_loop b). \<exists>m e u. br_threads b t = Some (m, Invoking e u))"

definition sent_inv :: "bridge \<Rightarrow> bool" where
  "sent_inv b \<longleftrightarrow> (\<forall>t. br_sent b t \<le> 1) \<and>
    (\<forall>t m p. br_threads b t = Some (m, p) \<longrightarrow> before_reply p \<longrightarrow> br_sent b t = 0)"

lemmas inv_defs = fresh_inv_def lock_inv_def cancel_inv_def typing_inv_def sent_inv_def

lemma stoppable_owner: "stoppable_at b k t \<Longrightarrow> owner b k t"
  unfolding stoppable_at_def owner_def using stoppable_owns by blast

lemma owner_update:
  assumes "br_threads b' = (br_threads b)(t := x)"
  shows "owner b' k u = (if u = t then (case x of None \<Rightarrow> False | Some (m, p) \<Rightarrow> im_SessionKey m = k \<and> owns p)
      else owner b k u)"
    and "stoppable_at b' k u =
      (if u = t then (case x of None \<Rightarrow> False | Some (m, p) \<Rightarrow> im_SessionKey m = k \<and> stoppable p)
      else stoppable_at b k u)"
  using assms by (auto simp: owner_def stoppable_at_def split: option.splits)

lemma inv_start:
  assumes "bridge_init s"
  defines "b \<equiv> \<lparr>br_loop = s, br_threads = Map.empty, br_next = 0, br_sent = (\<lambda>_. 0)\<rparr>"
  shows "fresh_inv b \<and> lock_inv b \<and> cancel_inv b \<and> typing_inv b \<and> sent_inv b"
  using assms by (auto simp: bridge_init_def inv_defs owner_def stoppable_at_def)

lemma inv_arrive:
  assumes "fresh_inv b" "lock_inv b" "cancel_inv b" "typing_inv b" "sent_inv b"
    and b'_def: "b' = b\<lparr>br_threads := (br_threads b)(br_next b \<mapsto> (msg, Arrived)), br_next := Suc (br_next b)\<rparr>"
  shows "fresh_inv b' \<and> lock_inv b' \<and> cancel_inv b' \<and> typing_inv b' \<and> sent_inv b'"
proof -
  have new: "br_threads b (br_next b) = None" "br_sent b (br_next b) = 0"
    using assms(1) by (auto simp: fresh_inv_def)
  have thr: "br_threads b' = (br_threads b)(br_next b := Some (msg, Arrived))"
    by (simp add: b'_def)
  have same: "owner b' k t = owner b k t" "stoppable_at b' k t = stoppable_at b k t" for k t
    using new(1) by (auto simp: owner_update [OF thr]) (auto simp: owner_def stoppable_at_def)
  have loop: "br_loop b' = br_loop b" "br_sent b' = br_sent b"
    by (simp_all add: b'_def)
  have "fresh_inv b'" using assms(1) by (simp add: fresh_inv_def b'_def)
  moreover have "lock_inv b'" "cancel_inv b'"
    using assms(2,3) by (simp_all add: lock_inv_def cancel_inv_def same loop)
  moreover have "typing_inv b'"
    using assms(4) new(1) unfolding typing_inv_def loop thr by fastforce
  moreover have "sent_inv b'"
    using assms(5) new(2) unfolding sent_inv_def loop thr by simp
  ultimately show ?thesis by blast
qed

text \<open>The step of one handler: its state before and after, one invariant at a time.\<close>

lemma move_owner:
  assumes "handler_step env t oc msg ph s = Some (s', nx)"
  shows "(ph = Dedup \<longrightarrow> im_SessionKey msg \<notin> lp_inFlight s \<longrightarrow> nx = Some Register) \<and>
    (case nx of None \<Rightarrow> \<not> owns ph \<or> ph = Release | Some p \<Rightarrow> owns p = (owns ph \<or> ph = Dedup)) \<and>
    lp_inFlight s' = (if ph = Dedup \<and> nx \<noteq> None then insert (im_SessionKey msg) (lp_inFlight s)
      else if ph = Release then lp_inFlight s - {im_SessionKey msg} else lp_inFlight s) \<and>
    (ph = Dedup \<longrightarrow> nx \<noteq> None \<longrightarrow> im_SessionKey msg \<notin> lp_inFlight s)"
  using handler_step_flow [OF assms] by (cases ph) (auto simp: kept_def split: if_splits)

lemma lock_inv_move:
  assumes inv: "lock_inv b" and thr: "br_threads b t = Some (msg, ph)"
    and run: "handler_step env t oc msg ph (br_loop b) = Some (s', nx)"
    and b': "br_loop b' = s'" "br_threads b' = (br_threads b)(t := map_option (Pair msg) nx)"
  shows "lock_inv b'"
proof -
  let ?key = "im_SessionKey msg"
  note own = owner_update(1) [OF b'(2)] and mv = move_owner [OF run]
  have old: "owner b k t \<longleftrightarrow> k = ?key \<and> owns ph" for k
    using thr by (auto simp: owner_def)
  consider (acquire) "ph = Dedup" "nx = Some Register" | (release) "ph = Release" "nx = None"
    | (same) "(case nx of None \<Rightarrow> False | Some p \<Rightarrow> owns p) = owns ph" "lp_inFlight s' = lp_inFlight (br_loop b)"
    using handler_step_flow [OF run] by (cases ph) (auto simp: kept_def split: if_splits)
  then show ?thesis
  proof cases
    case acquire
    with mv have free: "?key \<notin> lp_inFlight (br_loop b)"
      and s': "lp_inFlight s' = insert ?key (lp_inFlight (br_loop b))" by auto
    then have none: "\<not> owner b ?key u" for u using inv by (auto simp: lock_inv_def)
    have "owner b' k u \<longleftrightarrow> (if u = t then k = ?key else owner b k u)" for k u
      using acquire by (auto simp: own)
    then show ?thesis
      using inv none s' old acquire(1) unfolding lock_inv_def b'(1) by (metis insert_iff owns.simps(2))
  next
    case release
    with mv have s': "lp_inFlight s' = lp_inFlight (br_loop b) - {?key}" by auto
    have "owner b' k u \<longleftrightarrow> u \<noteq> t \<and> owner b k u" for k u
      using release by (auto simp: own)
    moreover have "owner b ?key t" using old release by simp
    ultimately show ?thesis
      using inv s' old unfolding lock_inv_def b'(1) by (metis Diff_iff singletonD singletonI)
  next
    case same
    have "owner b' k u = owner b k u" for k u
      using same(1) old by (cases nx) (auto simp: own)
    with inv same(2) show ?thesis by (simp add: lock_inv_def b'(1))
  qed
qed

lemma cancel_inv_move:
  assumes inv: "lock_inv b" "cancel_inv b" and thr: "br_threads b t = Some (msg, ph)"
    and run: "handler_step env t oc msg ph (br_loop b) = Some (s', nx)"
    and b': "br_loop b' = s'" "br_threads b' = (br_threads b)(t := map_option (Pair msg) nx)"
  shows "cancel_inv b'"
proof -
  let ?key = "im_SessionKey msg"
  note stp = owner_update(2) [OF b'(2)]
  have old: "stoppable_at b k t \<longleftrightarrow> k = ?key \<and> stoppable ph" for k
    using thr by (auto simp: stoppable_at_def)
  have sole: "stoppable_at b ?key u \<Longrightarrow> owns ph \<Longrightarrow> u = t" for u
    using inv(1) thr stoppable_owner [of b ?key u] by (auto simp: lock_inv_def owner_def)
  consider (enter) "ph = Register" "nx = Some Prepare"
      "lp_cancelFlights s' = (lp_cancelFlights (br_loop b))(?key \<mapsto> t)"
    | (leave) "ph = Unregister" "nx = Some Release"
      "lp_cancelFlights s' = (lp_cancelFlights (br_loop b))(?key := None)"
    | (same) "(case nx of None \<Rightarrow> False | Some p \<Rightarrow> stoppable p) = stoppable ph"
      "lp_cancelFlights s' = lp_cancelFlights (br_loop b)"
    using handler_step_flow [OF run] by (cases ph) (auto simp: kept_def split: if_splits)
  then show ?thesis
  proof cases
    case enter
    then have "stoppable_at b' k u \<longleftrightarrow> (if u = t then k = ?key else stoppable_at b k u)" for k u
      by (auto simp: stp)
    with inv(2) sole enter old show ?thesis
      unfolding cancel_inv_def b'(1) by (auto split: if_splits)
  next
    case leave
    then have "stoppable_at b' k u \<longleftrightarrow> u \<noteq> t \<and> stoppable_at b k u" for k u
      by (auto simp: stp)
    with inv(2) sole leave old show ?thesis
      unfolding cancel_inv_def b'(1) by (auto split: if_splits)
  next
    case same
    have "stoppable_at b' k u = stoppable_at b k u" for k u
      using same(1) old by (cases nx) (auto simp: stp)
    with inv(2) same(2) show ?thesis by (simp add: cancel_inv_def b'(1))
  qed
qed

lemma reply_count_bound: "reply_count env msg oc ph nx s \<le> 1"
  by (auto simp: reply_count_def answer_count_def split: phase.split outcome.split prod.split)

lemma reply_count_phase:
  assumes "handler_step env t oc msg ph s = Some (s', nx)" and "reply_count env msg oc ph nx s \<noteq> 0"
  shows "before_reply ph \<and> (\<forall>p. nx = Some p \<longrightarrow> \<not> before_reply p)"
  using handler_step_flow [OF assms(1)] assms(2)
  by (cases ph) (auto simp: reply_count_def split: if_splits)

lemma handler_step_before:
  assumes "handler_step env t oc msg ph s = Some (s', Some p)" and "before_reply p"
  shows "before_reply ph"
  using handler_step_flow [OF assms(1)] assms(2) by (cases ph) (auto split: if_splits)

lemma sent_inv_move:
  assumes inv: "sent_inv b" and thr: "br_threads b t = Some (msg, ph)"
    and run: "handler_step env t oc msg ph (br_loop b) = Some (s', nx)"
    and b': "br_threads b' = (br_threads b)(t := map_option (Pair msg) nx)"
      "br_sent b' = (br_sent b)(t := br_sent b t + (length (lp_outbox s') - length (lp_outbox (br_loop b))))"
  shows "sent_inv b'"
proof -
  let ?n = "reply_count env msg oc ph nx (br_loop b)"
  have n: "length (lp_outbox s') - length (lp_outbox (br_loop b)) = ?n"
    using handler_step_frame [OF run] by (auto simp: replied_def)
  have zero: "before_reply ph \<Longrightarrow> br_sent b t = 0"
    using inv thr by (auto simp: sent_inv_def)
  have "br_sent b t + ?n \<le> 1"
    using reply_count_bound [of env msg oc ph nx "br_loop b"] reply_count_phase [OF run] zero inv
    by (cases "?n = 0") (auto simp: sent_inv_def)
  moreover have "br_sent b t + ?n = 0" if "nx = Some p" "before_reply p" for p
    using handler_step_before [of env t oc msg ph "br_loop b" s' p] reply_count_phase [OF run] zero run that
    by auto
  ultimately show ?thesis
    using inv by (auto simp: sent_inv_def b' n)
qed

lemma typing_inv_move:
  assumes inv: "typing_inv b" and thr: "br_threads b t = Some (msg, ph)"
    and run: "handler_step env t oc msg ph (br_loop b) = Some (s', nx)"
    and b': "br_loop b' = s'" "br_threads b' = (br_threads b)(t := map_option (Pair msg) nx)"
  shows "typing_inv b'"
proof -
  have "u \<noteq> t \<and> u \<in> lp_typing (br_loop b) \<or> u = t \<and> (\<exists>e um. nx = Some (Invoking e um))"
    if "u \<in> lp_typing s'" for u
    using handler_step_flow [OF run] that inv thr
    by (cases ph) (auto simp: kept_def typing_inv_def split: if_splits)
  with inv show ?thesis
    unfolding typing_inv_def b' by fastforce
qed

text \<open>All invariants hold in every reachable state.\<close>

lemma bridge_reach_inv:
  assumes "bridge_reach env b"
  shows "fresh_inv b \<and> lock_inv b \<and> cancel_inv b \<and> typing_inv b \<and> sent_inv b"
  using assms
proof (induction rule: bridge_reach.induct)
  case (start s)
  then show ?case by (rule inv_start)
next
  case (step b b')
  note inv = step.IH
  from step.hyps(2) show ?case
  proof (cases rule: bridge_stepE [consumes 1, case_names arrive move close])
    case (arrive msg)
    with inv show ?thesis by (intro inv_arrive) blast+
  next
    case (move t msg ph oc s' nx)
    have thr': "br_threads b' = (br_threads b)(t := map_option (Pair msg) nx)"
      and loop': "br_loop b' = s'" and next': "br_next b' = br_next b"
      and sent': "br_sent b' = (br_sent b)(t := br_sent b t + (length (lp_outbox s') - length (lp_outbox (br_loop b))))"
      using move(1) by simp_all
    have "t < br_next b"
      using inv move(2) unfolding fresh_inv_def by (metis not_le_imp_less option.distinct(1))
    then have "fresh_inv b'"
      using inv by (auto simp: fresh_inv_def thr' next' sent')
    with inv show ?thesis
      using lock_inv_move [OF _ move(2,3) loop' thr'] cancel_inv_move [OF _ _ move(2,3) loop' thr']
        typing_inv_move [OF _ move(2,3) loop' thr'] sent_inv_move [OF _ move(2,3) thr' sent'] by blast
  next
    case close
    have "owner b' = owner b" "stoppable_at b' = stoppable_at b"
      using close by (auto simp: fun_eq_iff owner_def stoppable_at_def)
    with inv close show ?thesis by (auto simp: inv_defs)
  qed
qed

subsection \<open>Properties\<close>

text \<open>
  C1. At most one handler works for a session at any moment, however the handlers interleave:
  two handlers that both passed the duplicate check have different session keys, and the key of
  each is marked as in flight; so a session never has two provider invocations at once.
\<close>

theorem one_invocation_per_session:
  assumes "bridge_reach env b"
    and "br_threads b t1 = Some (m1, p1)" "owns p1" and "br_threads b t2 = Some (m2, p2)" "owns p2"
    and "im_SessionKey m1 = im_SessionKey m2"
  shows "t1 = t2 \<and> im_SessionKey m1 \<in> lp_inFlight (br_loop b)"
proof -
  have "owner b (im_SessionKey m1) t1" "owner b (im_SessionKey m1) t2"
    using assms by (auto simp: owner_def)
  with bridge_reach_inv [OF assms(1)] show ?thesis
    unfolding lock_inv_def by blast
qed

text \<open>
  C4. A step of a handler stays within its conversation: it publishes at most one message, to
  the chat its message came from; the session ids of other keys, their in-flight marks and
  their cancel functions are as before; and it cancels no handler but itself and the one that
  works for the same session.
\<close>

theorem handlers_isolated:
  assumes "bridge_reach env b" and "br_threads b t = Some (msg, ph)"
    and "handler_step env t oc msg ph (br_loop b) = Some (s', nx)"
  shows "(\<exists>out. lp_outbox s' = lp_outbox (br_loop b) @ out \<and> length out \<le> 1 \<and>
      list_all (\<lambda>m. om_Channel m = im_Channel msg \<and> om_ChatID m = im_ChatID msg) out) \<and>
    (\<forall>k. k \<noteq> im_SessionKey msg \<longrightarrow>
      sessions_get (lp_sessions s') k = sessions_get (lp_sessions (br_loop b)) k \<and>
      (k \<in> lp_inFlight s' \<longleftrightarrow> k \<in> lp_inFlight (br_loop b)) \<and>
      lp_cancelFlights s' k = lp_cancelFlights (br_loop b) k) \<and>
    (\<forall>u \<in> lp_cancelled s' - lp_cancelled (br_loop b).
      u = t \<or> (\<exists>m p. br_threads b u = Some (m, p) \<and> im_SessionKey m = im_SessionKey msg))"
proof (intro conjI allI impI ballI)
  note fr = handler_step_frame [OF assms(3)]
  show "\<exists>out. lp_outbox s' = lp_outbox (br_loop b) @ out \<and> length out \<le> 1 \<and>
      list_all (\<lambda>m. om_Channel m = im_Channel msg \<and> om_ChatID m = im_ChatID msg) out"
    using fr reply_count_bound unfolding replied_def by metis
  fix k assume k: "k \<noteq> im_SessionKey msg"
  show "sessions_get (lp_sessions s') k = sessions_get (lp_sessions (br_loop b)) k"
    using fr k by (simp add: others_sessions_def)
  show "k \<in> lp_inFlight s' \<longleftrightarrow> k \<in> lp_inFlight (br_loop b)"
    and "lp_cancelFlights s' k = lp_cancelFlights (br_loop b) k"
    using handler_step_flow [OF assms(3)] k by (cases ph; auto simp: kept_def split: if_splits)+
next
  fix u assume "u \<in> lp_cancelled s' - lp_cancelled (br_loop b)"
  then show "u = t \<or> (\<exists>m p. br_threads b u = Some (m, p) \<and> im_SessionKey m = im_SessionKey msg)"
    using handler_step_frame [OF assms(3)] bridge_reach_inv [OF assms(1)]
    by (fastforce simp: cancel_inv_def stoppable_at_def)
qed

text \<open>
  C21. A message gets at most one reply: over any run, each handler publishes at most one message,
  and nothing before its command, its busy notice or its invocation is done.
\<close>

theorem replies_at_most_once:
  assumes "bridge_reach env b"
  shows "br_sent b t \<le> 1 \<and>
    (\<forall>msg ph. br_threads b t = Some (msg, ph) \<and> before_reply ph \<longrightarrow> br_sent b t = 0)"
  using bridge_reach_inv [OF assms] by (auto simp: sent_inv_def)

lemma lookup_stop:
  "registry_lookup U (new_registry U builtin_definitions) ''stop'' =
    Some (simple_command ''stop'' ''Cancel the in-progress response'' stop_handler)"
  using normalize_builtin [of "''start''" U] normalize_builtin [of "''help''" U]
    normalize_builtin [of "''stop''" U]
  by (simp add: lookup_find builtin_definitions_def command_names_def simple_command_def builtin_names_def)

lemma run_stop:
  assumes "parse_command_name (ev_unicode env) (im_Content msg) = Some ''stop''"
  shows "run_command env msg s = (True, case lp_cancelFlights s (im_SessionKey msg) of
      None \<Rightarrow> snd (publish_outbound (text_message msg ''No active response to stop.'') s)
    | Some u \<Rightarrow> snd (publish_outbound (text_message msg ''Stopped.'') (s\<lparr>lp_cancelled := insert u (lp_cancelled s)\<rparr>)))"
  using assms
  by (auto simp: run_command_def bridge_registry_def execute_def lookup_stop execute_definition_def
      simple_command_def stop_handler_def build_runtime_def cancel_session_def handled_def Let_def
      split: option.splits prod.splits)

text \<open>
  C14. \<open>/stop\<close> in any reachable state: when a handler of the same session has its cancel
  function registered, exactly that handler is cancelled and the user is told so; otherwise
  nothing is cancelled and the user is told that. Nothing else changes.
\<close>

theorem stop_cancels_own_session:
  assumes "bridge_reach env b" and "br_threads b t = Some (msg, Arrived)" and "lp_busOpen (br_loop b)"
    and "parse_command_name (ev_unicode env) (im_Content msg) = Some ''stop''"
    and "handler_step env t oc msg Arrived (br_loop b) = Some (s', nx)"
  shows "nx = None \<and>
    ((\<exists>u m p. br_threads b u = Some (m, p) \<and> im_SessionKey m = im_SessionKey msg \<and> stoppable p \<and>
       s' = (br_loop b)\<lparr>lp_cancelled := insert u (lp_cancelled (br_loop b)),
                        lp_outbox := lp_outbox (br_loop b) @ [text_message msg ''Stopped.'']\<rparr>) \<or>
     \<not> (\<exists>u m p. br_threads b u = Some (m, p) \<and> im_SessionKey m = im_SessionKey msg \<and> stoppable p) \<and>
       s' = (br_loop b)\<lparr>lp_outbox := lp_outbox (br_loop b) @ [text_message msg ''No active response to stop.'']\<rparr>)"
proof -
  have inv: "lp_cancelFlights (br_loop b) k = Some u \<longleftrightarrow> stoppable_at b k u" for k u
    using bridge_reach_inv [OF assms(1)] by (simp add: cancel_inv_def)
  have s': "s' = snd (run_command env msg (br_loop b))" "nx = None"
    using assms(5) run_stop [OF assms(4), of "br_loop b"] by (auto simp: handler_step_def Let_def)
  show ?thesis
  proof (cases "lp_cancelFlights (br_loop b) (im_SessionKey msg)")
    case None
    then have "\<not> stoppable_at b (im_SessionKey msg) u" for u
      using inv by (metis option.distinct(1))
    with None s' assms(3) show ?thesis
      by (auto simp: run_stop [OF assms(4)] publish_outbound_open stoppable_at_def)
  next
    case (Some u)
    with inv obtain m p where "br_threads b u = Some (m, p)" "im_SessionKey m = im_SessionKey msg" "stoppable p"
      by (auto simp: stoppable_at_def)
    with Some s' assms(3) show ?thesis
      by (auto simp: run_stop [OF assms(4)] publish_outbound_open)
  qed
qed

text \<open>
  A \<open>/clear\<close> does not outlive the invocation that is in flight: the session is gone when
  the user is told so, but the answer that arrives later stores its session id again, and the
  next message resumes the cleared conversation.
\<close>

theorem clear_undone:
  assumes "clear_history env (im_SessionKey msg) s = (err, s1)" and "sid \<noteq> []"
    and "handler_step env t (Answer answer sid) msg (Invoking existing um) s1 = Some (s2, nx)"
  shows "sessions_get (lp_sessions s1) (im_SessionKey msg) = None \<and>
    sessions_get (lp_sessions s2) (im_SessionKey msg) = Some sid"
proof
  show "sessions_get (lp_sessions s1) (im_SessionKey msg) = None"
    using assms(1) by (auto simp: clear_history_def save_sessions_def sessions_get_delete split: prod.splits)
  obtain s3 where "finish_answer env msg um answer sid s3 = Some s2"
    using assms(3) by (auto simp: handler_step_def finish_invocation_def Let_def)
  from finish_answer_frame [OF this] assms(2)
  show "sessions_get (lp_sessions s2) (im_SessionKey msg) = Some sid" by simp
qed

subsection \<open>A sample run\<close>

definition sample_env :: loop_env where
  "sample_env =
    \<lparr>ev_unicode = ascii_only, ev_channels = [''irc''], ev_provider = ''claude'', ev_typing = (\<lambda>_ _. True),
     ev_hasMedia = False, ev_files = {}, ev_persist = (\<lambda>_. False), ev_millis = 0, ev_filesDir = ''/w/files'',
     ev_fails = (\<lambda>_. False), ev_now = ''2026-01-01T00:00:00Z'', ev_newRef = (\<lambda>_. ''media://1'')\<rparr>"

definition sample_loop :: loop where
  "sample_loop =
    \<lparr>lp_sessions = new_sessions ''s.json'', lp_inFlight = {}, lp_cancelFlights = Map.empty, lp_cancelled = {},
     lp_typing = {}, lp_model = ''opus'', lp_busOpen = True, lp_outbox = [], lp_disk = Map.empty,
     lp_state = \<lparr>sm_state = zero_state, sm_stateFile = ''state.json''\<rparr>, lp_media = new_media_store 0,
     lp_history = []\<rparr>"

definition sample_msg :: "string \<Rightarrow> inbound_message" where
  "sample_msg content =
    \<lparr>im_Channel = ''irc'', im_SenderID = ''bob'',
     im_Sender = no_sender,
     im_ChatID = ''c'', im_Content = content, im_Media = [], im_Peer = \<lparr>p_Kind = ''direct'', p_ID = ''bob''\<rparr>,
     im_MessageID = [], im_MediaScope = [], im_SessionKey = ''irc:c'', im_Metadata = Map.empty\<rparr>"

lemma sample_msg_sel [simp]: "im_SessionKey (sample_msg c) = ''irc:c''" "im_Content (sample_msg c) = c"
  by (simp_all add: sample_msg_def)

lemma reach_arrive:
  assumes "bridge_reach env b"
  shows "\<exists>b'. bridge_reach env b' \<and> br_loop b' = br_loop b \<and>
    br_threads b' = (br_threads b)(br_next b \<mapsto> (msg, Arrived)) \<and> br_next b' = Suc (br_next b)"
  using bridge_reach.step [OF assms bridge_step.arrive [of env b msg]] by force

lemma reach_move:
  assumes "bridge_reach env b" and "br_threads b t = Some (msg, ph)"
    and "handler_step env t oc msg ph (br_loop b) = Some (s', Some p)"
  shows "\<exists>b'. bridge_reach env b' \<and> br_loop b' = s' \<and> br_threads b' = (br_threads b)(t \<mapsto> (msg, p)) \<and>
    br_next b' = br_next b"
  using bridge_reach.step [OF assms(1) bridge_step.move [OF assms(2,3)]] by force

lemma run_plain: "parse_command_name (ev_unicode env) (im_Content msg) = None \<Longrightarrow> run_command env msg s = (False, s)"
  by (simp add: run_command_def execute_def passthrough_def Let_def)

lemma sample_reach:
  "\<exists>b. bridge_reach sample_env b \<and> br_threads b 0 = Some (sample_msg ''hi'', Prepare) \<and>
    br_threads b 1 = Some (sample_msg ''/stop'', Arrived) \<and>
    br_loop b = sample_loop\<lparr>lp_inFlight := {''irc:c''}, lp_cancelFlights := [''irc:c'' \<mapsto> 0]\<rparr>"
proof -
  have "bridge_init sample_loop"
    by (simp add: bridge_init_def sample_loop_def)
  from bridge_reach.start [OF this, of sample_env] obtain b0 where
    "bridge_reach sample_env b0 \<and> br_loop b0 = sample_loop \<and> br_threads b0 = Map.empty \<and> br_next b0 = 0" by force
  with reach_arrive [of sample_env b0 "sample_msg ''hi''"] obtain b1 where
    b1: "bridge_reach sample_env b1" "br_loop b1 = sample_loop" "br_next b1 = 1"
      "br_threads b1 = [0 \<mapsto> (sample_msg ''hi'', Arrived)]" by fastforce
  have "parse_command_name (ev_unicode sample_env) ''hi'' = None" by code_simp
  then have step1: "handler_step sample_env 0 Canceled (sample_msg ''hi'') Arrived sample_loop =
      Some (sample_loop, Some Dedup)"
    by (simp add: handler_step_def run_plain)
  from reach_move [OF b1(1), of 0 "sample_msg ''hi''" Arrived Canceled sample_loop Dedup] b1 step1
  obtain b2 where b2: "bridge_reach sample_env b2" "br_loop b2 = sample_loop" "br_next b2 = 1"
      "br_threads b2 = [0 \<mapsto> (sample_msg ''hi'', Dedup)]" by auto
  have step2: "handler_step sample_env 0 Canceled (sample_msg ''hi'') Dedup sample_loop =
      Some (sample_loop\<lparr>lp_inFlight := {''irc:c''}\<rparr>, Some Register)"
    by (simp add: handler_step_def sample_loop_def)
  from reach_move [OF b2(1), of 0 "sample_msg ''hi''" Dedup Canceled _ Register] b2 step2
  obtain b3 where b3: "bridge_reach sample_env b3" "br_loop b3 = sample_loop\<lparr>lp_inFlight := {''irc:c''}\<rparr>"
      "br_next b3 = 1" "br_threads b3 = [0 \<mapsto> (sample_msg ''hi'', Register)]" by auto
  have step3: "handler_step sample_env 0 Canceled (sample_msg ''hi'') Register (br_loop b3) =
      Some (sample_loop\<lparr>lp_inFlight := {''irc:c''}, lp_cancelFlights := [''irc:c'' \<mapsto> 0]\<rparr>, Some Prepare)"
    by (simp add: handler_step_def b3 sample_loop_def)
  from reach_move [OF b3(1) _ step3] b3 obtain b4 where b4: "bridge_reach sample_env b4"
      "br_loop b4 = sample_loop\<lparr>lp_inFlight := {''irc:c''}, lp_cancelFlights := [''irc:c'' \<mapsto> 0]\<rparr>"
      "br_next b4 = 1" "br_threads b4 = [0 \<mapsto> (sample_msg ''hi'', Prepare)]" by auto
  from reach_arrive [OF b4(1), of "sample_msg ''/stop''"] b4 show ?thesis by fastforce
qed

theorem one_invocation_per_session_witness:
  "\<exists>b :: bridge. br_threads b 0 = Some (sample_msg ''hi'', Prepare) \<and> ''irc:c'' \<in> lp_inFlight (br_loop b)"
proof -
  obtain b where b: "bridge_reach sample_env b" "br_threads b 0 = Some (sample_msg ''hi'', Prepare)"
    using sample_reach by blast
  from one_invocation_per_session [OF b(1,2) _ b(2)] b(2) show ?thesis by (auto intro!: exI [of _ b])
qed

theorem handlers_isolated_witness:
  "\<exists>b s'. bridge_reach sample_env b \<and> br_threads b 0 = Some (sample_msg ''hi'', Prepare) \<and>
    handler_step sample_env 0 Canceled (sample_msg ''hi'') Prepare (br_loop b) =
      Some (s', Some (Invoking [] ''hi'')) \<and>
    sessions_get (lp_sessions s') ''irc:d'' = sessions_get (lp_sessions (br_loop b)) ''irc:d''"
proof -
  obtain b where b: "bridge_reach sample_env b" "br_threads b 0 = Some (sample_msg ''hi'', Prepare)"
      "br_loop b = sample_loop\<lparr>lp_inFlight := {''irc:c''}, lp_cancelFlights := [''irc:c'' \<mapsto> 0]\<rparr>"
    using sample_reach by blast
  then obtain s' where run: "handler_step sample_env 0 Canceled (sample_msg ''hi'') Prepare (br_loop b) =
      Some (s', Some (Invoking [] ''hi''))"
    by (simp add: handler_step_def sample_loop_def sample_env_def new_sessions_def sessions_get_def
        user_message_def sample_msg_def)
  from handlers_isolated [OF b(1,2) run]
  have "sessions_get (lp_sessions s') ''irc:d'' = sessions_get (lp_sessions (br_loop b)) ''irc:d''"
    by (elim conjE) simp
  with b(1,2) run show ?thesis by blast
qed

theorem replies_at_most_once_witness:
  "\<exists>b :: bridge. br_threads b 0 = Some (sample_msg ''hi'', Prepare) \<and> br_sent b 0 = 0"
proof -
  obtain b where b: "bridge_reach sample_env b" "br_threads b 0 = Some (sample_msg ''hi'', Prepare)"
    using sample_reach by blast
  from replies_at_most_once [OF b(1), of 0] b(2) show ?thesis by (auto intro!: exI [of _ b])
qed

theorem stop_cancels_own_session_witness:
  "\<exists>(b :: bridge) s'. handler_step sample_env 1 Canceled (sample_msg ''/stop'') Arrived (br_loop b) = Some (s', None) \<and>
    (0 \<in> lp_cancelled s' \<or> lp_cancelled s' = {})"
proof -
  obtain b where b: "bridge_reach sample_env b" "br_threads b 1 = Some (sample_msg ''/stop'', Arrived)"
      "br_loop b = sample_loop\<lparr>lp_inFlight := {''irc:c''}, lp_cancelFlights := [''irc:c'' \<mapsto> 0]\<rparr>"
    using sample_reach by blast
  have parse: "parse_command_name (ev_unicode sample_env) (im_Content (sample_msg ''/stop'')) = Some ''stop''"
    by code_simp
  obtain s' nx where run: "handler_step sample_env 1 Canceled (sample_msg ''/stop'') Arrived (br_loop b) = Some (s', nx)"
    using run_stop [OF parse, of "br_loop b"] by (auto simp: handler_step_def split: option.splits)
  have "lp_busOpen (br_loop b)" by (simp add: b(3) sample_loop_def)
  from stop_cancels_own_session [OF b(1,2) this parse run] run
  have "nx = None" by blast
  moreover have "0 \<in> lp_cancelled s'"
    using run run_stop [OF parse, of "br_loop b"]
    by (auto simp: handler_step_def b(3) sample_loop_def publish_outbound_open)
  ultimately show ?thesis using run by (auto intro!: exI [of _ b] exI [of _ s'])
qed

theorem clear_undone_witness:
  "\<exists>(s1 :: loop) (s2 :: loop). sessions_get (lp_sessions s1) ''irc:c'' = None \<and> sessions_get (lp_sessions s2) ''irc:c'' = Some ''id-2''"
proof -
  obtain err s1 where c: "clear_history sample_env (im_SessionKey (sample_msg ''hi'')) sample_loop = (err, s1)"
    by (metis surj_pair)
  then have "ss_data (lp_sessions s1) = Some fmempty"
    by (auto simp: clear_history_def save_sessions_def sessions_delete_def sample_loop_def new_sessions_def
        split: prod.splits)
  then have "\<exists>s2 nx. handler_step sample_env 0 (Answer ''done'' ''id-2'') (sample_msg ''hi'') (Invoking [] ''hi'') s1 =
      Some (s2, nx)"
    by (auto simp: handler_step_def finish_invocation_def finish_answer_def sessions_set_def Let_def
        publish_outbound_def split: prod.split)
  then obtain s2 nx where "handler_step sample_env 0 (Answer ''done'' ''id-2'') (sample_msg ''hi'')
      (Invoking [] ''hi'') s1 = Some (s2, nx)" by blast
  from clear_undone [OF c _ this] show ?thesis by auto
qed

subsection \<open>Inbound files\<close>

text \<open>
  A file that came with a message is handed to the agent by its temporary path, or it was
  created under a name without directories right below the day's directory, provided its name
  has no slash.
\<close>

theorem inbound_file_below:
  assumes "is_abs destDir" "clean destDir = destDir" "destDir \<noteq> ''/''"
    and "filename \<noteq> []" "CHR ''/'' \<notin> set filename"
  shows "persist_inbound_file fails millis src filename destDir \<in>
    {(src, None), (destDir @ ''/'' @ format_nat millis @ ''_'' @ filename,
      Some (destDir @ ''/'' @ format_nat millis @ ''_'' @ filename))}"
proof -
  let ?name = "format_nat millis @ ''_'' @ filename"
  have "n \<noteq> ''.'' \<and> n \<noteq> ''..''" if "CHR ''_'' \<in> set n" for n
    using that by auto
  then have "?name \<noteq> ''.''" "?name \<noteq> ''..''" by simp_all
  moreover have "CHR ''/'' \<notin> set ?name"
    using assms(5) format_nat_digits [of millis] by (auto simp: list_all_iff is_digit_def)
  ultimately have "path_join [destDir, ?name] = destDir @ ''/'' @ ?name"
    by (intro path_join_plain assms) auto
  then show ?thesis
    using assms(4) by (auto simp: persist_inbound_file_def Let_def)
qed

theorem inbound_file_below_witness:
  "persist_inbound_file (\<lambda>_. False) 17 ''/tmp/m1.jpg'' ''photo.jpg'' ''/w/history/2026-01-01/files'' =
    (''/w/history/2026-01-01/files/17_photo.jpg'', Some ''/w/history/2026-01-01/files/17_photo.jpg'')"
proof -
  have "persist_inbound_file (\<lambda>_. False) 17 ''/tmp/m1.jpg'' ''photo.jpg'' ''/w/history/2026-01-01/files'' \<noteq>
      (''/tmp/m1.jpg'', None)"
    by (simp add: persist_inbound_file_def Let_def)
  moreover have "format_nat 17 = ''17''" by code_simp
  moreover have "clean ''/w/history/2026-01-01/files'' = ''/w/history/2026-01-01/files''" by code_simp
  ultimately show ?thesis
    using inbound_file_below [of "''/w/history/2026-01-01/files''" "''photo.jpg''" "\<lambda>_. False" 17 "''/tmp/m1.jpg''"]
    by (simp add: is_abs_def has_prefix_def)
qed

text \<open>With a slash in the name, which the sender chooses, it may be anywhere.\<close>

lemma inbound_file_escapes:
  "persist_inbound_file (\<lambda>_. False) 17 ''/tmp/m1'' ''a/../../../../AGENT.md'' ''/w/history/2026-01-01/files'' =
    (''/w/AGENT.md'', Some ''/w/AGENT.md'')"
  by code_simp

end
