(* ===== verification/Json_Struct.thy ===== *)
theory Json_Struct
  imports Json Prelude
begin

text \<open>
  How \<open>encoding/json\<close> fills a struct: each member of an object sets the field of that name,
  compared without case; null leaves a field alone (a pointer becomes nil); a value of another
  type leaves it alone and makes the whole call fail, after the other members were read. A
  setter gives the new struct and whether its value was of the wrong type.
\<close>

type_synonym 'r setter = "json \<Rightarrow> 'r \<Rightarrow> 'r \<times> bool"
type_synonym 'r field_table = "(string \<times> 'r setter) list"

definition set_string :: "(string \<Rightarrow> 'r \<Rightarrow> 'r) \<Rightarrow> 'r setter" where
  "set_string upd v r = (case v of JStr s \<Rightarrow> (upd s r, False) | JNull \<Rightarrow> (r, False) | _ \<Rightarrow> (r, True))"

definition set_bool :: "(bool \<Rightarrow> 'r \<Rightarrow> 'r) \<Rightarrow> 'r setter" where
  "set_bool upd v r = (case v of JBool b \<Rightarrow> (upd b r, False) | JNull \<Rightarrow> (r, False) | _ \<Rightarrow> (r, True))"

definition set_int :: "(int \<Rightarrow> 'r \<Rightarrow> 'r) \<Rightarrow> 'r setter" where
  "set_int upd v r =
    (case v of JInt i \<Rightarrow> if int64 i then (upd i r, False) else (r, True) | JNull \<Rightarrow> (r, False) | _ \<Rightarrow> (r, True))"

definition set_int_ptr :: "(int option \<Rightarrow> 'r \<Rightarrow> 'r) \<Rightarrow> 'r setter" where
  "set_int_ptr upd v r =
    (case v of JInt i \<Rightarrow> if int64 i then (upd (Some i) r, False) else (r, True)
     | JNull \<Rightarrow> (upd None r, False) | _ \<Rightarrow> (r, True))"

definition set_member :: "'r field_table \<Rightarrow> string \<times> json \<Rightarrow> 'r \<times> bool \<Rightarrow> 'r \<times> bool" where
  "set_member table = (\<lambda>(k, v) (r, bad).
    case List.find (\<lambda>(n, _). map ascii_lower n = map ascii_lower k) table of
      None \<Rightarrow> (r, bad)
    | Some (_, setter) \<Rightarrow> let (r', b) = setter v r in (r', bad \<or> b))"

definition decode_struct :: "'r field_table \<Rightarrow> 'r setter" where
  "decode_struct table v r =
    (case v of
       JNull \<Rightarrow> (r, False)
     | JObj kvs \<Rightarrow> fold (set_member table) kvs (r, False)
     | _ \<Rightarrow> (r, True))"

text \<open>A struct inside a struct, and a list whose elements start from the zero value.\<close>

definition set_struct :: "'q field_table \<Rightarrow> ('r \<Rightarrow> 'q) \<Rightarrow> ('q \<Rightarrow> 'r \<Rightarrow> 'r) \<Rightarrow> 'r setter" where
  "set_struct table sel upd v r = (let (q, bad) = decode_struct table v (sel r) in (upd q r, bad))"

definition set_list :: "'q setter \<Rightarrow> 'q \<Rightarrow> ('q list \<Rightarrow> 'r \<Rightarrow> 'r) \<Rightarrow> 'r setter" where
  "set_list elem zero upd v r =
    (case v of
       JArr vs \<Rightarrow> let qs = map (\<lambda>v. elem v zero) vs in (upd (map fst qs) r, list_ex snd qs)
     | JNull \<Rightarrow> (upd [] r, False)
     | _ \<Rightarrow> (r, True))"

text \<open>A pointer to a struct: null makes it nil, an object fills the struct it points to.\<close>

definition set_pointer :: "'q field_table \<Rightarrow> 'q \<Rightarrow> ('r \<Rightarrow> 'q option) \<Rightarrow> ('q option \<Rightarrow> 'r \<Rightarrow> 'r) \<Rightarrow> 'r setter" where
  "set_pointer table zero sel upd v r =
    (if v = JNull then (upd None r, False)
     else let (q, bad) = decode_struct table v (case sel r of None \<Rightarrow> zero | Some q \<Rightarrow> q) in (upd (Some q) r, bad))"

text \<open>A member kept as it is (\<open>json.RawMessage\<close>).\<close>

definition set_raw :: "(json option \<Rightarrow> 'r \<Rightarrow> 'r) \<Rightarrow> 'r setter" where
  "set_raw upd v r = (upd (Some v) r, False)"

text \<open>Members that are left out when empty (\<open>omitempty\<close>).\<close>

definition omit_string :: "string \<Rightarrow> string \<Rightarrow> (string \<times> json) list" where
  "omit_string k s = (if s = [] then [] else [(k, JStr s)])"

definition omit_int_ptr :: "string \<Rightarrow> int option \<Rightarrow> (string \<times> json) list" where
  "omit_int_ptr k p = (case p of None \<Rightarrow> [] | Some i \<Rightarrow> [(k, JInt i)])"

lemma decode_obj: "decode_struct table (JObj kvs) r = fold (set_member table) kvs (r, False)"
  by (simp add: decode_struct_def)

lemma set_member_apply:
  "set_member table (k, v) (r, bad) =
    (case List.find (\<lambda>(n, _). map ascii_lower n = map ascii_lower k) table of
      None \<Rightarrow> (r, bad)
    | Some (_, setter) \<Rightarrow> (fst (setter v r), bad \<or> snd (setter v r)))"
  by (simp add: set_member_def Let_def split: option.split prod.split)

lemma setter_simps [simp]:
  "set_string upd (JStr s) r = (upd s r, False)"
  "set_bool updb (JBool b) r = (updb b r, False)"
  "int64 i \<Longrightarrow> set_int updi (JInt i) r = (updi i r, False)"
  "int64 i \<Longrightarrow> set_int_ptr updp (JInt i) r = (updp (Some i) r, False)"
  by (simp_all add: set_string_def set_bool_def set_int_def set_int_ptr_def)

lemma fold_omit_string:
  "fold (set_member table) (omit_string k s) acc = (if s = [] then acc else set_member table (k, JStr s) acc)"
  by (simp add: omit_string_def)

lemma fold_omit_int_ptr:
  "fold (set_member table) (omit_int_ptr k p) acc =
    (case p of None \<Rightarrow> acc | Some i \<Rightarrow> set_member table (k, JInt i) acc)"
  by (simp add: omit_int_ptr_def split: option.split)

lemmas struct_simps = decode_obj fold_omit_string fold_omit_int_ptr set_member_apply

lemma set_list_map:
  assumes "\<And>x. x \<in> set xs \<Longrightarrow> elem (enc x) zero = (x, False)"
  shows "set_list elem zero upd (JArr (map enc xs)) r = (upd xs r, False)"
  using assms by (simp add: set_list_def Let_def list_ex_iff comp_def map_idI)

end
