(* ===== verification/Cron.thy ===== *)
theory Cron
  imports Stores Json_Struct
begin

text \<open>
  \<open>pkg/cron/service.go\<close>: scheduled jobs kept in a JSON file. The operations of the service on its
  store and on the disk, each call atomic under the mutex as in the code; the cron expression
  library (\<open>gronx\<close>) is the parameter \<open>tick\<close>, which gives the next tick after a moment. Times are
  milliseconds, \<open>int64\<close> in the code. A nil slice of jobs is the empty list.
\<close>

subsection \<open>Jobs\<close>

record cron_schedule =
  cs_Kind :: string
  cs_AtMS :: "int option"
  cs_EveryMS :: "int option"
  cs_Expr :: string
  cs_TZ :: string

record cron_payload =
  cp_Kind :: string
  cp_Message :: string
  cp_Command :: string
  cp_Deliver :: bool
  cp_Channel :: string
  cp_To :: string

record cron_job_state =
  cj_NextRunAtMS :: "int option"
  cj_LastRunAtMS :: "int option"
  cj_LastStatus :: string
  cj_LastError :: string

record cron_job =
  jb_ID :: string
  jb_Name :: string
  jb_Enabled :: bool
  jb_Schedule :: cron_schedule
  jb_Payload :: cron_payload
  jb_State :: cron_job_state
  jb_CreatedAtMS :: int
  jb_UpdatedAtMS :: int
  jb_DeleteAfterRun :: bool

record cron_store =
  st_Version :: int
  st_Jobs :: "cron_job list"

record cron_service =
  cr_storePath :: string
  cr_store :: cron_store
  cr_running :: bool

definition with_next :: "int option \<Rightarrow> cron_job \<Rightarrow> cron_job" where
  "with_next n j = j\<lparr>jb_State := (jb_State j)\<lparr>cj_NextRunAtMS := n\<rparr>\<rparr>"

definition next_run :: "cron_job \<Rightarrow> int option" where
  "next_run j = cj_NextRunAtMS (jb_State j)"

subsection \<open>The file\<close>

definition schedule_json :: "cron_schedule \<Rightarrow> json" where
  "schedule_json s =
    JObj ([(''kind'', JStr (cs_Kind s))] @ omit_int_ptr ''atMs'' (cs_AtMS s) @
      omit_int_ptr ''everyMs'' (cs_EveryMS s) @ omit_string ''expr'' (cs_Expr s) @ omit_string ''tz'' (cs_TZ s))"

definition payload_json :: "cron_payload \<Rightarrow> json" where
  "payload_json p =
    JObj ([(''kind'', JStr (cp_Kind p)), (''message'', JStr (cp_Message p))] @ omit_string ''command'' (cp_Command p) @
      [(''deliver'', JBool (cp_Deliver p))] @ omit_string ''channel'' (cp_Channel p) @ omit_string ''to'' (cp_To p))"

definition job_state_json :: "cron_job_state \<Rightarrow> json" where
  "job_state_json s =
    JObj (omit_int_ptr ''nextRunAtMs'' (cj_NextRunAtMS s) @ omit_int_ptr ''lastRunAtMs'' (cj_LastRunAtMS s) @
      omit_string ''lastStatus'' (cj_LastStatus s) @ omit_string ''lastError'' (cj_LastError s))"

definition job_json :: "cron_job \<Rightarrow> json" where
  "job_json j =
    JObj [(''id'', JStr (jb_ID j)), (''name'', JStr (jb_Name j)), (''enabled'', JBool (jb_Enabled j)),
          (''schedule'', schedule_json (jb_Schedule j)), (''payload'', payload_json (jb_Payload j)),
          (''state'', job_state_json (jb_State j)), (''createdAtMs'', JInt (jb_CreatedAtMS j)),
          (''updatedAtMs'', JInt (jb_UpdatedAtMS j)), (''deleteAfterRun'', JBool (jb_DeleteAfterRun j))]"

definition store_json :: "cron_store \<Rightarrow> json" where
  "store_json st = JObj [(''version'', JInt (st_Version st)), (''jobs'', JArr (map job_json (st_Jobs st)))]"

text \<open>The setters follow the field tags of the structs.\<close>

definition schedule_fields :: "cron_schedule field_table" where
  "schedule_fields =
    [(''kind'', set_string (\<lambda>x. cs_Kind_update (\<lambda>_. x))), (''atMs'', set_int_ptr (\<lambda>x. cs_AtMS_update (\<lambda>_. x))),
     (''everyMs'', set_int_ptr (\<lambda>x. cs_EveryMS_update (\<lambda>_. x))), (''expr'', set_string (\<lambda>x. cs_Expr_update (\<lambda>_. x))),
     (''tz'', set_string (\<lambda>x. cs_TZ_update (\<lambda>_. x)))]"

definition payload_fields :: "cron_payload field_table" where
  "payload_fields =
    [(''kind'', set_string (\<lambda>x. cp_Kind_update (\<lambda>_. x))), (''message'', set_string (\<lambda>x. cp_Message_update (\<lambda>_. x))),
     (''command'', set_string (\<lambda>x. cp_Command_update (\<lambda>_. x))), (''deliver'', set_bool (\<lambda>x. cp_Deliver_update (\<lambda>_. x))),
     (''channel'', set_string (\<lambda>x. cp_Channel_update (\<lambda>_. x))), (''to'', set_string (\<lambda>x. cp_To_update (\<lambda>_. x)))]"

definition job_state_fields :: "cron_job_state field_table" where
  "job_state_fields =
    [(''nextRunAtMs'', set_int_ptr (\<lambda>x. cj_NextRunAtMS_update (\<lambda>_. x))),
     (''lastRunAtMs'', set_int_ptr (\<lambda>x. cj_LastRunAtMS_update (\<lambda>_. x))),
     (''lastStatus'', set_string (\<lambda>x. cj_LastStatus_update (\<lambda>_. x))),
     (''lastError'', set_string (\<lambda>x. cj_LastError_update (\<lambda>_. x)))]"

definition job_fields :: "cron_job field_table" where
  "job_fields =
    [(''id'', set_string (\<lambda>x. jb_ID_update (\<lambda>_. x))), (''name'', set_string (\<lambda>x. jb_Name_update (\<lambda>_. x))),
     (''enabled'', set_bool (\<lambda>x. jb_Enabled_update (\<lambda>_. x))),
     (''schedule'', set_struct schedule_fields jb_Schedule (\<lambda>x. jb_Schedule_update (\<lambda>_. x))),
     (''payload'', set_struct payload_fields jb_Payload (\<lambda>x. jb_Payload_update (\<lambda>_. x))),
     (''state'', set_struct job_state_fields jb_State (\<lambda>x. jb_State_update (\<lambda>_. x))),
     (''createdAtMs'', set_int (\<lambda>x. jb_CreatedAtMS_update (\<lambda>_. x))),
     (''updatedAtMs'', set_int (\<lambda>x. jb_UpdatedAtMS_update (\<lambda>_. x))),
     (''deleteAfterRun'', set_bool (\<lambda>x. jb_DeleteAfterRun_update (\<lambda>_. x)))]"

definition no_schedule :: cron_schedule where
  "no_schedule = \<lparr>cs_Kind = [], cs_AtMS = None, cs_EveryMS = None, cs_Expr = [], cs_TZ = []\<rparr>"

definition no_payload :: cron_payload where
  "no_payload = \<lparr>cp_Kind = [], cp_Message = [], cp_Command = [], cp_Deliver = False, cp_Channel = [], cp_To = []\<rparr>"

definition no_job_state :: cron_job_state where
  "no_job_state = \<lparr>cj_NextRunAtMS = None, cj_LastRunAtMS = None, cj_LastStatus = [], cj_LastError = []\<rparr>"

definition no_job :: cron_job where
  "no_job = \<lparr>jb_ID = [], jb_Name = [], jb_Enabled = False, jb_Schedule = no_schedule, jb_Payload = no_payload,
    jb_State = no_job_state, jb_CreatedAtMS = 0, jb_UpdatedAtMS = 0, jb_DeleteAfterRun = False\<rparr>"

definition store_fields :: "cron_store field_table" where
  "store_fields =
    [(''version'', set_int (\<lambda>x. st_Version_update (\<lambda>_. x))),
     (''jobs'', set_list (decode_struct job_fields) no_job (\<lambda>x. st_Jobs_update (\<lambda>_. x)))]"

definition new_cron_store :: cron_store where
  "new_cron_store = \<lparr>st_Version = 1, st_Jobs = []\<rparr>"

text \<open>Reading a file into the store; invalid JSON leaves the store alone.\<close>

definition store_read :: "cron_store \<Rightarrow> string \<Rightarrow> cron_store \<times> string option" where
  "store_read st content =
    (case unmarshal content of
       None \<Rightarrow> (st, Some ''invalid JSON'')
     | Some v \<Rightarrow> let (st', bad) = decode_struct store_fields v st
                 in (st', if bad then Some ''cannot unmarshal'' else None))"

definition load_store :: "bool \<Rightarrow> disk \<Rightarrow> cron_service \<Rightarrow> string option \<times> cron_service" where
  "load_store unreadable d cs =
    (case d (cr_storePath cs) of
       None \<Rightarrow> (None, cs\<lparr>cr_store := new_cron_store\<rparr>)
     | Some content \<Rightarrow>
         if unreadable then (Some ''read error'', cs\<lparr>cr_store := new_cron_store\<rparr>)
         else let (st, err) = store_read new_cron_store content in (err, cs\<lparr>cr_store := st\<rparr>))"

definition save_store :: "(write_step \<Rightarrow> bool) \<Rightarrow> disk \<Rightarrow> cron_service \<Rightarrow> string option \<times> disk" where
  "save_store fails d cs =
    (let (ds, err) = write_file_atomic fails 0 d (cr_storePath cs @ ''.tmp'') (cr_storePath cs)
                       (marshal (store_json (cr_store cs)))
     in (err, last ds))"

subsection \<open>The operations\<close>

definition new_cron_service :: "bool \<Rightarrow> disk \<Rightarrow> string \<Rightarrow> cron_service" where
  "new_cron_service unreadable d storePath =
    snd (load_store unreadable d \<lparr>cr_storePath = storePath, cr_store = new_cron_store, cr_running = False\<rparr>)"

definition compute_next_run :: "(string \<Rightarrow> int \<Rightarrow> int option) \<Rightarrow> cron_schedule \<Rightarrow> int \<Rightarrow> int option" where
  "compute_next_run tick s now =
    (if cs_Kind s = ''at'' then
       (case cs_AtMS s of Some t \<Rightarrow> if t > now then Some t else None | None \<Rightarrow> None)
     else if cs_Kind s = ''every'' then
       (case cs_EveryMS s of None \<Rightarrow> None | Some e \<Rightarrow> if e \<le> 0 then None else Some (wrap64 (now + e)))
     else if cs_Kind s = ''cron'' then (if cs_Expr s = [] then None else tick (cs_Expr s) now)
     else None)"

definition map_jobs :: "(cron_job \<Rightarrow> cron_job) \<Rightarrow> cron_service \<Rightarrow> cron_service" where
  "map_jobs f cs = cs\<lparr>cr_store := (cr_store cs)\<lparr>st_Jobs := map f (st_Jobs (cr_store cs))\<rparr>\<rparr>"

definition jobs :: "cron_service \<Rightarrow> cron_job list" where
  "jobs cs = st_Jobs (cr_store cs)"

definition recompute_next_runs :: "(string \<Rightarrow> int \<Rightarrow> int option) \<Rightarrow> int \<Rightarrow> cron_service \<Rightarrow> cron_service" where
  "recompute_next_runs tick now =
    map_jobs (\<lambda>j. if jb_Enabled j then with_next (compute_next_run tick (jb_Schedule j) now) j else j)"

definition start_cron :: "(string \<Rightarrow> int \<Rightarrow> int option) \<Rightarrow> int \<Rightarrow> bool \<Rightarrow> (write_step \<Rightarrow> bool) \<Rightarrow> disk \<Rightarrow> cron_service \<Rightarrow>
    string option \<times> disk \<times> cron_service" where
  "start_cron tick now unreadable fails d cs =
    (if cr_running cs then (None, d, cs)
     else case load_store unreadable d cs of
       (Some e, cs1) \<Rightarrow> (Some (''failed to load store: '' @ e), d, cs1)
     | (None, cs1) \<Rightarrow>
         let cs2 = recompute_next_runs tick now cs1 in
         case save_store fails d cs2 of
           (Some e, d') \<Rightarrow> (Some (''failed to save store: '' @ e), d', cs2)
         | (None, d') \<Rightarrow> (None, d', cs2\<lparr>cr_running := True\<rparr>))"

definition stop_cron :: "cron_service \<Rightarrow> cron_service" where
  "stop_cron cs = cs\<lparr>cr_running := False\<rparr>"

definition due :: "int \<Rightarrow> cron_job \<Rightarrow> bool" where
  "due now j \<longleftrightarrow> jb_Enabled j \<and> (case next_run j of None \<Rightarrow> False | Some t \<Rightarrow> t \<le> now)"

text \<open>\<open>checkJobs\<close> up to the release of the lock: the ids to execute, the disk and the service.\<close>

definition check_jobs :: "int \<Rightarrow> (write_step \<Rightarrow> bool) \<Rightarrow> disk \<Rightarrow> cron_service \<Rightarrow> string list \<times> disk \<times> cron_service" where
  "check_jobs now fails d cs =
    (if \<not> cr_running cs then ([], d, cs)
     else let ids = map jb_ID (filter (due now) (jobs cs));
              cs' = map_jobs (\<lambda>j. if jb_ID j \<in> set ids then with_next None j else j) cs
          in (ids, snd (save_store fails d cs'), cs'))"

text \<open>\<open>executeJobByID\<close> before and after the call of the handler.\<close>

definition job_to_run :: "string \<Rightarrow> cron_service \<Rightarrow> cron_job option" where
  "job_to_run jobID cs = List.find (\<lambda>j. jb_ID j = jobID) (jobs cs)"

fun update_first :: "('a \<Rightarrow> bool) \<Rightarrow> ('a \<Rightarrow> 'a) \<Rightarrow> 'a list \<Rightarrow> 'a list" where
  "update_first P f [] = []"
| "update_first P f (x # xs) = (if P x then f x # xs else x # update_first P f xs)"

definition set_jobs :: "cron_job list \<Rightarrow> cron_service \<Rightarrow> cron_service" where
  "set_jobs js cs = cs\<lparr>cr_store := (cr_store cs)\<lparr>st_Jobs := js\<rparr>\<rparr>"

definition remove_job :: "(write_step \<Rightarrow> bool) \<Rightarrow> string \<Rightarrow> disk \<Rightarrow> cron_service \<Rightarrow> bool \<times> disk \<times> cron_service" where
  "remove_job fails jobID d cs =
    (let cs' = set_jobs (filter (\<lambda>j. jb_ID j \<noteq> jobID) (jobs cs)) cs;
         removed = length (jobs cs') < length (jobs cs)
     in (removed, if removed then snd (save_store fails d cs') else d, cs'))"

definition ran :: "int \<Rightarrow> int \<Rightarrow> string option \<Rightarrow> cron_job \<Rightarrow> cron_job" where
  "ran startTime now err j =
    j\<lparr>jb_State := (jb_State j)\<lparr>cj_LastRunAtMS := Some startTime,
        cj_LastStatus := (if err = None then ''ok'' else ''error''),
        cj_LastError := (case err of None \<Rightarrow> [] | Some e \<Rightarrow> e)\<rparr>,
      jb_UpdatedAtMS := now\<rparr>"

definition finish_job ::
  "(string \<Rightarrow> int \<Rightarrow> int option) \<Rightarrow> (write_step \<Rightarrow> bool) \<Rightarrow> string \<Rightarrow> int \<Rightarrow> int \<Rightarrow> string option \<Rightarrow> disk \<Rightarrow> cron_service \<Rightarrow>
    disk \<times> cron_service" where
  "finish_job tick fails jobID startTime now err d cs =
    (case job_to_run jobID cs of
       None \<Rightarrow> (d, cs)
     | Some j0 \<Rightarrow>
         let j = ran startTime now err j0;
             put = (\<lambda>j'. set_jobs (update_first (\<lambda>x. jb_ID x = jobID) (\<lambda>_. j') (jobs cs)) cs);
             (d1, cs1) =
               (if cs_Kind (jb_Schedule j) = ''at'' then
                  (if jb_DeleteAfterRun j then snd (remove_job fails jobID d (put j))
                   else (d, put (with_next None (j\<lparr>jb_Enabled := False\<rparr>))))
                else (d, put (with_next (compute_next_run tick (jb_Schedule j) now) j)))
         in (snd (save_store fails d1 cs1), cs1))"

definition get_next_wake :: "cron_service \<Rightarrow> int option" where
  "get_next_wake cs =
    fold (\<lambda>j wake. case next_run j of
        Some t \<Rightarrow> if jb_Enabled j \<and> (case wake of None \<Rightarrow> True | Some w \<Rightarrow> t < w) then Some t else wake
      | None \<Rightarrow> wake) (jobs cs) None"

definition make_job :: "(string \<Rightarrow> int \<Rightarrow> int option) \<Rightarrow> int \<Rightarrow> string \<Rightarrow> string \<Rightarrow> cron_schedule \<Rightarrow> string \<Rightarrow> bool \<Rightarrow>
    string \<Rightarrow> string \<Rightarrow> cron_job" where
  "make_job tick now newID name schedule message deliver channel to =
    \<lparr>jb_ID = newID, jb_Name = name, jb_Enabled = True, jb_Schedule = schedule,
     jb_Payload = \<lparr>cp_Kind = ''agent_turn'', cp_Message = message, cp_Command = [], cp_Deliver = deliver,
                   cp_Channel = channel, cp_To = to\<rparr>,
     jb_State = no_job_state\<lparr>cj_NextRunAtMS := compute_next_run tick schedule now\<rparr>,
     jb_CreatedAtMS = now, jb_UpdatedAtMS = now, jb_DeleteAfterRun = (cs_Kind schedule = ''at'')\<rparr>"

text \<open>\<open>AddJob\<close> with the job already made.\<close>

definition add_job :: "(write_step \<Rightarrow> bool) \<Rightarrow> cron_job \<Rightarrow> disk \<Rightarrow> cron_service \<Rightarrow> (string + cron_job) \<times> disk \<times> cron_service" where
  "add_job fails job d cs =
    (let cs' = set_jobs (jobs cs @ [job]) cs in
     case save_store fails d cs' of
       (Some e, d') \<Rightarrow> (Inl e, d', cs')
     | (None, d') \<Rightarrow> (Inr job, d', cs'))"

definition update_job :: "(write_step \<Rightarrow> bool) \<Rightarrow> int \<Rightarrow> cron_job \<Rightarrow> disk \<Rightarrow> cron_service \<Rightarrow>
    string option \<times> disk \<times> cron_service" where
  "update_job fails now job d cs =
    (case job_to_run (jb_ID job) cs of
       None \<Rightarrow> (Some ''job not found'', d, cs)
     | Some _ \<Rightarrow>
         let cs' = set_jobs (update_first (\<lambda>x. jb_ID x = jb_ID job) (\<lambda>_. job\<lparr>jb_UpdatedAtMS := now\<rparr>) (jobs cs)) cs;
             (err, d') = save_store fails d cs'
         in (err, d', cs'))"

definition enable_job :: "(string \<Rightarrow> int \<Rightarrow> int option) \<Rightarrow> (write_step \<Rightarrow> bool) \<Rightarrow> int \<Rightarrow> string \<Rightarrow> bool \<Rightarrow> disk \<Rightarrow>
    cron_service \<Rightarrow> cron_job option \<times> disk \<times> cron_service" where
  "enable_job tick fails now jobID enabled d cs =
    (case job_to_run jobID cs of
       None \<Rightarrow> (None, d, cs)
     | Some j \<Rightarrow>
         let j' = with_next (if enabled then compute_next_run tick (jb_Schedule j) now else None)
                    (j\<lparr>jb_Enabled := enabled, jb_UpdatedAtMS := now\<rparr>);
             cs' = set_jobs (update_first (\<lambda>x. jb_ID x = jobID) (\<lambda>_. j') (jobs cs)) cs
         in (Some j', snd (save_store fails d cs'), cs'))"

definition list_jobs :: "bool \<Rightarrow> cron_service \<Rightarrow> cron_job list" where
  "list_jobs includeDisabled cs = (if includeDisabled then jobs cs else filter jb_Enabled (jobs cs))"

definition cron_status :: "cron_service \<Rightarrow> bool \<times> nat \<times> int option" where
  "cron_status cs = (cr_running cs, length (jobs cs), get_next_wake cs)"

subsection \<open>The file holds the store\<close>

definition ptr_ok :: "int option \<Rightarrow> bool" where
  "ptr_ok p \<longleftrightarrow> (case p of None \<Rightarrow> True | Some i \<Rightarrow> int64 i)"

definition job_ok :: "cron_job \<Rightarrow> bool" where
  "job_ok j \<longleftrightarrow> ptr_ok (cs_AtMS (jb_Schedule j)) \<and> ptr_ok (cs_EveryMS (jb_Schedule j)) \<and>
    ptr_ok (cj_NextRunAtMS (jb_State j)) \<and> ptr_ok (cj_LastRunAtMS (jb_State j)) \<and>
    int64 (jb_CreatedAtMS j) \<and> int64 (jb_UpdatedAtMS j)"

definition store_ok :: "cron_store \<Rightarrow> bool" where
  "store_ok st \<longleftrightarrow> int64 (st_Version st) \<and> list_all job_ok (st_Jobs st)"

lemma decode_schedule:
  assumes "ptr_ok (cs_AtMS s)" and "ptr_ok (cs_EveryMS s)"
  shows "decode_struct schedule_fields (schedule_json s) no_schedule = (s, False)"
  using assms
  by (cases s) (auto simp: schedule_json_def schedule_fields_def struct_simps ascii_lower_def no_schedule_def
      ptr_ok_def split: option.splits)

lemma decode_payload: "decode_struct payload_fields (payload_json p) no_payload = (p, False)"
  by (cases p) (auto simp: payload_json_def payload_fields_def struct_simps ascii_lower_def no_payload_def)

lemma decode_job_state:
  assumes "ptr_ok (cj_NextRunAtMS s)" and "ptr_ok (cj_LastRunAtMS s)"
  shows "decode_struct job_state_fields (job_state_json s) no_job_state = (s, False)"
  using assms
  by (cases s) (auto simp: job_state_json_def job_state_fields_def struct_simps ascii_lower_def no_job_state_def
      ptr_ok_def split: option.splits)

lemma decode_job: "job_ok j \<Longrightarrow> decode_struct job_fields (job_json j) no_job = (j, False)"
  by (cases j) (simp add: job_json_def job_fields_def struct_simps ascii_lower_def no_job_def job_ok_def
      set_struct_def decode_schedule decode_payload decode_job_state)

lemma store_read_json: "store_ok st \<Longrightarrow> store_read new_cron_store (marshal (store_json st)) = (st, None)"
  by (cases st) (simp add: store_read_def js.dec_enc store_json_def store_fields_def struct_simps ascii_lower_def
      new_cron_store_def store_ok_def set_list_map decode_job list_all_iff)

interpretation crn: file_store "\<lambda>st. marshal (store_json st)" store_read new_cron_store store_ok
  by unfold_locales (rule store_read_json)

end
