(* ===== verification/Cron_Runs.thy ===== *)
theory Cron_Runs
  imports Cron
begin

text \<open>
  What the scheduler of \<open>pkg/cron/service.go\<close> guarantees: the file holds the store, when a schedule
  fires next, how often a one-time job is started over any sequence of calls, and what restarts
  and other processes do to the jobs.
\<close>

lemmas cron_defs = map_jobs_def set_jobs_def jobs_def

lemma save_store_result:
  assumes "save_store fails d cs = (err, d')"
  shows "d' = (if err = None then d(cr_storePath cs \<mapsto> marshal (store_json (cr_store cs))) else d)"
proof -
  obtain ds where w: "write_file_atomic fails 0 d (cr_storePath cs @ ''.tmp'') (cr_storePath cs)
      (marshal (store_json (cr_store cs))) = (ds, err)" and "d' = last ds"
    using assms by (auto simp: save_store_def split: prod.splits)
  with write_file_atomic_states [OF w] show ?thesis by simp
qed

lemma save_store_saved: "(\<forall>w. \<not> fails w) \<Longrightarrow> d (cr_storePath cs @ ''.tmp'') = None \<Longrightarrow>
    save_store fails d cs = (None, d(cr_storePath cs \<mapsto> marshal (store_json (cr_store cs))))"
  using save_store_result [of fails d cs]
  by (cases "save_store fails d cs") (auto simp: save_store_def write_file_atomic_def Let_def)

lemma load_new: "cr_store (new_cron_service False d p) = fst (crn.restart d p)"
  by (simp add: new_cron_service_def load_store_def crn.restart_def split: option.split prod.split)

lemma new_path [simp]: "cr_storePath (new_cron_service u d p) = p"
  by (simp add: new_cron_service_def load_store_def Let_def split: option.split prod.split)

lemma saved_store_loads:
  "save_store fails d cs = (None, d') \<Longrightarrow> store_ok (cr_store cs) \<Longrightarrow>
    cr_store (new_cron_service False d' (cr_storePath cs)) = cr_store cs"
  by (drule save_store_result) (simp add: load_new crn.restart_new)


subsection \<open>When a schedule fires\<close>

text \<open>
  A next run lies after the moment it is computed at, provided the cron library gives later
  ticks, unless the period of an \<open>every\<close> schedule overflows the 64-bit sum: then the next run
  is in the past, and the job is due at every check.
\<close>

theorem next_run_later:
  assumes "\<And>e m n. tick e m = Some n \<Longrightarrow> m < n" and "int64 now" and "ptr_ok (cs_EveryMS s)"
    and "compute_next_run tick s now = Some n"
  shows "if cs_Kind s = ''every'' \<and> 2 ^ 63 \<le> now + the (cs_EveryMS s) then n < now else now < n"
proof (cases "cs_Kind s = ''every''")
  case True
  then obtain e where e: "cs_EveryMS s = Some e" "0 < e" "n = wrap64 (now + e)"
    using assms(4) by (auto simp: compute_next_run_def split: option.splits if_splits)
  have e64: "int64 e" using assms(3) e(1) by (simp add: ptr_ok_def)
  show ?thesis
  proof (cases "2 ^ 63 \<le> now + e")
    case True
    have "(now + e + 2 ^ 63) mod 2 ^ 64 = now + e + 2 ^ 63 - 2 ^ 64"
      using assms(2) e64 True minus_mod_self2 [of "now + e + 2 ^ 63" "2 ^ 64"]
        mod_pos_pos_trivial [of "now + e + 2 ^ 63 - 2 ^ 64" "2 ^ 64"] by (simp add: int64_def)
    with True e e64 \<open>cs_Kind s = ''every''\<close> show ?thesis
      by (simp add: wrap64_def int64_def)
  next
    case False
    with assms(2) e e64 have "int64 (now + e)" by (simp add: int64_def)
    with e False show ?thesis by simp
  qed
next
  case False
  with assms(1,4) show ?thesis
    by (auto simp: compute_next_run_def split: option.splits if_splits)
qed

subsection \<open>One-time jobs\<close>

text \<open>
  A sequence of calls, each with what its system calls do, and the ids of all jobs that
  \<open>checkJobs\<close> decided to execute; the run loop executes each of them once.
\<close>

datatype cron_event =
    EvCheck int "write_step \<Rightarrow> bool"
  | EvFinish string int int "string option" "write_step \<Rightarrow> bool"
  | EvAdd cron_job "write_step \<Rightarrow> bool"
  | EvUpdate int cron_job "write_step \<Rightarrow> bool"
  | EvRemove string "write_step \<Rightarrow> bool"
  | EvEnable int string bool "write_step \<Rightarrow> bool"
  | EvStop

fun cron_exec :: "(string \<Rightarrow> int \<Rightarrow> int option) \<Rightarrow> cron_event \<Rightarrow> string list \<times> disk \<times> cron_service \<Rightarrow>
    string list \<times> disk \<times> cron_service" where
  "cron_exec tick (EvCheck now fails) (started, d, cs) =
    (let (ids, d', cs') = check_jobs now fails d cs in (started @ ids, d', cs'))"
| "cron_exec tick (EvFinish k start now err fails) (started, d, cs) = (started, finish_job tick fails k start now err d cs)"
| "cron_exec tick (EvAdd job fails) (started, d, cs) = (started, snd (add_job fails job d cs))"
| "cron_exec tick (EvUpdate now job fails) (started, d, cs) = (started, snd (update_job fails now job d cs))"
| "cron_exec tick (EvRemove k fails) (started, d, cs) = (started, snd (remove_job fails k d cs))"
| "cron_exec tick (EvEnable now k b fails) (started, d, cs) = (started, snd (enable_job tick fails now k b d cs))"
| "cron_exec tick EvStop (started, d, cs) = (started, d, stop_cron cs)"

definition cron_run :: "(string \<Rightarrow> int \<Rightarrow> int option) \<Rightarrow> cron_event list \<Rightarrow> disk \<Rightarrow> cron_service \<Rightarrow>
    string list \<times> disk \<times> cron_service" where
  "cron_run tick evs d cs = fold (cron_exec tick) evs ([], d, cs)"

text \<open>Events that may schedule job \<open>k\<close> anew.\<close>

fun reschedules :: "string \<Rightarrow> cron_event \<Rightarrow> bool" where
  "reschedules k (EvAdd job _) = (jb_ID job = k)"
| "reschedules k (EvUpdate _ job _) = (jb_ID job = k)"
| "reschedules k (EvEnable _ i _ _) = (i = k)"
| "reschedules k _ = False"

definition jobs_with :: "string \<Rightarrow> cron_service \<Rightarrow> cron_job list" where
  "jobs_with k cs = filter (\<lambda>j. jb_ID j = k) (jobs cs)"

lemma jb_ID_with_next [simp]: "jb_ID (with_next n j) = jb_ID j"
  by (simp add: with_next_def)

lemma jb_ID_ran [simp]: "jb_ID (ran s n e j) = jb_ID j"
  by (simp add: ran_def)

lemma jobs_with_map: "(\<And>j. jb_ID (f j) = jb_ID j) \<Longrightarrow> jobs_with k (map_jobs f cs) = map f (jobs_with k cs)"
  by (simp add: jobs_with_def cron_defs filter_map comp_def)

lemma filter_update_first:
  "(\<And>x. x \<in> set xs \<Longrightarrow> P x \<Longrightarrow> \<not> Q x) \<Longrightarrow> \<not> Q y \<Longrightarrow> filter Q (update_first P (\<lambda>_. y) xs) = filter Q xs"
  by (induction xs) auto

lemma jobs_with_put_other:
  "jb_ID j \<noteq> k \<Longrightarrow> jobs_with k (set_jobs (update_first (\<lambda>x. jb_ID x = jb_ID j) (\<lambda>_. j) (jobs cs)) cs) = jobs_with k cs"
  by (simp add: jobs_with_def cron_defs filter_update_first)

lemma filter_update_first_same:
  "filter P (update_first P (\<lambda>_. y) xs) = (if P y then update_first P (\<lambda>_. y) (filter P xs)
    else tl (filter P xs))"
  by (induction xs) auto

lemma jobs_with_put_same:
  "jb_ID j = k \<Longrightarrow> jobs_with k (set_jobs (update_first (\<lambda>x. jb_ID x = k) (\<lambda>_. j) (jobs cs)) cs) =
    (case jobs_with k cs of [] \<Rightarrow> [] | _ # js \<Rightarrow> j # js)"
proof -
  have "update_first P (\<lambda>_. y) (filter P xs) = (case filter P xs of [] \<Rightarrow> [] | _ # js \<Rightarrow> y # js)"
    for P and y :: cron_job and xs
    by (induction xs) auto
  then show "jb_ID j = k \<Longrightarrow> ?thesis"
    by (simp add: jobs_with_def cron_defs filter_update_first_same)
qed

lemma job_to_run_with: "job_to_run k cs = (case jobs_with k cs of [] \<Rightarrow> None | j # _ \<Rightarrow> Some j)"
proof -
  have "List.find P xs = (case filter P xs of [] \<Rightarrow> None | j # _ \<Rightarrow> Some j)" for P and xs :: "cron_job list"
    by (induction xs) auto
  then show ?thesis by (simp add: job_to_run_def jobs_with_def)
qed

lemma jobs_with_remove: "jobs_with k (snd (snd (remove_job fails i d cs))) = (if i = k then [] else jobs_with k cs)"
  by (auto simp: remove_job_def jobs_with_def cron_defs Let_def filter_filter intro!: filter_cong)

text \<open>The invariant: the job is there at most once and one-time, and once started it is not due.\<close>

definition one_shot_inv :: "string \<Rightarrow> string list \<times> disk \<times> cron_service \<Rightarrow> bool" where
  "one_shot_inv k = (\<lambda>(started, d, cs).
    (\<exists>js. jobs_with k cs = js \<and> (js = [] \<or> (\<exists>j. js = [j] \<and> cs_Kind (jb_Schedule j) = ''at'' \<and>
      (k \<in> set started \<longrightarrow> next_run j = None)))) \<and> count_list started k \<le> 1)"

lemma count_list_ids:
  "count_list (map jb_ID (filter P js)) k = length (filter P (filter (\<lambda>j. jb_ID j = k) js))"
  by (induction js) auto

lemma check_one_shot:
  assumes "one_shot_inv k (started, d, cs)" and "check_jobs now fails d cs = (ids, d', cs')"
  shows "one_shot_inv k (started @ ids, d', cs')"
proof (cases "cr_running cs")
  case True
  let ?f = "\<lambda>j. if jb_ID j \<in> set ids then with_next None j else j"
  have ids: "ids = map jb_ID (filter (due now) (jobs cs))" and cs': "cs' = map_jobs ?f cs"
    using assms(2) True by (auto simp: check_jobs_def Let_def)
  have js': "jobs_with k cs' = map ?f (jobs_with k cs)"
    unfolding cs' by (rule jobs_with_map) simp
  have count: "count_list ids k = length (filter (due now) (jobs_with k cs))"
    by (simp add: ids count_list_ids jobs_with_def)
  show ?thesis
  proof (cases "jobs_with k cs")
    case Nil
    with assms(1) count js' show ?thesis by (simp add: one_shot_inv_def)
  next
    case (Cons j js)
    with assms(1) have j: "js = []" "cs_Kind (jb_Schedule j) = ''at''" "count_list started k \<le> 1"
      "k \<in> set started \<longrightarrow> next_run j = None" "jb_ID j = k"
      by (auto simp: one_shot_inv_def jobs_with_def dest!: filter_eq_ConsD)
    have "k \<in> set ids \<longleftrightarrow> due now j"
      using count Cons j(1) count_list_0_iff [of ids k] by (auto split: if_splits)
    moreover have "due now j \<Longrightarrow> k \<notin> set started"
      using j(4) by (auto simp: due_def)
    ultimately show ?thesis
      using j count js' Cons count_list_0_iff [of started k]
      by (auto simp: one_shot_inv_def next_run_def with_next_def)
  qed
qed (use assms in \<open>auto simp: check_jobs_def\<close>)

lemma one_shot_same:
  "one_shot_inv k (started, d, cs) \<Longrightarrow> jobs_with k (snd x) = jobs_with k cs \<Longrightarrow> one_shot_inv k (started, x)"
  by (cases x) (simp add: one_shot_inv_def)

lemma one_shot_none:
  "one_shot_inv k (started, d, cs) \<Longrightarrow> jobs_with k (snd x) = [] \<Longrightarrow> one_shot_inv k (started, x)"
  by (cases x) (simp add: one_shot_inv_def)

lemma finish_one_shot:
  assumes "one_shot_inv k (started, d, cs)"
  shows "one_shot_inv k (started, finish_job tick fails i start now err d cs)"
proof (cases "job_to_run i cs")
  case None
  with assms show ?thesis by (simp add: finish_job_def)
next
  case (Some j0)
  define j where "j = ran start now err j0"
  have id: "jb_ID j0 = i"
    using Some by (auto simp: job_to_run_def find_Some_iff)
  show ?thesis
  proof (cases "i = k")
    case False
    have put: "jobs_with k (set_jobs (update_first (\<lambda>x. jb_ID x = i) (\<lambda>_. j') (jobs cs)) cs) = jobs_with k cs"
      if "jb_ID j' = i" for j'
      using jobs_with_put_other [of j' k cs] that False by simp
    have "jobs_with k (snd (finish_job tick fails i start now err d cs)) = jobs_with k cs"
      using Some False id put
      by (simp add: finish_job_def Let_def jobs_with_remove split: prod.split)
        (metis jobs_with_remove snd_conv jb_ID_ran put)
    then show ?thesis by (rule one_shot_same [OF assms])
  next
    case True
    with Some obtain js where js: "jobs_with k cs = j0 # js"
      by (auto simp: job_to_run_with split: list.splits)
    with assms have at: "js = []" "cs_Kind (jb_Schedule j) = ''at''" "count_list started k \<le> 1"
      by (auto simp: one_shot_inv_def j_def ran_def)
    show ?thesis
    proof (cases "jb_DeleteAfterRun j")
      case del: True
      have "jobs_with k (snd (finish_job tick fails i start now err d cs)) = []"
        using Some True at(2) del
        by (simp add: finish_job_def Let_def j_def [symmetric] split: prod.split) (metis jobs_with_remove snd_conv)
      then show ?thesis by (rule one_shot_none [OF assms])
    next
      case keep: False
      let ?j' = "with_next None (j\<lparr>jb_Enabled := False\<rparr>)"
      have "jobs_with k (set_jobs (update_first (\<lambda>x. jb_ID x = k) (\<lambda>_. ?j') (jobs cs)) cs) = [?j']"
        using jobs_with_put_same [of ?j' k cs] js at(1) id True by (simp add: j_def with_next_def)
      moreover have "finish_job tick fails i start now err d cs =
          (let cs1 = set_jobs (update_first (\<lambda>x. jb_ID x = k) (\<lambda>_. ?j') (jobs cs)) cs
           in (snd (save_store fails d cs1), cs1))"
        using Some True at(2) keep by (simp add: finish_job_def Let_def j_def [symmetric])
      ultimately show ?thesis
        using at by (simp add: one_shot_inv_def Let_def with_next_def next_run_def)
    qed
  qed
qed

lemma jobs_with_add: "jb_ID job \<noteq> k \<Longrightarrow> jobs_with k (snd (snd (add_job fails job d cs))) = jobs_with k cs"
  by (simp add: add_job_def jobs_with_def cron_defs Let_def split: prod.split option.split)

lemma jobs_with_update_job:
  "jb_ID job \<noteq> k \<Longrightarrow> jobs_with k (snd (snd (update_job fails now job d cs))) = jobs_with k cs"
  using jobs_with_put_other [of "job\<lparr>jb_UpdatedAtMS := now\<rparr>" k cs]
  by (simp add: update_job_def Let_def split: prod.split option.split)

lemma jobs_with_enable:
  assumes "i \<noteq> k"
  shows "jobs_with k (snd (snd (enable_job tick fails now i b d cs))) = jobs_with k cs"
proof (cases "job_to_run i cs")
  case (Some j)
  then have "jb_ID j = i" by (auto simp: job_to_run_def find_Some_iff)
  then show ?thesis
    using Some assms jobs_with_put_other [of "with_next n (j\<lparr>jb_Enabled := b, jb_UpdatedAtMS := now\<rparr>)" k cs for n]
    by (simp add: enable_job_def Let_def)
qed (simp add: enable_job_def)

lemma event_one_shot:
  assumes "one_shot_inv k st" and "\<not> reschedules k ev"
  shows "one_shot_inv k (cron_exec tick ev st)"
proof -
  obtain started d cs where st: "st = (started, d, cs)" by (metis surj_pair)
  show ?thesis
  proof (cases ev)
    case (EvCheck now fails)
    with assms(1) check_one_shot show ?thesis by (simp add: st split: prod.split)
  next
    case (EvRemove i fails)
    then have "jobs_with k (snd (snd (remove_job fails i d cs))) \<in> {[], jobs_with k cs}"
      by (simp add: jobs_with_remove)
    with assms(1) EvRemove show ?thesis
      by (auto simp: st intro: one_shot_same one_shot_none)
  next
    case (EvFinish i start now err fails)
    with assms(1) show ?thesis by (simp add: st finish_one_shot)
  next
    case (EvAdd job fails)
    with assms show ?thesis by (simp add: st one_shot_same [OF _ jobs_with_add])
  next
    case (EvUpdate now job fails)
    with assms show ?thesis by (simp add: st one_shot_same [OF _ jobs_with_update_job])
  next
    case (EvEnable now i b fails)
    with assms show ?thesis by (simp add: st one_shot_same [OF _ jobs_with_enable])
  next
    case EvStop
    with assms(1) show ?thesis by (simp add: st one_shot_inv_def stop_cron_def jobs_with_def jobs_def)
  qed
qed

text \<open>
  C7. Over any sequence of checks, completions, additions, updates, removals and stops, a one-time
  job is started at most once, unless it is added, updated or enabled again itself: whatever
  its handler returned, whether it is deleted or disabled afterwards, and whichever writes of
  the file fail.
\<close>

theorem one_time_job_once:
  assumes "jobs_with k cs = [j]" and "cs_Kind (jb_Schedule j) = ''at''"
    and "list_all (\<lambda>ev. \<not> reschedules k ev) evs"
  shows "count_list (fst (cron_run tick evs d cs)) k \<le> 1"
proof -
  have "one_shot_inv k (fold (cron_exec tick) evs st)" if "one_shot_inv k st" for st
    using assms(3) that by (induction evs arbitrary: st) (simp_all add: event_one_shot)
  moreover have "one_shot_inv k ([], d, cs)"
    using assms(1,2) by (simp add: one_shot_inv_def)
  ultimately have "one_shot_inv k (cron_run tick evs d cs)"
    by (simp add: cron_run_def)
  then show ?thesis
    by (auto simp: one_shot_inv_def split: prod.splits)
qed

subsection \<open>Restarts and other processes\<close>

text \<open>
  A one-time job whose moment passed while the service was not running is never executed:
  \<open>Start\<close> computes the next runs anew and finds none, the job stays enabled in the store, and no
  check at any later time finds it due.
\<close>

theorem missed_job_never_due:
  assumes "start_cron tick now unreadable fails d cs = (None, d', cs')" and "\<not> cr_running cs"
    and "j \<in> set (jobs cs')" and "jb_Enabled j"
    and "cs_Kind (jb_Schedule j) = ''at''" and "cs_AtMS (jb_Schedule j) = Some t" and "t \<le> now"
  shows "next_run j = None \<and> (\<forall>later. \<not> due later j)"
proof -
  obtain cs1 where "jobs cs' = jobs (recompute_next_runs tick now cs1)"
    using assms(1,2) by (auto simp: start_cron_def cron_defs Let_def split: prod.splits option.splits)
  then have "j \<in> (\<lambda>i. if jb_Enabled i then with_next (compute_next_run tick (jb_Schedule i) now) i else i) ` set (jobs cs1)"
    using assms(3) unfolding recompute_next_runs_def cron_defs by simp
  then obtain i where i: "j = (if jb_Enabled i then with_next (compute_next_run tick (jb_Schedule i) now) i else i)"
    by blast
  then have "jb_Enabled i" using assms(4) by (auto split: if_splits)
  with i assms(5-7) have "next_run j = None"
    by (auto simp: with_next_def next_run_def compute_next_run_def)
  then show ?thesis by (simp add: due_def)
qed

lemma store_ok_check:
  assumes "store_ok (cr_store cs)" and "check_jobs now fails d cs = (ids, d', cs')"
  shows "store_ok (cr_store cs')" and "map jb_ID (jobs cs') = map jb_ID (jobs cs)" and "cr_storePath cs' = cr_storePath cs"
  using assms
  by (auto simp: check_jobs_def cron_defs Let_def store_ok_def list_all_iff job_ok_def with_next_def ptr_ok_def
      split: if_splits)

text \<open>
  While the gateway runs, a job added by another process, as \<open>ectoclaw cron add\<close> does, is
  lost: the command reports success, but the gateway does not look at the file again, and its
  next check, a second later, overwrites the file with its own jobs.
\<close>

theorem cli_job_lost:
  assumes "cr_running gw" and "store_ok (cr_store gw)" and "d (cr_storePath gw @ ''.tmp'') = None"
    and "add_job addFails job d (new_cron_service unreadable d (cr_storePath gw)) = (Inr job', d1, cli)"
    and "check_jobs now (\<lambda>_. False) d1 gw = (ids, d2, gw')"
  shows "job' = job \<and> map jb_ID (jobs gw') = map jb_ID (jobs gw) \<and>
    map jb_ID (jobs (new_cron_service False d2 (cr_storePath gw))) = map jb_ID (jobs gw)"
proof -
  note ok = store_ok_check [OF assms(2,5)]
  have job: "job' = job" and "save_store addFails d cli = (None, d1)" and "cr_storePath cli = cr_storePath gw"
    using assms(4) by (auto simp: add_job_def cron_defs Let_def split: prod.splits option.splits)
  then have "d1 (cr_storePath gw @ ''.tmp'') = None"
    using assms(3) save_store_result by fastforce
  then have "save_store (\<lambda>_. False) d1 gw' = (None, d1(cr_storePath gw' \<mapsto> marshal (store_json (cr_store gw'))))"
    using ok(3) save_store_saved by simp
  moreover have "d2 = snd (save_store (\<lambda>_. False) d1 gw')"
    using assms(1,5) by (auto simp: check_jobs_def Let_def)
  ultimately have "save_store (\<lambda>_. False) d1 gw' = (None, d2)" by simp
  from saved_store_loads [OF this ok(1)] ok job show ?thesis
    by (simp add: jobs_def)
qed

text \<open>A job that could not be saved is reported as an error, but stays in the running service.\<close>

lemma add_job_unsaved:
  "add_job fails job d cs = (Inl e, d', cs') \<Longrightarrow> jobs cs' = jobs cs @ [job]"
  by (auto simp: add_job_def cron_defs Let_def split: prod.splits option.splits)

subsection \<open>Sample jobs\<close>

definition sample_job :: "string \<Rightarrow> cron_job" where
  "sample_job k = make_job (\<lambda>_ _. None) 1000 k ''tea''
    (no_schedule\<lparr>cs_Kind := ''at'', cs_AtMS := Some 5000\<rparr>) ''Tea!'' True ''irc'' ''bob''"

definition sample_cron :: cron_service where
  "sample_cron = \<lparr>cr_storePath = ''jobs.json'', cr_store = \<lparr>st_Version = 1, st_Jobs = [sample_job ''a1'']\<rparr>,
    cr_running = True\<rparr>"

lemma sample_ok: "store_ok (cr_store sample_cron)" "job_ok (sample_job k)"
  by (simp_all add: sample_cron_def sample_job_def make_job_def store_ok_def job_ok_def ptr_ok_def int64_def
      no_schedule_def no_job_state_def compute_next_run_def)


theorem next_run_later_witness:
  "compute_next_run (\<lambda>_ m. Some (m + 60000)) (no_schedule\<lparr>cs_Kind := ''every'', cs_EveryMS := Some 3000\<rparr>) 500 = Some 3500 \<and>
    (500 :: int) < 3500"
proof -
  let ?s = "no_schedule\<lparr>cs_Kind := ''every'', cs_EveryMS := Some 3000\<rparr>"
  have "compute_next_run (\<lambda>_ m. Some (m + 60000)) ?s 500 = Some 3500"
    by (simp add: compute_next_run_def int64_def)
  from next_run_later [OF _ _ _ this] this show ?thesis
    by (simp add: int64_def ptr_ok_def)
qed

theorem one_time_job_once_witness:
  "count_list (fst (cron_run (\<lambda>_ _. None)
    [EvCheck 6000 (\<lambda>_. True), EvCheck 7000 (\<lambda>_. True), EvFinish ''a1'' 6000 8000 None (\<lambda>_. True), EvCheck 9000 (\<lambda>_. False)]
    Map.empty sample_cron)) ''a1'' \<le> 1"
  by (rule one_time_job_once [where j = "sample_job ''a1''"])
    (simp_all add: jobs_with_def jobs_def sample_cron_def sample_job_def make_job_def)

theorem missed_job_never_due_witness:
  "\<exists>d' cs'. start_cron (\<lambda>_ _. None) 6000 False (\<lambda>_. False)
      [''jobs.json'' \<mapsto> marshal (store_json (cr_store sample_cron))] (sample_cron\<lparr>cr_running := False\<rparr>) = (None, d', cs') \<and>
    (\<forall>j \<in> set (jobs cs'). next_run j = None)"
proof -
  let ?cs = "sample_cron\<lparr>cr_running := False\<rparr>"
  let ?d = "[''jobs.json'' \<mapsto> marshal (store_json (cr_store sample_cron))]"
  let ?job = "with_next None (sample_job ''a1'')"
  have load: "load_store False ?d ?cs = (None, ?cs)"
    using store_read_json [OF sample_ok(1)] by (simp add: load_store_def sample_cron_def)
  have again: "recompute_next_runs (\<lambda>_ _. None) 6000 ?cs = set_jobs [?job] ?cs"
    by (simp add: recompute_next_runs_def cron_defs sample_cron_def sample_job_def make_job_def compute_next_run_def)
  have stopped: "\<not> cr_running ?cs" and path: "?d (cr_storePath (set_jobs [?job] ?cs) @ ''.tmp'') = None"
    by (simp_all add: set_jobs_def sample_cron_def)
  obtain d' where start: "start_cron (\<lambda>_ _. None) 6000 False (\<lambda>_. False) ?d ?cs =
      (None, d', (set_jobs [?job] ?cs)\<lparr>cr_running := True\<rparr>)"
    using save_store_saved [of "\<lambda>_. False" ?d "set_jobs [?job] ?cs"] stopped path
    by (simp add: start_cron_def load again Let_def)
  moreover have "next_run ?job = None"
    using missed_job_never_due [OF start, of ?job 5000]
    by (simp add: cron_defs sample_job_def make_job_def with_next_def no_schedule_def)
  ultimately show ?thesis by (auto simp: cron_defs)
qed

theorem cli_job_lost_witness:
  "\<exists>d1 cli d2 gw' ids. add_job (\<lambda>_. False) (sample_job ''b2'') Map.empty (new_cron_service False Map.empty ''jobs.json'') =
      (Inr (sample_job ''b2''), d1, cli) \<and>
    check_jobs 2000 (\<lambda>_. False) d1 sample_cron = (ids, d2, gw') \<and>
    map jb_ID (jobs (new_cron_service False d2 ''jobs.json'')) = [''a1'']"
proof -
  let ?cli = "new_cron_service False Map.empty ''jobs.json''"
  obtain d1 cli where add: "add_job (\<lambda>_. False) (sample_job ''b2'') Map.empty ?cli = (Inr (sample_job ''b2''), d1, cli)"
    by (simp add: add_job_def save_store_saved Let_def)
  obtain ids d2 gw' where check: "check_jobs 2000 (\<lambda>_. False) d1 sample_cron = (ids, d2, gw')"
    by (metis surj_pair)
  have "cr_running sample_cron" "cr_storePath sample_cron = ''jobs.json''" "map jb_ID (jobs sample_cron) = [''a1'']"
    by (simp_all add: sample_cron_def jobs_def sample_job_def make_job_def)
  with cli_job_lost [OF _ sample_ok(1) _ _ check, of Map.empty "\<lambda>_. False" "sample_job ''b2''" False] add check
  show ?thesis by auto
qed

end
