(* ===== verification/Providers.thy ===== *)
theory Providers
  imports Json_Struct
begin

text \<open>
  \<open>pkg/providers\<close>: running the coding agent as a subprocess. One attempt (\<open>runOnce\<close> of the claude and
  of the codex provider) on what the subprocess does, the idle timer of \<open>idle.go\<close> on timed output,
  and the retry loop of \<open>retry.go\<close> over attempts. The subprocess is a parameter: it maps the
  arguments of an attempt to what it prints, when, and how it ends.
\<close>

subsection \<open>Requests and results\<close>

record invoke_request =
  iq_LogKey :: string
  iq_SessionKey :: string
  iq_SessionID :: string
  iq_SystemPrompt :: string
  iq_UserMessage :: string
  iq_WorkDir :: string
  iq_Model :: string
  iq_Stateless :: bool

record invoke_result =
  ir_SessionID :: string
  ir_Text :: string
  ir_TokensIn :: int
  ir_TokensOut :: int

definition no_result :: invoke_result where
  "no_result = \<lparr>ir_SessionID = [], ir_Text = [], ir_TokensIn = 0, ir_TokensOut = 0\<rparr>"

datatype invoke_error =
    ErrProviderMessage string
  | ErrIdleTimeout
  | ErrHung string nat
  | ErrContextCanceled
  | ErrExit string
  | ErrOther string

datatype retry_reason = RetryNone | RetrySessionExpired | RetryIdleTimeout

type_synonym attempt = "invoke_result \<times> retry_reason \<times> invoke_error option"

subsection \<open>The retry loop\<close>

text \<open>
  \<open>run n req\<close> is the result of the attempt number \<open>n\<close>. The requests of all attempts are returned
  next to the result.
\<close>

function invoke_loop ::
  "(nat \<Rightarrow> invoke_request \<Rightarrow> attempt) \<Rightarrow> int \<Rightarrow> string \<Rightarrow> nat \<Rightarrow> bool \<Rightarrow> nat \<Rightarrow> invoke_request \<Rightarrow>
    (invoke_result \<times> invoke_error option) \<times> invoke_request list" where
  "invoke_loop run maxAttempts name n sessionRetried idleAttempts req =
    (let (result, reason, err) = run n req in
     case reason of
       RetryNone \<Rightarrow> ((result, err), [req])
     | RetrySessionExpired \<Rightarrow>
         if sessionRetried then ((result, err), [req])
         else (let (out, reqs) = invoke_loop run maxAttempts name (Suc n) True idleAttempts (req\<lparr>iq_SessionID := []\<rparr>)
               in (out, req # reqs))
     | RetryIdleTimeout \<Rightarrow>
         if int (Suc idleAttempts) \<ge> maxAttempts then ((no_result, Some (ErrHung name (Suc idleAttempts))), [req])
         else (let (out, reqs) = invoke_loop run maxAttempts name (Suc n) sessionRetried (Suc idleAttempts)
                 (if ir_SessionID result \<noteq> [] then req\<lparr>iq_SessionID := ir_SessionID result\<rparr> else req)
               in (out, req # reqs)))"
  by pat_completeness auto
termination
  by (relation "measure (\<lambda>(run, m, name, n, retried, idle, req). nat (m - int idle) + (if retried then 0 else 1))") auto

declare invoke_loop.simps [simp del]

definition invoke_with_retry ::
  "(nat \<Rightarrow> invoke_request \<Rightarrow> attempt) \<Rightarrow> invoke_request \<Rightarrow> int \<Rightarrow> string \<Rightarrow>
    (invoke_result \<times> invoke_error option) \<times> invoke_request list" where
  "invoke_with_retry run req maxRetries name =
    invoke_loop run (if maxRetries < 1 then 1 else maxRetries) name 0 False 0 req"

subsection \<open>The idle timer\<close>

text \<open>
  Output is a list of lines, each with the time since the line before, and the time from the last
  line to the end of the output. \<open>quiet\<close> is the time since the timer was reset. The lines that
  reach the reader, and whether the timer fired; a line that comes just when the timer fires is
  taken to be late.
\<close>

fun scan_timed :: "int \<Rightarrow> int \<Rightarrow> (int \<times> string) list \<Rightarrow> int \<Rightarrow> string list \<times> bool" where
  "scan_timed idleTimeout quiet [] eof = ([], quiet + eof \<ge> idleTimeout)"
| "scan_timed idleTimeout quiet ((gap, line) # output) eof =
    (if quiet + gap \<ge> idleTimeout then ([], True)
     else if line = [] then scan_timed idleTimeout (quiet + gap) output eof
     else (let (ls, fired) = scan_timed idleTimeout 0 output eof in (line # ls, fired)))"

definition scan_with_idle_timeout :: "int \<Rightarrow> (int \<times> string) list \<Rightarrow> int \<Rightarrow> string list \<times> bool" where
  "scan_with_idle_timeout idleTimeout output eof =
    (if idleTimeout \<le> 0 then (filter (\<lambda>l. l \<noteq> []) (map snd output), False)
     else scan_timed idleTimeout 0 output eof)"

subsection \<open>The subprocess\<close>

text \<open>
  What happens around a subprocess: an error of writing the prompt file or of starting it, its
  output, the error of \<open>Wait\<close>, its standard error, and whether the caller's context was done when
  the output ended.
\<close>

record subprocess =
  sp_promptErr :: "string option"
  sp_startErr :: "invoke_error option"
  sp_output :: "(int \<times> string) list"
  sp_eof :: int
  sp_waitErr :: "invoke_error option"
  sp_stderr :: string
  sp_ctxDone :: bool

definition unmarshal_into :: "'r field_table \<Rightarrow> string \<Rightarrow> 'r \<Rightarrow> 'r \<times> bool" where
  "unmarshal_into table line r =
    (case unmarshal line of None \<Rightarrow> (r, True) | Some v \<Rightarrow> decode_struct table v r)"

subsection \<open>The claude provider\<close>

record claude_usage =
  cu_InputTokens :: int
  cu_OutputTokens :: int

record claude_event =
  ce_Subtype :: string
  ce_SessionID :: string
  ce_Result :: string
  ce_IsError :: bool
  ce_Errors :: "string list"
  ce_Usage :: claude_usage

definition no_claude_event :: claude_event where
  "no_claude_event = \<lparr>ce_Subtype = [], ce_SessionID = [], ce_Result = [], ce_IsError = False, ce_Errors = [],
    ce_Usage = \<lparr>cu_InputTokens = 0, cu_OutputTokens = 0\<rparr>\<rparr>"

definition usage_fields :: "claude_usage field_table" where
  "usage_fields =
    [(''input_tokens'', set_int (\<lambda>x. cu_InputTokens_update (\<lambda>_. x))),
     (''output_tokens'', set_int (\<lambda>x. cu_OutputTokens_update (\<lambda>_. x)))]"

definition claude_fields :: "claude_event field_table" where
  "claude_fields =
    [(''subtype'', set_string (\<lambda>x. ce_Subtype_update (\<lambda>_. x))),
     (''session_id'', set_string (\<lambda>x. ce_SessionID_update (\<lambda>_. x))),
     (''result'', set_string (\<lambda>x. ce_Result_update (\<lambda>_. x))),
     (''is_error'', set_bool (\<lambda>x. ce_IsError_update (\<lambda>_. x))),
     (''errors'', set_list (set_string (\<lambda>x _. x)) [] (\<lambda>x. ce_Errors_update (\<lambda>_. x))),
     (''usage'', set_struct usage_fields ce_Usage (\<lambda>x. ce_Usage_update (\<lambda>_. x)))]"

definition type_fields :: "string field_table" where
  "type_fields = [(''type'', set_string (\<lambda>x _. x))]"

text \<open>One line of output; errors of decoding the final event are ignored.\<close>

definition claude_line :: "string \<Rightarrow> claude_event \<Rightarrow> claude_event" where
  "claude_line line ev =
    (let (ty, bad) = unmarshal_into type_fields line [] in
     if bad then ev else if ty = ''result'' then fst (unmarshal_into claude_fields line ev) else ev)"

definition claude_args :: "invoke_request \<Rightarrow> string \<Rightarrow> string list" where
  "claude_args req sysPromptFile =
    (if iq_SessionID req \<noteq> [] then [''--resume'', iq_SessionID req] else []) @
    [''-p'', iq_UserMessage req, ''--output-format'', ''stream-json'', ''--verbose'', ''--dangerously-skip-permissions''] @
    (if iq_Stateless req then [''--no-session-persistence''] else []) @
    (if sysPromptFile \<noteq> [] then [''--system-prompt-file'', sysPromptFile] else []) @
    (if iq_Model req \<noteq> [] then [''--model'', iq_Model req] else [])"

definition claude_run_once :: "int \<Rightarrow> string \<Rightarrow> (string list \<Rightarrow> subprocess) \<Rightarrow> invoke_request \<Rightarrow> attempt" where
  "claude_run_once idleTimeout promptFile exec req =
    (let p = exec (claude_args req (if iq_SystemPrompt req = [] then [] else promptFile)) in
     if iq_SystemPrompt req \<noteq> [] \<and> sp_promptErr p \<noteq> None
     then (no_result, RetryNone, map_option ErrOther (sp_promptErr p))
     else if sp_startErr p \<noteq> None then (no_result, RetryNone, sp_startErr p)
     else
       let (ls, idle) = scan_with_idle_timeout idleTimeout (sp_output p) (sp_eof p);
           ev = fold claude_line ls no_claude_event
       in if idle \<and> \<not> sp_ctxDone p
          then (no_result\<lparr>ir_SessionID := ce_SessionID ev\<rparr>, RetryIdleTimeout, Some ErrIdleTimeout)
          else if ce_Subtype ev = ''error_during_execution'' \<and>
                  list_ex (contains ''No conversation found'') (ce_Errors ev)
          then (no_result, RetrySessionExpired, None)
          else (case sp_waitErr p of
              Some err \<Rightarrow>
                if iq_SessionID req \<noteq> [] then (no_result, RetrySessionExpired, None)
                else (no_result, RetryNone, Some err)
            | None \<Rightarrow>
                if ce_IsError ev \<and> ce_Result ev \<noteq> [] then (no_result, RetryNone, Some (ErrProviderMessage (ce_Result ev)))
                else (\<lparr>ir_SessionID = ce_SessionID ev, ir_Text = ce_Result ev,
                       ir_TokensIn = cu_InputTokens (ce_Usage ev), ir_TokensOut = cu_OutputTokens (ce_Usage ev)\<rparr>,
                      RetryNone, None)))"

subsection \<open>The codex provider\<close>

record codex_item =
  xi_Type :: string
  xi_Text :: string

record codex_event =
  xe_Type :: string
  xe_ThreadID :: string
  xe_Item :: "codex_item option"
  xe_Usage :: "claude_usage option"

text \<open>A pointer to a struct: null is nil, an object is decoded into a new struct.\<close>

definition set_struct_ptr :: "'q field_table \<Rightarrow> 'q \<Rightarrow> ('q option \<Rightarrow> 'r \<Rightarrow> 'r) \<Rightarrow> ('r \<Rightarrow> 'q option) \<Rightarrow> 'r setter" where
  "set_struct_ptr table zero upd sel v r =
    (case v of
       JNull \<Rightarrow> (upd None r, False)
     | _ \<Rightarrow> let (q, bad) = decode_struct table v (case sel r of None \<Rightarrow> zero | Some q \<Rightarrow> q) in (upd (Some q) r, bad))"

definition codex_fields :: "codex_event field_table" where
  "codex_fields =
    [(''type'', set_string (\<lambda>x. xe_Type_update (\<lambda>_. x))),
     (''thread_id'', set_string (\<lambda>x. xe_ThreadID_update (\<lambda>_. x))),
     (''item'', set_struct_ptr
       [(''type'', set_string (\<lambda>x. xi_Type_update (\<lambda>_. x))), (''text'', set_string (\<lambda>x. xi_Text_update (\<lambda>_. x)))]
       \<lparr>xi_Type = [], xi_Text = []\<rparr> (\<lambda>x. xe_Item_update (\<lambda>_. x)) xe_Item),
     (''usage'', set_struct_ptr usage_fields \<lparr>cu_InputTokens = 0, cu_OutputTokens = 0\<rparr>
       (\<lambda>x. xe_Usage_update (\<lambda>_. x)) xe_Usage)]"

record codex_state =
  xs_SessionID :: string
  xs_Message :: string
  xs_Usage :: claude_usage

definition codex_line :: "string \<Rightarrow> codex_state \<Rightarrow> codex_state" where
  "codex_line line s =
    (let (ev, bad) = unmarshal_into codex_fields line \<lparr>xe_Type = [], xe_ThreadID = [], xe_Item = None, xe_Usage = None\<rparr> in
     if bad then s
     else if xe_Type ev = ''thread.started'' then s\<lparr>xs_SessionID := xe_ThreadID ev\<rparr>
     else if xe_Type ev = ''item.completed'' then
       (case xe_Item ev of
          Some i \<Rightarrow> if xi_Type i = ''agent_message'' \<and> xi_Text i \<noteq> [] then s\<lparr>xs_Message := xi_Text i\<rparr> else s
        | None \<Rightarrow> s)
     else if xe_Type ev = ''turn.completed'' then
       (case xe_Usage ev of Some u \<Rightarrow> s\<lparr>xs_Usage := u\<rparr> | None \<Rightarrow> s)
     else s)"

definition codex_args :: "invoke_request \<Rightarrow> string \<Rightarrow> string list" where
  "codex_args req sysPromptFile =
    (let flags = [''--json'', ''--dangerously-bypass-approvals-and-sandbox'', ''--skip-git-repo-check''] @
           (if sysPromptFile \<noteq> [] then [''-c'', ''model_instructions_file='' @ sysPromptFile] else []) @
           (if iq_Stateless req then [''--ephemeral''] else []) @
           (if iq_Model req \<noteq> [] then [''--model'', iq_Model req] else [])
     in if iq_SessionID req \<noteq> [] then [''exec'', ''resume'', iq_SessionID req, iq_UserMessage req] @ flags
        else [''exec''] @ flags @ [iq_UserMessage req])"

definition codex_run_once :: "int \<Rightarrow> string \<Rightarrow> (string list \<Rightarrow> subprocess) \<Rightarrow> invoke_request \<Rightarrow> attempt" where
  "codex_run_once idleTimeout promptFile exec req =
    (let p = exec (codex_args req (if iq_SystemPrompt req = [] then [] else promptFile)) in
     if iq_SystemPrompt req \<noteq> [] \<and> sp_promptErr p \<noteq> None
     then (no_result, RetryNone, map_option ErrOther (sp_promptErr p))
     else if sp_startErr p \<noteq> None then (no_result, RetryNone, sp_startErr p)
     else
       let (ls, idle) = scan_with_idle_timeout idleTimeout (sp_output p) (sp_eof p);
           s = fold codex_line ls \<lparr>xs_SessionID = [], xs_Message = [],
                 xs_Usage = \<lparr>cu_InputTokens = 0, cu_OutputTokens = 0\<rparr>\<rparr>
       in if idle \<and> \<not> sp_ctxDone p
          then (no_result\<lparr>ir_SessionID := xs_SessionID s\<rparr>, RetryIdleTimeout, Some ErrIdleTimeout)
          else (case sp_waitErr p of
              Some err \<Rightarrow>
                (let stderr = trim_space (sp_stderr p) in
                 if stderr \<noteq> [] then (no_result, RetryNone, Some (ErrProviderMessage stderr))
                 else (no_result, RetryNone, Some err))
            | None \<Rightarrow>
                (\<lparr>ir_SessionID = xs_SessionID s, ir_Text = xs_Message s,
                  ir_TokensIn = cu_InputTokens (xs_Usage s), ir_TokensOut = cu_OutputTokens (xs_Usage s)\<rparr>,
                 RetryNone, None)))"

subsection \<open>The factory\<close>

datatype provider = ClaudeProvider int int | CodexProvider int int

text \<open>The idle timeout is minutes times nanoseconds per minute, in 64 bits.\<close>

definition new_provider :: "string \<Rightarrow> int \<Rightarrow> int \<Rightarrow> string + provider" where
  "new_provider name idleTimeoutMinutes maxRetries =
    (let idle = wrap64 (idleTimeoutMinutes * 60000000000) in
     if name = ''codex'' then Inr (CodexProvider idle maxRetries)
     else if name = [] \<or> name = ''claude'' then Inr (ClaudeProvider idle maxRetries)
     else Inl (''unknown provider '' @ name @ '' (supported: claude, codex)''))"

definition provider_name :: "provider \<Rightarrow> string" where
  "provider_name p = (case p of ClaudeProvider _ _ \<Rightarrow> ''claude'' | CodexProvider _ _ \<Rightarrow> ''codex'')"

text \<open>\<open>Invoke\<close>: \<open>exec n\<close> is the subprocess of attempt \<open>n\<close>.\<close>

definition provider_invoke ::
  "provider \<Rightarrow> string \<Rightarrow> (nat \<Rightarrow> string list \<Rightarrow> subprocess) \<Rightarrow> invoke_request \<Rightarrow>
    (invoke_result \<times> invoke_error option) \<times> invoke_request list" where
  "provider_invoke p promptFile exec req =
    (case p of
       ClaudeProvider idle maxRetries \<Rightarrow>
         invoke_with_retry (\<lambda>n. claude_run_once idle promptFile (exec n)) req maxRetries ''claude''
     | CodexProvider idle maxRetries \<Rightarrow>
         invoke_with_retry (\<lambda>n. codex_run_once idle promptFile (exec n)) req maxRetries ''codex'')"

subsection \<open>The contract of an attempt\<close>

text \<open>Induction over the attempts that may still follow.\<close>

lemma attempts_induct:
  assumes step: "\<And>n retried idle req.
      (\<And>r. \<not> retried \<Longrightarrow> P (Suc n) True idle r) \<Longrightarrow>
      (\<And>r. int (Suc idle) < m \<Longrightarrow> P (Suc n) retried (Suc idle) r) \<Longrightarrow> P n retried idle req"
  shows "P n retried (idle :: nat) (req :: invoke_request)"
proof (induction "nat (m - int idle) + (if retried then 0 else 1)" arbitrary: n retried idle req rule: less_induct)
  case less
  show ?case
  proof (rule step)
    show "P (Suc n) True idle r" if "\<not> retried" for r
      using that by (intro less) simp
    show "P (Suc n) retried (Suc idle) r" if "int (Suc idle) < m" for r
      using that by (intro less) simp
  qed
qed

lemma loop_none: "run n req = (r, RetryNone, e) \<Longrightarrow> invoke_loop run m name n retried idle req = ((r, e), [req])"
  by (subst invoke_loop.simps) simp

lemma loop_expired: "run n req = (r, RetrySessionExpired, e) \<Longrightarrow> invoke_loop run m name n retried idle req =
    (if retried then ((r, e), [req])
     else apsnd (Cons req) (invoke_loop run m name (Suc n) True idle (req\<lparr>iq_SessionID := []\<rparr>)))"
  by (subst invoke_loop.simps) (simp add: Let_def apsnd_def map_prod_def)

lemma loop_idle: "run n req = (r, RetryIdleTimeout, e) \<Longrightarrow> invoke_loop run m name n retried idle req =
    (if int (Suc idle) \<ge> m then ((no_result, Some (ErrHung name (Suc idle))), [req])
     else apsnd (Cons req) (invoke_loop run m name (Suc n) retried (Suc idle)
       (if ir_SessionID r \<noteq> [] then req\<lparr>iq_SessionID := ir_SessionID r\<rparr> else req)))"
  by (subst invoke_loop.simps) (simp add: Let_def apsnd_def map_prod_def)

text \<open>What the retry loop relies on: an expired session and an idle timeout are not results.\<close>

locale atomic_runner =
  fixes run :: "nat \<Rightarrow> invoke_request \<Rightarrow> attempt"
  assumes expired_plain: "run n req = (r, RetrySessionExpired, e) \<Longrightarrow> r = no_result \<and> e = None"
    and idle_error: "run n req = (r, RetryIdleTimeout, e) \<Longrightarrow> e = Some ErrIdleTimeout"
begin

lemma attempt_cases:
  obtains (final) r e where "run n req = (r, RetryNone, e)"
  | (expired) "run n req = (no_result, RetrySessionExpired, None)"
  | (idle) r where "run n req = (r, RetryIdleTimeout, Some ErrIdleTimeout)"
proof -
  obtain r reason e where "run n req = (r, reason, e)" by (metis surj_pair)
  with that show thesis using expired_plain idle_error by (cases reason) metis+
qed

lemma loop_attempts:
  "int idle < m \<Longrightarrow> length (snd (invoke_loop run m name n retried idle req)) \<le> nat (m - int idle) + (if retried then 0 else 1)"
proof (induction n retried idle req rule: attempts_induct [where m = m])
  case (1 n retried idle req)
  show ?case
  proof (cases rule: attempt_cases [of n req])
    case final
    with 1(3) show ?thesis by (simp add: loop_none)
  next
    case expired
    with 1(1) [of "req\<lparr>iq_SessionID := []\<rparr>"] 1(3) show ?thesis by (auto simp: loop_expired)
  next
    case (idle r)
    with 1(2) [of "if ir_SessionID r \<noteq> [] then req\<lparr>iq_SessionID := ir_SessionID r\<rparr> else req"] 1(3)
    show ?thesis by (auto simp: loop_idle)
  qed
qed

lemma loop_requests:
  "list_all (\<lambda>r. r\<lparr>iq_SessionID := []\<rparr> = req\<lparr>iq_SessionID := []\<rparr>) (snd (invoke_loop run m name n retried idle req))"
proof (induction n retried idle req rule: attempts_induct [where m = m])
  case (1 n retried idle req)
  show ?case
  proof (cases rule: attempt_cases [of n req])
    case final
    then show ?thesis by (simp add: loop_none)
  next
    case expired
    with 1(1) [of "req\<lparr>iq_SessionID := []\<rparr>"] show ?thesis by (auto simp: loop_expired)
  next
    case (idle r)
    with 1(2) [of "if ir_SessionID r \<noteq> [] then req\<lparr>iq_SessionID := ir_SessionID r\<rparr> else req"]
    show ?thesis by (auto simp: loop_idle)
  qed
qed

text \<open>The outcome is that of some attempt, a hang, or nothing after a second expiry.\<close>

lemma loop_outcome:
  "fst (invoke_loop run m name n retried idle req) = out \<Longrightarrow>
    (\<exists>k r. run k r = (fst out, RetryNone, snd out)) \<or> (\<exists>h. out = (no_result, Some (ErrHung name h))) \<or>
    out = (no_result, None)"
proof (induction n retried idle req rule: attempts_induct [where m = m])
  case (1 n retried idle req)
  show ?case
  proof (cases rule: attempt_cases [of n req])
    case (final r e)
    with 1(3) show ?thesis by (auto simp: loop_none)
  next
    case expired
    with 1(1) [of "req\<lparr>iq_SessionID := []\<rparr>"] 1(3) show ?thesis
      by (auto simp: loop_expired split: if_splits)
  next
    case (idle r)
    with 1(2) [of "if ir_SessionID r \<noteq> [] then req\<lparr>iq_SessionID := ir_SessionID r\<rparr> else req"] 1(3)
    show ?thesis by (auto simp: loop_idle split: if_splits)
  qed
qed

end

text \<open>Without session expiry an attempt is used up by every retry.\<close>

locale steady_runner = atomic_runner +
  assumes never_expired: "fst (snd (run n req)) \<noteq> RetrySessionExpired"
begin

lemma loop_attempts_steady:
  "int idle < m \<Longrightarrow> length (snd (invoke_loop run m name n retried idle req)) \<le> nat (m - int idle)"
proof (induction n retried idle req rule: attempts_induct [where m = m])
  case (1 n retried idle req)
  show ?case
  proof (cases rule: attempt_cases [of n req])
    case final
    with 1(3) show ?thesis by (simp add: loop_none)
  next
    case expired
    with never_expired [of n req] show ?thesis by simp
  next
    case (idle r)
    with 1(2) [of "if ir_SessionID r \<noteq> [] then req\<lparr>iq_SessionID := ir_SessionID r\<rparr> else req"] 1(3)
    show ?thesis by (auto simp: loop_idle)
  qed
qed

end

interpretation cl: atomic_runner "\<lambda>n. claude_run_once idleTimeout promptFile (exec n)" for idleTimeout promptFile exec
  by unfold_locales
    (auto simp: claude_run_once_def Let_def split: prod.splits if_splits option.splits)

interpretation cx: steady_runner "\<lambda>n. codex_run_once idleTimeout promptFile (exec n)" for idleTimeout promptFile exec
  by unfold_locales
    (auto simp: codex_run_once_def Let_def split: prod.splits if_splits option.splits)

subsection \<open>Properties\<close>

text \<open>
  C15. An invocation ends after at most the configured number of attempts (at least one), and one
  more for claude when the session has expired; all attempts are made with the same request
  but for the session id.
\<close>

theorem invoke_attempts:
  assumes "provider_invoke p promptFile exec req = (out, reqs)"
  shows "int (length reqs) \<le> (case p of ClaudeProvider _ r \<Rightarrow> max 1 r + 1 | CodexProvider _ r \<Rightarrow> max 1 r) \<and>
    list_all (\<lambda>r. r\<lparr>iq_SessionID := []\<rparr> = req\<lparr>iq_SessionID := []\<rparr>) reqs"
proof (cases p)
  case (ClaudeProvider idle r)
  have "snd (out, reqs) = snd (invoke_loop (\<lambda>n. claude_run_once idle promptFile (exec n)) (if r < 1 then 1 else r) ''claude'' 0 False 0 req)"
    using assms ClaudeProvider by (simp add: provider_invoke_def invoke_with_retry_def)
  then show ?thesis
    using cl.loop_attempts [of 0 "if r < 1 then 1 else r" idle promptFile exec "''claude''" 0 False req]
      cl.loop_requests [of req idle promptFile exec "if r < 1 then 1 else r" "''claude''" 0 False 0]
      ClaudeProvider by (auto simp: max_def split: if_splits)
next
  case (CodexProvider idle r)
  have "snd (out, reqs) = snd (invoke_loop (\<lambda>n. codex_run_once idle promptFile (exec n)) (if r < 1 then 1 else r) ''codex'' 0 False 0 req)"
    using assms CodexProvider by (simp add: provider_invoke_def invoke_with_retry_def)
  then show ?thesis
    using cx.loop_attempts_steady [of 0 "if r < 1 then 1 else r" idle promptFile exec "''codex''" 0 False req]
      cx.loop_requests [of req idle promptFile exec "if r < 1 then 1 else r" "''codex''" 0 False 0]
      CodexProvider by (auto simp: max_def split: if_splits)
qed

definition sample_invoke :: invoke_request where
  "sample_invoke = \<lparr>iq_LogKey = [], iq_SessionKey = ''irc:c'', iq_SessionID = ''s1'', iq_SystemPrompt = [],
    iq_UserMessage = ''hi'', iq_WorkDir = ''/w'', iq_Model = [], iq_Stateless = False\<rparr>"

definition silent_process :: subprocess where
  "silent_process = \<lparr>sp_promptErr = None, sp_startErr = None, sp_output = [], sp_eof = 0, sp_waitErr = None,
    sp_stderr = [], sp_ctxDone = False\<rparr>"

theorem invoke_attempts_witness:
  "length (snd (provider_invoke (CodexProvider 5 3) ''p.md'' (\<lambda>n _. silent_process\<lparr>sp_eof := 9\<rparr>) sample_invoke)) \<le> 3"
proof -
  obtain out reqs where "provider_invoke (CodexProvider 5 3) ''p.md'' (\<lambda>n _. silent_process\<lparr>sp_eof := 9\<rparr>) sample_invoke = (out, reqs)"
    by (metis surj_pair)
  from invoke_attempts [OF this] this show ?thesis by simp
qed

text \<open>The stretches without a line, blank lines not counted.\<close>

fun silences :: "int \<Rightarrow> (int \<times> string) list \<Rightarrow> int \<Rightarrow> int list" where
  "silences quiet [] eof = [quiet + eof]"
| "silences quiet ((gap, line) # outp) eof =
    (if line = [] then silences (quiet + gap) outp eof else (quiet + gap) # silences 0 outp eof)"

lemma silences_ge:
  "list_all (\<lambda>(gap, _). 0 \<le> gap) outp \<Longrightarrow> 0 \<le> eof \<Longrightarrow> quiet \<le> hd (silences quiet outp eof) \<and> silences quiet outp eof \<noteq> []"
  by (induction quiet outp eof rule: silences.induct) auto

lemma scan_timed_spec:
  assumes "list_all (\<lambda>(gap, _). 0 \<le> gap) outp" and "0 \<le> eof"
  shows "(snd (scan_timed T quiet outp eof) \<longleftrightarrow> list_ex (\<lambda>s. T \<le> s) (silences quiet outp eof)) \<and>
    (\<exists>rest. filter (\<lambda>l. l \<noteq> []) (map snd outp) = fst (scan_timed T quiet outp eof) @ rest \<and>
      (\<not> snd (scan_timed T quiet outp eof) \<longrightarrow> rest = []))"
  using assms
proof (induction T quiet outp eof rule: scan_timed.induct)
  case (2 T quiet gap line outp eof)
  show ?case
  proof (cases "quiet + gap \<ge> T")
    case True
    have "list_ex (\<lambda>s. T \<le> s) (silences (quiet + gap) outp eof)"
      using silences_ge [of outp eof "quiet + gap"] True 2(3,4)
      by (cases "silences (quiet + gap) outp eof") auto
    with True show ?thesis by auto
  next
    case False
    with 2 show ?thesis
      by (cases "line = []"; cases "scan_timed T 0 outp eof") auto
  qed
qed auto



text \<open>An attempt whose process fails without output.\<close>

lemma claude_failed:
  assumes "p = exec (claude_args req (if iq_SystemPrompt req = [] then [] else promptFile))"
    and "sp_promptErr p = None" "sp_startErr p = None" "sp_ctxDone p" "sp_waitErr p = Some err" "sp_output p = []"
  shows "claude_run_once idle promptFile exec req =
    (if iq_SessionID req \<noteq> [] then (no_result, RetrySessionExpired, None) else (no_result, RetryNone, Some err))"
proof -
  have "fst (scan_with_idle_timeout idle [] (sp_eof p)) = []"
    by (simp add: scan_with_idle_timeout_def)
  then show ?thesis
    unfolding claude_run_once_def assms(1) [symmetric] Let_def
    using assms(2-6)
    by (cases "scan_with_idle_timeout idle [] (sp_eof p)") (simp add: no_claude_event_def)
qed

text \<open>
  An error of the agent can vanish: when the resumed session has expired, the attempt without
  it hangs after it announced a session, and the attempt that resumes that one fails, the
  invocation returns an empty result and no error.
\<close>

theorem failure_swallowed:
  assumes "claude_run_once idle promptFile (exec 0) req = (r0, RetrySessionExpired, e0)"
    and "claude_run_once idle promptFile (exec 1) (req\<lparr>iq_SessionID := []\<rparr>) = (r1, RetryIdleTimeout, e1)"
    and "ir_SessionID r1 \<noteq> []"
    and "sp_promptErr (exec 2 args) = None" "sp_startErr (exec 2 args) = None" "sp_output (exec 2 args) = []"
    and "sp_ctxDone (exec 2 args)" "sp_waitErr (exec 2 args) \<noteq> None"
    and "args = claude_args (req\<lparr>iq_SessionID := ir_SessionID r1\<rparr>) (if iq_SystemPrompt req = [] then [] else promptFile)"
    and "2 \<le> maxRetries"
  shows "fst (provider_invoke (ClaudeProvider idle maxRetries) promptFile exec req) = (no_result, None)"
proof -
  let ?run = "\<lambda>n. claude_run_once idle promptFile (exec n)"
  let ?req = "req\<lparr>iq_SessionID := ir_SessionID r1\<rparr>"
  obtain w where "sp_waitErr (exec 2 args) = Some w" using assms(8) by blast
  then have third: "?run 2 ?req = (no_result, RetrySessionExpired, None)"
    using claude_failed [of "exec 2 args" "exec 2" ?req promptFile w idle] assms(3-7,9) by simp
  have "invoke_loop ?run maxRetries ''claude'' 2 True 1 ?req = ((no_result, None), [?req])"
    using loop_expired [of ?run 2 ?req, OF third] by simp
  then have "fst (invoke_loop ?run maxRetries ''claude'' (Suc 0) True 0 (req\<lparr>iq_SessionID := []\<rparr>)) = (no_result, None)"
    using loop_idle [of ?run 1 "req\<lparr>iq_SessionID := []\<rparr>" r1 e1] assms(2,3,10) by (simp add: numeral_2_eq_2)
  then have "fst (invoke_loop ?run maxRetries ''claude'' 0 False 0 req) = (no_result, None)"
    using loop_expired [of ?run 0 req r0 e0] assms(1) by simp
  with assms(10) show ?thesis
    by (simp add: provider_invoke_def invoke_with_retry_def)
qed

text \<open>An expired session, a hang after a session was announced, and a failing process.\<close>

definition bad_exec :: "nat \<Rightarrow> string list \<Rightarrow> subprocess" where
  "bad_exec n args =
    (if n = 0 then silent_process\<lparr>sp_waitErr := Some (ErrExit ''exit status 1'')\<rparr>
     else if n = 1 then silent_process\<lparr>sp_output := [(1, marshal (JObj [(''type'', JStr ''result''), (''session_id'', JStr ''s2'')]))],
       sp_eof := 60\<rparr>
     else silent_process\<lparr>sp_waitErr := Some (ErrExit ''exit status 1''), sp_ctxDone := True\<rparr>)"

lemma claude_line_session:
  "claude_line (marshal (JObj [(''type'', JStr ''result''), (''session_id'', JStr i)])) no_claude_event =
    no_claude_event\<lparr>ce_SessionID := i\<rparr>"
  by (simp add: claude_line_def unmarshal_into_def js.dec_enc type_fields_def claude_fields_def struct_simps
      ascii_lower_def no_claude_event_def)

lemma marshal_nonempty: "marshal (JObj (kv # kvs)) \<noteq> []"
  by (simp add: marshal_def block_def)

theorem failure_swallowed_witness:
  "fst (provider_invoke (ClaudeProvider 30 2) ''p.md'' bad_exec sample_invoke) = (no_result, None)"
proof (rule failure_swallowed)
  show "claude_run_once 30 ''p.md'' (bad_exec 0) sample_invoke = (no_result, RetrySessionExpired, None)"
    by (simp add: claude_run_once_def bad_exec_def silent_process_def scan_with_idle_timeout_def sample_invoke_def
        no_claude_event_def)
  show "claude_run_once 30 ''p.md'' (bad_exec 1) (sample_invoke\<lparr>iq_SessionID := []\<rparr>) =
      (no_result\<lparr>ir_SessionID := ''s2''\<rparr>, RetryIdleTimeout, Some ErrIdleTimeout)"
    by (simp add: claude_run_once_def bad_exec_def silent_process_def scan_with_idle_timeout_def sample_invoke_def
        claude_line_session marshal_nonempty)
qed (simp_all add: bad_exec_def silent_process_def)

end
