(* ===== verification/Services.thy ===== *)
theory Services
  imports Bridge_Runs Providers Cron
begin

text \<open>
  The services around the bridge: \<open>pkg/heartbeat/service.go\<close>, the handlers that
  \<open>cmd/ectoclaw/internal/gateway/helpers.go\<close> gives to the heartbeat and to the cron service, and
  what the bridge makes of the errors of a provider. Invoking the agent and running a shell
  command are given by their results.
\<close>

subsection \<open>Heartbeat\<close>

text \<open>The handler maps prompt, channel and chat to an error or the text to send.\<close>

record heartbeat =
  hb_hasBus :: bool
  hb_state :: state_manager
  hb_handler :: "(string \<Rightarrow> string \<Rightarrow> string \<Rightarrow> string + string) option"
  hb_interval :: int
  hb_enabled :: bool
  hb_running :: bool

definition new_heartbeat :: "state_manager \<Rightarrow> int \<Rightarrow> bool \<Rightarrow> heartbeat" where
  "new_heartbeat sm intervalMinutes enabled =
    (let m1 = (if intervalMinutes < 5 \<and> intervalMinutes \<noteq> 0 then 5 else intervalMinutes);
         m2 = (if m1 = 0 then 30 else m1)
     in \<lparr>hb_hasBus = False, hb_state = sm, hb_handler = None, hb_interval = wrap64 (m2 * 60000000000),
         hb_enabled = enabled, hb_running = False\<rparr>)"

definition heartbeat_start :: "heartbeat \<Rightarrow> heartbeat" where
  "heartbeat_start hb = (if hb_running hb \<or> \<not> hb_enabled hb then hb else hb\<lparr>hb_running := True\<rparr>)"

definition heartbeat_stop :: "heartbeat \<Rightarrow> heartbeat" where
  "heartbeat_stop hb = (if hb_running hb then hb\<lparr>hb_running := False\<rparr> else hb)"

definition parse_last_channel :: "string \<Rightarrow> string \<times> string" where
  "parse_last_channel lastChannel =
    (case split_n2 CHR '':'' lastChannel of
       [platform, chatID] \<Rightarrow>
         if platform = [] \<or> chatID = [] then ([], [])
         else if is_internal_channel platform then ([], [])
         else (platform, chatID)
     | _ \<Rightarrow> ([], []))"

text \<open>\<open>content\<close>: the text of HEARTBEAT.md, if it can be read.\<close>

definition build_prompt :: "string \<Rightarrow> string option \<Rightarrow> string" where
  "build_prompt now content =
    (case content of
       None \<Rightarrow> []
     | Some c \<Rightarrow>
         if c = [] then []
         else ''# Heartbeat Check'' @ nl @ nl @ ''Current time: '' @ now @ nl @ nl @
           ''You are a proactive AI assistant. This is a scheduled heartbeat check.'' @ nl @
           ''Review the following tasks and execute any necessary actions using available skills.'' @ nl @
           ''If there is nothing that requires attention, respond ONLY with: HEARTBEAT_OK'' @ nl @ nl @ c @ nl)"

definition send_response :: "heartbeat \<Rightarrow> string \<Rightarrow> outbound_message option" where
  "send_response hb response =
    (if \<not> hb_hasBus hb then None
     else let (platform, userID) = parse_last_channel (get_last_channel (hb_state hb)) in
       if platform = [] then None
       else Some \<lparr>om_Channel = platform, om_ChatID = userID, om_Content = response, om_Parts = []\<rparr>)"

text \<open>One heartbeat: the message it publishes, if any.\<close>

definition execute_heartbeat :: "heartbeat \<Rightarrow> string \<Rightarrow> string option \<Rightarrow> outbound_message option" where
  "execute_heartbeat hb now content =
    (if \<not> hb_enabled hb \<or> \<not> hb_running hb then None
     else let prompt = build_prompt now content in
       if prompt = [] then None
       else case hb_handler hb of
         None \<Rightarrow> None
       | Some handler \<Rightarrow>
           let (channel, chatID) = parse_last_channel (get_last_channel (hb_state hb)) in
           case handler prompt channel chatID of
             Inl _ \<Rightarrow> None
           | Inr reply \<Rightarrow> if reply = [] then None else send_response hb reply)"

subsection \<open>The handlers of the gateway\<close>

text \<open>The text of an error, as \<open>Error()\<close> gives it.\<close>

fun invoke_error_text :: "invoke_error \<Rightarrow> string" where
  "invoke_error_text (ErrProviderMessage m) = m"
| "invoke_error_text ErrIdleTimeout = ''provider: no output received within idle timeout''"
| "invoke_error_text (ErrHung name n) = name @ '' hung after '' @ format_nat n @
    '' idle timeout(s): provider: no output received within idle timeout''"
| "invoke_error_text ErrContextCanceled = ''context canceled''"
| "invoke_error_text (ErrExit e) = e"
| "invoke_error_text (ErrOther e) = e"

definition heartbeat_request :: "string \<Rightarrow> string \<Rightarrow> string \<Rightarrow> invoke_request" where
  "heartbeat_request systemPrompt prompt workDir =
    \<lparr>iq_LogKey = ''heartbeat'', iq_SessionKey = [], iq_SessionID = [], iq_SystemPrompt = systemPrompt,
     iq_UserMessage = prompt, iq_WorkDir = workDir, iq_Model = [], iq_Stateless = True\<rparr>"

definition heartbeat_handler ::
  "(invoke_request \<Rightarrow> invoke_result \<times> invoke_error option) \<Rightarrow> string \<Rightarrow> string \<Rightarrow> string \<Rightarrow> string \<Rightarrow> string \<Rightarrow> string + string" where
  "heartbeat_handler invoke systemPrompt workDir prompt channel chatID =
    (case invoke (heartbeat_request systemPrompt prompt workDir) of
       (_, Some e) \<Rightarrow> Inl (invoke_error_text e)
     | (result, None) \<Rightarrow>
         let reply = trim_space (fst (parse_output (ir_Text result))) in
         if reply = ''HEARTBEAT_OK'' then Inr [] else Inr reply)"

text \<open>
  The handler of a cron job: what it publishes, and its result. \<open>shell\<close> gives the error or the
  output of a command. A failed publication is ignored.
\<close>

definition on_job ::
  "(invoke_request \<Rightarrow> invoke_result \<times> invoke_error option) \<Rightarrow> (string \<Rightarrow> string + string) \<Rightarrow> string \<Rightarrow> string \<Rightarrow> cron_job \<Rightarrow>
    outbound_message list \<times> (string + string)" where
  "on_job invoke shell systemPrompt workDir job =
    (let p = jb_Payload job;
         message = (\<lambda>t. \<lparr>om_Channel = cp_Channel p, om_ChatID = cp_To p, om_Content = t, om_Parts = []\<rparr>)
     in if cp_Deliver p then ([message (cp_Message p)], Inr ''delivered'')
        else if cp_Command p \<noteq> [] then
          (case shell (cp_Command p) of
             Inl e \<Rightarrow> ([], Inl (''cron command failed: '' @ e))
           | Inr out \<Rightarrow>
               let reply = trim_space out in
               (if cp_Channel p \<noteq> [] \<and> cp_To p \<noteq> [] then [message reply] else [], Inr reply))
        else
          (case invoke \<lparr>iq_LogKey = ''cron'', iq_SessionKey = [], iq_SessionID = [], iq_SystemPrompt = systemPrompt,
                        iq_UserMessage = cp_Message p, iq_WorkDir = workDir, iq_Model = [], iq_Stateless = True\<rparr> of
             (_, Some e) \<Rightarrow> ([], Inl (invoke_error_text e))
           | (result, None) \<Rightarrow>
               let reply = trim_space (fst (parse_output (ir_Text result))) in
               (if cp_Channel p \<noteq> [] \<and> cp_To p \<noteq> [] \<and> reply \<noteq> [] then [message reply] else [], Inr reply)))"

text \<open>How \<open>handleMessage\<close> tells the outcomes of \<open>Invoke\<close> apart.\<close>

definition outcome_of :: "invoke_result \<times> invoke_error option \<Rightarrow> outcome" where
  "outcome_of = (\<lambda>(result, err).
    case err of
      None \<Rightarrow> Answer (ir_Text result) (ir_SessionID result)
    | Some ErrContextCanceled \<Rightarrow> Canceled
    | Some (ErrProviderMessage m) \<Rightarrow> ProviderMessage m
    | Some e \<Rightarrow> OtherFailure (invoke_error_text e))"

subsection \<open>Properties\<close>

text \<open>
  The heartbeat reports to the channel that was the last one when the gateway started: it reads
  the state through its own manager, so however often the bridge records a new last channel,
  which the bridge's manager and every manager created later see, the heartbeat keeps sending
  to the old one, or to nobody.
\<close>

theorem heartbeat_stale_channel:
  assumes "hb_state hb = fst (new_state_manager time_ok False f0 n0 tmp0 d (sm_stateFile sm) old)"
    and "d (sm_stateFile sm) \<noteq> None" "tmp \<noteq> sm_stateFile sm" "time_ok now"
    and "set_last_channel (\<lambda>_. False) n d tmp now channel sm = (sm', ds, err)" and "d tmp = None"
    and "execute_heartbeat hb now' content = Some m"
  shows "get_last_channel sm' = channel \<and>
    get_last_channel (fst (new_state_manager time_ok False f1 n1 tmp1 (last ds) (sm_stateFile sm) old)) = channel \<and>
    (om_Channel m, om_ChatID m) = parse_last_channel
      (get_last_channel (fst (new_state_manager time_ok False f0 n0 tmp0 d (sm_stateFile sm) old)))"
proof (intro conjI)
  have err: "err = None"
    using assms(5,6) by (auto simp: set_last_channel_def save_atomic_def write_file_atomic_def Let_def)
  show "get_last_channel sm' = channel"
    using assms(5) by (auto simp: set_last_channel_def get_last_channel_def Let_def split: prod.splits)
  show "get_last_channel (fst (new_state_manager time_ok False f1 n1 tmp1 (last ds) (sm_stateFile sm) old)) = channel"
    using assms(3-5) err set_last_channel_reloads by blast
  show "(om_Channel m, om_ChatID m) = parse_last_channel
      (get_last_channel (fst (new_state_manager time_ok False f0 n0 tmp0 d (sm_stateFile sm) old)))"
    using assms(1,7)
    by (auto simp: execute_heartbeat_def send_response_def Let_def split: if_splits option.splits prod.splits sum.splits)
qed

text \<open>
  Stopping the first message of a session reports an error to the user: the killed process ends
  with an exit error, which is no cancellation for the bridge, so after the reply to \<open>/stop\<close> the
  chat gets the text of that error as well.
\<close>

theorem stop_reports_error:
  assumes "sp_promptErr (exec 0 args) = None" "sp_startErr (exec 0 args) = None"
    and "sp_ctxDone (exec 0 args)" "sp_waitErr (exec 0 args) = Some (ErrExit ''signal: killed'')"
    and "sp_output (exec 0 args) = []"
    and "args = claude_args req (if iq_SystemPrompt req = [] then [] else promptFile)"
    and "iq_SessionID req = []" and "lp_busOpen s"
  shows "finish_invocation env msg um
      (outcome_of (fst (provider_invoke (ClaudeProvider idle retries) promptFile exec req))) s =
    Some (s\<lparr>lp_outbox := lp_outbox s @ [text_message msg ''Error: signal: killed'']\<rparr>)"
proof -
  let ?run = "\<lambda>n. claude_run_once idle promptFile (exec n)"
  have "?run 0 req = (no_result, RetryNone, Some (ErrExit ''signal: killed''))"
    using claude_failed [of "exec 0 args" "exec 0" req promptFile "ErrExit ''signal: killed''" idle] assms by simp
  then have "fst (provider_invoke (ClaudeProvider idle retries) promptFile exec req) =
      (no_result, Some (ErrExit ''signal: killed''))"
    using loop_none [of ?run 0 req] by (simp add: provider_invoke_def invoke_with_retry_def)
  then show ?thesis
    using assms(8) by (simp add: outcome_of_def finish_invocation_def publish_outbound_def)
qed

definition idle_manager :: state_manager where
  "idle_manager = \<lparr>sm_state = zero_state, sm_stateFile = ''state.json''\<rparr>"

definition old_disk :: disk where
  "old_disk = [''state.json'' \<mapsto> marshal (state_json \<lparr>LastChannel = ''irc:ann'', Timestamp = ''t''\<rparr>)]"

definition sample_heartbeat :: heartbeat where
  "sample_heartbeat =
    (heartbeat_start (new_heartbeat (fst (new_state_manager (\<lambda>_. True) False (\<lambda>_. False) 0 ''.t'' old_disk ''state.json'' ''old'')) 0 True))
      \<lparr>hb_hasBus := True, hb_handler := Some (\<lambda>_ _ _. Inr ''Reminder'')\<rparr>"

theorem heartbeat_stale_channel_witness:
  "\<exists>sm' ds err m. set_last_channel (\<lambda>_. False) 0 old_disk ''.t'' ''t2'' ''irc:bob'' idle_manager = (sm', ds, err) \<and>
    execute_heartbeat sample_heartbeat ''now'' (Some ''water the plants'') = Some m \<and>
    get_last_channel sm' = ''irc:bob'' \<and> om_ChatID m = ''ann''"
proof -
  obtain sm' ds err where set: "set_last_channel (\<lambda>_. False) 0 old_disk ''.t'' ''t2'' ''irc:bob'' idle_manager = (sm', ds, err)"
    by (metis surj_pair)
  have last: "get_last_channel (fst (new_state_manager (\<lambda>_. True) False (\<lambda>_. False) 0 ''.t'' old_disk ''state.json'' ''old'')) = ''irc:ann''"
    by (simp add: new_state_manager_def state_load_def old_disk_def state_read_json get_last_channel_def Let_def split: prod.split)
  have parse: "parse_last_channel ''irc:ann'' = (''irc'', ''ann'')" by code_simp
  have hb: "hb_state sample_heartbeat = fst (new_state_manager (\<lambda>_. True) False (\<lambda>_. False) 0 ''.t'' old_disk ''state.json'' ''old'')"
    and run: "hb_enabled sample_heartbeat" "hb_running sample_heartbeat" "hb_hasBus sample_heartbeat"
      "hb_handler sample_heartbeat = Some (\<lambda>_ _ _. Inr ''Reminder'')"
    by (simp_all add: sample_heartbeat_def heartbeat_start_def new_heartbeat_def Let_def)
  obtain m where m: "execute_heartbeat sample_heartbeat ''now'' (Some ''water the plants'') = Some m"
    by (simp add: execute_heartbeat_def run hb last parse send_response_def build_prompt_def Let_def)
  have "old_disk (sm_stateFile idle_manager) \<noteq> None" "sm_stateFile idle_manager = ''state.json''" "old_disk ''.t'' = None"
    by (simp_all add: old_disk_def idle_manager_def)
  with heartbeat_stale_channel [OF _ _ _ _ set _ m, of "\<lambda>_. True" "\<lambda>_. False" 0 "''.t''" "''old''"]
  have "get_last_channel sm' = ''irc:bob'' \<and> (om_Channel m, om_ChatID m) = (''irc'', ''ann'')"
    using hb last parse by simp
  with set m show ?thesis by auto
qed

definition killed_exec :: "nat \<Rightarrow> string list \<Rightarrow> subprocess" where
  "killed_exec n args = silent_process\<lparr>sp_waitErr := Some (ErrExit ''signal: killed''), sp_ctxDone := True\<rparr>"

theorem stop_reports_error_witness:
  "map_option lp_outbox (finish_invocation sample_env (sample_msg ''hi'') ''hi''
      (outcome_of (fst (provider_invoke (ClaudeProvider 0 3) ''p.md'' killed_exec
        (sample_invoke\<lparr>iq_SessionID := []\<rparr>)))) sample_loop) =
    Some [text_message (sample_msg ''hi'') ''Error: signal: killed'']"
proof -
  have "lp_busOpen sample_loop" "lp_outbox sample_loop = []"
    by (simp_all add: sample_loop_def)
  with stop_reports_error [OF _ _ _ _ _ refl, of killed_exec "sample_invoke\<lparr>iq_SessionID := []\<rparr>" "''p.md''" sample_loop
    sample_env "sample_msg ''hi''" "''hi''" 0 3]
  show ?thesis
    by (simp add: killed_exec_def silent_process_def)
qed

end
