(* ===== verification/Search_Cache.thy ===== *)
theory Search_Cache
  imports Complex_Main Prelude Go_Strings "HOL-Library.Finite_Map"
begin

text \<open>
  \<open>pkg/skills/search_cache.go\<close>: a bounded cache of search results with least-recently-used eviction,
  expiry and approximate hits by the similarity of trigram sets. Times are arguments; the order in
  which Go enumerates the map is the argument \<open>keys\<close>. Quotients of similarities are compared
  exactly: two different quotients of numbers below 2 to the 26 differ by more than the rounding
  of \<open>float64\<close>, and so does such a quotient from 0.7.
\<close>

subsection \<open>Trigrams\<close>

text \<open>\<open>uint32(s[i])<<16|uint32(s[i+1])<<8|uint32(s[i+2])\<close> for all positions.\<close>

fun raw_trigrams :: "string \<Rightarrow> nat list" where
  "raw_trigrams (a # b # c # s) = (of_char a * 65536 + of_char b * 256 + of_char c) # raw_trigrams (b # c # s)"
| "raw_trigrams _ = []"

text \<open>Sorting, and the loop that keeps an element when it differs from the one before.\<close>

definition build_trigrams :: "string \<Rightarrow> nat list" where
  "build_trigrams s = remdups_adj (sort (raw_trigrams s))"

fun count_common :: "nat list \<Rightarrow> nat list \<Rightarrow> nat" where
  "count_common (x # xs) (y # ys) =
    (if x = y then Suc (count_common xs ys)
     else if x < y then count_common xs (y # ys)
     else count_common (x # xs) ys)"
| "count_common _ _ = 0"

definition jaccard_similarity :: "nat list \<Rightarrow> nat list \<Rightarrow> rat" where
  "jaccard_similarity a b =
    (if a = [] \<and> b = [] then 1
     else of_nat (count_common a b) / of_nat (length a + length b - count_common a b))"

lemma count_common_card:
  "sorted a \<Longrightarrow> distinct a \<Longrightarrow> sorted b \<Longrightarrow> distinct b \<Longrightarrow> count_common a b = card (set a \<inter> set b)"
proof (induction a b rule: count_common.induct)
  case (1 x xs y ys)
  then show ?case
    by (auto simp: strict_sorted_iff [symmetric] Int_insert_left Int_insert_right)
qed auto

lemma distinct_remdups_adj: "sorted xs \<Longrightarrow> distinct (remdups_adj xs)"
  by (induction xs rule: remdups_adj.induct) (auto simp: less_le)

lemma trigrams_sorted: "sorted (build_trigrams s)" "distinct (build_trigrams s)"
  "set (build_trigrams s) = set (raw_trigrams s)"
  by (simp_all add: build_trigrams_def sorted_remdups_adj distinct_remdups_adj)

text \<open>
  The merge of the two sorted lists computes the Jaccard index of the sets of trigrams of the
  two queries: the size of their intersection divided by that of their union.
\<close>

theorem jaccard_of_trigrams:
  "jaccard_similarity (build_trigrams s) (build_trigrams t) =
    (let A = set (raw_trigrams s); B = set (raw_trigrams t)
     in if A = {} \<and> B = {} then 1 else of_nat (card (A \<inter> B)) / of_nat (card (A \<union> B)))"
proof -
  let ?A = "set (raw_trigrams s)" and ?B = "set (raw_trigrams t)"
  have len: "length (build_trigrams u) = card (set (raw_trigrams u))" for u
    using trigrams_sorted [of u] by (metis distinct_card)
  have "count_common (build_trigrams s) (build_trigrams t) = card (?A \<inter> ?B)"
    by (simp add: count_common_card trigrams_sorted)
  moreover have "card (?A \<union> ?B) = card ?A + card ?B - card (?A \<inter> ?B)"
    using card_Un_Int [of ?A ?B] by simp
  moreover have "build_trigrams u = [] \<longleftrightarrow> set (raw_trigrams u) = {}" for u
    using trigrams_sorted(3) [of u] by auto
  ultimately show ?thesis
    by (simp add: jaccard_similarity_def Let_def len)
qed

subsection \<open>The cache\<close>

record 'r cache_entry =
  ce_query :: string
  ce_trigrams :: "nat list"
  ce_results :: 'r
  ce_createdAt :: int

record 'r search_cache =
  sc_entries :: "(string, 'r cache_entry) fmap"
  sc_order :: "string list"
  sc_maxEntries :: int
  sc_ttl :: int

definition new_search_cache :: "int \<Rightarrow> int \<Rightarrow> 'r search_cache" where
  "new_search_cache maxEntries ttl =
    \<lparr>sc_entries = fmempty, sc_order = [], sc_maxEntries = (if maxEntries \<le> 0 then 50 else maxEntries),
     sc_ttl = (if ttl \<le> 0 then 5 * 60 * 1000000000 else ttl)\<rparr>"

definition normalize_query :: "unicode \<Rightarrow> string \<Rightarrow> string" where
  "normalize_query U q = to_lower U (trim_space q)"

definition unexpired :: "'r search_cache \<Rightarrow> int \<Rightarrow> 'r cache_entry \<Rightarrow> bool" where
  "unexpired sc now e \<longleftrightarrow> now - ce_createdAt e < sc_ttl sc"

definition move_to_end :: "string \<Rightarrow> 'r search_cache \<Rightarrow> 'r search_cache" where
  "move_to_end key sc = sc\<lparr>sc_order := remove1 key (sc_order sc) @ [key]\<rparr>"

text \<open>The body of the loop over the map: the best similarity so far and its entry.\<close>

definition better :: "'r search_cache \<Rightarrow> int \<Rightarrow> nat list \<Rightarrow> string \<Rightarrow> rat \<times> 'r cache_entry option \<Rightarrow>
    rat \<times> 'r cache_entry option" where
  "better sc now queryTrigrams key = (\<lambda>(bestSim, bestEntry).
    case fmlookup (sc_entries sc) key of
      None \<Rightarrow> (bestSim, bestEntry)
    | Some e \<Rightarrow>
        if \<not> unexpired sc now e then (bestSim, bestEntry)
        else let sim = jaccard_similarity queryTrigrams (ce_trigrams e) in
          if sim > bestSim then (sim, Some e) else (bestSim, bestEntry))"

definition cache_get :: "unicode \<Rightarrow> string list \<Rightarrow> int \<Rightarrow> string \<Rightarrow> 'r search_cache \<Rightarrow> 'r option \<times> 'r search_cache" where
  "cache_get U keys now query sc =
    (let normalized = normalize_query U query in
     if normalized = [] then (None, sc)
     else
       let similar =
         (case fold (better sc now (build_trigrams normalized)) keys (0, None) of
            (bestSim, Some e) \<Rightarrow>
              if bestSim \<ge> 7 / 10 then (Some (ce_results e), move_to_end (ce_query e) sc) else (None, sc)
          | (_, None) \<Rightarrow> (None, sc))
       in case fmlookup (sc_entries sc) normalized of
            Some e \<Rightarrow> if unexpired sc now e then (Some (ce_results e), move_to_end normalized sc) else similar
          | None \<Rightarrow> similar)"

definition evict_expired :: "int \<Rightarrow> 'r search_cache \<Rightarrow> 'r search_cache" where
  "evict_expired now sc =
    (let keep = (\<lambda>key. case fmlookup (sc_entries sc) key of None \<Rightarrow> False | Some e \<Rightarrow> unexpired sc now e) in
     sc\<lparr>sc_entries := fold (\<lambda>key m. if keep key then m else fmdrop key m) (sc_order sc) (sc_entries sc),
        sc_order := filter keep (sc_order sc)\<rparr>)"

text \<open>The loop that makes room, on the order.\<close>

fun evict_lru :: "int \<Rightarrow> (string, 'r cache_entry) fmap \<Rightarrow> string list \<Rightarrow> (string, 'r cache_entry) fmap \<times> string list" where
  "evict_lru maxEntries m [] = (m, [])"
| "evict_lru maxEntries m (oldest # order) =
    (if int (fcard (fmdom m)) \<ge> maxEntries then evict_lru maxEntries (fmdrop oldest m) order
     else (m, oldest # order))"

definition cache_put :: "unicode \<Rightarrow> int \<Rightarrow> string \<Rightarrow> 'r \<Rightarrow> 'r search_cache \<Rightarrow> 'r search_cache" where
  "cache_put U now query results sc =
    (let normalized = normalize_query U query in
     if normalized = [] then sc
     else
       let e = \<lparr>ce_query = normalized, ce_trigrams = build_trigrams normalized, ce_results = results, ce_createdAt = now\<rparr>;
           sc1 = evict_expired now sc
       in if fmlookup (sc_entries sc1) normalized \<noteq> None
          then move_to_end normalized (sc1\<lparr>sc_entries := fmupd normalized e (sc_entries sc1)\<rparr>)
          else
            let (m, order) = evict_lru (sc_maxEntries sc1) (sc_entries sc1) (sc_order sc1)
            in sc1\<lparr>sc_entries := fmupd normalized e m, sc_order := order @ [normalized]\<rparr>)"

definition cache_len :: "'r search_cache \<Rightarrow> nat" where
  "cache_len sc = fcard (fmdom (sc_entries sc))"

subsection \<open>The invariant\<close>

text \<open>
  The order lists the keys of the map, each once; there are at most \<open>maxEntries\<close>; every entry knows
  its own key and the trigrams of it.
\<close>

definition cache_inv :: "'r search_cache \<Rightarrow> bool" where
  "cache_inv sc \<longleftrightarrow> distinct (sc_order sc) \<and> fset_of_list (sc_order sc) = fmdom (sc_entries sc) \<and>
    0 < sc_maxEntries sc \<and> 0 < sc_ttl sc \<and> int (length (sc_order sc)) \<le> sc_maxEntries sc \<and>
    (\<forall>key e. fmlookup (sc_entries sc) key = Some e \<longrightarrow>
      ce_query e = key \<and> ce_trigrams e = build_trigrams key)"

lemma cache_inv_new: "cache_inv (new_search_cache maxEntries ttl)"
  by (simp add: cache_inv_def new_search_cache_def)

lemma cache_inv_len: "cache_inv sc \<Longrightarrow> cache_len sc = length (sc_order sc)"
  unfolding cache_inv_def cache_len_def by (metis distinct_card fcard.rep_eq fset_of_list.rep_eq)

lemma key_in_order: "cache_inv sc \<Longrightarrow> fmlookup (sc_entries sc) key = Some e \<Longrightarrow> key \<in> set (sc_order sc)"
  unfolding cache_inv_def by (metis fmdomI fset_of_list_elem)

lemma cache_inv_move:
  assumes "cache_inv sc" and "key \<in> set (sc_order sc)"
  shows "cache_inv (move_to_end key sc)"
proof -
  have "fset_of_list (remove1 key (sc_order sc) @ [key]) = fset_of_list (sc_order sc)"
    using assms by (intro fset_eqI) (auto simp: fset_of_list_elem cache_inv_def)
  moreover have "length (remove1 key (sc_order sc) @ [key]) = length (sc_order sc)"
    using assms(2) by (simp add: length_remove1) (metis length_pos_if_in_set Suc_pred)
  ultimately show ?thesis
    using assms by (simp add: cache_inv_def move_to_end_def)
qed

lemma better_entry:
  assumes "fold (better sc now q) keys (s0, b0) = (s, Some e)"
    and "b0 \<noteq> Some e \<or> (\<exists>k. fmlookup (sc_entries sc) k = Some e \<and> unexpired sc now e \<and> s0 = jaccard_similarity q (ce_trigrams e))"
  shows "\<exists>k. fmlookup (sc_entries sc) k = Some e \<and> unexpired sc now e \<and> s = jaccard_similarity q (ce_trigrams e)"
  using assms
proof (induction keys arbitrary: s0 b0)
  case (Cons key keys)
  show ?case
    by (rule Cons.IH [of "fst (better sc now q key (s0, b0))" "snd (better sc now q key (s0, b0))"])
      (use Cons.prems in \<open>auto simp: better_def Let_def split: option.splits\<close>)
qed auto

text \<open>What a lookup returns, and where the key it used goes.\<close>

lemma cache_get_cases:
  assumes "cache_get U keys now query sc = (r, sc')" and "cache_inv sc"
  shows "(r = None \<and> sc' = sc) \<or>
    (\<exists>key e. r = Some (ce_results e) \<and> sc' = move_to_end key sc \<and> fmlookup (sc_entries sc) key = Some e \<and>
      unexpired sc now e \<and> normalize_query U query \<noteq> [] \<and>
      (key = normalize_query U query \<or>
       7 / 10 \<le> jaccard_similarity (build_trigrams (normalize_query U query)) (build_trigrams key)))"
proof -
  let ?q = "normalize_query U query"
  let ?fold = "fold (better sc now (build_trigrams ?q)) keys (0, None)"
  have similar: "\<exists>key. fmlookup (sc_entries sc) key = Some e \<and> ce_query e = key \<and> unexpired sc now e \<and>
      s = jaccard_similarity (build_trigrams ?q) (build_trigrams key)" if fold: "?fold = (s, Some e)" for s e
  proof -
    obtain key where key: "fmlookup (sc_entries sc) key = Some e" "unexpired sc now e"
        "s = jaccard_similarity (build_trigrams ?q) (ce_trigrams e)"
      using better_entry [OF fold] by auto
    with assms(2) have "ce_query e = key" "ce_trigrams e = build_trigrams key"
      by (auto simp: cache_inv_def)
    with key show ?thesis by auto
  qed
  show ?thesis
  proof (cases "\<exists>e. ?q \<noteq> [] \<and> fmlookup (sc_entries sc) ?q = Some e \<and> unexpired sc now e")
    case True
    then obtain e where e: "?q \<noteq> []" "fmlookup (sc_entries sc) ?q = Some e" "unexpired sc now e" by blast
    with assms(1) have "r = Some (ce_results e)" "sc' = move_to_end ?q sc"
      by (simp_all add: cache_get_def Let_def)
    with e show ?thesis by blast
  next
    case False
    then have miss: "(r, sc') = (None, sc) \<or> ?q \<noteq> [] \<and>
        (r, sc') = (case ?fold of
            (bestSim, Some e) \<Rightarrow>
              if bestSim \<ge> 7 / 10 then (Some (ce_results e), move_to_end (ce_query e) sc) else (None, sc)
          | (_, None) \<Rightarrow> (None, sc))"
      using assms(1) unfolding cache_get_def Let_def by (cases "?q = []") (auto split: option.splits)
    obtain s b where fold: "?fold = (s, b)" by (metis surj_pair)
    show ?thesis
    proof (cases b)
      case None
      with miss fold show ?thesis by auto
    next
      case (Some e)
      with similar [of s e] fold miss show ?thesis by (auto split: if_splits)
    qed
  qed
qed

lemma cache_inv_get:
  assumes "cache_inv sc"
  shows "cache_inv (snd (cache_get U keys now query sc))"
proof -
  obtain r sc' where get: "cache_get U keys now query sc = (r, sc')" by (metis surj_pair)
  from cache_get_cases [OF this assms] cache_inv_move [OF assms key_in_order [OF assms]] assms show ?thesis
    by (auto simp: get)
qed

lemma fold_drop_keys:
  "fmlookup (fold (\<lambda>key m. if keep key then m else fmdrop key m) ks m) k =
    (if k \<in> set ks \<and> \<not> keep k then None else fmlookup m k)"
  by (induction ks arbitrary: m) auto

lemma evict_expired_lookup:
  assumes "cache_inv sc"
  shows "fmlookup (sc_entries (evict_expired now sc)) key =
    (case fmlookup (sc_entries sc) key of None \<Rightarrow> None | Some e \<Rightarrow> if unexpired sc now e then Some e else None)"
  using key_in_order [OF assms, of key]
  by (auto simp: evict_expired_def Let_def fold_drop_keys split: option.split)

lemma cache_inv_evict_expired:
  assumes "cache_inv sc"
  shows "cache_inv (evict_expired now sc)"
proof -
  have order: "sc_order (evict_expired now sc) = filter (\<lambda>key. case fmlookup (sc_entries sc) key of
      None \<Rightarrow> False | Some e \<Rightarrow> unexpired sc now e) (sc_order sc)"
    and rest: "sc_maxEntries (evict_expired now sc) = sc_maxEntries sc" "sc_ttl (evict_expired now sc) = sc_ttl sc"
    by (simp_all add: evict_expired_def Let_def)
  have "fset_of_list (sc_order (evict_expired now sc)) = fmdom (sc_entries (evict_expired now sc))"
  proof (rule fset_eqI)
    fix key
    show "key |\<in>| fset_of_list (sc_order (evict_expired now sc)) \<longleftrightarrow> key |\<in>| fmdom (sc_entries (evict_expired now sc))"
      using key_in_order [OF assms, of key] evict_expired_lookup [OF assms, of now key]
      by (auto simp: order fset_of_list_elem fmlookup_dom_iff split: option.splits if_splits)
  qed
  moreover have "int (length (sc_order (evict_expired now sc))) \<le> sc_maxEntries sc"
    using assms length_filter_le [of _ "sc_order sc"] unfolding order cache_inv_def by (smt (verit) of_nat_le_iff)
  ultimately show ?thesis
    using assms evict_expired_lookup [OF assms] unfolding cache_inv_def rest
    by (auto simp: order split: option.splits if_splits)
qed

text \<open>Making room drops a prefix of the order.\<close>

lemma evict_lru_spec:
  assumes "evict_lru maxEntries m order = (m', order')" and "distinct order" and "fset_of_list order = fmdom m"
  shows "(\<exists>dropped. order = dropped @ order') \<and> fset_of_list order' = fmdom m' \<and>
    (order' = [] \<or> int (length order') < maxEntries) \<and>
    (\<forall>key. fmlookup m' key = (if key \<in> set order' then fmlookup m key else None))"
  using assms
proof (induction maxEntries m order rule: evict_lru.induct)
  case (1 maxEntries m)
  then show ?case
    by (auto simp: fset_of_list_elem)
next
  case (2 maxEntries m oldest order)
  show ?case
  proof (cases "int (fcard (fmdom m)) \<ge> maxEntries")
    case True
    have "fset_of_list order = fmdom (fmdrop oldest m)"
      using 2(3,4) by (auto simp: fset_eq_iff fset_of_list_elem)
    with 2 True obtain dropped where "order = dropped @ order'" "fset_of_list order' = fmdom m'"
        "order' = [] \<or> int (length order') < maxEntries"
        "\<forall>key. fmlookup m' key = (if key \<in> set order' then fmlookup (fmdrop oldest m) key else None)"
      by auto
    moreover have "oldest \<notin> set order'"
      using 2(3) \<open>order = dropped @ order'\<close> by auto
    ultimately show ?thesis by (metis append_Cons fmlookup_drop)
  next
    case False
    have "fcard (fmdom m) = length (oldest # order)"
      using 2(3) unfolding 2(4) [symmetric] by (metis distinct_card fcard.rep_eq fset_of_list.rep_eq)
    with False 2 show ?thesis
      by (auto simp: fset_of_list_elem)
  qed
qed

lemma cache_put_entry:
  assumes "normalize_query U query \<noteq> []" and "cache_inv sc"
  shows "cache_inv (cache_put U now query results sc) \<and>
    fmlookup (sc_entries (cache_put U now query results sc)) (normalize_query U query) =
      Some \<lparr>ce_query = normalize_query U query, ce_trigrams = build_trigrams (normalize_query U query),
            ce_results = results, ce_createdAt = now\<rparr> \<and>
    sc_ttl (cache_put U now query results sc) = sc_ttl sc"
proof -
  let ?q = "normalize_query U query"
  let ?e = "\<lparr>ce_query = ?q, ce_trigrams = build_trigrams ?q, ce_results = results, ce_createdAt = now\<rparr>"
  define sc1 where "sc1 = evict_expired now sc"
  have inv1: "cache_inv sc1"
    unfolding sc1_def by (rule cache_inv_evict_expired [OF assms(2)])
  have ttl: "sc_ttl sc1 = sc_ttl sc" by (simp add: sc1_def evict_expired_def Let_def)
  show ?thesis
  proof (cases "fmlookup (sc_entries sc1) ?q")
    case (Some old)
    let ?sc2 = "sc1\<lparr>sc_entries := fmupd ?q ?e (sc_entries sc1)\<rparr>"
    have mem: "?q \<in> set (sc_order sc1)" by (rule key_in_order [OF inv1 Some])
    have "cache_inv ?sc2"
      using inv1 mem unfolding cache_inv_def by (auto simp: fset_eq_iff fset_of_list_elem)
    then have "cache_inv (move_to_end ?q ?sc2)"
      using mem by (intro cache_inv_move) simp_all
    moreover have "cache_put U now query results sc = move_to_end ?q ?sc2"
      using assms(1) Some by (simp add: cache_put_def Let_def sc1_def [symmetric])
    ultimately show ?thesis by (simp add: move_to_end_def ttl)
  next
    case None
    obtain m order where ev: "evict_lru (sc_maxEntries sc1) (sc_entries sc1) (sc_order sc1) = (m, order)"
      by (metis surj_pair)
    have put: "cache_put U now query results sc =
        sc1\<lparr>sc_entries := fmupd ?q ?e m, sc_order := order @ [?q]\<rparr>"
      using assms(1) None ev by (simp add: cache_put_def Let_def sc1_def [symmetric])
    from evict_lru_spec [OF ev] inv1 obtain dropped where
      ord: "sc_order sc1 = dropped @ order" "fset_of_list order = fmdom m"
      "order = [] \<or> int (length order) < sc_maxEntries sc1"
      "\<And>key. fmlookup m key = (if key \<in> set order then fmlookup (sc_entries sc1) key else None)"
      by (auto simp: cache_inv_def)
    have "?q \<notin> set (sc_order sc1)"
      using None inv1 by (metis cache_inv_def fmdom_notI fset_of_list_elem)
    then have "distinct (order @ [?q])"
      using inv1 ord(1) by (auto simp: cache_inv_def)
    moreover have "fset_of_list (order @ [?q]) = fmdom (fmupd ?q ?e m)"
      using ord(2) by simp
    moreover have "int (length (order @ [?q])) \<le> sc_maxEntries sc1"
      using ord(3) inv1 by (auto simp: cache_inv_def)
    ultimately have "cache_inv (cache_put U now query results sc)"
      using inv1 ord(4) unfolding put cache_inv_def by (auto split: if_splits)
    then show ?thesis by (simp add: put ttl)
  qed
qed

lemma cache_inv_put: "cache_inv sc \<Longrightarrow> cache_inv (cache_put U now query results sc)"
  using cache_put_entry [of U query sc now results] by (cases "normalize_query U query = []") (auto simp: cache_put_def)

subsection \<open>Properties\<close>

datatype 'r cache_op =
    OpGet "string list" int string
  | OpPut int string 'r

fun run_cache :: "unicode \<Rightarrow> 'r cache_op \<Rightarrow> 'r search_cache \<Rightarrow> 'r search_cache" where
  "run_cache U (OpGet keys now query) sc = snd (cache_get U keys now query sc)"
| "run_cache U (OpPut now query results) sc = cache_put U now query results sc"

text \<open>
  C19. However a new cache is used, it never holds more entries than configured (50 without a
  positive configuration), and the eviction order lists exactly the cached queries, each once.
\<close>

theorem cache_bounded:
  "let sc = fold (run_cache U) ops (new_search_cache maxEntries ttl :: 'a search_cache)
   in int (cache_len sc) \<le> (if maxEntries \<le> 0 then 50 else maxEntries) \<and>
     distinct (sc_order sc) \<and> fset_of_list (sc_order sc) = fmdom (sc_entries sc)"
proof -
  have step: "cache_inv (run_cache U op sc) \<and> sc_maxEntries (run_cache U op sc) = sc_maxEntries sc"
    if "cache_inv sc" for op and sc :: "'a search_cache"
  proof (cases op)
    case (OpGet keys now query)
    obtain r sc' where get: "cache_get U keys now query sc = (r, sc')" by (metis surj_pair)
    from cache_get_cases [OF get that] cache_inv_get [OF that, of U keys now query] show ?thesis
      by (auto simp: OpGet get move_to_end_def)
  next
    case (OpPut now query results)
    with cache_inv_put [OF that] show ?thesis
      by (auto simp: cache_put_def Let_def move_to_end_def evict_expired_def split: prod.split)
  qed
  have "cache_inv (fold (run_cache U) ops sc) \<and> sc_maxEntries (fold (run_cache U) ops sc) = sc_maxEntries sc"
    if "cache_inv sc" for sc :: "'a search_cache"
    using that
  proof (induction ops arbitrary: sc)
    case (Cons op ops)
    with step [of sc op] show ?case by simp
  qed simp
  from this [OF cache_inv_new, of maxEntries ttl]
  have inv: "cache_inv (fold (run_cache U) ops (new_search_cache maxEntries ttl :: 'a search_cache))"
    and max: "sc_maxEntries (fold (run_cache U) ops (new_search_cache maxEntries ttl :: 'a search_cache)) =
      (if maxEntries \<le> 0 then 50 else maxEntries)"
    by (simp_all add: new_search_cache_def)
  from cache_inv_len [OF inv] inv max show ?thesis
    by (simp add: Let_def cache_inv_def)
qed

text \<open>
  A hit is never stale and never far off: its results were stored, less than the time to unexpired
  ago, for the same normalized query or for one whose trigrams have a Jaccard index of at least
  0.7 with it; and right after results were stored for a query, the query hits exactly them.
\<close>

theorem cache_hit_sound:
  assumes "cache_inv sc" and "cache_get U keys now query sc = (Some r, sc')"
  shows "\<exists>key e. fmlookup (sc_entries sc) key = Some e \<and> r = ce_results e \<and> now - ce_createdAt e < sc_ttl sc \<and>
      (key = normalize_query U query \<or>
       7 / 10 \<le> jaccard_similarity (build_trigrams (normalize_query U query)) (build_trigrams key)) \<and>
      fst (cache_get U keys' now' query (cache_put U now' query r' sc)) = Some r'"
proof -
  from cache_get_cases [OF assms(2,1)] obtain key e where
    hit: "r = ce_results e" "fmlookup (sc_entries sc) key = Some e" "unexpired sc now e" "normalize_query U query \<noteq> []"
      "key = normalize_query U query \<or>
       7 / 10 \<le> jaccard_similarity (build_trigrams (normalize_query U query)) (build_trigrams key)"
    by auto
  from cache_put_entry [OF hit(4) assms(1), of now' r'] assms(1)
  have "fst (cache_get U keys' now' query (cache_put U now' query r' sc)) = Some r'"
    using hit(4) by (simp add: cache_get_def Let_def unexpired_def cache_inv_def)
  with hit show ?thesis by (auto simp: unexpired_def)
qed

definition one_entry_cache :: "nat search_cache" where
  "one_entry_cache = cache_put ascii_only 100 '' Weather '' (7 :: nat) (new_search_cache 2 60)"

theorem cache_hit_sound_witness:
  "\<exists>sc'. cache_get ascii_only [''weather''] 120 ''WEATHER'' one_entry_cache = (Some 7, sc') \<and>
    fst (cache_get ascii_only [] 200 ''WEATHER'' (cache_put ascii_only 200 ''WEATHER'' 9 one_entry_cache)) = Some 9"
proof -
  have inv: "cache_inv one_entry_cache"
    unfolding one_entry_cache_def by (rule cache_inv_put [OF cache_inv_new])
  have q: "normalize_query ascii_only '' Weather '' = ''weather''" "normalize_query ascii_only ''WEATHER'' = ''weather''"
    by code_simp+
  have "fmlookup (sc_entries one_entry_cache) ''weather'' = Some \<lparr>ce_query = ''weather'',
      ce_trigrams = build_trigrams ''weather'', ce_results = 7, ce_createdAt = 100\<rparr>" "sc_ttl one_entry_cache = 60"
    using cache_put_entry [of ascii_only "'' Weather ''" "new_search_cache 2 60" 100 "7 :: nat", OF _ cache_inv_new] q(1)
    by (simp_all add: one_entry_cache_def) (simp add: new_search_cache_def)
  then obtain sc' where get: "cache_get ascii_only [''weather''] 120 ''WEATHER'' one_entry_cache = (Some 7, sc')"
    using q(2) by (simp add: cache_get_def Let_def unexpired_def)
  from cache_hit_sound [OF inv get, of "[]" 200 9] get show ?thesis by blast
qed

end
