(* ===== verification/Skills.thy ===== *)
theory Skills
  imports Go_Path Json_Struct Go_Numbers
begin

text \<open>
  \<open>pkg/skills/loader.go\<close>: the skills found in the workspace, global and builtin directories, the
  front matter of their \<open>SKILL.md\<close> and the lookup of one skill. The file system is an argument:
  directory listings, what \<open>Stat\<close> finds, and file contents.
\<close>

subsection \<open>Names and descriptions\<close>

record skill_info =
  si_Name :: string
  si_Path :: string
  si_Source :: string
  si_Description :: string

definition MaxNameLength :: nat where "MaxNameLength = 64"
definition MaxDescriptionLength :: nat where "MaxDescriptionLength = 1024"

definition is_alnum :: "char \<Rightarrow> bool" where
  "is_alnum c \<longleftrightarrow> (let n = of_char c :: nat in
     (97 \<le> n \<and> n \<le> 122) \<or> (65 \<le> n \<and> n \<le> 90) \<or> (48 \<le> n \<and> n \<le> 57))"

text \<open>The pattern \<open>^[a-zA-Z0-9]+(-[a-zA-Z0-9]+)*$\<close>.\<close>

definition name_pattern :: "string \<Rightarrow> bool" where
  "name_pattern s \<longleftrightarrow> list_all (\<lambda>p. p \<noteq> [] \<and> list_all is_alnum p) (split_on CHR ''-'' s)"

text \<open>The joined errors of \<open>validate\<close>, none for a valid skill.\<close>

definition validate_skill :: "skill_info \<Rightarrow> string list" where
  "validate_skill info =
    (if si_Name info = [] then [''name is required'']
     else
       (if length (si_Name info) > MaxNameLength then [''name exceeds 64 characters''] else []) @
       (if \<not> name_pattern (si_Name info) then [''name must be alphanumeric with hyphens''] else [])) @
    (if si_Description info = [] then [''description is required'']
     else if length (si_Description info) > MaxDescriptionLength then [''description exceeds 1024 character'']
     else [])"

subsection \<open>Front matter\<close>

text \<open>
  What may follow a line end at the start of a text, in the order the pattern \<open>(?:\r\n|\n|\r)\<close>
  prefers; the first choice with which the rest of the pattern matches is taken.
\<close>

definition crlf :: string where "crlf = [CHR 0x0D, CHR 0x0A]"

definition after_newline :: "string \<Rightarrow> string list" where
  "after_newline s =
    map (\<lambda>w. drop (length w) s) (filter (\<lambda>w. has_prefix w s) [crlf, [CHR 0x0A], [CHR 0x0D]])"

text \<open>\<open>(.*?)\<close>, a line end and \<open>---\<close>: the shortest block, and what follows it.\<close>

fun lazy_block :: "string \<Rightarrow> (string \<times> string) option" where
  "lazy_block s =
    (case List.find (has_prefix ''---'') (after_newline s) of
       Some r \<Rightarrow> Some ([], drop 3 r)
     | None \<Rightarrow>
         (case s of
            [] \<Rightarrow> None
          | c # t \<Rightarrow> (case lazy_block t of None \<Rightarrow> None | Some (a, r) \<Rightarrow> Some (c # a, r))))"

definition frontmatter :: "string \<Rightarrow> (string \<times> string) option" where
  "frontmatter content =
    (if has_prefix ''---'' content
     then (case filter (\<lambda>m. m \<noteq> None) (map lazy_block (after_newline (drop 3 content))) of
             [] \<Rightarrow> None | m # _ \<Rightarrow> m)
     else None)"

definition extract_frontmatter :: "string \<Rightarrow> string" where
  "extract_frontmatter content = (case frontmatter content of None \<Rightarrow> [] | Some (blk, _) \<Rightarrow> blk)"

text \<open>The stripped text also loses the line ends after the block.\<close>

definition strip_frontmatter :: "string \<Rightarrow> string" where
  "strip_frontmatter content =
    (case frontmatter content of
       None \<Rightarrow> content
     | Some (_, rest) \<Rightarrow> dropWhile (\<lambda>c. c = CHR 0x0D \<or> c = CHR 0x0A) rest)"

text \<open>\<open>parseSimpleYAML\<close>; \<open>strings.Trim\<close> takes quotes of both kinds from both ends.\<close>

definition is_quote :: "char \<Rightarrow> bool" where
  "is_quote c \<longleftrightarrow> c = CHR 0x22 \<or> c = CHR 0x27"

definition trim_quotes :: "string \<Rightarrow> string" where
  "trim_quotes s = rev (dropWhile is_quote (rev (dropWhile is_quote s)))"

definition yaml_line :: "string \<Rightarrow> (string \<rightharpoonup> string) \<Rightarrow> (string \<rightharpoonup> string)" where
  "yaml_line raw m =
    (let line = trim_space raw in
     if line = [] \<or> has_prefix ''#'' line then m
     else
       (case split_n2 CHR '':'' line of
          [k, v] \<Rightarrow> m(trim_space k \<mapsto> trim_quotes (trim_space v))
        | _ \<Rightarrow> m))"

definition parse_simple_yaml :: "string \<Rightarrow> (string \<rightharpoonup> string)" where
  "parse_simple_yaml content =
    fold yaml_line
      (split_on CHR 0x0A (replace_all [CHR 0x0D] [CHR 0x0A] (replace_all crlf [CHR 0x0A] content))) Map.empty"

subsection \<open>Metadata\<close>

record skill_metadata =
  sm_Name :: string
  sm_Description :: string

definition metadata_fields :: "skill_metadata field_table" where
  "metadata_fields =
    [(''name'', set_string (\<lambda>s r. r\<lparr>sm_Name := s\<rparr>)),
     (''description'', set_string (\<lambda>s r. r\<lparr>sm_Description := s\<rparr>))]"

record skill_fs =
  sf_readDir :: "string \<Rightarrow> (string \<times> bool) list option"
  sf_stat :: "string \<Rightarrow> bool"
  sf_readFile :: "string \<Rightarrow> string option"

definition map_get :: "(string \<rightharpoonup> string) \<Rightarrow> string \<Rightarrow> string" where
  "map_get m k = (case m k of None \<Rightarrow> [] | Some v \<Rightarrow> v)"

definition get_skill_metadata :: "skill_fs \<Rightarrow> string \<Rightarrow> skill_metadata option" where
  "get_skill_metadata fs skillPath =
    (case sf_readFile fs skillPath of
       None \<Rightarrow> None
     | Some content \<Rightarrow>
         let fm = extract_frontmatter content;
             empty = \<lparr>sm_Name = [], sm_Description = []\<rparr>;
             yaml = (let m = parse_simple_yaml fm in
               \<lparr>sm_Name = map_get m ''name'', sm_Description = map_get m ''description''\<rparr>)
         in
           if fm = [] then Some (empty\<lparr>sm_Name := base_name (dir_name skillPath)\<rparr>)
           else
             (case unmarshal fm of
                None \<Rightarrow> Some yaml
              | Some v \<Rightarrow>
                  (case decode_struct metadata_fields v empty of
                     (meta, False) \<Rightarrow> Some meta
                   | (_, True) \<Rightarrow> Some yaml)))"

subsection \<open>The loader\<close>

record skills_loader =
  sl_workspace :: string
  sl_workspaceSkills :: string
  sl_globalSkills :: string
  sl_builtinSkills :: string

definition new_skills_loader :: "string \<Rightarrow> string \<Rightarrow> string \<Rightarrow> skills_loader" where
  "new_skills_loader workspace globalSkills builtinSkills =
    \<lparr>sl_workspace = workspace, sl_workspaceSkills = path_join [workspace, ''skills''],
     sl_globalSkills = globalSkills, sl_builtinSkills = builtinSkills\<rparr>"

definition add_root :: "string \<Rightarrow> string list \<Rightarrow> string list" where
  "add_root root out =
    (let trimmed = trim_space root in
     if trimmed = [] then out
     else let c = clean trimmed in if c \<in> set out then out else out @ [c])"

definition skill_roots :: "skills_loader \<Rightarrow> string list" where
  "skill_roots sl = fold add_root [sl_workspaceSkills sl, sl_globalSkills sl, sl_builtinSkills sl] []"

text \<open>One directory entry: the skill it holds, if it is valid.\<close>

definition entry_skill :: "skill_fs \<Rightarrow> string \<Rightarrow> string \<Rightarrow> string \<times> bool \<Rightarrow> skill_info option" where
  "entry_skill fs dir source = (\<lambda>(name, isDir).
    if \<not> isDir then None
    else
      let skillFile = path_join [dir, name, ''SKILL.md''] in
      if \<not> sf_stat fs skillFile then None
      else
        let info = \<lparr>si_Name = name, si_Path = skillFile, si_Source = source, si_Description = []\<rparr>;
            info = (case get_skill_metadata fs skillFile of
              None \<Rightarrow> info
            | Some meta \<Rightarrow> info\<lparr>si_Description := sm_Description meta, si_Name := sm_Name meta\<rparr>)
        in if validate_skill info \<noteq> [] then None else Some info)"

text \<open>The set of names seen so far is that of the skills listed so far.\<close>

definition add_skill :: "skill_info option \<Rightarrow> skill_info list \<times> string set \<Rightarrow> skill_info list \<times> string set" where
  "add_skill found = (\<lambda>(skills, seen).
    case found of
      None \<Rightarrow> (skills, seen)
    | Some info \<Rightarrow>
        if si_Name info \<in> seen then (skills, seen)
        else (skills @ [info], insert (si_Name info) seen))"

definition add_skills ::
  "skill_fs \<Rightarrow> string \<Rightarrow> string \<Rightarrow> skill_info list \<times> string set \<Rightarrow> skill_info list \<times> string set" where
  "add_skills fs dir source acc =
    (if dir = [] then acc
     else (case sf_readDir fs dir of
       None \<Rightarrow> acc
     | Some dirs \<Rightarrow> fold (\<lambda>d. add_skill (entry_skill fs dir source d)) dirs acc))"

definition list_skills :: "skill_fs \<Rightarrow> skills_loader \<Rightarrow> skill_info list" where
  "list_skills fs sl =
    fst (add_skills fs (sl_builtinSkills sl) ''builtin''
      (add_skills fs (sl_globalSkills sl) ''global''
        (add_skills fs (sl_workspaceSkills sl) ''workspace'' ([], {}))))"

text \<open>\<open>LoadSkill\<close>: the first of the three directories whose file can be read.\<close>

definition load_from :: "skill_fs \<Rightarrow> string \<Rightarrow> string \<Rightarrow> string option" where
  "load_from fs dir name =
    (if dir = [] then None else sf_readFile fs (path_join [dir, name, ''SKILL.md'']))"

definition load_skill :: "skill_fs \<Rightarrow> skills_loader \<Rightarrow> string \<Rightarrow> string option" where
  "load_skill fs sl name =
    (case load_from fs (sl_workspaceSkills sl) name of
       Some content \<Rightarrow> Some (strip_frontmatter content)
     | None \<Rightarrow>
         (case load_from fs (sl_globalSkills sl) name of
            Some content \<Rightarrow> Some (strip_frontmatter content)
          | None \<Rightarrow> map_option strip_frontmatter (load_from fs (sl_builtinSkills sl) name)))"

definition escape_xml :: "string \<Rightarrow> string" where
  "escape_xml s =
    (let s = replace_all ''&'' ''&amp;'' s; s = replace_all ''<'' ''&lt;'' s in replace_all ''>'' ''&gt;'' s)"

declare lazy_block.simps [simp del]

subsection \<open>Listing\<close>

text \<open>The valid skills of a directory, and of all three in the order of priority.\<close>

definition dir_skills :: "skill_fs \<Rightarrow> string \<Rightarrow> string \<Rightarrow> skill_info list" where
  "dir_skills fs dir source =
    (if dir = [] then []
     else case sf_readDir fs dir of None \<Rightarrow> [] | Some dirs \<Rightarrow> List.map_filter (entry_skill fs dir source) dirs)"

definition all_skills :: "skill_fs \<Rightarrow> skills_loader \<Rightarrow> skill_info list" where
  "all_skills fs sl =
    dir_skills fs (sl_workspaceSkills sl) ''workspace'' @
    dir_skills fs (sl_globalSkills sl) ''global'' @
    dir_skills fs (sl_builtinSkills sl) ''builtin''"

definition first_named :: "string \<Rightarrow> skill_info list \<Rightarrow> skill_info option" where
  "first_named n = List.find (\<lambda>i. si_Name i = n)"

definition listing :: "skill_info list \<times> string set \<Rightarrow> skill_info list \<Rightarrow> bool" where
  "listing acc done \<longleftrightarrow>
    snd acc = si_Name ` set (fst acc) \<and> distinct (map si_Name (fst acc)) \<and>
    set (fst acc) \<subseteq> set done \<and> (\<forall>n. first_named n (fst acc) = first_named n done)"

lemma find_append: "List.find P (xs @ ys) = (case List.find P xs of None \<Rightarrow> List.find P ys | Some x \<Rightarrow> Some x)"
  by (induction xs) auto

lemma find_named: "List.find (\<lambda>i. si_Name i = n) is = None \<longleftrightarrow> n \<notin> si_Name ` set is"
  by (auto simp: find_None_not)

lemma listing_add: "listing acc done \<Longrightarrow> listing (add_skill (Some info) acc) (done @ [info])"
  by (cases acc)
    (auto simp: listing_def add_skill_def first_named_def find_append find_named split: option.splits
      dest!: spec [of _ "si_Name info"])

lemma listing_fold:
  "listing acc done \<Longrightarrow> listing (fold (\<lambda>d. add_skill (g d)) ds acc) (done @ List.map_filter g ds)"
proof (induction ds arbitrary: acc "done")
  case (Cons d ds)
  then show ?case
  proof (cases "g d")
    case (Some info)
    from Cons.IH [OF listing_add [OF Cons.prems, of info]] Some show ?thesis
      by (simp add: List.map_filter_simps)
  qed (simp add: List.map_filter_simps add_skill_def case_prod_beta)
qed (simp add: List.map_filter_simps)

lemma listing_dir: "listing acc done \<Longrightarrow> listing (add_skills fs dir source acc) (done @ dir_skills fs dir source)"
  by (auto simp: add_skills_def dir_skills_def listing_fold split: option.split)

lemma listing_all: "listing ([], {}) []"
  by (simp add: listing_def)

lemma entry_skill_valid: "entry_skill fs dir source d = Some info \<Longrightarrow> validate_skill info = []"
  by (auto simp: entry_skill_def Let_def split: if_splits prod.splits option.splits)

lemma all_skills_valid: "info \<in> set (all_skills fs sl) \<Longrightarrow> validate_skill info = []"
  by (auto simp: all_skills_def dir_skills_def List.map_filter_def split: if_splits option.splits
      dest: entry_skill_valid)

text \<open>
  C18. The list of skills has no name twice and only valid skills, and the skill listed under a name
  is the first of that name in the order of priority: one of the workspace hides one of the global
  directory, and that one a builtin one.
\<close>

theorem list_skills_priority:
  "distinct (map si_Name (list_skills fs sl)) \<and>
    list_all (\<lambda>i. validate_skill i = []) (list_skills fs sl) \<and>
    (\<forall>n. first_named n (list_skills fs sl) = first_named n (all_skills fs sl))"
proof -
  let ?acc = "add_skills fs (sl_builtinSkills sl) ''builtin''
      (add_skills fs (sl_globalSkills sl) ''global''
        (add_skills fs (sl_workspaceSkills sl) ''workspace'' ([], {})))"
  have "listing ?acc (all_skills fs sl)"
    unfolding all_skills_def
    using listing_dir [OF listing_dir [OF listing_dir [OF listing_all]]] by simp
  then show ?thesis
    unfolding list_skills_def
    by (auto simp: listing_def list_all_iff dest: all_skills_valid)
qed

text \<open>The front matter is a block between two lines of dashes at the start of the text.\<close>

lemma after_newline_split: "r \<in> set (after_newline s) \<Longrightarrow> \<exists>w \<in> {crlf, [CHR 0x0A], [CHR 0x0D]}. s = w @ r"
proof -
  assume "r \<in> set (after_newline s)"
  then obtain w where w: "w \<in> {crlf, [CHR 0x0A], [CHR 0x0D]}" "has_prefix w s" "r = drop (length w) s"
    unfolding after_newline_def set_map set_filter by auto
  from has_prefixE [OF w(2)] w show ?thesis by blast
qed

lemma dashes: "has_prefix ''---'' q \<Longrightarrow> q = ''---'' @ drop 3 q"
  using has_prefixE [of "''---''" q] by (simp add: numeral_3_eq_3)

lemma lazy_block_split:
  "lazy_block s = Some (a, r) \<Longrightarrow> \<exists>w \<in> {crlf, [CHR 0x0A], [CHR 0x0D]}. s = a @ w @ ''---'' @ r"
proof (induction s arbitrary: a rule: lazy_block.induct)
  case (1 s)
  show ?case
  proof (cases "List.find (has_prefix ''---'') (after_newline s)")
    case (Some q)
    then have "q \<in> set (after_newline s)" "has_prefix ''---'' q" by (auto dest: find_Some_set)
    moreover from this have "q = ''---'' @ drop 3 q" by (blast dest: dashes)
    moreover have "a = []" "r = drop 3 q" using 1(2) Some by (simp_all add: lazy_block.simps)
    ultimately show ?thesis using after_newline_split [of q s] by auto
  next
    case None
    with 1(2) obtain c t where s: "s = c # t" by (cases s) (auto simp: lazy_block.simps)
    with 1(2) None obtain a' where "lazy_block t = Some (a', r)" "a = c # a'"
      by (auto simp: lazy_block.simps [of "c # t"] split: option.splits)
    with 1(1) [OF None s] s show ?thesis by auto
  qed
qed

lemma frontmatter_split:
  assumes "frontmatter content = Some (b, r)"
  shows "\<exists>w \<in> {crlf, [CHR 0x0A], [CHR 0x0D]}. \<exists>w' \<in> {crlf, [CHR 0x0A], [CHR 0x0D]}.
    content = ''---'' @ w @ b @ w' @ ''---'' @ r"
proof -
  from assms have p: "has_prefix ''---'' content"
    and ne: "filter (\<lambda>m. m \<noteq> None) (map lazy_block (after_newline (drop 3 content))) \<noteq> []"
    and hd: "hd (filter (\<lambda>m. m \<noteq> None) (map lazy_block (after_newline (drop 3 content)))) = Some (b, r)"
    by (auto simp: frontmatter_def split: if_splits list.splits)
  from hd_in_set [OF ne] hd obtain q where q: "q \<in> set (after_newline (drop 3 content))" "lazy_block q = Some (b, r)"
    by auto
  moreover have "content = ''---'' @ drop 3 content" using p by (rule dashes)
  ultimately show ?thesis
    using after_newline_split [OF q(1)] lazy_block_split [OF q(2)] by auto
qed

text \<open>
  A skill is listed under the name of its front matter but looked up by the name of its directory:
  one whose front matter has another name is listed and cannot be loaded under that name.
\<close>

definition renamed_fs :: skill_fs where
  "renamed_fs = \<lparr>sf_readDir = [''/g'' \<mapsto> [(''dir-a'', True)]],
     sf_stat = \<lambda>p. p = ''/g/dir-a/SKILL.md'',
     sf_readFile = [''/g/dir-a/SKILL.md'' \<mapsto>
       ''---'' @ [CHR 0x0A] @ ''name: other'' @ [CHR 0x0A] @ ''description: d'' @ [CHR 0x0A] @ ''---'']\<rparr>"

theorem listed_not_loadable:
  "list_skills renamed_fs (new_skills_loader ''/w'' ''/g'' []) =
     [\<lparr>si_Name = ''other'', si_Path = ''/g/dir-a/SKILL.md'', si_Source = ''global'', si_Description = ''d''\<rparr>] \<and>
   load_skill renamed_fs (new_skills_loader ''/w'' ''/g'' []) ''other'' = None \<and>
   load_skill renamed_fs (new_skills_loader ''/w'' ''/g'' []) ''dir-a'' \<noteq> None"
  by code_simp

end
