(* ===== verification/Http.thy ===== *)
theory Http
  imports Prelude Go_Strings Go_Numbers
begin

text \<open>
  \<open>pkg/utils/http_retry.go\<close> and \<open>pkg/utils/download.go\<close>: a request with retries, and the download of
  a body into a temporary file under a limit. What the server answers to the requests in turn is
  an argument; bodies are numbered by the request that opened them, and the run is recorded as a
  trace of requests, closed bodies and pauses.
\<close>

subsection \<open>Requests with retries\<close>

text \<open>
  What \<open>client.Do\<close> gives: a response, an error, or the response of a refused redirect together with
  an error, whose body the client has closed itself (documented in \<open>net/http\<close>).
\<close>

datatype http_outcome =
    Responded int
  | RequestFailed string
  | RedirectRefused int string

datatype http_event = Do nat | CloseBody nat | Sleep int

fun response_of :: "nat \<Rightarrow> http_outcome \<Rightarrow> (nat \<times> int) option \<times> string option" where
  "response_of i (Responded status) = (Some (i, status), None)"
| "response_of i (RequestFailed e) = (None, Some e)"
| "response_of i (RedirectRefused status e) = (Some (i, status), Some e)"

definition maxRetries :: nat where "maxRetries = 3"
definition retryDelayUnit :: int where "retryDelayUnit = 1000000000"

definition shouldRetry :: "int \<Rightarrow> bool" where
  "shouldRetry statusCode \<longleftrightarrow> statusCode = 429 \<or> statusCode \<ge> 500"

definition close_resp :: "(nat \<times> int) option \<Rightarrow> http_event list" where
  "close_resp resp = (case resp of None \<Rightarrow> [] | Some (i, _) \<Rightarrow> [CloseBody i])"

text \<open>No error, and a status that ends the loop.\<close>

definition settled :: "(nat \<times> int) option \<times> string option \<Rightarrow> bool" where
  "settled r \<longleftrightarrow> snd r = None \<and>
    (case fst r of Some (_, status) \<Rightarrow> status = 200 \<or> \<not> shouldRetry status | None \<Rightarrow> False)"

text \<open>
  The loop with the attempts that are left. The pause after a failed attempt: \<open>sleepWithCtx\<close> gives
  the error of the context when that ends first; \<open>slept i\<close> is what the pause after attempt \<open>i\<close> gave.
\<close>

primrec retry_loop ::
  "(nat \<Rightarrow> http_outcome) \<Rightarrow> (nat \<Rightarrow> string option) \<Rightarrow> nat \<Rightarrow> (nat \<times> int) option \<times> string option \<Rightarrow>
    ((nat \<times> int) option \<times> string option) \<times> http_event list" where
  "retry_loop net slept 0 r = (r, [])"
| "retry_loop net slept (Suc left) r =
    (let i = maxRetries - Suc left;
         closed = (if i > 0 then close_resp (fst r) else []);
         r' = response_of i (net i)
     in
       if settled r' then (r', closed @ [Do i])
       else if i < maxRetries - 1 then
         (let pause = [Sleep (retryDelayUnit * (int i + 1))] in
          case slept i of
            Some e \<Rightarrow> ((None, Some (''failed to sleep: '' @ e)), closed @ [Do i] @ pause @ close_resp (fst r'))
          | None \<Rightarrow>
              let (res, tr) = retry_loop net slept left (fst r', None)
              in (res, closed @ [Do i] @ pause @ tr))
       else let (res, tr) = retry_loop net slept left r' in (res, closed @ [Do i] @ tr))"

definition do_request_with_retry ::
  "(nat \<Rightarrow> http_outcome) \<Rightarrow> (nat \<Rightarrow> string option) \<Rightarrow>
    ((nat \<times> int) option \<times> string option) \<times> http_event list" where
  "do_request_with_retry net slept = retry_loop net slept maxRetries (None, None)"

text \<open>The number of attempts, and the bodies opened and closed in a trace.\<close>

definition opened :: "(nat \<Rightarrow> http_outcome) \<Rightarrow> http_event list \<Rightarrow> nat set" where
  "opened net tr = {i. Do i \<in> set tr \<and> (\<exists>status. net i = Responded status)}"

definition closed_in :: "http_event list \<Rightarrow> nat set" where
  "closed_in tr = {i. CloseBody i \<in> set tr}"

fun attempts :: "http_event list \<Rightarrow> nat" where
  "attempts [] = 0"
| "attempts (Do _ # tr) = Suc (attempts tr)"
| "attempts (_ # tr) = attempts tr"

fun pauses :: "http_event list \<Rightarrow> int list" where
  "pauses [] = []"
| "pauses (Sleep d # tr) = d # pauses tr"
| "pauses (_ # tr) = pauses tr"

lemma settled_response: "settled (response_of i out) \<longleftrightarrow> (\<exists>s. out = Responded s \<and> \<not> shouldRetry s)"
  by (cases out) (auto simp: settled_def shouldRetry_def)

lemma closes_response: "CloseBody j \<in> set (close_resp (fst (response_of i out))) \<longleftrightarrow> j = i \<and> (\<nexists>e. out = RequestFailed e)"
  by (cases out) (auto simp: close_resp_def)

lemma attempts_append [simp]: "attempts (a @ b) = attempts a + attempts b"
  by (induction a rule: attempts.induct) auto

lemma attempts_close [simp]: "attempts (close_resp r) = 0"
  by (auto simp: close_resp_def split: option.split)

text \<open>One attempt, by its outcome.\<close>

lemma retry_loop_final:
  "net i = Responded s \<Longrightarrow> \<not> shouldRetry s \<Longrightarrow> i = maxRetries - Suc left \<Longrightarrow>
    retry_loop net slept (Suc left) r =
      ((Some (i, s), None), (if i > 0 then close_resp (fst r) else []) @ [Do i])"
  by (simp add: settled_response Let_def)

lemma retry_loop_again:
  "\<not> settled (response_of i (net i)) \<Longrightarrow> i = maxRetries - Suc left \<Longrightarrow> i < 2 \<Longrightarrow> slept i = None \<Longrightarrow>
    retry_loop net slept (Suc left) r =
      map_prod id (\<lambda>tr. (if i > 0 then close_resp (fst r) else []) @ [Do i, Sleep (retryDelayUnit * (int i + 1))] @ tr)
        (retry_loop net slept left (fst (response_of i (net i)), None))"
  by (simp add: Let_def maxRetries_def split: prod.split)

lemma retry_loop_cancelled:
  "\<not> settled (response_of i (net i)) \<Longrightarrow> i = maxRetries - Suc left \<Longrightarrow> i < 2 \<Longrightarrow> slept i = Some e \<Longrightarrow>
    retry_loop net slept (Suc left) r =
      ((None, Some (''failed to sleep: '' @ e)),
       (if i > 0 then close_resp (fst r) else []) @ [Do i, Sleep (retryDelayUnit * (int i + 1))] @
         close_resp (fst (response_of i (net i))))"
  by (simp add: Let_def maxRetries_def)

lemma retry_loop_last:
  "retry_loop net slept 1 r = (response_of 2 (net 2), close_resp (fst r) @ [Do 2])"
  by (simp add: Let_def maxRetries_def)

text \<open>Every attempt before the last one was worth repeating; each pause is one second longer.\<close>

definition run_ok :: "(nat \<Rightarrow> http_outcome) \<Rightarrow> ((nat \<times> int) option \<times> string option) \<times> http_event list \<Rightarrow> bool" where
  "run_ok net run \<longleftrightarrow> (case run of ((resp, err), tr) \<Rightarrow>
     attempts tr \<le> 3 \<and>
     (err = None \<longrightarrow> (\<exists>j s. resp = Some (j, s) \<and> net j = Responded s \<and> Suc j = attempts tr \<and>
        (shouldRetry s \<longrightarrow> attempts tr = 3))) \<and>
     (\<forall>j \<in> opened net tr. j \<in> closed_in tr \<longleftrightarrow> \<not> (err = None \<and> (\<exists>s. resp = Some (j, s)))))"

lemma event_in_close [simp]: "Do j \<notin> set (close_resp r)" "Sleep d \<notin> set (close_resp r)"
  by (auto simp: close_resp_def split: option.splits)

lemma close_event: "CloseBody j \<in> set (close_resp r) \<longleftrightarrow> (\<exists>s. r = Some (j, s))"
  by (auto simp: close_resp_def split: option.splits)

lemma response_fst: "fst (response_of i out) = Some (j, s) \<longleftrightarrow> j = i \<and> (out = Responded s \<or> (\<exists>e. out = RedirectRefused s e))"
  by (cases out) auto

lemma response_snd: "snd (response_of i out) = None \<longleftrightarrow> (\<exists>s. out = Responded s)"
  by (cases out) auto

lemma run_ok_event_simps:
  "run_ok net ((resp, err), tr) \<longleftrightarrow>
     attempts tr \<le> 3 \<and>
     (err = None \<longrightarrow> (\<exists>j s. resp = Some (j, s) \<and> net j = Responded s \<and> Suc j = attempts tr \<and>
        (shouldRetry s \<longrightarrow> attempts tr = 3))) \<and>
     (\<forall>j s. Do j \<in> set tr \<and> net j = Responded s \<longrightarrow>
        (CloseBody j \<in> set tr \<longleftrightarrow> \<not> (err = None \<and> (\<exists>s. resp = Some (j, s)))))"
  by (auto simp: run_ok_def opened_def closed_in_def)

lemma run_settled_first:
  assumes "net 0 = Responded s" "\<not> shouldRetry s"
  shows "run_ok net (do_request_with_retry net slept)"
  using retry_loop_final [of net 0 s 2 slept "(None, None)"] assms
  by (simp add: do_request_with_retry_def run_ok_event_simps maxRetries_def numeral_3_eq_3 numeral_2_eq_2)

lemma run_cancelled_first:
  assumes "\<not> settled (response_of 0 (net 0))" "slept 0 = Some e"
  shows "run_ok net (do_request_with_retry net slept)"
  using retry_loop_cancelled [of 0 net 2 slept e "(None, None)"] assms
  by (auto simp add: do_request_with_retry_def run_ok_event_simps maxRetries_def numeral_3_eq_3 numeral_2_eq_2
      close_event response_fst)

lemma run_settled_second:
  assumes "\<not> settled (response_of 0 (net 0))" "slept 0 = None" "net 1 = Responded s" "\<not> shouldRetry s"
  shows "run_ok net (do_request_with_retry net slept)"
  using retry_loop_again [of 0 net 2 slept "(None, None)"] assms
    retry_loop_final [of net 1 s 1 slept "(fst (response_of 0 (net 0)), None)"]
  by (auto simp add: do_request_with_retry_def run_ok_event_simps maxRetries_def numeral_3_eq_3 numeral_2_eq_2
      close_event response_fst)

lemma run_cancelled_second:
  assumes "\<not> settled (response_of 0 (net 0))" "slept 0 = None" "\<not> settled (response_of 1 (net 1))" "slept 1 = Some e"
  shows "run_ok net (do_request_with_retry net slept)"
  using retry_loop_again [of 0 net 2 slept "(None, None)"] assms
    retry_loop_cancelled [of 1 net 1 slept e "(fst (response_of 0 (net 0)), None)"]
  by (auto simp add: do_request_with_retry_def run_ok_event_simps maxRetries_def numeral_3_eq_3 numeral_2_eq_2
      close_event response_fst)

lemma run_last:
  assumes "\<not> settled (response_of 0 (net 0))" "slept 0 = None" "\<not> settled (response_of 1 (net 1))" "slept 1 = None"
  shows "run_ok net (do_request_with_retry net slept)"
proof -
  obtain resp err where r: "response_of 2 (net 2) = (resp, err)" by (cases "response_of 2 (net 2)")
  have "do_request_with_retry net slept =
    ((resp, err),
      [Do 0, Sleep retryDelayUnit] @ close_resp (fst (response_of 0 (net 0))) @
      [Do 1, Sleep (retryDelayUnit * 2)] @ close_resp (fst (response_of 1 (net 1))) @ [Do 2])"
    using assms retry_loop_again [of 0 net 2 slept "(None, None)"]
      retry_loop_again [of 1 net 1 slept "(fst (response_of 0 (net 0)), None)"]
      retry_loop_last [of net slept "(fst (response_of 1 (net 1)), None)"] r
    by (simp add: do_request_with_retry_def maxRetries_def numeral_3_eq_3 numeral_2_eq_2)
  then show ?thesis
    using r response_fst [of 2 "net 2"] response_snd [of 2 "net 2"]
    by (auto simp add: run_ok_event_simps close_event response_fst)
qed

text \<open>
  C16. A request is sent at most three times. Without an error the response given back is that of the
  last attempt, and it still asks for a retry only after the third one. Every body a response opened
  is closed unless it is the one given back: none leaks, none is closed under the caller.
\<close>

theorem do_request_bodies: "run_ok net (do_request_with_retry net slept)"
proof (cases "settled (response_of 0 (net 0))")
  case False
  note 0 = this
  show ?thesis
  proof (cases "slept 0")
    case None
    note s0 = this
    show ?thesis
    proof (cases "settled (response_of 1 (net 1))")
      case True
      then show ?thesis using run_settled_second [of net slept, OF 0 s0] by (auto simp: settled_response)
    next
      case False
      then show ?thesis
        using run_cancelled_second [of net slept, OF 0 s0] run_last [of net slept, OF 0 s0]
        by (cases "slept 1") auto
    qed
  qed (use run_cancelled_first [of net slept] 0 in auto)
qed (auto simp: settled_response intro: run_settled_first)

subsection \<open>Downloading a body\<close>

text \<open>
  The body as the reader gives it: its bytes, and the error that ends it when it does not end
  normally. \<open>io.Copy\<close> from \<open>io.LimitReader\<close> reads no further than the limit.
\<close>

record body =
  bo_data :: string
  bo_err :: "string option"

definition limited_read :: "nat \<Rightarrow> body \<Rightarrow> string \<times> string option" where
  "limited_read n b = (take n (bo_data b), if length (bo_data b) < n then bo_err b else None)"

text \<open>
  The file system as far as downloads use it: the temporary files by name. \<open>df_create\<close> is the name
  that \<open>os.CreateTemp\<close> picks, \<open>df_write\<close> the error of writing, \<open>df_close\<close> that of closing.
\<close>

record download_faults =
  df_create :: "string + string"
  df_write :: "string option"
  df_close :: "string option"

definition success_status :: "int \<Rightarrow> bool" where
  "success_status s \<longleftrightarrow> 200 \<le> s \<and> s < 300"

definition http_error :: "int \<Rightarrow> string \<Rightarrow> string" where
  "http_error status text = ''HTTP '' @ format_int status @ '': '' @ text"

text \<open>The copy into a new temporary file; on every error the file is removed.\<close>

definition store_body :: "download_faults \<Rightarrow> nat option \<Rightarrow> body \<Rightarrow> (string \<rightharpoonup> string) \<Rightarrow> (string + string) \<times> (string \<rightharpoonup> string)" where
  "store_body F maxBytes b tmp =
    (case df_create F of
       Inl e \<Rightarrow> (Inl (''failed to create temp file: '' @ e), tmp)
     | Inr path \<Rightarrow>
         let (got, readErr) =
               (case maxBytes of Some m \<Rightarrow> limited_read (m + 1) b | None \<Rightarrow> (bo_data b, bo_err b));
             copyErr = (case df_write F of Some e \<Rightarrow> Some e | None \<Rightarrow> readErr)
         in
           (case copyErr of
              Some e \<Rightarrow> (Inl (''download write failed: '' @ e), tmp(path := None))
            | None \<Rightarrow>
                if (case maxBytes of Some m \<Rightarrow> length got > m | None \<Rightarrow> False)
                then (Inl (''download too large: '' @ format_nat (length got) @ '' bytes (max '' @
                        format_nat (the maxBytes) @ '')''), tmp(path := None))
                else
                  (case df_close F of
                     Some e \<Rightarrow> (Inl (''failed to close temp file: '' @ e), tmp(path := None))
                   | None \<Rightarrow> (Inr path, tmp(path \<mapsto> got)))))"

text \<open>
  \<open>DownloadToFile\<close>: one request; \<open>maxBytes\<close> 0 means no limit. The text of an error answer is cut at
  512 bytes.
\<close>

definition download_to_file ::
  "download_faults \<Rightarrow> http_outcome \<Rightarrow> body \<Rightarrow> int \<Rightarrow> (string \<rightharpoonup> string) \<Rightarrow> (string + string) \<times> (string \<rightharpoonup> string)" where
  "download_to_file F out b maxBytes tmp =
    (case response_of 0 out of
       (_, Some e) \<Rightarrow> (Inl (''request failed: '' @ e), tmp)
     | (None, None) \<Rightarrow> (Inl ''request failed: '', tmp)
     | (Some (_, status), None) \<Rightarrow>
         if \<not> success_status status then (Inl (http_error status (take 512 (bo_data b))), tmp)
         else store_body F (if maxBytes > 0 then Some (nat maxBytes) else None) b tmp)"

lemma limited_read_whole:
  "limited_read (Suc m) b = (got, None) \<Longrightarrow> length got \<le> m \<Longrightarrow> got = bo_data b \<and> bo_err b = None"
  by (auto simp: limited_read_def split: if_splits)

text \<open>
  A new temporary file remains only after a success; it then holds the whole body, read without an
  error and within the limit.
\<close>

lemma store_body_spec:
  assumes "store_body F maxBytes b tmp = (res, tmp')" and "\<And>p. df_create F = Inr p \<Longrightarrow> tmp p = None"
  shows "case res of
      Inl _ \<Rightarrow> tmp' = tmp
    | Inr path \<Rightarrow> tmp' = tmp(path \<mapsto> bo_data b) \<and> bo_err b = None \<and>
        (\<forall>m. maxBytes = Some m \<longrightarrow> length (bo_data b) \<le> m)"
proof (cases "df_create F")
  case (Inr p)
  with assms(2) have "tmp(p := None) = tmp" by (auto simp: fun_upd_idem)
  with assms(1) Inr show ?thesis
    by (cases maxBytes; cases "limited_read (Suc (the maxBytes)) b")
      (auto simp: store_body_def Let_def limited_read_def split: option.splits if_splits sum.splits)
qed (use assms(1) in \<open>auto simp: store_body_def\<close>)

end
