(* ===== verification/Zip.thy ===== *)
theory Zip
  imports Go_Path Prelude Go_Numbers
begin

text \<open>
  \<open>pkg/utils/zip.go\<close>: unpacking an archive below a directory. The file tree has directories and
  regular files by absolute path and no symbolic links; which system calls fail is an argument.
\<close>

subsection \<open>The file tree\<close>

record tree =
  tr_dirs :: "string set"
  tr_files :: "string \<rightharpoonup> string"

text \<open>The directories from the root to a path.\<close>

definition ancestors :: "string \<Rightarrow> string list" where
  "ancestors p = ''/'' # map (\<lambda>i. take i p) (filter (\<lambda>i. p ! i = CHR ''/'') [1..<length p]) @ [p]"

text \<open>\<open>MkdirAll\<close> fails when a file is in the way.\<close>

definition mkdir_all :: "(string \<Rightarrow> bool) \<Rightarrow> string \<Rightarrow> tree \<Rightarrow> tree \<times> bool" where
  "mkdir_all fails p t =
    (if fails p \<or> list_ex (\<lambda>a. tr_files t a \<noteq> None) (ancestors p) then (t, False)
     else (t\<lparr>tr_dirs := set (ancestors p) \<union> tr_dirs t\<rparr>, True))"

text \<open>\<open>os.Create\<close>: fails on a directory, and empties an existing file.\<close>

definition create_file :: "(string \<Rightarrow> bool) \<Rightarrow> string \<Rightarrow> tree \<Rightarrow> tree \<times> bool" where
  "create_file fails p t =
    (if fails p \<or> p \<in> tr_dirs t \<or> dir_name p \<notin> tr_dirs t then (t, False)
     else (t\<lparr>tr_files := (tr_files t)(p \<mapsto> [])\<rparr>, True))"

definition remove_file :: "string \<Rightarrow> tree \<Rightarrow> tree" where
  "remove_file p t = t\<lparr>tr_files := (tr_files t)(p := None)\<rparr>"

definition write_file :: "string \<Rightarrow> string \<Rightarrow> tree \<Rightarrow> tree" where
  "write_file p data t = t\<lparr>tr_files := (tr_files t)(p \<mapsto> data)\<rparr>"

subsection \<open>Archive entries\<close>

text \<open>
  An entry: its name, the mode bits the code looks at, the size its header declares, and what
  reading it gives: an error when it cannot be opened, else its bytes and the error that ends them.
\<close>

record zip_entry =
  ze_name :: string
  ze_symlink :: bool
  ze_isdir :: bool
  ze_size :: "64 word"
  ze_open :: "string option"
  ze_data :: string
  ze_readErr :: "string option"

datatype zip_error =
    InvalidZip
  | TargetDirFailed
  | UnsafePath string
  | EscapesTarget string
  | SymlinkEntry string
  | MkdirFailed string
  | TooLarge string
  | OpenFailed string
  | CreateFailed string
  | ExtractFailed string
  | ExceedsMax string

record zip_faults =
  zf_mkdir :: "string \<Rightarrow> bool"
  zf_create :: "string \<Rightarrow> bool"
  zf_write :: "string \<Rightarrow> bool"
  zf_close :: "string \<Rightarrow> bool"

text \<open>The error path and the success path both close the file; when that fails it is removed.\<close>

definition close_file :: "zip_faults \<Rightarrow> string \<Rightarrow> tree \<Rightarrow> tree" where
  "close_file F destPath t = (if zf_close F destPath then remove_file destPath t else t)"

text \<open>
  \<open>extractSingleFile\<close> with its limit as an argument: \<open>io.CopyN\<close> copies at most one byte more than
  the limit, and an error of the reader shows only when it is reached before that.
\<close>

definition extract_single_file :: "zip_faults \<Rightarrow> nat \<Rightarrow> zip_entry \<Rightarrow> string \<Rightarrow> tree \<Rightarrow> tree \<times> zip_error option" where
  "extract_single_file F maxFileSize f destPath t =
    (if unat (ze_size f) > maxFileSize then (t, Some (TooLarge (ze_name f)))
     else if ze_open f \<noteq> None then (t, Some (OpenFailed (ze_name f)))
     else
       (case create_file (zf_create F) destPath t of
          (t1, False) \<Rightarrow> (t1, Some (CreateFailed destPath))
        | (t1, True) \<Rightarrow>
            let copied = take (maxFileSize + 1) (ze_data f);
                readErr = (length (ze_data f) \<le> maxFileSize \<and> ze_readErr f \<noteq> None);
                t2 = write_file destPath copied t1
            in
              if zf_write F destPath \<or> readErr
              then (close_file F destPath (remove_file destPath t2), Some (ExtractFailed (ze_name f)))
              else if length copied > maxFileSize
              then (close_file F destPath (remove_file destPath t2), Some (ExceedsMax (ze_name f)))
              else (close_file F destPath t2, None)))"

subsection \<open>Unpacking\<close>

definition max_entry_size :: nat where "max_entry_size = 5 * 1024 * 1024"

definition dest_path :: "string \<Rightarrow> zip_entry \<Rightarrow> string" where
  "dest_path targetDir f = path_join [targetDir, clean (ze_name f)]"

text \<open>The two checks of the path of an entry.\<close>

definition unsafe_name :: "string \<Rightarrow> bool" where
  "unsafe_name name \<longleftrightarrow> has_prefix ''..'' (clean name) \<or> is_abs (clean name)"

definition escapes_target :: "string \<Rightarrow> string \<Rightarrow> bool" where
  "escapes_target targetDir destPath \<longleftrightarrow>
    \<not> has_prefix (clean targetDir @ ''/'') (clean destPath) \<and> clean destPath \<noteq> clean targetDir"

fun extract_entries :: "zip_faults \<Rightarrow> string \<Rightarrow> zip_entry list \<Rightarrow> tree \<Rightarrow> tree \<times> zip_error option" where
  "extract_entries F targetDir [] t = (t, None)"
| "extract_entries F targetDir (f # fs) t =
    (let destPath = dest_path targetDir f in
     if unsafe_name (ze_name f) then (t, Some (UnsafePath (ze_name f)))
     else if escapes_target targetDir destPath then (t, Some (EscapesTarget (ze_name f)))
     else if ze_symlink f then (t, Some (SymlinkEntry (ze_name f)))
     else if ze_isdir f then
       (case mkdir_all (zf_mkdir F) destPath t of
          (t1, False) \<Rightarrow> (t1, Some (MkdirFailed destPath))
        | (t1, True) \<Rightarrow> extract_entries F targetDir fs t1)
     else
       (case mkdir_all (zf_mkdir F) (dir_name destPath) t of
          (t1, False) \<Rightarrow> (t1, Some (MkdirFailed (dir_name destPath)))
        | (t1, True) \<Rightarrow>
            (case extract_single_file F max_entry_size f destPath t1 of
               (t2, Some e) \<Rightarrow> (t2, Some e)
             | (t2, None) \<Rightarrow> extract_entries F targetDir fs t2)))"

text \<open>\<open>ExtractZipFile\<close>; an archive that cannot be read is \<open>None\<close>.\<close>

definition extract_zip_file ::
  "zip_faults \<Rightarrow> zip_entry list option \<Rightarrow> string \<Rightarrow> tree \<Rightarrow> tree \<times> zip_error option" where
  "extract_zip_file F archive targetDir t =
    (case archive of
       None \<Rightarrow> (t, Some InvalidZip)
     | Some files \<Rightarrow>
         (case mkdir_all (zf_mkdir F) targetDir t of
            (t1, False) \<Rightarrow> (t1, Some TargetDirFailed)
          | (t1, True) \<Rightarrow> extract_entries F targetDir files t1))"

subsection \<open>Where the destinations lie\<close>

text \<open>A clean absolute directory other than the root, and the form of the paths below it.\<close>

definition clean_dir :: "string \<Rightarrow> bool" where
  "clean_dir d \<longleftrightarrow> is_abs d \<and> clean d = d \<and> d \<noteq> ''/''"

lemma clean_dir_parts:
  assumes "clean_dir d"
  obtains ps where "clean_form True ps" "ps \<noteq> []" "d = path_of True ps"
proof -
  from assms have d: "is_abs d" "clean d = d" "d \<noteq> ''/''" by (simp_all add: clean_dir_def)
  obtain ps where "clean_form (is_abs d) ps" "clean d = path_of (is_abs d) ps" by (rule clean_obtain)
  moreover from this d have "ps \<noteq> []" by (cases "ps = []") (simp_all add: path_of_def)
  ultimately show thesis using d that [of ps] by simp
qed

lemma below_parts:
  assumes f: "clean_form True ps" "clean_form True qs" and ne: "ps \<noteq> []"
    and b: "below (path_of True ps) (path_of True qs)"
  obtains rs where "rs \<noteq> []" "qs = ps @ rs"
proof -
  obtain rest where r: "join ''/'' qs = join ''/'' ps @ CHR ''/'' # rest"
    using b by (auto simp: below_def path_of_def has_prefix_append_iff)
  then have "qs \<noteq> []" by auto
  have "qs = split_on CHR ''/'' (join ''/'' qs)"
    using split_join [OF \<open>qs \<noteq> []\<close> clean_form_free [OF f(2)]] by simp
  also have "\<dots> = split_on CHR ''/'' (join ''/'' ps) @ split_on CHR ''/'' rest"
    unfolding r by (rule split_on_append)
  also have "split_on CHR ''/'' (join ''/'' ps) = ps"
    by (rule split_join [OF ne clean_form_free [OF f(1)]])
  finally show thesis using that [of "split_on CHR ''/'' rest"] by simp
qed

lemma clean_form_butlast: "clean_form True (ps @ [q]) \<Longrightarrow> clean_form True ps"
  by (auto simp: clean_form_def successively_append_iff)

lemma dir_name_parts:
  assumes f: "clean_form True (ps @ [q])" and ne: "ps \<noteq> []"
  shows "dir_name (path_of True (ps @ [q])) = path_of True ps"
proof -
  have q: "CHR ''/'' \<notin> set q" using clean_form_free [OF f] by simp
  have ps: "clean_form True ps" using f by (rule clean_form_butlast)
  have "path_of True (ps @ [q]) = (path_of True ps @ ''/'') @ q"
    using join_snoc [OF ne, of "''/''" q] by (simp add: path_of_def)
  moreover have "rev (dropWhile (\<lambda>c. c \<noteq> CHR ''/'') (rev ((path_of True ps @ ''/'') @ q))) = path_of True ps @ ''/''"
  proof -
    have "dropWhile (\<lambda>c. c \<noteq> CHR ''/'') (rev q @ CHR ''/'' # t) = CHR ''/'' # t" for t
      using q by (subst dropWhile_append2) auto
    then show ?thesis by simp
  qed
  moreover have "clean (path_of True ps @ ''/'') = path_of True ps"
  proof -
    have "split_on CHR ''/'' (path_of True ps @ ''/'') = [] # ps @ [[]]"
      using split_on_append [of "CHR ''/''" "path_of True ps" "[]"] split_join [OF ne clean_form_free [OF ps]]
      by (simp add: path_of_def)
    moreover have "clean_parts True [] (ps @ [[]]) = ps"
      using clean_parts_append [of ps True "[]" "[[]]"] ps
      by (auto simp: clean_form_def plain_part_def filter_id_conv)
    ultimately show ?thesis
      by (simp add: clean_def path_of_def is_abs_def Let_def)
  qed
  ultimately show ?thesis by (simp add: dir_name_def)
qed

text \<open>The directory of a file below \<open>d\<close> is \<open>d\<close> or below it.\<close>

lemma path_of_append:
  assumes "ps \<noteq> []"
  shows "rs \<noteq> [] \<Longrightarrow> path_of True (ps @ rs) = path_of True ps @ ''/'' @ join ''/'' rs"
proof (induction rs rule: rev_nonempty_induct)
  case (single r)
  then show ?case using join_snoc [OF assms, of "''/''" r] by (simp add: path_of_def)
next
  case (snoc r rs)
  then show ?case
    using assms join_snoc [of "ps @ rs" "''/''" r] join_snoc [of rs "''/''" r] by (simp add: path_of_def)
qed

lemma dir_of_below:
  assumes d: "clean_dir d" and p: "clean p = p" "below d p"
  shows "dir_name p = d \<or> below d (dir_name p)"
proof -
  obtain ps where ps: "clean_form True ps" "ps \<noteq> []" "d = path_of True ps"
    using clean_dir_parts [OF d] .
  obtain qs where qs: "clean_form (is_abs p) qs" "clean p = path_of (is_abs p) qs" by (rule clean_obtain)
  have "is_abs p" using p(2) ps(3) by (auto simp: below_def is_abs_def has_prefix_append_iff path_of_def)
  with qs p(1) have q: "clean_form True qs" "p = path_of True qs" by simp_all
  obtain rs where rs: "rs \<noteq> []" "qs = ps @ rs"
    using below_parts [OF ps(1) q(1) ps(2)] p(2) ps(3) q(2) by auto
  have dir: "dir_name p = path_of True (ps @ butlast rs)"
    using dir_name_parts [of "ps @ butlast rs" "last rs"] q rs ps(2) by simp
  show ?thesis
  proof (cases "butlast rs = []")
    case False
    then have "path_of True (ps @ butlast rs) = d @ ''/'' @ join ''/'' (butlast rs)"
      using path_of_append [OF ps(2)] ps(3) by simp
    with dir show ?thesis by (simp add: below_def has_prefix_append_iff)
  qed (use dir ps in simp)
qed

lemma ancestors_below:
  assumes "a \<in> set (ancestors p)" and "below d p"
  shows "a \<in> set (ancestors d) \<or> below d a"
proof -
  obtain rest where p: "p = d @ CHR ''/'' # rest"
    using assms(2) by (auto simp: below_def has_prefix_append_iff)
  from assms(1) consider "a = p" | "a = ''/''" | i where "1 \<le> i" "i < length p" "p ! i = CHR ''/''" "a = take i p"
    by (auto simp: ancestors_def)
  then show ?thesis
  proof cases
    case 3
    show ?thesis
    proof (cases "i \<le> length d")
      case True
      with 3 p show ?thesis
        by (cases "i = length d") (auto simp: ancestors_def nth_append)
    next
      case False
      with 3 p show ?thesis by (auto simp: below_def has_prefix_append_iff take_Cons' Suc_diff_Suc)
    qed
  qed (use assms in \<open>simp_all add: ancestors_def\<close>)
qed

text \<open>The first check leaves nothing to the second one.\<close>

lemma up_at_head:
  "''..'' \<in> set ps \<Longrightarrow> successively (\<lambda>p q. q = ''..'' \<longrightarrow> p = ''..'') ps \<Longrightarrow> \<exists>qs. ps = ''..'' # qs"
proof (induction ps)
  case (Cons p ps)
  then show ?case by (cases ps) (auto split: if_splits)
qed simp

lemma safe_name_parts:
  assumes "\<not> unsafe_name name"
  obtains ps where "list_all plain_part ps" "clean name = path_of False ps"
proof -
  have abs: "\<not> is_abs name" using assms by (simp add: unsafe_name_def)
  obtain ps where ps: "clean_form (is_abs name) ps" "clean name = path_of (is_abs name) ps"
    by (rule clean_obtain)
  have "plain_part p" if "p \<in> set ps" for p
  proof (rule ccontr)
    assume "\<not> plain_part p"
    with ps(1) that have "''..'' \<in> set ps" by (auto simp: clean_form_def)
    moreover have "successively (\<lambda>p q. q = ''..'' \<longrightarrow> p = ''..'') ps" using ps(1) by (simp add: clean_form_def)
    ultimately have "\<exists>qs. ps = ''..'' # qs"
      using up_at_head by blast
    then obtain qs where "ps = ''..'' # qs" ..
    then have "has_prefix ''..'' (clean name)"
      using ps(2) abs by (cases qs) (simp_all add: path_of_def)
    with assms show False by (simp add: unsafe_name_def)
  qed
  with ps(2) abs that [of ps] show thesis by (simp add: list_all_iff)
qed

lemma dest_path_safe:
  assumes "clean_dir d" and "\<not> unsafe_name (ze_name f)"
  shows "dest_path d f = d \<or> below d (dest_path d f)" and "clean (dest_path d f) = dest_path d f"
proof -
  obtain ps where ps: "list_all plain_part ps" "clean (ze_name f) = path_of False ps"
    using safe_name_parts [OF assms(2)] .
  obtain ds where ds: "clean_form True ds" "ds \<noteq> []" "d = path_of True ds"
    using clean_dir_parts [OF assms(1)] .
  have free: "\<forall>p \<in> set ps. CHR ''/'' \<notin> set p" using ps(1) by (auto simp: list_all_iff plain_part_def)
  have ne: "clean (ze_name f) \<noteq> []" and d_ne: "d \<noteq> []"
    using ps ds by (cases ps rule: remdups_adj.cases; auto simp: path_of_def plain_part_def)+
  have "split_on CHR ''/'' (d @ CHR ''/'' # clean (ze_name f)) = ([] # ds) @ split_on CHR ''/'' (clean (ze_name f))"
    using split_on_append [of "CHR ''/''" d "clean (ze_name f)"] split_join [OF ds(2) clean_form_free [OF ds(1)]] ds(3)
    by (simp add: path_of_def)
  moreover have "clean_parts True [] (ds @ split_on CHR ''/'' (clean (ze_name f))) = ds @ ps"
  proof (cases "ps = []")
    case True
    then have "split_on CHR ''/'' (clean (ze_name f)) = [''.'']" using ps(2) by (simp add: path_of_def)
    moreover have "clean_parts True [] (ds @ [''.'']) = ds"
      using clean_parts_append [of ds True "[]" "[''.'']"] ds(1)
      by (auto simp: clean_form_def plain_part_def filter_id_conv)
    ultimately show ?thesis using True by simp
  next
    case False
    then have "split_on CHR ''/'' (clean (ze_name f)) = ps"
      using ps(2) split_join [OF False free] by (simp add: path_of_def)
    then show ?thesis using clean_parts_behind [OF ps(1)] clean_parts_fix [OF ds(1)] by simp
  qed
  moreover have "is_abs (d @ CHR ''/'' # clean (ze_name f))" using ds(3) by (simp add: path_of_def is_abs_def)
  ultimately have "clean (d @ CHR ''/'' # clean (ze_name f)) = path_of True (ds @ ps)"
    unfolding clean_def [of "d @ _"] by (simp add: path_of_def Let_def)
  with ne d_ne have "dest_path d f = path_of True (ds @ ps)"
    by (simp add: dest_path_def path_join_def)
  moreover have "path_of True (ds @ ps) = d \<or> below d (path_of True (ds @ ps))"
    using path_of_append [OF ds(2), of ps] ds(3) by (cases "ps = []") (auto simp: below_def has_prefix_append_iff)
  ultimately show "dest_path d f = d \<or> below d (dest_path d f)" by simp
  show "clean (dest_path d f) = dest_path d f"
    using d_ne by (auto simp: dest_path_def path_join_def Let_def)
qed

lemma second_check_idle:
  assumes "clean_dir d" and "\<not> unsafe_name (ze_name f)"
  shows "\<not> escapes_target d (dest_path d f)"
  using dest_path_safe [OF assms] assms(1) by (auto simp: escapes_target_def clean_dir_def below_def)

subsection \<open>What unpacking does\<close>

text \<open>One step of a change: outside \<open>d\<close> no file differs and no directory is new.\<close>

definition confined :: "string \<Rightarrow> nat \<Rightarrow> tree \<Rightarrow> tree \<Rightarrow> bool" where
  "confined d n t t' \<longleftrightarrow>
    tr_dirs t \<subseteq> tr_dirs t' \<and>
    (\<forall>a \<in> tr_dirs t' - tr_dirs t. a \<in> set (ancestors d) \<or> below d a) \<and>
    (\<forall>p. tr_files t' p \<noteq> tr_files t p \<longrightarrow> below d p \<and> (\<forall>c. tr_files t' p = Some c \<longrightarrow> length c \<le> n))"

lemma confined_refl [simp]: "confined d n t t"
  by (simp add: confined_def)

lemma confined_trans:
  assumes "confined d n t1 t2" and "confined d n t2 t3"
  shows "confined d n t1 t3"
proof -
  have "below d p \<and> (\<forall>c. tr_files t3 p = Some c \<longrightarrow> length c \<le> n)" if "tr_files t3 p \<noteq> tr_files t1 p" for p
    using assms that unfolding confined_def by (cases "tr_files t3 p = tr_files t2 p") auto
  then show ?thesis
    using assms unfolding confined_def by blast
qed

text \<open>A directory a path lies in, or one of the directories above, is above the path as well.\<close>

lemma ancestors_up: "a \<in> set (ancestors e) \<Longrightarrow> e \<noteq> [] \<Longrightarrow> below e p \<Longrightarrow> a \<in> set (ancestors p)"
proof -
  assume a: "a \<in> set (ancestors e)" and e: "e \<noteq> []" and "below e p"
  then obtain t where p: "p = e @ CHR ''/'' # t" by (auto simp: below_def has_prefix_append_iff)
  from a consider "a = ''/''" | "a = e" | i where "1 \<le> i" "i < length e" "e ! i = CHR ''/''" "a = take i e"
    by (auto simp: ancestors_def)
  then show ?thesis
  proof cases
    case 2
    have "length e \<in> set (filter (\<lambda>i. p ! i = CHR ''/'') [1..<length p])" 
      using e p by (simp add: nth_append Suc_le_eq)
    moreover have "take (length e) p = a" using p 2 by simp
    ultimately show ?thesis unfolding ancestors_def by (metis UnI1 image_eqI list.set_map set_append set_ConsD list.set_intros(2) append_Cons)
  next
    case 3
    have "i \<in> set (filter (\<lambda>i. p ! i = CHR ''/'') [1..<length p])" using 3 p by (simp add: nth_append)
    moreover have "take i p = a" using p 3 by simp
    ultimately show ?thesis unfolding ancestors_def by (metis UnI1 image_eqI list.set_map set_append list.set_intros(2) append_Cons)
  qed (simp add: ancestors_def)
qed

lemma ancestors_dir_name:
  assumes "clean_dir d"
  shows "set (ancestors (dir_name d)) \<subseteq> set (ancestors d)"
proof -
  obtain ps where ps: "clean_form True ps" "ps \<noteq> []" "d = path_of True ps"
    using clean_dir_parts [OF assms] .
  then obtain qs q where qs: "ps = qs @ [q]" by (cases ps rule: rev_cases) auto
  have q: "CHR ''/'' \<notin> set q" using clean_form_free [OF ps(1)] qs by simp
  show ?thesis
  proof (cases "qs = []")
    case True
    have "rev (dropWhile (\<lambda>c. c \<noteq> CHR ''/'') (rev q @ [CHR ''/''])) = ''/''"
      using q by (subst dropWhile_append2) auto
    then have "dir_name d = ''/''"
      using ps(3) qs True by (simp add: dir_name_def path_of_def) (simp add: clean_def is_abs_def)
    then show ?thesis by (simp add: ancestors_def)
  next
    case False
    then have dir: "dir_name d = path_of True qs" using dir_name_parts [of qs q] ps qs by simp
    moreover have "below (path_of True qs) d"
      using path_of_append [OF False, of "[q]"] ps(3) qs by (simp add: below_def has_prefix_append_iff)
    ultimately show ?thesis using ancestors_up [of _ "path_of True qs" d] by (auto simp: path_of_def)
  qed
qed

definition up_or_below :: "string \<Rightarrow> string \<Rightarrow> bool" where
  "up_or_below d p \<longleftrightarrow> (\<forall>a \<in> set (ancestors p). a \<in> set (ancestors d) \<or> below d a)"

lemma up_or_below_dest:
  assumes d: "clean_dir d" and p: "clean p = p" "p = d \<or> below d p"
  shows "up_or_below d p" and "up_or_below d (dir_name p)"
proof -
  have up: "up_or_below d q" if "q = d \<or> below d q" for q
    using that ancestors_below [of _ q d] by (auto simp: up_or_below_def)
  with p show "up_or_below d p" by blast
  show "up_or_below d (dir_name p)"
  proof (cases "p = d")
    case True
    with ancestors_dir_name [OF d] show ?thesis by (auto simp: up_or_below_def)
  next
    case False
    with p dir_of_below [OF d p(1)] up show ?thesis by blast
  qed
qed

lemma mkdir_all_confined:
  assumes "mkdir_all fails p t = (t', ok)" and "up_or_below d p"
  shows "confined d n t t' \<and> tr_files t' = tr_files t"
  using assms by (auto simp: mkdir_all_def confined_def up_or_below_def split: if_splits)

lemma extract_single_file_confined:
  assumes "extract_single_file F n f p t = (t', err)" and "p = d \<or> below d p" and "d \<in> tr_dirs t"
  shows "confined d n t t'"
proof (cases "create_file (zf_create F) p t")
  case (Pair t1 ok)
  have "p \<noteq> d" if ok using Pair assms(3) that by (auto simp: create_file_def split: if_splits)
  with Pair assms show ?thesis
    by (auto simp: extract_single_file_def create_file_def close_file_def remove_file_def write_file_def
        confined_def Let_def split: if_splits bool.splits)
qed

lemma extract_single_file_data:
  assumes "extract_single_file F n f p t = (t', None)"
  shows "tr_files t' = (tr_files t)(p := if zf_close F p then None else Some (ze_data f)) \<and> tr_dirs t' = tr_dirs t"
  using assms
  by (auto simp: extract_single_file_def create_file_def close_file_def remove_file_def write_file_def Let_def
      split: if_splits bool.splits prod.splits)

text \<open>One entry, and the loop over the entries.\<close>

definition extract_entry :: "zip_faults \<Rightarrow> string \<Rightarrow> zip_entry \<Rightarrow> tree \<Rightarrow> tree \<times> zip_error option" where
  "extract_entry F d f t = extract_entries F d [f] t"

lemma extract_entries_Cons:
  "extract_entries F d (f # fs) t =
    (case extract_entry F d f t of (t1, Some e) \<Rightarrow> (t1, Some e) | (t1, None) \<Rightarrow> extract_entries F d fs t1)"
  by (auto simp: extract_entry_def Let_def split: prod.splits bool.splits option.splits)

lemma extract_entry_confined:
  assumes d: "clean_dir d" and e: "extract_entry F d f t = (t', err)" and t: "d \<in> tr_dirs t"
  shows "confined d max_entry_size t t'"
proof (cases "unsafe_name (ze_name f) \<or> ze_symlink f")
  case False
  then have safe: "\<not> unsafe_name (ze_name f)" "\<not> ze_symlink f" by auto
  note p = dest_path_safe [OF d safe(1)] and idle = second_check_idle [OF d safe(1)]
  note up = up_or_below_dest [OF d p(2,1)]
  show ?thesis
  proof (cases "ze_isdir f")
    case True
    with e safe idle mkdir_all_confined [OF _ up(1)] show ?thesis
      by (auto simp: extract_entry_def Let_def split: prod.splits bool.splits)
  next
    case isfile: False
    obtain t1 ok where m: "mkdir_all (zf_mkdir F) (dir_name (dest_path d f)) t = (t1, ok)" by force
    have w: "confined d max_entry_size t t1" using mkdir_all_confined [OF m up(2)] by blast
    then have t1: "d \<in> tr_dirs t1" using t by (auto simp: confined_def)
    obtain t2 err2 where s: "extract_single_file F max_entry_size f (dest_path d f) t1 = (t2, err2)" by force
    have "confined d max_entry_size t t2"
      using confined_trans [OF w extract_single_file_confined [OF s p(1) t1]] .
    with e safe idle isfile m s w show ?thesis
      by (auto simp: extract_entry_def Let_def split: bool.splits option.splits)
  qed
qed (use e in \<open>auto simp: extract_entry_def Let_def split: if_splits\<close>)

lemma extract_entries_confined:
  assumes "clean_dir d"
  shows "extract_entries F d fs t = (t', err) \<Longrightarrow> d \<in> tr_dirs t \<Longrightarrow> confined d max_entry_size t t'"
proof (induction fs arbitrary: t)
  case (Cons f fs)
  obtain t1 err1 where e: "extract_entry F d f t = (t1, err1)" by force
  have w: "confined d max_entry_size t t1" by (rule extract_entry_confined [OF assms e Cons.prems(2)])
  then have t1: "d \<in> tr_dirs t1" using Cons.prems(2) by (auto simp: confined_def)
  show ?case
  proof (cases err1)
    case None
    with e Cons.prems(1) have "extract_entries F d fs t1 = (t', err)"
      by (simp only: extract_entries_Cons prod.case option.case)
    from confined_trans [OF w Cons.IH [OF this t1]] show ?thesis .
  next
    case (Some x)
    with e Cons.prems(1) w show ?thesis by (simp only: extract_entries_Cons prod.case option.case prod.inject)
  qed
qed simp

lemma extract_zip_start:
  assumes d: "clean_dir d" and m: "mkdir_all fails d t = (t1, ok)"
  shows "confined d n t t1 \<and> tr_files t1 = tr_files t \<and> (ok \<longrightarrow> d \<in> tr_dirs t1)"
proof -
  have "clean d = d" using d by (simp add: clean_dir_def)
  from mkdir_all_confined [OF m up_or_below_dest(1) [OF d this]] m show ?thesis
    by (auto simp: mkdir_all_def ancestors_def split: if_splits)
qed

lemma extract_zip_confined:
  assumes "clean_dir d" and "extract_zip_file F archive d t = (t', err)"
  shows "confined d max_entry_size t t'"
proof (cases archive)
  case (Some es)
  obtain t1 ok where m: "mkdir_all (zf_mkdir F) d t = (t1, ok)" by force
  note start = extract_zip_start [OF assms(1) m, of max_entry_size]
  show ?thesis
  proof (cases ok)
    case True
    then have "extract_entries F d es t1 = (t', err)"
      using assms(2) Some m by (simp add: extract_zip_file_def)
    from confined_trans [OF _ extract_entries_confined [OF assms(1) this]] start True show ?thesis by blast
  qed (use assms(2) Some m start in \<open>simp add: extract_zip_file_def\<close>)
qed (use assms(2) in \<open>simp add: extract_zip_file_def\<close>)


definition plain_entry :: "string \<Rightarrow> string \<Rightarrow> zip_entry" where
  "plain_entry name data = \<lparr>ze_name = name, ze_symlink = False, ze_isdir = False, ze_size = 0,
     ze_open = None, ze_data = data, ze_readErr = None\<rparr>"

definition no_faults :: zip_faults where
  "no_faults = \<lparr>zf_mkdir = \<lambda>_. False, zf_create = \<lambda>_. False, zf_write = \<lambda>_. False, zf_close = \<lambda>_. False\<rparr>"


text \<open>The files of an archive, a later entry over an earlier one of the same path.\<close>

fun unpacked :: "string \<Rightarrow> zip_entry list \<Rightarrow> (string \<rightharpoonup> string) \<Rightarrow> (string \<rightharpoonup> string)" where
  "unpacked d [] m = m"
| "unpacked d (f # fs) m = unpacked d fs (if ze_isdir f then m else m(dest_path d f \<mapsto> ze_data f))"

lemma extract_entry_unpacked:
  assumes "extract_entry F d f t = (t', None)" and "\<not> zf_close F (dest_path d f)"
  shows "tr_files t' = unpacked d [f] (tr_files t) \<and> \<not> unsafe_name (ze_name f) \<and> \<not> ze_symlink f"
  using assms extract_single_file_data [of F max_entry_size f "dest_path d f"]
  by (auto simp: extract_entry_def mkdir_all_def Let_def split: if_splits prod.splits bool.splits option.splits)

lemma extract_entries_unpacked:
  "extract_entries F d fs t = (t', None) \<Longrightarrow> (\<And>p. \<not> zf_close F p) \<Longrightarrow>
    tr_files t' = unpacked d fs (tr_files t) \<and> list_all (\<lambda>f. \<not> unsafe_name (ze_name f) \<and> \<not> ze_symlink f) fs"
proof (induction fs arbitrary: t)
  case (Cons f fs)
  obtain t1 err1 where e: "extract_entry F d f t = (t1, err1)" by force
  with Cons.prems(1) have "err1 = None"
    by (auto simp only: extract_entries_Cons prod.case split: option.splits)
  with e Cons.prems(1) have rest: "extract_entries F d fs t1 = (t', None)"
    by (simp only: extract_entries_Cons prod.case option.case)
  show ?case
    using extract_entry_unpacked [of F d f t t1] e \<open>err1 = None\<close> Cons.IH [OF rest Cons.prems(2)] Cons.prems(2)
    by simp
qed simp

text \<open>
  When unpacking reports no error and no file failed to close, every entry had a safe name and
  was no link, and the tree holds exactly the files of the archive, complete, over what was there.
\<close>

theorem extract_zip_complete:
  assumes "extract_zip_file F (Some es) d t = (t', None)" and "\<And>p. \<not> zf_close F p"
  shows "tr_files t' = unpacked d es (tr_files t) \<and> list_all (\<lambda>f. \<not> unsafe_name (ze_name f) \<and> \<not> ze_symlink f) es"
proof -
  obtain t1 where m: "mkdir_all (zf_mkdir F) d t = (t1, True)" and "extract_entries F d es t1 = (t', None)"
    using assms(1) by (auto simp: extract_zip_file_def split: prod.splits bool.splits)
  moreover have "tr_files t1 = tr_files t" using m by (auto simp: mkdir_all_def split: if_splits)
  ultimately show ?thesis using extract_entries_unpacked [of F d es t1 t'] assms(2) by simp
qed

text \<open>An archive with one file, by the file system's faults.\<close>

lemma extract_single_file_ok:
  assumes "ze_size f = 0" "ze_open f = None" "ze_readErr f = None" "length (ze_data f) \<le> n"
    and "create_file (zf_create F) p t = (t1, True)" "\<not> zf_write F p"
  shows "extract_single_file F n f p t = (close_file F p (write_file p (ze_data f) t1), None)"
  using assms by (simp add: extract_single_file_def Let_def)

lemma unpack_one:
  "extract_zip_file (no_faults\<lparr>zf_close := c\<rparr>) (Some [plain_entry ''SKILL.md'' ''x'']) ''/s'' \<lparr>tr_dirs = {}, tr_files = Map.empty\<rparr>
    = (\<lparr>tr_dirs = {''/'', ''/s''}, tr_files = if c ''/s/SKILL.md'' then Map.empty else [''/s/SKILL.md'' \<mapsto> ''x'']\<rparr>, None)"
proof -
  let ?F = "no_faults\<lparr>zf_close := c\<rparr>" and ?f = "plain_entry ''SKILL.md'' ''x''"
  let ?t = "\<lparr>tr_dirs = {''/'', ''/s''}, tr_files = Map.empty\<rparr>"
  have paths: "dest_path ''/s'' ?f = ''/s/SKILL.md''" "dir_name ''/s/SKILL.md'' = ''/s''"
      "\<not> unsafe_name ''SKILL.md''" "\<not> escapes_target ''/s'' ''/s/SKILL.md''" "ancestors ''/s'' = [''/'', ''/s'']"
    by (simp_all add: plain_entry_def dest_path_def path_join_def clean_def is_abs_def dir_name_def
        unsafe_name_def escapes_target_def ancestors_def Let_def)
  have create: "create_file (zf_create ?F) ''/s/SKILL.md'' ?t = (?t\<lparr>tr_files := [''/s/SKILL.md'' \<mapsto> []]\<rparr>, True)"
    by (simp add: create_file_def no_faults_def paths)
  have "extract_single_file ?F max_entry_size ?f ''/s/SKILL.md'' ?t =
      (close_file ?F ''/s/SKILL.md'' (write_file ''/s/SKILL.md'' ''x'' (?t\<lparr>tr_files := [''/s/SKILL.md'' \<mapsto> []]\<rparr>)), None)"
    using extract_single_file_ok [OF _ _ _ _ create, of ?f max_entry_size]
    by (simp add: plain_entry_def max_entry_size_def no_faults_def)
  then show ?thesis
    by (simp add: extract_zip_file_def mkdir_all_def paths paths(1) [unfolded plain_entry_def] no_faults_def
        plain_entry_def close_file_def write_file_def remove_file_def Let_def insert_absorb2)
qed

theorem extract_zip_complete_witness:
  "\<exists>t'. extract_zip_file no_faults (Some [plain_entry ''SKILL.md'' ''x'']) ''/s'' \<lparr>tr_dirs = {}, tr_files = Map.empty\<rparr> = (t', None) \<and>
    tr_files t' ''/s/SKILL.md'' = Some ''x''"
proof -
  have nf: "no_faults\<lparr>zf_close := \<lambda>_. False\<rparr> = no_faults" by (simp add: no_faults_def)
  obtain t' where run: "extract_zip_file no_faults (Some [plain_entry ''SKILL.md'' ''x'']) ''/s''
      \<lparr>tr_dirs = {}, tr_files = Map.empty\<rparr> = (t', None)"
    using unpack_one [of "\<lambda>_. False"] unfolding nf by blast
  from extract_zip_complete [OF run] have
    "tr_files t' = unpacked ''/s'' [plain_entry ''SKILL.md'' ''x''] Map.empty" by (simp add: no_faults_def)
  then show ?thesis
    using run by (simp add: plain_entry_def dest_path_def path_join_def clean_def is_abs_def Let_def)
qed

text \<open>
  A file that fails to close is removed, and the archive still counts as unpacked: the caller goes
  on as if the file were there.
\<close>

theorem unclosed_file_missing:
  "extract_zip_file (no_faults\<lparr>zf_close := \<lambda>_. True\<rparr>) (Some [plain_entry ''SKILL.md'' ''x'']) ''/s''
     \<lparr>tr_dirs = {}, tr_files = Map.empty\<rparr>
   = (\<lparr>tr_dirs = {''/'', ''/s''}, tr_files = Map.empty\<rparr>, None)"
  using unpack_one [of "\<lambda>_. True"] by simp

end
