(* ===== verification/Utils.thy ===== *)
theory Utils
  imports Go_Runes Go_Path Http
begin

text \<open>
  \<open>pkg/utils/string.go\<close>, \<open>skills.go\<close> and \<open>media.go\<close>: cleaning of message text, truncation, names that
  are safe as file names, and the download of a file into the media directory.
\<close>

subsection \<open>Text\<close>

text \<open>The table of \<open>unicode.IsGraphic\<close> is an argument.\<close>

definition sanitize_message_content :: "(rune \<Rightarrow> bool) \<Rightarrow> string \<Rightarrow> string" where
  "sanitize_message_content isGraphic input =
    string_of_runes (filter (\<lambda>r. isGraphic r \<or> r = 10 \<or> r = 13 \<or> r = 9) (runes_of input))"

definition truncate :: "string \<Rightarrow> int \<Rightarrow> string" where
  "truncate s maxLen =
    (if maxLen \<le> 0 then []
     else let runes = runes_of s in
       if int (length runes) \<le> maxLen then s
       else if maxLen \<le> 3 then string_of_runes (take (nat maxLen) runes)
       else string_of_runes (take (nat (maxLen - 3)) runes) @ ''...'')"

definition deref_str :: "string option \<Rightarrow> string \<Rightarrow> string" where
  "deref_str s fallback = (case s of None \<Rightarrow> fallback | Some t \<Rightarrow> t)"

definition is_audio_file :: "unicode \<Rightarrow> string \<Rightarrow> string \<Rightarrow> bool" where
  "is_audio_file U filename contentType \<longleftrightarrow>
    list_ex (\<lambda>ext. has_suffix ext (to_lower U filename))
      [''.mp3'', ''.wav'', ''.ogg'', ''.m4a'', ''.flac'', ''.aac'', ''.wma''] \<or>
    list_ex (\<lambda>ty. has_prefix ty (to_lower U contentType)) [''audio/'', ''application/ogg'', ''application/x-ogg'']"

lemma dots_runes: "string_of_runes rs @ ''...'' = string_of_runes (rs @ [46, 46, 46])"
proof -
  have "map of_char ''...'' = [46, 46, 46 :: nat]" by simp
  moreover have "string_of_runes (map of_char ''...'') = ''...''"
    by (rule string_of_runes_ascii) (simp add: is_ascii_def)
  ultimately show ?thesis by (simp only: string_of_runes_def map_append concat_append)
qed

lemma truncate_runes:
  "int (length (runes_of (truncate s maxLen))) \<le> max 0 maxLen"
proof -
  have "length (runes_of (string_of_runes rs)) = length rs" for rs
    by (simp add: runes_of_string_of_runes)
  moreover have "length (runes_of (string_of_runes rs @ ''...'')) = length rs + 3" for rs
    unfolding dots_runes by (simp add: runes_of_string_of_runes del: string_of_runes_simps)
  ultimately show ?thesis
    by (simp add: truncate_def Let_def)
qed

subsection \<open>Safe names\<close>

text \<open>\<open>ValidateSkillIdentifier\<close>: the error, if any.\<close>

definition validate_skill_identifier :: "string \<Rightarrow> string option" where
  "validate_skill_identifier identifier =
    (let trimmed = trim_space identifier in
     if trimmed = [] then Some ''identifier is required and must be a non-empty string''
     else if CHR ''/'' \<in> set trimmed \<or> CHR 0x5C \<in> set trimmed \<or> contains ''..'' trimmed
     then Some ''identifier must not contain path separators or '..' to prevent directory traversal''
     else None)"

definition sanitize_filename :: "string \<Rightarrow> string" where
  "sanitize_filename filename =
    (let base = base_name filename;
         base = replace_all ''..'' [] base;
         base = replace_all ''/'' ''_'' base
     in replace_all [CHR 0x5C] ''_'' base)"

text \<open>\<open>DownloadFile\<close>: the path of the file, or the empty string on an error.\<close>

record file_faults =
  ff_mkdir :: bool
  ff_request :: bool
  ff_create :: bool
  ff_write :: bool

definition media_path :: "string \<Rightarrow> string \<Rightarrow> string \<Rightarrow> string" where
  "media_path tempDir uuid filename =
    path_join [path_join [tempDir, ''ectoclaw_media''], take 8 uuid @ ''_'' @ sanitize_filename filename]"

definition download_file ::
  "file_faults \<Rightarrow> string \<Rightarrow> string \<Rightarrow> string option \<Rightarrow> bool \<Rightarrow> http_outcome \<Rightarrow> body \<Rightarrow> string \<Rightarrow> (string \<rightharpoonup> string) \<Rightarrow>
    string \<times> (string \<rightharpoonup> string)" where
  "download_file F tempDir uuid proxy proxyOk out b filename files =
    (let localPath = media_path tempDir uuid filename in
     if ff_mkdir F \<or> ff_request F \<or> (proxy \<noteq> None \<and> \<not> proxyOk) then ([], files)
     else
       (case response_of 0 out of
          (Some (_, status), None) \<Rightarrow>
            if status \<noteq> 200 \<or> ff_create F then ([], files)
            else if ff_write F \<or> bo_err b \<noteq> None then ([], files(localPath := None))
            else (localPath, files(localPath \<mapsto> bo_data b))
        | _ \<Rightarrow> ([], files)))"

text \<open>Replacing single characters, and removing pairs of dots.\<close>

lemma set_replace_single: "set (replace_all [c] [d] s) \<subseteq> insert d (set s - {c})"
  by (auto simp: replace_all_single)

fun no_pair :: "char \<Rightarrow> string \<Rightarrow> bool" where
  "no_pair c (a # b # s) \<longleftrightarrow> \<not> (a = c \<and> b = c) \<and> no_pair c (b # s)"
| "no_pair c _ \<longleftrightarrow> True"

lemma contains_pair: "contains [c, c] s \<longleftrightarrow> \<not> no_pair c s"
  by (induction c s rule: no_pair.induct) (auto simp: contains_def)

lemma remove_pairs_head:
  "replace_all [c, c] [] (a # s) = x # t \<Longrightarrow> x = c \<Longrightarrow> a = c"
proof (induction "length s" arbitrary: a s rule: less_induct)
  case less
  show ?case
  proof (cases s)
    case (Cons b u)
    then show ?thesis using less by (auto split: if_splits)
  qed (use less in \<open>auto split: if_splits\<close>)
qed

lemma remove_pairs: "no_pair c (replace_all [c, c] [] s)"
proof (induction "[c, c]" "[] :: string" s rule: replace_all.induct)
  case (2 a s)
  show ?case
  proof (cases "has_prefix [c, c] (a # s)")
    case False
    then have eq: "replace_all [c, c] [] (a # s) = a # replace_all [c, c] [] s"
      by (subst replace_all.simps(2)) (simp only: if_False simp_thms)
    have rest: "no_pair c (replace_all [c, c] [] s)" using 2 False by auto
    show ?thesis
    proof (cases "replace_all [c, c] [] s")
      case (Cons x t)
      have "\<not> (a = c \<and> x = c)"
      proof
        assume "a = c \<and> x = c"
        moreover from this have "\<exists>u. s = c # u"
          using remove_pairs_head [of c "hd s" "tl s" x t] Cons by (cases s) auto
        ultimately show False using False by auto
      qed
      with rest Cons show ?thesis unfolding eq by simp
    qed (unfold eq, simp)
  qed (use 2 in auto)
qed simp

lemma no_pair_map: "no_pair c s \<Longrightarrow> (\<And>x. f x = c \<longleftrightarrow> x = c) \<Longrightarrow> no_pair c (map f s)"
  by (induction c s rule: no_pair.induct) auto

lemma replace_single_map: "replace_all [c] [d] s = map (\<lambda>x. if x = c then d else x) s"
  by (induction s) (auto simp: replace_all_single)

text \<open>A sanitized name has no separator and no \<open>..\<close>, whatever the name was.\<close>

lemma sanitize_filename_free:
  "CHR ''/'' \<notin> set (sanitize_filename n)" "CHR 0x5C \<notin> set (sanitize_filename n)"
  "\<not> contains ''..'' (sanitize_filename n)"
proof -
  show "CHR ''/'' \<notin> set (sanitize_filename n)" "CHR 0x5C \<notin> set (sanitize_filename n)"
    by (auto simp: sanitize_filename_def Let_def replace_single_map)
  have "no_pair CHR ''.'' (sanitize_filename n)"
    unfolding sanitize_filename_def Let_def replace_single_map
    by (intro no_pair_map remove_pairs) auto
  then show "\<not> contains ''..'' (sanitize_filename n)" by (simp add: contains_pair)
qed

text \<open>
  A download is stored right below the media directory under a name of its own, however the
  name a sender gave the file was made up.
\<close>

theorem media_path_below:
  assumes "is_abs (path_join [tempDir, ''ectoclaw_media''])" and "path_join [tempDir, ''ectoclaw_media''] \<noteq> ''/''"
    and "CHR ''/'' \<notin> set uuid"
  shows "media_path tempDir uuid filename =
    path_join [tempDir, ''ectoclaw_media''] @ ''/'' @ take 8 uuid @ ''_'' @ sanitize_filename filename"
proof -
  have "clean (path_join [tempDir, ''ectoclaw_media'']) = path_join [tempDir, ''ectoclaw_media'']"
    by (simp add: path_join_def Let_def)
  moreover have "CHR ''/'' \<notin> set (take 8 uuid @ ''_'' @ sanitize_filename filename)"
    using assms(3) sanitize_filename_free(1) [of filename] by (auto dest: in_set_takeD)
  moreover have "take 8 uuid @ ''_'' @ s \<noteq> ''.''" "take 8 uuid @ ''_'' @ s \<noteq> ''..''" for s
    by (auto simp: append_eq_Cons_conv)
  ultimately show ?thesis
    unfolding media_path_def using assms(1,2) by (intro path_join_plain) auto
qed

theorem media_path_below_witness:
  "media_path ''/tmp'' ''0a1b2c3d-9'' ''../../etc/passwd'' = ''/tmp/ectoclaw_media/0a1b2c3d_passwd''"
  using media_path_below [of "''/tmp''" "''0a1b2c3d-9''" "''../../etc/passwd''"]
  by (simp add: path_join_def clean_def is_abs_def sanitize_filename_def base_name_def trim_slashes_def Let_def)

end
