(* ===== verification/Registry.thy ===== *)
theory Registry
  imports Complex_Main "HOL-Library.Multiset" Http Zip Utils Json_Struct Stores
begin

text \<open>
  \<open>pkg/skills/registry.go\<close>, \<open>clawhub_registry.go\<close>, \<open>installer.go\<close> and the install and remove commands of
  \<open>cmd/ectoclaw/internal/skills/helpers.go\<close>: searching several registries, and installing a skill from
  a registry or from GitHub. The network is an argument: what each request is answered.
\<close>

subsection \<open>Searching\<close>

record search_result =
  sr_Score :: rat
  sr_Slug :: string
  sr_DisplayName :: string
  sr_Summary :: string
  sr_Version :: string
  sr_RegistryName :: string

text \<open>
  \<open>sortByScoreDesc\<close>: an insertion sort. The part already sorted is kept in reverse, so that the
  inner loop, which walks down from its end, walks along the list.
\<close>

fun shift_down :: "search_result \<Rightarrow> search_result list \<Rightarrow> search_result list" where
  "shift_down key [] = [key]"
| "shift_down key (r # rs) = (if sr_Score r < sr_Score key then r # shift_down key rs else key # r # rs)"

definition sort_by_score_desc :: "search_result list \<Rightarrow> search_result list" where
  "sort_by_score_desc results = rev (fold shift_down results [])"

text \<open>
  \<open>SearchAll\<close> on the answers of the registries in the order they arrive, one for each registry. The
  semaphore only delays searches; a search that the context ends is an error like any other.
\<close>

fun merge_results :: "(string + search_result list) list \<Rightarrow> search_result list \<times> string option \<times> bool \<Rightarrow>
    search_result list \<times> string option \<times> bool" where
  "merge_results [] acc = acc"
| "merge_results (Inl e # rest) (merged, lastErr, any) = merge_results rest (merged, Some e, any)"
| "merge_results (Inr rs # rest) (merged, lastErr, any) = merge_results rest (merged @ rs, lastErr, True)"

definition search_all :: "(string + search_result list) list \<Rightarrow> int \<Rightarrow> string + search_result list" where
  "search_all arrivals limit =
    (if arrivals = [] then Inl ''no registries configured''
     else
       (case merge_results arrivals ([], None, False) of
          (merged, lastErr, any) \<Rightarrow>
            if \<not> any \<and> lastErr \<noteq> None then Inl (''all registries failed: '' @ the lastErr)
            else
              let sorted = sort_by_score_desc merged
              in Inr (if limit > 0 \<and> int (length sorted) > limit then take (nat limit) sorted else sorted)))"

text \<open>Registries by name.\<close>

definition get_registry :: "(string \<times> 'r) list \<Rightarrow> string \<Rightarrow> 'r option" where
  "get_registry registries name = map_option snd (List.find (\<lambda>(n, _). n = name) registries)"

lemma shift_down_mset: "mset (shift_down key rs) = add_mset key (mset rs)"
  by (induction rs) auto

lemma shift_down_sorted:
  "sorted (map sr_Score rs) \<Longrightarrow> sorted (map sr_Score (shift_down key rs))"
proof (induction rs)
  case (Cons r rs)
  have "set (shift_down key rs) = insert key (set rs)"
    using shift_down_mset [of key rs] by (metis set_mset_add_mset_insert set_mset_mset)
  with Cons show ?case by auto
qed simp

lemma shift_down_filter:
  "sorted (map sr_Score rs) \<Longrightarrow>
    filter (\<lambda>x. sr_Score x = s) (shift_down key rs) =
      (if sr_Score key = s then key # filter (\<lambda>x. sr_Score x = s) rs else filter (\<lambda>x. sr_Score x = s) rs)"
  by (induction rs) auto

lemma fold_shift_down:
  "sorted (map sr_Score acc) \<Longrightarrow>
    mset (fold shift_down rs acc) = mset rs + mset acc \<and>
    sorted (map sr_Score (fold shift_down rs acc)) \<and>
    filter (\<lambda>x. sr_Score x = s) (fold shift_down rs acc) =
      rev (filter (\<lambda>x. sr_Score x = s) rs) @ filter (\<lambda>x. sr_Score x = s) acc"
  by (induction rs arbitrary: acc) (auto simp: shift_down_sorted shift_down_mset shift_down_filter)

lemma sort_by_score_desc_spec: "sort_by_score_desc rs = sort_key (\<lambda>r. - sr_Score r) rs"
proof (rule sym, rule properties_for_sort_key)
  show "mset (sort_by_score_desc rs) = mset rs"
    using fold_shift_down [of "[]" rs] by (simp add: sort_by_score_desc_def)
  show "sorted (map (\<lambda>r. - sr_Score r) (sort_by_score_desc rs))"
  proof -
    have "sorted_wrt (\<lambda>a b. sr_Score a \<ge> sr_Score b) (sort_by_score_desc rs)"
      using fold_shift_down [of "[]" rs]
      by (simp add: sort_by_score_desc_def sorted_wrt_rev sorted_map)
    then show ?thesis by (simp add: sorted_map)
  qed
  fix k
  have "filter (\<lambda>x. sr_Score x = sr_Score k) (sort_by_score_desc rs) = filter (\<lambda>x. sr_Score x = sr_Score k) rs"
    using fold_shift_down [of "[]" rs "sr_Score k"]
    by (simp add: sort_by_score_desc_def flip: rev_filter)
  then show "filter (\<lambda>x. - sr_Score k = - sr_Score x) (sort_by_score_desc rs) =
      filter (\<lambda>x. - sr_Score k = - sr_Score x) rs"
    by (simp add: eq_commute [of "sr_Score k"])
qed

definition successes :: "(string + search_result list) list \<Rightarrow> search_result list list" where
  "successes arrivals = List.map_filter (\<lambda>a. case a of Inl _ \<Rightarrow> None | Inr rs \<Rightarrow> Some rs) arrivals"

lemma merge_results_spec:
  "merge_results arrivals (merged, lastErr, any) = (m, e, a) \<Longrightarrow>
    m = merged @ concat (successes arrivals) \<and> (a \<longleftrightarrow> any \<or> successes arrivals \<noteq> []) \<and>
    (e = None \<longleftrightarrow> lastErr = None \<and> (\<forall>x \<in> set arrivals. \<exists>rs. x = Inr rs))"
proof (induction arrivals arbitrary: merged lastErr any)
  case (Cons x xs)
  then show ?case
    by (cases x) (fastforce simp: successes_def List.map_filter_simps)+
qed (auto simp: successes_def List.map_filter_simps)

text \<open>
  C17. When some registry answered, the search gives the stable sort by falling score of everything
  the registries that answered found, cut at the limit; it fails only when there is no registry or
  all of them failed.
\<close>

theorem search_all_sorted:
  "search_all arrivals limit =
    (if arrivals = [] then Inl ''no registries configured''
     else if successes arrivals = [] then search_all arrivals 0
     else Inr (take (if limit > 0 then nat limit else length (concat (successes arrivals)))
       (sort_key (\<lambda>r. - sr_Score r) (concat (successes arrivals))))) \<and>
   (isl (search_all arrivals limit) \<longleftrightarrow> successes arrivals = [])"
proof (cases "arrivals = []")
  case False
  obtain m e a where r: "merge_results arrivals ([], None, False) = (m, e, a)" by (metis prod_cases3)
  note spec = merge_results_spec [OF r]
  have none: "successes arrivals = [] \<Longrightarrow> e \<noteq> None"
    using spec False by (cases arrivals) (auto simp: successes_def List.map_filter_simps split: sum.splits)
  show ?thesis
    using False spec none
    by (auto simp: search_all_def r Let_def sort_by_score_desc_spec)
qed (simp add: search_all_def successes_def List.map_filter_simps)

subsection \<open>The ClawHub client\<close>

record clawhub_config =
  cc_Enabled :: bool
  cc_BaseURL :: string
  cc_AuthToken :: string
  cc_SearchPath :: string
  cc_SkillsPath :: string
  cc_DownloadPath :: string
  cc_Timeout :: int
  cc_MaxZipSize :: int
  cc_MaxResponseSize :: int

record clawhub =
  ch_baseURL :: string
  ch_authToken :: string
  ch_searchPath :: string
  ch_skillsPath :: string
  ch_downloadPath :: string
  ch_maxZipSize :: int
  ch_maxResponseSize :: int
  ch_timeout :: int

definition or_default :: "string \<Rightarrow> string \<Rightarrow> string" where
  "or_default s d = (if s = [] then d else s)"

definition new_clawhub_registry :: "clawhub_config \<Rightarrow> clawhub" where
  "new_clawhub_registry cfg =
    \<lparr>ch_baseURL = or_default (cc_BaseURL cfg) ''https://clawhub.ai'',
     ch_authToken = cc_AuthToken cfg,
     ch_searchPath = or_default (cc_SearchPath cfg) ''/api/v1/search'',
     ch_skillsPath = or_default (cc_SkillsPath cfg) ''/api/v1/skills'',
     ch_downloadPath = or_default (cc_DownloadPath cfg) ''/api/v1/download'',
     ch_maxZipSize = (if cc_MaxZipSize cfg > 0 then cc_MaxZipSize cfg else 50 * 1024 * 1024),
     ch_maxResponseSize = (if cc_MaxResponseSize cfg > 0 then cc_MaxResponseSize cfg else 2 * 1024 * 1024),
     ch_timeout = (if cc_Timeout cfg > 0 then cc_Timeout cfg * 1000000000 else 30 * 1000000000)\<rparr>"

text \<open>
  A request, and the run of its attempts: outcomes, pauses and bodies by attempt; \<open>None\<close> when the
  request cannot be made of the URL. \<open>ne_query\<close> is \<open>url.Parse\<close> with parameters set and encoded,
  \<open>ne_escape\<close> is \<open>url.PathEscape\<close>.
\<close>

record http_request =
  rq_URL :: string
  rq_Accept :: string
  rq_Authorization :: "string option"

record exchange =
  ex_outs :: "nat \<Rightarrow> http_outcome"
  ex_slept :: "nat \<Rightarrow> string option"
  ex_bodies :: "nat \<Rightarrow> body"

record network =
  ne_do :: "http_request \<Rightarrow> exchange option"
  ne_query :: "string \<Rightarrow> (string \<times> string) list \<Rightarrow> string option"
  ne_escape :: "string \<Rightarrow> string"

definition new_get_request :: "clawhub \<Rightarrow> string \<Rightarrow> string \<Rightarrow> http_request" where
  "new_get_request c url accept =
    \<lparr>rq_URL = url, rq_Accept = accept,
     rq_Authorization = (if ch_authToken c = [] then None else Some (''Bearer '' @ ch_authToken c))\<rparr>"

text \<open>The response of a request with retries: its status and body, or the error.\<close>

definition fetch :: "network \<Rightarrow> http_request \<Rightarrow> string + (int \<times> body)" where
  "fetch N req =
    (case ne_do N req of
       None \<Rightarrow> Inl ''invalid request''
     | Some ex \<Rightarrow>
         (case fst (do_request_with_retry (ex_outs ex) (ex_slept ex)) of
            (_, Some e) \<Rightarrow> Inl e
          | (None, None) \<Rightarrow> Inl ''no response''
          | (Some (i, status), None) \<Rightarrow> Inr (status, ex_bodies ex i)))"

definition do_get :: "network \<Rightarrow> clawhub \<Rightarrow> string \<Rightarrow> string + string" where
  "do_get N c url =
    (case fetch N (new_get_request c url ''application/json'') of
       Inl e \<Rightarrow> Inl e
     | Inr (status, b) \<Rightarrow>
         (case limited_read (nat (ch_maxResponseSize c)) b of
            (_, Some e) \<Rightarrow> Inl (''failed to read response: '' @ e)
          | (text, None) \<Rightarrow> if success_status status then Inr text else Inl (http_error status text)))"

text \<open>
  One result of a search answer, and \<open>Search\<close>; \<open>decode\<close> is what \<open>encoding/json\<close> makes of the answer,
  scores being floating point numbers.
\<close>

record clawhub_result =
  cr_Score :: rat
  cr_Slug :: "string option"
  cr_DisplayName :: "string option"
  cr_Summary :: "string option"
  cr_Version :: "string option"

definition clawhub_entry :: "clawhub_result \<Rightarrow> search_result option" where
  "clawhub_entry r =
    (let slug = deref_str (cr_Slug r) [];
         summary = deref_str (cr_Summary r) [];
         displayName = deref_str (cr_DisplayName r) []
     in
       if slug = [] then None
       else if summary = [] then None
       else Some \<lparr>sr_Score = cr_Score r, sr_Slug = slug, sr_DisplayName = or_default displayName slug,
              sr_Summary = summary, sr_Version = deref_str (cr_Version r) [], sr_RegistryName = ''clawhub''\<rparr>)"

definition clawhub_search ::
  "(string \<Rightarrow> clawhub_result list option) \<Rightarrow> network \<Rightarrow> clawhub \<Rightarrow> string \<Rightarrow> int \<Rightarrow> string + search_result list" where
  "clawhub_search decode N c query limit =
    (case ne_query N (ch_baseURL c @ ch_searchPath c)
            ((''q'', query) # (if limit > 0 then [(''limit'', format_int limit)] else [])) of
       None \<Rightarrow> Inl ''invalid base URL''
     | Some u \<Rightarrow>
         (case do_get N c u of
            Inl e \<Rightarrow> Inl (''search request failed: '' @ e)
          | Inr text \<Rightarrow>
              (case decode text of
                 None \<Rightarrow> Inl ''failed to parse search response''
               | Some results \<Rightarrow> Inr (List.map_filter clawhub_entry results))))"

text \<open>The answer with the metadata of a skill; its two structs are pointers.\<close>

record skill_response =
  sp_Slug :: string
  sp_DisplayName :: string
  sp_Summary :: string
  sp_LatestVersion :: "string option"
  sp_Moderation :: "(bool \<times> bool) option"

definition version_fields :: "string field_table" where
  "version_fields = [(''version'', set_string (\<lambda>s _. s))]"

definition moderation_fields :: "(bool \<times> bool) field_table" where
  "moderation_fields =
    [(''isMalwareBlocked'', set_bool (\<lambda>b (_, s). (b, s))), (''isSuspicious'', set_bool (\<lambda>b (m, _). (m, b)))]"

definition skill_response_fields :: "skill_response field_table" where
  "skill_response_fields =
    [(''slug'', set_string (\<lambda>s r. r\<lparr>sp_Slug := s\<rparr>)),
     (''displayName'', set_string (\<lambda>s r. r\<lparr>sp_DisplayName := s\<rparr>)),
     (''summary'', set_string (\<lambda>s r. r\<lparr>sp_Summary := s\<rparr>)),
     (''latestVersion'', set_pointer version_fields [] sp_LatestVersion (\<lambda>p r. r\<lparr>sp_LatestVersion := p\<rparr>)),
     (''moderation'', set_pointer moderation_fields (False, False) sp_Moderation (\<lambda>p r. r\<lparr>sp_Moderation := p\<rparr>))]"

record skill_meta =
  sk_Slug :: string
  sk_DisplayName :: string
  sk_Summary :: string
  sk_LatestVersion :: string
  sk_IsMalwareBlocked :: bool
  sk_IsSuspicious :: bool
  sk_RegistryName :: string

definition meta_of_response :: "skill_response \<Rightarrow> skill_meta" where
  "meta_of_response resp =
    \<lparr>sk_Slug = sp_Slug resp, sk_DisplayName = sp_DisplayName resp, sk_Summary = sp_Summary resp,
     sk_LatestVersion = (case sp_LatestVersion resp of None \<Rightarrow> [] | Some v \<Rightarrow> v),
     sk_IsMalwareBlocked = (case sp_Moderation resp of None \<Rightarrow> False | Some m \<Rightarrow> fst m),
     sk_IsSuspicious = (case sp_Moderation resp of None \<Rightarrow> False | Some m \<Rightarrow> snd m),
     sk_RegistryName = ''clawhub''\<rparr>"

definition get_skill_meta :: "network \<Rightarrow> clawhub \<Rightarrow> string \<Rightarrow> string + skill_meta" where
  "get_skill_meta N c slug =
    (case validate_skill_identifier slug of
       Some e \<Rightarrow> Inl (''invalid slug: error: '' @ e)
     | None \<Rightarrow>
         (case do_get N c (ch_baseURL c @ ch_skillsPath c @ ''/'' @ ne_escape N slug) of
            Inl e \<Rightarrow> Inl (''skill metadata request failed: '' @ e)
          | Inr text \<Rightarrow>
              (case unmarshal text of
                 None \<Rightarrow> Inl ''failed to parse skill metadata''
               | Some v \<Rightarrow>
                   (case decode_struct skill_response_fields v
                           \<lparr>sp_Slug = [], sp_DisplayName = [], sp_Summary = [], sp_LatestVersion = None, sp_Moderation = None\<rparr> of
                      (_, True) \<Rightarrow> Inl ''failed to parse skill metadata''
                    | (resp, False) \<Rightarrow> Inr (meta_of_response resp)))))"

subsection \<open>Download and installation\<close>

record install_result =
  ir_Version :: string
  ir_IsMalwareBlocked :: bool
  ir_IsSuspicious :: bool
  ir_Summary :: string

text \<open>
  What the file system does in an installation: the faults of the download and of unpacking, and
  the archive that the bytes of a file are, \<open>archive/zip\<close> being an argument.
\<close>

record install_env =
  ie_tmp :: "string \<rightharpoonup> string"
  ie_download :: download_faults
  ie_zip :: zip_faults
  ie_archive :: "string \<Rightarrow> zip_entry list option"
  ie_removeFails :: bool

text \<open>\<open>downloadToTempFileWithRetry\<close>: the temporary file and its contents.\<close>

definition download_to_temp ::
  "network \<Rightarrow> clawhub \<Rightarrow> install_env \<Rightarrow> string \<Rightarrow> (string + string) \<times> (string \<rightharpoonup> string)" where
  "download_to_temp N c E url =
    (case fetch N (new_get_request c url ''application/zip'') of
       Inl e \<Rightarrow> (Inl e, ie_tmp E)
     | Inr (status, b) \<Rightarrow>
         if \<not> success_status status then (Inl (http_error status (take 512 (bo_data b))), ie_tmp E)
         else store_body (ie_download E) (Some (nat (ch_maxZipSize c))) b (ie_tmp E))"

definition install_version :: "string \<Rightarrow> skill_meta option \<Rightarrow> string" where
  "install_version version meta =
    (let v = (if version = [] then (case meta of None \<Rightarrow> [] | Some m \<Rightarrow> sk_LatestVersion m) else version)
     in or_default v ''latest'')"

definition install_metadata :: "string \<Rightarrow> skill_meta option \<Rightarrow> install_result" where
  "install_metadata version meta =
    \<lparr>ir_Version = install_version version meta,
     ir_IsMalwareBlocked = (case meta of None \<Rightarrow> False | Some m \<Rightarrow> sk_IsMalwareBlocked m),
     ir_IsSuspicious = (case meta of None \<Rightarrow> False | Some m \<Rightarrow> sk_IsSuspicious m),
     ir_Summary = (case meta of None \<Rightarrow> [] | Some m \<Rightarrow> sk_Summary m)\<rparr>"

text \<open>\<open>DownloadAndInstall\<close>; without metadata it goes on. The temporary file is removed at the end.\<close>

definition download_and_install ::
  "network \<Rightarrow> clawhub \<Rightarrow> install_env \<Rightarrow> string \<Rightarrow> string \<Rightarrow> string \<Rightarrow> tree \<Rightarrow> tree \<times> (string + install_result)" where
  "download_and_install N c E slug version targetDir t =
    (case validate_skill_identifier slug of
       Some e \<Rightarrow> (t, Inl (''invalid slug: error: '' @ e))
     | None \<Rightarrow>
         let meta = (case get_skill_meta N c slug of Inl _ \<Rightarrow> None | Inr m \<Rightarrow> Some m);
             installVersion = install_version version meta
         in
           (case ne_query N (ch_baseURL c @ ch_downloadPath c)
                   ((''slug'', slug) # (if installVersion \<noteq> ''latest'' then [(''version'', installVersion)] else [])) of
              None \<Rightarrow> (t, Inl ''invalid base URL'')
            | Some u \<Rightarrow>
                (case download_to_temp N c E u of
                   (Inl e, _) \<Rightarrow> (t, Inl (''download failed: '' @ e))
                 | (Inr tmpPath, tmp) \<Rightarrow>
                     (case extract_zip_file (ie_zip E) (ie_archive E (case tmp tmpPath of None \<Rightarrow> [] | Some bytes \<Rightarrow> bytes)) targetDir t of
                        (t', Some _) \<Rightarrow> (t', Inl ''extraction failed'')
                      | (t', None) \<Rightarrow> (t', Inr (install_metadata version meta))))))"

text \<open>\<open>RemoveAll\<close>: a path and everything below it.\<close>

definition remove_all :: "string \<Rightarrow> tree \<Rightarrow> tree" where
  "remove_all p t =
    \<lparr>tr_dirs = {a \<in> tr_dirs t. a \<noteq> p \<and> \<not> below p a},
     tr_files = (\<lambda>q. if q = p \<or> below p q then None else tr_files t q)\<rparr>"

definition path_exists :: "tree \<Rightarrow> string \<Rightarrow> bool" where
  "path_exists t p \<longleftrightarrow> p \<in> tr_dirs t \<or> tr_files t p \<noteq> None"

text \<open>
  \<open>skillsInstallFromRegistry\<close> for the registries there are: what is left behind and the error, if
  any. A failed or blocked installation is removed again.
\<close>

definition skill_target :: "string \<Rightarrow> string \<Rightarrow> string" where
  "skill_target workspace slug = path_join [workspace, ''skills'', slug]"

definition install_from_registry ::
  "network \<Rightarrow> install_env \<Rightarrow> clawhub_config \<Rightarrow> string \<Rightarrow> string \<Rightarrow> string \<Rightarrow> tree \<Rightarrow> tree \<times> string option" where
  "install_from_registry N E cfg workspace registryName slug t =
    (if validate_skill_identifier registryName \<noteq> None then (t, Some ''invalid registry name'')
     else if validate_skill_identifier slug \<noteq> None then (t, Some ''invalid slug'')
     else
       (case get_registry (if cc_Enabled cfg then [(''clawhub'', new_clawhub_registry cfg)] else []) registryName of
          None \<Rightarrow> (t, Some ''registry not found or not enabled'')
        | Some c \<Rightarrow>
            let targetDir = skill_target workspace slug in
            if path_exists t targetDir then (t, Some ''already installed'')
            else
              (case mkdir_all (zf_mkdir (ie_zip E)) (path_join [workspace, ''skills'']) t of
                 (t1, False) \<Rightarrow> (t1, Some ''failed to create skills directory'')
               | (t1, True) \<Rightarrow>
                   (case download_and_install N c E slug [] targetDir t1 of
                      (t2, Inl e) \<Rightarrow>
                        (if ie_removeFails E then t2 else remove_all targetDir t2, Some (''failed to install skill: '' @ e))
                    | (t2, Inr result) \<Rightarrow>
                        if ir_IsMalwareBlocked result
                        then (if ie_removeFails E then t2 else remove_all targetDir t2, Some ''flagged as malicious'')
                        else (t2, None)))))"

text \<open>The commands that install from GitHub and remove a skill.\<close>

definition install_from_github ::
  "network \<Rightarrow> install_env \<Rightarrow> (write_step \<Rightarrow> bool) \<Rightarrow> nat \<Rightarrow> string \<Rightarrow> string \<Rightarrow> string \<Rightarrow> tree \<Rightarrow> tree \<times> string option" where
  "install_from_github N E fails partial tmpName workspace repo t =
    (let skillDir = path_join [workspace, ''skills'', base_name repo] in
     if path_exists t skillDir then (t, Some ''skill already exists'')
     else
       (case fetch N \<lparr>rq_URL = ''https://raw.githubusercontent.com/'' @ repo @ ''/main/SKILL.md'', rq_Accept = [],
                rq_Authorization = None\<rparr> of
          Inl e \<Rightarrow> (t, Some (''failed to fetch skill: '' @ e))
        | Inr (status, b) \<Rightarrow>
            if status \<noteq> 200 then (t, Some (''failed to fetch skill: HTTP '' @ format_int status))
            else if bo_err b \<noteq> None then (t, Some ''failed to read response'')
            else
              (case mkdir_all (zf_mkdir (ie_zip E)) skillDir t of
                 (t1, False) \<Rightarrow> (t1, Some ''failed to create skill directory'')
               | (t1, True) \<Rightarrow>
                   let (disks, err) = write_file_atomic fails partial (tr_files t1) (path_join [skillDir, tmpName])
                         (path_join [skillDir, ''SKILL.md'']) (bo_data b)
                   in (t1\<lparr>tr_files := last disks\<rparr>, err))))"

definition uninstall :: "install_env \<Rightarrow> string \<Rightarrow> string \<Rightarrow> tree \<Rightarrow> tree \<times> string option" where
  "uninstall E workspace skillName t =
    (let skillDir = path_join [workspace, ''skills'', skillName] in
     if \<not> path_exists t skillDir then (t, Some ''skill not found'')
     else if ie_removeFails E then (t, Some ''failed to remove skill'')
     else (remove_all skillDir t, None))"

subsection \<open>Where a skill is installed\<close>

text \<open>Trimming drops no byte that is in no white space character.\<close>

lemma strip_keeps: "\<forall>w \<in> set ws. c \<notin> set w \<Longrightarrow> c \<in> set s \<Longrightarrow> c \<in> set (strip ws s)"
proof (induction ws s rule: strip.induct)
  case (1 ws s)
  show ?case
  proof (cases "head_len ws s = 0")
    case False
    then obtain w where w: "w \<in> set ws" "head_len ws s = length w" "has_prefix w s"
      by (auto simp: head_len_def split: option.splits dest: find_Some_set)
    have "s = w @ drop (length w) s" using w(3) by (rule has_prefixE)
    with 1(2,3) w(1) have "c \<in> set (drop (length w) s)" by (metis UnE set_append)
    with 1 False w show ?thesis by (subst strip.simps) auto
  qed (use 1 in simp)
qed

lemma trim_space_keeps:
  assumes "\<forall>w \<in> set space_seqs. c \<notin> set w" and "c \<in> set s"
  shows "c \<in> set (trim_space s)"
  using strip_keeps [of space_seqs c s] strip_keeps [of "map rev space_seqs" c] assms
  by (auto simp: trim_space_def trim_left_def trim_right_def)

lemma no_slash_in_spaces: "\<forall>w \<in> set space_seqs. CHR ''/'' \<notin> set w"
  by (simp add: space_seqs_def)

lemma valid_identifier_name:
  assumes "validate_skill_identifier s = None"
  shows "CHR ''/'' \<notin> set s" and "s \<noteq> []" and "s \<noteq> ''..''"
proof -
  have ok: "trim_space s \<noteq> []" "CHR ''/'' \<notin> set (trim_space s)" "\<not> contains ''..'' (trim_space s)"
    using assms by (auto simp: validate_skill_identifier_def Let_def split: if_splits)
  show "CHR ''/'' \<notin> set s" using trim_space_keeps [OF no_slash_in_spaces] ok(2) by blast
  show "s \<noteq> []" using ok(1) by auto
  have "trim_space ''..'' = ''..''" by code_simp
  moreover have "contains ''..'' ''..''" by (simp add: contains_def)
  ultimately show "s \<noteq> ''..''" using ok(3) by auto
qed

text \<open>The target of a valid slug is the skills directory or lies right below it.\<close>

lemma skill_target_place:
  assumes d: "clean_dir (path_join [workspace, ''skills''])" and v: "validate_skill_identifier slug = None"
  shows "skill_target workspace slug = path_join [workspace, ''skills''] \<or>
      below (path_join [workspace, ''skills'']) (skill_target workspace slug)"
    and "clean_dir (skill_target workspace slug)"
proof -
  note n = valid_identifier_name [OF v]
  have ws: "workspace \<noteq> []"
    using d by (auto simp: clean_dir_def path_join_def clean_def is_abs_def Let_def)
  let ?base = "workspace @ ''/'' @ ''skills''"
  have base: "path_join [workspace, ''skills''] = clean ?base" using ws by (simp add: path_join_def)
  have target: "skill_target workspace slug = clean (?base @ CHR ''/'' # slug)"
    using ws n(2) by (simp add: skill_target_def path_join_def)
  have abs: "is_abs ?base" using d base by (simp add: clean_dir_def)
  then have abs': "is_abs (?base @ CHR ''/'' # slug)" by (cases workspace) (auto simp: is_abs_def)
  have split: "split_on CHR ''/'' (?base @ CHR ''/'' # slug) = split_on CHR ''/'' ?base @ [slug]"
    using split_on_append [of "CHR ''/''" ?base slug] split_on_free [OF n(1)] by simp
  let ?ps = "clean_parts True [] (split_on CHR ''/'' ?base)"
  have base': "path_join [workspace, ''skills''] = path_of True ?ps"
    unfolding base clean_def using abs by (simp add: path_of_def Let_def)
  have target': "skill_target workspace slug = path_of True (clean_parts True [] (split_on CHR ''/'' ?base @ [slug]))"
    unfolding target clean_def split using abs' by (simp add: path_of_def Let_def)
  have ne: "?ps \<noteq> []" using d base' by (auto simp: clean_dir_def path_of_def)
  show "skill_target workspace slug = path_join [workspace, ''skills''] \<or>
      below (path_join [workspace, ''skills'']) (skill_target workspace slug)"
  proof (cases "slug = ''.''")
    case True
    have "clean_parts True acc (ps @ [''.'']) = clean_parts True acc ps" for acc ps
      by (induction True acc ps rule: clean_parts.induct) (auto split: list.splits)
    then show ?thesis using base' target' True by simp
  next
    case False
    then have "skill_target workspace slug = path_of True (?ps @ [slug])"
      using target' clean_parts_snoc [OF n(2) False n(3)] by simp
    then show ?thesis using path_of_append [OF ne, of "[slug]"] base' by (simp add: below_def has_prefix_append_iff)
  qed
  then show "clean_dir (skill_target workspace slug)"
    using d target by (auto simp: clean_dir_def below_def has_prefix_append_iff is_abs_def)
qed

text \<open>A file tree in which the directories a file or directory lies in exist.\<close>

definition tree_ok :: "tree \<Rightarrow> bool" where
  "tree_ok t \<longleftrightarrow> (\<forall>p d. (tr_files t p \<noteq> None \<or> p \<in> tr_dirs t) \<longrightarrow> below d p \<longrightarrow> d = [] \<or> d \<in> tr_dirs t)"

lemma mkdir_all_files: "mkdir_all fails p t = (t', ok) \<Longrightarrow> tr_files t' = tr_files t"
  by (auto simp: mkdir_all_def split: if_splits)

lemma download_and_install_confined:
  assumes "clean_dir d" and "download_and_install N c E slug v d t = (t', res)"
  shows "confined d max_entry_size t t'"
  using assms(2) extract_zip_confined [OF assms(1)]
  by (auto simp: download_and_install_def Let_def split: option.splits prod.splits sum.splits)

lemma remove_all_restores:
  assumes "confined d n t t'" and "\<And>p. p = d \<or> below d p \<Longrightarrow> tr_files t p = None"
  shows "tr_files (remove_all d t') = tr_files t"
  using assms by (auto simp: remove_all_def confined_def fun_eq_iff)

lemma download_steps:
  assumes "validate_skill_identifier slug = None" "\<not> path_exists t (skill_target workspace slug)" "tree_ok t"
    and "clean_dir (path_join [workspace, ''skills''])"
    and "mkdir_all mf (path_join [workspace, ''skills'']) t = (t1, ok)"
    and "download_and_install N c E slug [] (skill_target workspace slug) t1 = (t2, res)"
  shows "tr_files t2 p = tr_files t p \<or> below (skill_target workspace slug) p"
    and "tr_files (remove_all (skill_target workspace slug) t2) = tr_files t"
proof -
  let ?d = "skill_target workspace slug"
  note place = skill_target_place [OF assms(4,1)] and f1 = mkdir_all_files [OF assms(5)]
  have free: "tr_files t p = None" if "p = ?d \<or> below ?d p" for p
  proof (cases "p = ?d")
    case False
    have "?d \<noteq> []" using place(2) by (auto simp: clean_dir_def is_abs_def)
    moreover have "?d \<notin> tr_dirs t" using assms(2) by (simp add: path_exists_def)
    ultimately show ?thesis using False that assms(3) unfolding tree_ok_def by blast
  qed (use assms(2) in \<open>simp add: path_exists_def\<close>)
  have w: "confined ?d max_entry_size t1 t2" by (rule download_and_install_confined [OF place(2) assms(6)])
  have "tr_files (remove_all ?d t2) = tr_files t1" by (rule remove_all_restores [OF w]) (simp add: f1 free)
  moreover have "tr_files t2 p = tr_files t1 p \<or> below ?d p" using w unfolding confined_def by blast
  ultimately show "tr_files t2 p = tr_files t p \<or> below ?d p" "tr_files (remove_all ?d t2) = tr_files t"
    by (simp_all add: f1)
qed

text \<open>A run that finds the target free either changes no file and fails, or ends with what the download gave.\<close>

lemma install_outcomes:
  assumes "install_from_registry N E cfg workspace registryName slug t = (t', err)" "\<not> ie_removeFails E"
    and "validate_skill_identifier slug = None" "\<not> path_exists t (skill_target workspace slug)"
    and "mkdir_all (zf_mkdir (ie_zip E)) (path_join [workspace, ''skills'']) t = (t1, ok)"
  obtains "tr_files t' = tr_files t" "err \<noteq> None"
  | c t2 r where "download_and_install N c E slug [] (skill_target workspace slug) t1 = (t2, r)"
      "(t', err) = (case r of Inl e \<Rightarrow> (remove_all (skill_target workspace slug) t2, Some (''failed to install skill: '' @ e))
        | Inr result \<Rightarrow> if ir_IsMalwareBlocked result
            then (remove_all (skill_target workspace slug) t2, Some ''flagged as malicious'') else (t2, None))"
proof (cases "validate_skill_identifier registryName = None \<and> ok")
  case False
  then have "tr_files t' = tr_files t \<and> err \<noteq> None"
    using assms mkdir_all_files [OF assms(5)] unfolding install_from_registry_def Let_def
    by (auto split: if_splits option.splits)
  then show ?thesis using that(1) by blast
next
  case valid: True
  show ?thesis
  proof (cases "get_registry (if cc_Enabled cfg then [(''clawhub'', new_clawhub_registry cfg)] else []) registryName")
    case None
    then have "(t', err) = (t, Some ''registry not found or not enabled'')"
      using assms(1,3,4) valid unfolding install_from_registry_def by simp
    then show ?thesis using that(1) by blast
  next
    case (Some c)
    obtain t2 r where d: "download_and_install N c E slug [] (skill_target workspace slug) t1 = (t2, r)" by force
    have "(t', err) = install_from_registry N E cfg workspace registryName slug t" using assms(1) by simp
    also have "\<dots> = (case r of Inl e \<Rightarrow> (remove_all (skill_target workspace slug) t2, Some (''failed to install skill: '' @ e))
        | Inr result \<Rightarrow> if ir_IsMalwareBlocked result
            then (remove_all (skill_target workspace slug) t2, Some ''flagged as malicious'') else (t2, None))"
      unfolding install_from_registry_def Let_def using assms(2-5) valid Some d
      by (simp only: if_False if_True option.case prod.case bool.case simp_thms not_None_eq HOL.not_not)
    finally show ?thesis using that(2) d by blast
  qed
qed

text \<open>
  C2. Installing from a registry is all or nothing, whatever the registry, the network and the archive
  do: a reported failure, an archive that fails halfway and a skill marked as malware included,
  leaves every file as it was, and a success changes files below the skill's own directory only,
  which lies right below the skills directory of the workspace (or is it, for the slug \<open>.\<close>).
\<close>

theorem install_all_or_nothing:
  assumes "install_from_registry N E cfg workspace registryName slug t = (t', err)"
    and "tree_ok t" and "\<not> ie_removeFails E" and "clean_dir (path_join [workspace, ''skills''])"
  shows "if err = None
    then (\<forall>p. tr_files t' p = tr_files t p \<or> below (skill_target workspace slug) p) \<and>
      (skill_target workspace slug = path_join [workspace, ''skills''] \<or>
       below (path_join [workspace, ''skills'']) (skill_target workspace slug))
    else tr_files t' = tr_files t"
proof (cases "validate_skill_identifier slug = None \<and> \<not> path_exists t (skill_target workspace slug)")
  case True
  note ok = conjunct1 [OF True] and free = conjunct2 [OF True]
  obtain t1 made where m: "mkdir_all (zf_mkdir (ie_zip E)) (path_join [workspace, ''skills'']) t = (t1, made)" by force
  note place = skill_target_place [OF assms(4) ok]
  from install_outcomes [OF assms(1,3) ok free m] show ?thesis
  proof cases
    case (2 c t2 r)
    with download_steps [OF ok free assms(2,4) m 2(1)] place(1) show ?thesis
      by (cases r) (auto split: if_splits)
  qed (use place(1) in auto)
qed (use assms(1) in \<open>auto simp: install_from_registry_def Let_def split: if_splits option.splits\<close>)

definition hostile_network :: network where
  "hostile_network =
    \<lparr>ne_do = \<lambda>_. Some \<lparr>ex_outs = \<lambda>_. Responded 200, ex_slept = \<lambda>_. None, ex_bodies = \<lambda>_. \<lparr>bo_data = ''PK'', bo_err = None\<rparr>\<rparr>,
     ne_query = \<lambda>u _. Some u, ne_escape = id\<rparr>"

definition hostile_env :: install_env where
  "hostile_env =
    \<lparr>ie_tmp = Map.empty, ie_download = \<lparr>df_create = Inr ''/tmp/dl'', df_write = None, df_close = None\<rparr>,
     ie_zip = no_faults, ie_archive = \<lambda>_. Some [plain_entry ''SKILL.md'' ''x'', plain_entry ''../../other'' ''y''],
     ie_removeFails = False\<rparr>"

definition enabled_config :: clawhub_config where
  "enabled_config = \<lparr>cc_Enabled = True, cc_BaseURL = [], cc_AuthToken = [], cc_SearchPath = [], cc_SkillsPath = [],
     cc_DownloadPath = [], cc_Timeout = 0, cc_MaxZipSize = 0, cc_MaxResponseSize = 0\<rparr>"

theorem install_all_or_nothing_witness:
  "tr_files (fst (install_from_registry hostile_network hostile_env enabled_config ''/w'' ''clawhub'' ''s''
     \<lparr>tr_dirs = {}, tr_files = Map.empty\<rparr>)) ''/w/other'' = None"
proof -
  obtain t' err where run: "install_from_registry hostile_network hostile_env enabled_config ''/w'' ''clawhub'' ''s''
     \<lparr>tr_dirs = {}, tr_files = Map.empty\<rparr> = (t', err)" by force
  have dir: "clean_dir (path_join [''/w'', ''skills''])" and target: "skill_target ''/w'' ''s'' = ''/w/skills/s''"
    by (simp_all add: clean_dir_def path_join_def clean_def is_abs_def skill_target_def Let_def)
  have ok: "tree_ok \<lparr>tr_dirs = {}, tr_files = Map.empty\<rparr>" "\<not> ie_removeFails hostile_env"
    by (simp_all add: tree_ok_def hostile_env_def)
  from install_all_or_nothing [OF run ok dir] target
  have "tr_files t' ''/w/other'' = None \<or> below ''/w/skills/s'' ''/w/other''" by (cases err) auto
  then show ?thesis by (simp add: run below_def has_prefix_def)
qed

text \<open>
  Removing a skill does not check its name: \<open>..\<close> removes the whole workspace, and \<open>../..\<close> the directory
  it lies in.
\<close>

theorem uninstall_escapes:
  "uninstall E ''/home/u/workspace'' ''../..'' t =
    (if \<not> path_exists t ''/home/u'' then (t, Some ''skill not found'')
     else if ie_removeFails E then (t, Some ''failed to remove skill'')
     else (remove_all ''/home/u'' t, None))"
proof -
  have "path_join [''/home/u/workspace'', ''skills'', ''../..''] = ''/home/u''" by code_simp
  then show ?thesis by (simp add: uninstall_def)
qed

end
