(* ===== verification/Go_Regex.thy ===== *)
theory Go_Regex
  imports Go_Strings
begin

text \<open>
  The part of Go's \<open>regexp\<close> package the program uses. An expression is a matcher: a function that
  tells whether the expression matches at the start of a text, with what its groups hold and what
  follows the match. The delimiters of the expressions are ASCII, so they work on bytes.
\<close>

subsection \<open>Leftmost matches\<close>

text \<open>A text cut at the successive matches: bytes outside of them and groups of them.\<close>

function pieces :: "(string \<Rightarrow> ('a \<times> string) option) \<Rightarrow> string \<Rightarrow> (char + 'a) list" where
  "pieces m [] = []"
| "pieces m (c # s) =
    (case m (c # s) of
       Some (g, rest) \<Rightarrow> if length rest < length (c # s) then Inr g # pieces m rest else Inl c # pieces m s
     | None \<Rightarrow> Inl c # pieces m s)"
  by pat_completeness auto
termination
  by (relation "measure (\<lambda>(m, s). length s)") auto

text \<open>\<open>ReplaceAllString\<close> and \<open>FindAllStringSubmatch\<close>.\<close>

definition replace_matches :: "(string \<Rightarrow> ('a \<times> string) option) \<Rightarrow> ('a \<Rightarrow> string) \<Rightarrow> string \<Rightarrow> string" where
  "replace_matches m f s = concat (map (case_sum (\<lambda>c. [c]) f) (pieces m s))"

definition match_groups :: "(string \<Rightarrow> ('a \<times> string) option) \<Rightarrow> string \<Rightarrow> 'a list" where
  "match_groups m s = concat (map (case_sum (\<lambda>_. []) (\<lambda>g. [g])) (pieces m s))"

subsection \<open>Classes and delimiters\<close>

definition is_white :: "char \<Rightarrow> bool" where
  "is_white c \<longleftrightarrow> (of_char c :: nat) \<in> {9, 10, 12, 13, 32}"

definition is_word :: "char \<Rightarrow> bool" where
  "is_word c \<longleftrightarrow> (let n = of_char c :: nat in
    48 \<le> n \<and> n \<le> 57 \<or> 65 \<le> n \<and> n \<le> 90 \<or> n = 95 \<or> 97 \<le> n \<and> n \<le> 122)"

definition newline :: char where "newline = CHR 0x0A"

text \<open>The shortest stretch of bytes of a class that the closing text follows, with the rest after it.\<close>

fun until :: "(char \<Rightarrow> bool) \<Rightarrow> string \<Rightarrow> string \<Rightarrow> (string \<times> string) option" where
  "until P close [] = (if close = [] then Some ([], []) else None)"
| "until P close (c # t) =
    (if has_prefix close (c # t) then Some ([], drop (length close) (c # t))
     else if P c then map_option (apfst ((#) c)) (until P close t) else None)"

text \<open>A delimiter, a non-empty stretch of a class and the delimiter again.\<close>

definition delimited :: "string \<Rightarrow> (char \<Rightarrow> bool) \<Rightarrow> string \<Rightarrow> (string \<times> string) option" where
  "delimited d P s =
    (if has_prefix d s then
       (case drop (length d) s of
          [] \<Rightarrow> None
        | c # t \<Rightarrow> if P c then map_option (apfst ((#) c)) (until P d t) else None)
     else None)"

subsection \<open>Matches are stretches of the text\<close>

lemma until_parts: "until P close s = Some (g, rest) \<Longrightarrow> s = g @ close @ rest"
proof (induction P close s arbitrary: g rest rule: until.induct)
  case (2 P close c t)
  show ?case
  proof (cases "has_prefix close (c # t)")
    case True
    with "2.prems" show ?thesis by (auto dest: has_prefixE)
  next
    case False
    with "2.prems" obtain g' where "P c" "until P close t = Some (g', rest)" "g = c # g'"
      by (auto split: if_splits)
    with "2.IH" [OF False] show ?thesis by simp
  qed
qed (simp split: if_splits)

lemma delimited_parts:
  assumes "delimited d P s = Some (g, rest)"
  shows "s = d @ g @ d @ rest"
proof -
  from assms obtain c t g' where "has_prefix d s" "drop (length d) s = c # t"
      "until P d t = Some (g', rest)" "g = c # g'"
    by (auto simp: delimited_def split: if_splits list.splits)
  then have "s = d @ c # t" "t = g' @ d @ rest" "g = c # g'"
    using has_prefixE [of d s] until_parts by auto
  then show ?thesis by simp
qed

text \<open>Replacing matches, one match at a time.\<close>

lemma replace_matches_simps:
  "replace_matches m f [] = []"
  "m (c # s) = None \<Longrightarrow> replace_matches m f (c # s) = c # replace_matches m f s"
  "m (c # s) = Some (g, rest) \<Longrightarrow> length rest < length (c # s) \<Longrightarrow>
    replace_matches m f (c # s) = f g @ replace_matches m f rest"
  by (auto simp: replace_matches_def)

lemma replace_matches_none:
  assumes "\<And>c t. c \<in> set s \<Longrightarrow> m (c # t) = None"
  shows "replace_matches m f s = s"
  using assms by (induction s) (auto simp: replace_matches_simps)

text \<open>The shortest stretch up to a text is what comes before its first occurrence.\<close>

lemma until_index:
  "until (\<lambda>_. True) close s =
    (case index_of close s of None \<Rightarrow> None | Some i \<Rightarrow> Some (take i s, drop (i + length close) s))"
  by (induction close s rule: index_of.induct) (auto split: option.splits)

text \<open>Every group comes from a match.\<close>

lemma match_groups_hit:
  assumes "g \<in> set (match_groups m s)"
  shows "\<exists>u rest. m u = Some (g, rest)"
proof -
  have "Inr g \<in> set (pieces m s) \<longrightarrow> (\<exists>u rest. m u = Some (g, rest))"
  proof (induction s rule: measure_induct_rule [of length])
    case (less s)
    show ?case
    proof (cases s)
      case (Cons c t)
      show ?thesis
      proof (cases "m (c # t)")
        case None
        then show ?thesis using less [of t] Cons by simp
      next
        case (Some p)
        obtain h rest where "p = (h, rest)" by force
        then show ?thesis using less [of t] less [of rest] Cons Some by (cases "length rest < length (c # t)") auto
      qed
    qed simp
  qed
  then show ?thesis using assms by (auto simp: match_groups_def split: sum.splits)
qed

lemma match_groups_exist:
  assumes "\<And>v g rest. m v = Some (g, rest) \<Longrightarrow> length rest < length v"
  shows "match_groups m s \<noteq> [] \<longleftrightarrow> (\<exists>u v. s = u @ v \<and> m v \<noteq> None)"
proof (induction s)
  case Nil
  have "m [] = None" using assms [of "[]"] by (cases "m []") auto
  then show ?case by (simp add: match_groups_def)
next
  case (Cons c s)
  show ?case
  proof (cases "m (c # s)")
    case None
    then have "match_groups m (c # s) = match_groups m s" by (simp add: match_groups_def)
    with Cons None show ?thesis by (auto simp: Cons_eq_append_conv simp del: not_None_eq) 
  next
    case (Some x)
    obtain g rest where x: "x = (g, rest)" by force
    then have "match_groups m (c # s) = g # match_groups m rest"
      using Some assms [of "c # s" g rest] by (simp add: match_groups_def)
    moreover have "c # s = [] @ c # s \<and> m (c # s) \<noteq> None" using Some by simp
    ultimately show ?thesis by (metis list.distinct(1))
  qed
qed

subsection \<open>Expressions that match at the start of a line\<close>

text \<open>With the flag \<open>m\<close> a match starts at the start of the text or behind a newline.\<close>

function line_pieces :: "(string \<Rightarrow> ('a \<times> string) option) \<Rightarrow> bool \<Rightarrow> string \<Rightarrow> (char + 'a) list" where
  "line_pieces m start [] = []"
| "line_pieces m start (c # s) =
    (case (if start then m (c # s) else None) of
       Some (g, rest) \<Rightarrow>
         if length rest < length (c # s) then Inr g # line_pieces m False rest
         else Inl c # line_pieces m (c = newline) s
     | None \<Rightarrow> Inl c # line_pieces m (c = newline) s)"
  by pat_completeness auto
termination
  by (relation "measure (\<lambda>(m, start, s). length s)") auto

definition replace_line_matches :: "(string \<Rightarrow> ('a \<times> string) option) \<Rightarrow> ('a \<Rightarrow> string) \<Rightarrow> string \<Rightarrow> string" where
  "replace_line_matches m f s = concat (map (case_sum (\<lambda>c. [c]) f) (line_pieces m True s))"

definition line_groups :: "(string \<Rightarrow> ('a \<times> string) option) \<Rightarrow> string \<Rightarrow> 'a list" where
  "line_groups m s = concat (map (case_sum (\<lambda>_. []) (\<lambda>g. [g])) (line_pieces m True s))"

text \<open>
  White space of at least \<open>n\<close> bytes and then \<open>(.+)$\<close>: the white space is taken greedily, newlines
  included; where nothing follows it is given back up to its last byte that is no newline.
\<close>

definition white_then_line :: "nat \<Rightarrow> string \<Rightarrow> (string \<times> string) option" where
  "white_then_line n s =
    (let white = takeWhile is_white s; rest = drop (length white) s in
     if rest \<noteq> [] then
       (if n \<le> length white then Some (takeWhile (\<lambda>c. c \<noteq> newline) rest, dropWhile (\<lambda>c. c \<noteq> newline) rest) else None)
     else
       (let newlines = length (takeWhile (\<lambda>c. c = newline) (rev white)); k = length white - newlines in
        if n < k then Some ([white ! (k - 1)], drop k white) else None))"

end
