(* ===== verification/Prompt.thy ===== *)
theory Prompt
  imports Go_Regex Go_Numbers Go_Path Output "HOL-Library.Char_ord" "HOL-Library.List_Lexorder"
begin

text \<open>
  \<open>pkg/bridge/prompt.go\<close>: the system prompt put together from the files of the workspace. Reading a
  file, listing a directory and \<open>filepath.Glob\<close> are arguments.
\<close>

subsection \<open>Files of the workspace\<close>

datatype read_result = Missing | Unreadable string | Contents string

datatype dir_result = NoDir | DirError string | Entries "(string \<times> bool) list"

record workspace_files =
  wf_read :: "string \<Rightarrow> read_result"
  wf_dir :: "string \<Rightarrow> dir_result"
  wf_glob :: "string \<Rightarrow> string list"

definition is_bootstrap :: "workspace_files \<Rightarrow> string \<Rightarrow> bool" where
  "is_bootstrap F workDir \<longleftrightarrow> wf_read F (path_join [workDir, ''BOOTSTRAP.md'']) \<noteq> Missing"

text \<open>A chunk is the trimmed contents of a file, if there are any.\<close>

definition chunk_of :: "string \<Rightarrow> string list" where
  "chunk_of content = (let s = trim_space content in if s = [] then [] else [s])"

definition optional_file :: "workspace_files \<Rightarrow> string \<Rightarrow> string list" where
  "optional_file F path = (case wf_read F path of Contents c \<Rightarrow> chunk_of c | _ \<Rightarrow> [])"

definition static_names :: "string list" where
  "static_names = [''SYSTEM.md'', ''SOUL.md'', ''IDENTITY.md'', ''USER.md'', ''MEMORY.md'']"

text \<open>The static files in order; a file that exists and cannot be read is an error.\<close>

fun static_chunks :: "workspace_files \<Rightarrow> string \<Rightarrow> string list \<Rightarrow> string + string list" where
  "static_chunks F workDir [] = Inr []"
| "static_chunks F workDir (name # names) =
    (case wf_read F (path_join [workDir, name]) of
       Missing \<Rightarrow> static_chunks F workDir names
     | Unreadable e \<Rightarrow> Inl e
     | Contents c \<Rightarrow> map_sum id ((@) (chunk_of c)) (static_chunks F workDir names))"

subsection \<open>Daily logs\<close>

definition is_daily_log :: "string \<Rightarrow> bool" where
  "is_daily_log name \<longleftrightarrow>
    length name = 13 \<and> list_all is_digit (take 4 name) \<and> name ! 4 = CHR ''-'' \<and>
    list_all is_digit (take 2 (drop 5 name)) \<and> name ! 7 = CHR ''-'' \<and>
    list_all is_digit (take 2 (drop 8 name)) \<and> drop 10 name = ''.md''"

definition daily_files :: "(string \<times> bool) list \<Rightarrow> string list" where
  "daily_files entries =
    take 2 (rev (sort (map fst (filter (\<lambda>(name, isDir). \<not> isDir \<and> is_daily_log name) entries))))"

subsection \<open>Skills\<close>

text \<open>
  The front matter: three dashes, white space up to a newline, and everything up to the next newline
  with three dashes. White space is taken greedily and given back newline by newline.
\<close>

definition front_matter :: "string \<Rightarrow> string option" where
  "front_matter s =
    (if \<not> has_prefix ''---'' s then None
     else
       let t = drop 3 s; white = takeWhile is_white t;
           starts = filter (\<lambda>k. white ! k = newline) (rev [0..<length white])
       in
         (case List.find (\<lambda>k. index_of ([newline] @ ''---'') (drop (Suc k) t) \<noteq> None) starts of
            None \<Rightarrow> None
          | Some k \<Rightarrow> map_option (\<lambda>i. take i (drop (Suc k) t)) (index_of ([newline] @ ''---'') (drop (Suc k) t))))"

text \<open>A key at the start of a line, a colon and the rest of a line, with white space around the colon.\<close>

definition reFrontKey :: "string \<Rightarrow> ((string \<times> string) \<times> string) option" where
  "reFrontKey s =
    (let key = takeWhile is_word s; t = dropWhile is_white (drop (length key) s) in
     if key = [] \<or> t = [] \<or> hd t \<noteq> CHR '':'' then None
     else map_option (\<lambda>(v, rest). ((key, v), rest)) (white_then_line 0 (tl t)))"

definition front_fields :: "string \<Rightarrow> (string \<rightharpoonup> string)" where
  "front_fields fm = fold (\<lambda>(k, v) m. m(k \<mapsto> trim_space v)) (line_groups reFrontKey fm) Map.empty"

definition field :: "(string \<rightharpoonup> string) \<Rightarrow> string \<Rightarrow> string" where
  "field m k = (case m k of None \<Rightarrow> [] | Some v \<Rightarrow> v)"

definition skill_line :: "workspace_files \<Rightarrow> string \<Rightarrow> string list" where
  "skill_line F path =
    (case wf_read F path of
       Contents c \<Rightarrow>
         (case front_matter c of
            None \<Rightarrow> []
          | Some fm \<Rightarrow>
              let name = field (front_fields fm) ''name''; desc = field (front_fields fm) ''description'' in
                if name = [] \<or> desc = [] then []
                else [''- **'' @ name @ ''** ('' @ [CHR 0x60] @ path @ [CHR 0x60] @ ''): '' @ desc])
     | _ \<Rightarrow> [])"

definition two_newlines :: string where "two_newlines = [newline, newline]"

definition skills_section :: "workspace_files \<Rightarrow> string \<Rightarrow> string list" where
  "skills_section F workDir =
    (let lines = concat (map (skill_line F) (sort (wf_glob F (path_join [workDir, ''skills'', ''*'', ''SKILL.md''])))) in
     if lines = [] then []
     else [''## Available Skills'' @ two_newlines @
           ''When a skill is relevant, read its full file before using it.'' @ two_newlines @ join [newline] lines])"

subsection \<open>The prompt\<close>

definition em_dash :: string where "em_dash = [CHR '' '', CHR 0xE2, CHR 0x80, CHR 0x94, CHR '' '']"

definition file_delivery_instructions :: string where
  "file_delivery_instructions =
    join two_newlines
      [''## Sending Files'',
       join [newline]
         [''To send a file or image to the user, include a marker in your response:'',
          ''- [FILE: /absolute/path/to/file]'' @ em_dash @ ''delivers any file type'',
          ''- [IMAGE: /absolute/path/to/image.png]'' @ em_dash @ ''delivers an image inline''],
       ''Place all markers at the very end of your message'' @ em_dash @ ''no text should follow them. '' @
       ''The markers will be stripped from the visible text and the files delivered alongside it. '' @
       ''You can include multiple markers.'',
       ''When downloading or generating files, always save them to the system temp directory '' @
       ''(use $TMPDIR, or /tmp as a fallback)'' @ em_dash @ ''never inside the workspace folder.'',
       ''To receive a file from the user, ask them to share it'' @ em_dash @
       ''the path will be included in their message.'']"

definition assemble_system_prompt :: "workspace_files \<Rightarrow> string \<Rightarrow> string + string" where
  "assemble_system_prompt F workDir =
    (case static_chunks F workDir static_names of
       Inl e \<Rightarrow> Inl e
     | Inr chunks \<Rightarrow>
         (case wf_dir F (path_join [workDir, ''memory'']) of
            DirError e \<Rightarrow> Inl e
          | listing \<Rightarrow>
              let daily = (case listing of Entries es \<Rightarrow> daily_files es | _ \<Rightarrow> []) in
                Inr (join two_newlines
                  (optional_file F (path_join [workDir, ''BOOTSTRAP.md'']) @ chunks @
                   concat (map (\<lambda>name. optional_file F (path_join [path_join [workDir, ''memory''], name])) daily) @
                   skills_section F workDir @ [file_delivery_instructions]))))"

subsection \<open>The newest logs\<close>

definition log_date :: "string \<Rightarrow> nat" where
  "log_date name = decimal_value (take 4 name @ take 2 (drop 5 name) @ take 2 (drop 8 name))"

text \<open>Digits of equal length compare as texts the way they compare as numbers.\<close>

lemma digits_le_value:
  assumes "length xs = length ys" "list_all is_digit xs" "list_all is_digit ys" "a < b \<or> a = b \<and> xs \<le> ys"
  shows "foldl (\<lambda>a c. a * 10 + (of_char c - 48)) (a::nat) xs \<le> foldl (\<lambda>a c. a * 10 + (of_char c - 48)) b ys"
  using assms
proof (induction xs ys arbitrary: a b rule: list_induct2)
  case (Cons x xs y ys)
  let ?d = "\<lambda>c. of_char c - 48 :: nat"
  have d: "?d x \<le> 9" "?d y \<le> 9" using Cons.prems by (auto simp: is_digit_def)
  have "a * 10 + ?d x < b * 10 + ?d y \<or> a * 10 + ?d x = b * 10 + ?d y \<and> xs \<le> ys"
  proof (cases "a < b")
    case True
    then show ?thesis using d by linarith
  next
    case False
    then have ab: "a = b" "x < y \<or> x = y \<and> xs \<le> ys" using Cons.prems(3) by auto
    then show ?thesis using Cons.prems(1,2) by (auto simp: is_digit_def less_char_def)
  qed
  with Cons show ?case by simp
qed auto

lemma daily_log_form:
  assumes "is_daily_log a"
  obtains y1 y2 y3 y4 m1 m2 d1 d2 where
    "a = [y1, y2, y3, y4, CHR ''-'', m1, m2, CHR ''-'', d1, d2] @ ''.md''"
    "list_all is_digit [y1, y2, y3, y4, m1, m2, d1, d2]"
proof -
  from assms have l: "length a = 13" by (simp add: is_daily_log_def)
  then obtain y1 y2 y3 y4 s1 m1 m2 s2 d1 d2 e1 e2 e3 where
      a: "a = [y1, y2, y3, y4, s1, m1, m2, s2, d1, d2, e1, e2, e3]"
    by (auto simp: eval_nat_numeral length_Suc_conv)
  with assms that show ?thesis by (auto simp: is_daily_log_def eval_nat_numeral)
qed

lemma daily_log_order:
  assumes "is_daily_log a" "is_daily_log b" "a \<le> b"
  shows "log_date a \<le> log_date b"
proof -
  obtain y1 y2 y3 y4 m1 m2 d1 d2 where a:
    "a = [y1, y2, y3, y4, CHR ''-'', m1, m2, CHR ''-'', d1, d2] @ ''.md''"
    "list_all is_digit [y1, y2, y3, y4, m1, m2, d1, d2]" using daily_log_form [OF assms(1)] by blast
  obtain z1 z2 z3 z4 n1 n2 e1 e2 where b:
    "b = [z1, z2, z3, z4, CHR ''-'', n1, n2, CHR ''-'', e1, e2] @ ''.md''"
    "list_all is_digit [z1, z2, z3, z4, n1, n2, e1, e2]" using daily_log_form [OF assms(2)] by blast
  have "[y1, y2, y3, y4, m1, m2, d1, d2] \<le> [z1, z2, z3, z4, n1, n2, e1, e2]"
    using assms(3) unfolding a(1) b(1) append.simps Cons_le_Cons less_irrefl simp_thms by blast
  then have "foldl (\<lambda>a c. a * 10 + (of_char c - 48)) (0::nat) [y1, y2, y3, y4, m1, m2, d1, d2] \<le>
      foldl (\<lambda>a c. a * 10 + (of_char c - 48)) 0 [z1, z2, z3, z4, n1, n2, e1, e2]"
    using a(2) b(2) by (intro digits_le_value) simp_all
  moreover have "take 4 a @ take 2 (drop 5 a) @ take 2 (drop 8 a) = [y1, y2, y3, y4, m1, m2, d1, d2]"
      "take 4 b @ take 2 (drop 5 b) @ take 2 (drop 8 b) = [z1, z2, z3, z4, n1, n2, e1, e2]"
    by (simp_all add: a(1) b(1))
  ultimately show ?thesis unfolding log_date_def decimal_value_def by simp
qed

text \<open>
  the prompt holds at most two daily logs, all of them logs of the memory directory, and none that
  is left out is newer than one that is in it.
\<close>

theorem newest_daily_logs:
  assumes "d \<in> set (daily_files entries)"
  shows "length (daily_files entries) \<le> 2 \<and> (d, False) \<in> set entries \<and> is_daily_log d \<and>
    (\<forall>e. (e, False) \<in> set entries \<longrightarrow> is_daily_log e \<longrightarrow> e \<notin> set (daily_files entries) \<longrightarrow> log_date e \<le> log_date d)"
proof -
  define names where "names = map fst (filter (\<lambda>(name, isDir). \<not> isDir \<and> is_daily_log name) entries)"
  have mem: "x \<in> set names \<longleftrightarrow> (x, False) \<in> set entries \<and> is_daily_log x" for x
    by (force simp: names_def)
  let ?r = "rev (sort names)"
  have df: "daily_files entries = take 2 ?r" by (simp add: daily_files_def names_def)
  have "sorted_wrt (\<lambda>x y. y \<le> x) (take 2 ?r @ drop 2 ?r)" by (simp add: sorted_wrt_rev)
  then have above: "e \<le> d" if "e \<in> set (drop 2 ?r)" for e
    using that assms unfolding df sorted_wrt_append by blast
  have parts: "set names = set (take 2 ?r) \<union> set (drop 2 ?r)"
    unfolding set_append [symmetric] append_take_drop_id by simp
  then have d: "d \<in> set names" using assms unfolding df by blast
  have "log_date e \<le> log_date d" if e: "(e, False) \<in> set entries" "is_daily_log e" "e \<notin> set (daily_files entries)" for e
  proof -
    have "e \<in> set (drop 2 ?r)" using e parts mem [of e] unfolding df by blast
    then show ?thesis using daily_log_order [of e d] above mem [of d] d e(2) by blast
  qed
  moreover have "length (daily_files entries) \<le> 2" unfolding df by simp
  ultimately show ?thesis using d mem [of d] by blast
qed

theorem newest_daily_logs_witness:
  "log_date ''2025-12-31.md'' \<le> log_date ''2026-01-02.md''"
proof -
  let ?es = "[(''2026-01-02.md'', False), (''2025-12-31.md'', False), (''notes.md'', False), (''2026-01-03.md'', False)]"
  have f: "daily_files ?es = [''2026-01-03.md'', ''2026-01-02.md'']" by code_simp
  have "is_daily_log ''2025-12-31.md''" by code_simp
  with newest_daily_logs [of "''2026-01-02.md''" ?es] f show ?thesis by simp
qed

subsection \<open>The shape of the prompt\<close>

lemma join_last: "xs \<noteq> [] \<Longrightarrow> join sep (xs @ [x]) = join sep xs @ sep @ x"
  by (induction sep xs rule: join.induct) simp_all

text \<open>
  The instructions for sending files come last, whatever the files of the workspace hold; a BOOTSTRAP.md
  comes first.
\<close>

theorem prompt_frame:
  assumes "assemble_system_prompt F workDir = Inr p"
  shows "(p = file_delivery_instructions \<or> (\<exists>q. p = q @ two_newlines @ file_delivery_instructions)) \<and>
    (\<forall>c. wf_read F (path_join [workDir, ''BOOTSTRAP.md'']) = Contents c \<longrightarrow> has_prefix (trim_space c) p)"
proof -
  from assms obtain chunks where
    p: "p = join two_newlines (optional_file F (path_join [workDir, ''BOOTSTRAP.md'']) @ chunks @ [file_delivery_instructions])"
    by (auto simp: assemble_system_prompt_def Let_def split: sum.splits dir_result.splits) (metis append.assoc)+
  define front where "front = optional_file F (path_join [workDir, ''BOOTSTRAP.md'']) @ chunks"
  have p': "p = join two_newlines (front @ [file_delivery_instructions])" using p by (simp add: front_def)
  have last: "p = file_delivery_instructions \<or> (\<exists>q. p = q @ two_newlines @ file_delivery_instructions)"
    using p' join_last by (cases "front = []") auto
  have "has_prefix (trim_space c) p" if "wf_read F (path_join [workDir, ''BOOTSTRAP.md'']) = Contents c" for c
  proof (cases "trim_space c = []")
    case False
    then have "p = join two_newlines (trim_space c # chunks @ [file_delivery_instructions])"
      using p that by (simp add: optional_file_def chunk_of_def)
    then show ?thesis by (cases chunks) (auto simp: has_prefix_append)
  qed simp
  with last show ?thesis by blast
qed

text \<open>The markers the instructions name are the ones \<open>ParseOutput\<close> takes out of an answer.\<close>

lemma instructions_in_sync:
  "parse_output (''Here it is.'' @ [newline] @ ''[FILE: /absolute/path/to/file]'' @ [newline] @
      ''[IMAGE: /absolute/path/to/image.png]'') =
    (''Here it is.'', [''/absolute/path/to/file'', ''/absolute/path/to/image.png''])"
proof -
  let ?answer = "''Here it is.'' @ [newline] @ ''[FILE: /absolute/path/to/file]'' @ [newline] @
      ''[IMAGE: /absolute/path/to/image.png]''"
  have "find_markers [''FILE'', ''IMAGE''] ?answer = [''/absolute/path/to/file'', ''/absolute/path/to/image.png'']"
      "strip_markers [''IMAGE''] (strip_markers [''FILE''] ?answer) = ''Here it is.'' @ [newline, newline]"
    by (simp_all add: markers_eval newline_def)
  moreover have "trim_space (''Here it is.'' @ [newline, newline]) = ''Here it is.''"
      "trim_space ''/absolute/path/to/file'' = ''/absolute/path/to/file''"
      "trim_space ''/absolute/path/to/image.png'' = ''/absolute/path/to/image.png''"
    by code_simp+
  ultimately show ?thesis unfolding parse_output_def by simp
qed

text \<open>A key without a value takes the next line as its value: the skill is left out of the prompt.\<close>

lemma empty_key_eats_line:
  "front_fields (''name: x'' @ [newline] @ ''author:'' @ [newline] @ ''description: d'') ''description'' = None"
  by code_simp

end
