(* ===== verification/Logs.thy ===== *)
theory Logs
  imports Go_Path Json
begin

text \<open>
  What the program writes down as it runs: \<open>pkg/logger/logger.go\<close> (levels and lines),
  \<open>pkg/providers/invokelog.go\<close> (one trace file for each conversation) and \<open>pkg/bridge/history.go\<close>
  (the exchanges of a day as JSON lines). Time stamps and formatted numbers are arguments.
\<close>

subsection \<open>Levels\<close>

datatype log_level = DEBUG | INFO | WARN | ERROR | FATAL

fun level_number :: "log_level \<Rightarrow> nat" where
  "level_number DEBUG = 0"
| "level_number INFO = 1"
| "level_number WARN = 2"
| "level_number ERROR = 3"
| "level_number FATAL = 4"

lemma level_number_inject [simp]: "level_number a = level_number b \<longleftrightarrow> a = b"
  by (cases a; cases b) simp_all

instantiation log_level :: linorder
begin

definition less_eq_log_level :: "log_level \<Rightarrow> log_level \<Rightarrow> bool" where
  "a \<le> b \<longleftrightarrow> level_number a \<le> level_number b"

definition less_log_level :: "log_level \<Rightarrow> log_level \<Rightarrow> bool" where
  "a < b \<longleftrightarrow> level_number a < level_number b"

instance
  by standard (auto simp: less_eq_log_level_def less_log_level_def)

end

fun log_level_names :: "log_level \<Rightarrow> string" where
  "log_level_names DEBUG = ''DEBUG''"
| "log_level_names INFO = ''INFO''"
| "log_level_names WARN = ''WARN''"
| "log_level_names ERROR = ''ERROR''"
| "log_level_names FATAL = ''FATAL''"

lemma level_greatest: "l \<le> FATAL"
  by (cases l) (simp_all add: less_eq_log_level_def)

subsection \<open>Log lines\<close>

datatype log_effect = PrintLine string | Exit int

definition format_component :: "string \<Rightarrow> string" where
  "format_component component = (if component = [] then [] else '' '' @ component @ '':'')"

text \<open>The fields in the order the map gives them, their values as text.\<close>

definition format_fields :: "(string \<times> string) list \<Rightarrow> string" where
  "format_fields kvs = ''{'' @ join '', '' (map (\<lambda>(k, v). k @ ''='' @ v) kvs) @ ''}''"

definition log_message ::
  "log_level \<Rightarrow> string \<Rightarrow> log_level \<Rightarrow> string \<Rightarrow> string \<Rightarrow> (string \<times> string) list \<Rightarrow> log_effect list" where
  "log_message current timestamp level component message kvs =
    (if level < current then []
     else
       PrintLine (''['' @ timestamp @ ''] ['' @ log_level_names level @ '']'' @ format_component component @ '' '' @
         message @ (if kvs \<noteq> [] then '' '' @ format_fields kvs else [])) #
       (if level = FATAL then [Exit 1] else []))"

text \<open>
  A message is printed exactly when its level is at least the current one, and the program exits on
  the level \<open>FATAL\<close> only, whatever level is set.
\<close>

theorem log_message_levels:
  "((\<exists>l. PrintLine l \<in> set (log_message current ts level component message kvs)) \<longleftrightarrow> current \<le> level) \<and>
   (Exit c \<in> set (log_message current ts level component message kvs) \<longleftrightarrow> level = FATAL \<and> c = 1)"
  using level_greatest [of current] by (auto simp: log_message_def not_less)

subsection \<open>Trace files of invocations\<close>

record invoke_logger =
  il_workDir :: string
  il_handles :: "string \<rightharpoonup> string"

type_synonym log_files = "string \<rightharpoonup> string"

text \<open>\<open>NewReplacer\<close> of single characters.\<close>

definition sanitize_log_key :: "string \<Rightarrow> string" where
  "sanitize_log_key key = map (\<lambda>c. if c \<in> {CHR '':'', CHR ''/'', CHR '' ''} then CHR ''_'' else c) key"

definition new_invoke_logger :: "bool \<Rightarrow> string \<Rightarrow> string + invoke_logger" where
  "new_invoke_logger mkdirFails workDir =
    (if mkdirFails then Inl ''invoke log: create logs dir''
     else Inr \<lparr>il_workDir = workDir, il_handles = Map.empty\<rparr>)"

definition log_path :: "string \<Rightarrow> string \<Rightarrow> string" where
  "log_path workDir key = path_join [workDir, ''logs'', sanitize_log_key key @ ''.log'']"

text \<open>\<open>fileFor\<close>: a file that cannot be opened is tried again at the next line.\<close>

definition file_for ::
  "string set \<Rightarrow> string \<Rightarrow> invoke_logger \<Rightarrow> log_files \<Rightarrow> string option \<times> invoke_logger \<times> log_files" where
  "file_for denied key l files =
    (case il_handles l key of
       Some path \<Rightarrow> (Some path, l, files)
     | None \<Rightarrow>
         let path = log_path (il_workDir l) key in
           if path \<in> denied then (None, l, files)
           else (Some path, l\<lparr>il_handles := (il_handles l)(key \<mapsto> path)\<rparr>,
                 if files path = None then files(path \<mapsto> []) else files))"

definition append_file :: "string \<Rightarrow> string \<Rightarrow> log_files \<Rightarrow> log_files" where
  "append_file path s files = files(path \<mapsto> (case files path of None \<Rightarrow> [] | Some old \<Rightarrow> old) @ s)"

definition eol :: string where "eol = [CHR 0x0A]"

datatype log_op =
    LogInvoke string string string string string
  | LogLine string
  | LogStderr string
  | LogDone string string string string string

definition or_default :: "string \<Rightarrow> string \<Rightarrow> string" where
  "or_default s d = (if s = [] then d else s)"

text \<open>What an operation writes; nothing for an empty line.\<close>

fun log_text :: "log_op \<Rightarrow> string" where
  "log_text (LogInvoke ts provider session model message) =
    eol @ ''=== BEGIN '' @ ts @ ''  provider='' @ provider @ ''  session_id='' @ or_default session ''(new)'' @
    ''  model='' @ or_default model ''(default)'' @ '' ==='' @ eol @
    ''{'' @ quote ''type'' @ '':'' @ quote ''user'' @ '','' @ quote ''text'' @ '':'' @ quote message @ ''}'' @ eol"
| "log_text (LogLine s) = (if s = [] then [] else s @ eol)"
| "log_text (LogStderr s) = (if s = [] then [] else ''[stderr] '' @ s @ eol)"
| "log_text (LogDone session tin tout len dur) =
    ''=== END  session_id='' @ session @ ''  in='' @ tin @ ''  out='' @ tout @ ''  len='' @ len @
    ''  duration='' @ dur @ ''s ==='' @ eol"

text \<open>An operation on the logger, which may be absent, for a key.\<close>

definition log_step ::
  "string set \<Rightarrow> string \<Rightarrow> log_op \<Rightarrow> invoke_logger option \<times> log_files \<Rightarrow> invoke_logger option \<times> log_files" where
  "log_step denied key op st =
    (case st of
       (None, files) \<Rightarrow> (None, files)
     | (Some l, files) \<Rightarrow>
         if key = [] \<or> log_text op = [] then (Some l, files)
         else
           (case file_for denied key l files of
              (None, l', files') \<Rightarrow> (Some l', files')
            | (Some path, l', files') \<Rightarrow> (Some l', append_file path (log_text op) files')))"

definition close_logger :: "invoke_logger option \<Rightarrow> invoke_logger option" where
  "close_logger l = map_option (\<lambda>l. l\<lparr>il_handles := Map.empty\<rparr>) l"

text \<open>Handles are those of the paths of their keys.\<close>

definition handles_ok :: "invoke_logger \<Rightarrow> bool" where
  "handles_ok l \<longleftrightarrow> (\<forall>key path. il_handles l key = Some path \<longrightarrow> path = log_path (il_workDir l) key)"

lemma file_for_path:
  assumes "file_for denied key l files = (r, l', files')" "handles_ok l"
  shows "handles_ok l' \<and> il_workDir l' = il_workDir l \<and> (r = None \<longrightarrow> files' = files) \<and>
    (\<forall>path. r = Some path \<longrightarrow> path = log_path (il_workDir l) key \<and>
      (files' = files \<or> files path = None \<and> files' = files(path \<mapsto> [])))"
  using assms by (auto simp: file_for_def handles_ok_def Let_def split: option.splits if_splits)

lemma log_step_other:
  assumes "log_step denied key op (Some l, files) = (l2, files2)" "handles_ok l"
  shows "\<exists>l'. l2 = Some l' \<and> handles_ok l' \<and> il_workDir l' = il_workDir l \<and>
    (\<forall>p. p \<noteq> log_path (il_workDir l) key \<longrightarrow> files2 p = files p) \<and>
    (\<forall>p old. files p = Some old \<longrightarrow> (\<exists>new. files2 p = Some (old @ new)))"
proof (cases "key = [] \<or> log_text op = []")
  case False
  obtain r l' files' where f: "file_for denied key l files = (r, l', files')" by (metis prod.exhaust)
  show ?thesis
    using assms(1) False f file_for_path [OF f assms(2)]
    by (cases r) (auto simp: log_step_def append_file_def)
qed (use assms in \<open>auto simp: log_step_def\<close>)

definition run_log :: "string set \<Rightarrow> string \<times> log_op \<Rightarrow> invoke_logger option \<times> log_files \<Rightarrow> invoke_logger option \<times> log_files" where
  "run_log denied = (\<lambda>(key, op) st. log_step denied key op st)"

text \<open>
  whatever keys and lines come, the log files only grow, and no file is touched but those of the
  keys, each right below the directory of the logs.
\<close>

theorem invoke_logs_append_only:
  assumes "new_invoke_logger False workDir = Inr l" "fold (run_log denied) ops (Some l, files) = (log', files')"
  shows "(\<forall>p old. files p = Some old \<longrightarrow> (\<exists>new. files' p = Some (old @ new))) \<and>
    (\<forall>p. files' p \<noteq> files p \<longrightarrow>
      (\<exists>key \<in> fst ` set ops. p = log_path workDir key \<and>
        (is_abs (path_join [workDir, ''logs'']) \<longrightarrow> path_join [workDir, ''logs''] \<noteq> ''/'' \<longrightarrow>
         p = path_join [workDir, ''logs''] @ ''/'' @ sanitize_log_key key @ ''.log'')))"
proof -
  have run: "\<exists>l'. fst (fold (run_log denied) ops (Some l, files)) = Some l' \<and> handles_ok l' \<and> il_workDir l' = il_workDir l \<and>
      (\<forall>p. snd (fold (run_log denied) ops (Some l, files)) p \<noteq> files p \<longrightarrow>
        (\<exists>key \<in> fst ` set ops. p = log_path (il_workDir l) key)) \<and>
      (\<forall>p old. files p = Some old \<longrightarrow> (\<exists>new. snd (fold (run_log denied) ops (Some l, files)) p = Some (old @ new)))"
    if "handles_ok l" for l files ops
    using that
  proof (induction ops arbitrary: l files)
    case (Cons x ops)
    obtain key op where x: "x = (key, op)" by force
    obtain l1 files1 where s: "log_step denied key op (Some l, files) = (l1, files1)" by force
    then obtain l' where l': "l1 = Some l'" "handles_ok l'" "il_workDir l' = il_workDir l"
        "\<And>p. p \<noteq> log_path (il_workDir l) key \<Longrightarrow> files1 p = files p"
        "\<And>p old. files p = Some old \<Longrightarrow> \<exists>new. files1 p = Some (old @ new)"
      using log_step_other [OF s Cons.prems] by blast
    have eq: "fold (run_log denied) (x # ops) (Some l, files) = fold (run_log denied) ops (Some l', files1)"
      using s l'(1) by (simp add: run_log_def x)
    obtain l'' where IH: "fst (fold (run_log denied) ops (Some l', files1)) = Some l''" "handles_ok l''"
        "il_workDir l'' = il_workDir l"
        "\<And>p. snd (fold (run_log denied) ops (Some l', files1)) p \<noteq> files1 p \<Longrightarrow>
          \<exists>key \<in> fst ` set ops. p = log_path (il_workDir l) key"
        "\<And>p old. files1 p = Some old \<Longrightarrow> \<exists>new. snd (fold (run_log denied) ops (Some l', files1)) p = Some (old @ new)"
      using Cons.IH [OF l'(2), of files1] l'(3) by auto
    have "\<exists>new. snd (fold (run_log denied) ops (Some l', files1)) p = Some (old @ new)" if "files p = Some old" for p old
      using l'(5) [OF that] IH(5) by fastforce
    moreover have "\<exists>key \<in> fst ` set (x # ops). p = log_path (il_workDir l) key"
      if "snd (fold (run_log denied) ops (Some l', files1)) p \<noteq> files p" for p
      using that l'(4) [of p] IH(4) [of p] x by (cases "p = log_path (il_workDir l) key") auto
    ultimately show ?case unfolding eq using IH(1-3) by auto
  qed auto
  have l: "handles_ok l" "il_workDir l = workDir" using assms(1) by (auto simp: new_invoke_logger_def handles_ok_def)
  have path: "log_path workDir key = path_join [workDir, ''logs''] @ ''/'' @ sanitize_log_key key @ ''.log''"
    if a: "is_abs (path_join [workDir, ''logs''])" "path_join [workDir, ''logs''] \<noteq> ''/''" for key
  proof -
    let ?dir = "path_join [workDir, ''logs'']" and ?name = "sanitize_log_key key @ ''.log''"
    have free: "CHR ''/'' \<notin> set ?name" by (auto simp: sanitize_log_key_def)
    have name: "?name \<noteq> ''.''" "?name \<noteq> ''..''" by (auto simp: append_eq_Cons_conv)
    from path_join_three [OF a free _ name] show ?thesis by (simp add: log_path_def)
  qed
  have grow: "\<exists>new. files' p = Some (old @ new)" if "files p = Some old" for p old
    using run [OF l(1), of ops files] assms(2) that by auto
  have "\<exists>key \<in> fst ` set ops. p = log_path workDir key" if "files' p \<noteq> files p" for p
    using run [OF l(1), of ops files] assms(2) l(2) that by auto
  then have "\<exists>key \<in> fst ` set ops. p = log_path workDir key \<and>
        (is_abs (path_join [workDir, ''logs'']) \<longrightarrow> path_join [workDir, ''logs''] \<noteq> ''/'' \<longrightarrow>
         p = path_join [workDir, ''logs''] @ ''/'' @ sanitize_log_key key @ ''.log'')"
    if "files' p \<noteq> files p" for p
    using path that by metis
  with grow show ?thesis by simp
qed

theorem invoke_logs_append_only_witness:
  "\<exists>new. snd (fold (run_log {}) [(''irc:a'', LogLine ''x''), (''irc:b'', LogLine ''y'')]
     (Some \<lparr>il_workDir = ''/w'', il_handles = Map.empty\<rparr>, [''/w/logs/irc_a.log'' \<mapsto> ''old''])) ''/w/logs/irc_a.log'' =
     Some (''old'' @ new)"
proof -
  let ?l = "\<lparr>il_workDir = ''/w'', il_handles = Map.empty\<rparr>" and ?files = "[''/w/logs/irc_a.log'' \<mapsto> ''old'']"
  let ?ops = "[(''irc:a'', LogLine ''x''), (''irc:b'', LogLine ''y'')]"
  have n: "new_invoke_logger False ''/w'' = Inr ?l" by (simp add: new_invoke_logger_def)
  from invoke_logs_append_only [OF n, where denied = "{}" and ops = ?ops and files = ?files and
      log' = "fst (fold (run_log {}) ?ops (Some ?l, ?files))" and files' = "snd (fold (run_log {}) ?ops (Some ?l, ?files))"]
  have "\<forall>p old. ?files p = Some old \<longrightarrow> (\<exists>new. snd (fold (run_log {}) ?ops (Some ?l, ?files)) p = Some (old @ new))"
    by simp
  then show ?thesis by (auto simp del: fold_simps split: if_splits)
qed

text \<open>Conversations whose keys differ in the replaced characters only share a file.\<close>

lemma log_keys_collide: "log_path workDir ''irc:a b'' = log_path workDir ''irc:a:b''"
  by (simp add: log_path_def sanitize_log_key_def)

subsection \<open>History\<close>

record history_entry =
  he_Ts :: string
  he_Role :: string
  he_Content :: string

text \<open>A line of the history: the compact JSON of an entry.\<close>

definition history_line :: "history_entry \<Rightarrow> string" where
  "history_line e =
    ''{'' @ quote ''ts'' @ '':'' @ quote (he_Ts e) @ '','' @ quote ''role'' @ '':'' @ quote (he_Role e) @ '','' @
    quote ''content'' @ '':'' @ quote (he_Content e) @ ''}'' @ eol"

datatype history_fault = HistoryOk | MkdirFails | OpenFails | WriteFails nat nat | SyncFails

definition history_path :: "string \<Rightarrow> string \<Rightarrow> string" where
  "history_path workDir day = path_join [path_join [workDir, ''history'', day], ''messages.jsonl'']"

text \<open>
  \<open>AppendHistory\<close>: the files afterwards and the error. \<open>WriteFails n k\<close>: the write of the n-th line fails
  after \<open>k\<close> bytes.
\<close>

definition append_history ::
  "history_fault \<Rightarrow> string \<Rightarrow> string \<Rightarrow> string \<Rightarrow> string \<Rightarrow> string \<Rightarrow> log_files \<Rightarrow> log_files \<times> string option" where
  "append_history fault workDir day now userMsg assistantMsg files =
    (let path = history_path workDir day;
         user = history_line \<lparr>he_Ts = now, he_Role = ''user'', he_Content = userMsg\<rparr>;
         assistant = history_line \<lparr>he_Ts = now, he_Role = ''assistant'', he_Content = assistantMsg\<rparr>
     in
       (case fault of
          MkdirFails \<Rightarrow> (files, Some ''history: create directory'')
        | OpenFails \<Rightarrow> (files, Some ''history: open file'')
        | WriteFails 0 k \<Rightarrow> (append_file path (take k user) files, Some ''history: write entry'')
        | WriteFails _ k \<Rightarrow> (append_file path (user @ take k assistant) files, Some ''history: write entry'')
        | SyncFails \<Rightarrow> (append_file path (user @ assistant) files, Some ''history: sync'')
        | HistoryOk \<Rightarrow> (append_file path (user @ assistant) files, None)))"

text \<open>Reading a history back, line by line.\<close>

definition entry_of_json :: "json \<Rightarrow> history_entry option" where
  "entry_of_json v =
    (case v of
       JObj [(k1, JStr ts), (k2, JStr role), (k3, JStr content)] \<Rightarrow>
         if k1 = ''ts'' \<and> k2 = ''role'' \<and> k3 = ''content''
         then Some \<lparr>he_Ts = ts, he_Role = role, he_Content = content\<rparr> else None
     | _ \<Rightarrow> None)"

definition read_history :: "string \<Rightarrow> history_entry option list" where
  "read_history s =
    map (\<lambda>l. Option.bind (unmarshal l) entry_of_json) (filter (\<lambda>l. l \<noteq> []) (split_on CHR 0x0A s))"

lemma history_line_reads:
  "history_line e = butlast (history_line e) @ eol" "CHR 0x0A \<notin> set (butlast (history_line e))"
  "butlast (history_line e) \<noteq> []" "Option.bind (unmarshal (butlast (history_line e))) entry_of_json = Some e"
proof -
  let ?l = "''{'' @ quote ''ts'' @ '':'' @ quote (he_Ts e) @ '','' @ quote ''role'' @ '':'' @ quote (he_Role e) @ '','' @
    quote ''content'' @ '':'' @ quote (he_Content e) @ ''}'' @ []"
  have l: "butlast (history_line e) = ?l" by (simp add: history_line_def eol_def butlast_append)
  show "history_line e = butlast (history_line e) @ eol" by (simp add: history_line_def eol_def butlast_append)
  show "CHR 0x0A \<notin> set (butlast (history_line e))" unfolding l using quote_no_newline by auto
  show "butlast (history_line e) \<noteq> []" unfolding l by simp
  obtain n where n: "2 * length ?l + 1 = Suc (Suc (Suc (Suc (Suc n))))"
  proof (rule that)
    have "2 \<le> length ?l" by simp
    then show "2 * length ?l + 1 = Suc (Suc (Suc (Suc (Suc (2 * length ?l - 4)))))" by linarith
  qed
  have "unmarshal ?l = Some (JObj [(''ts'', JStr (he_Ts e)), (''role'', JStr (he_Role e)), (''content'', JStr (he_Content e))])"
    unfolding unmarshal_def n parse_brace parse_member by simp
  then show "Option.bind (unmarshal (butlast (history_line e))) entry_of_json = Some e"
    unfolding l by (simp add: entry_of_json_def)
qed


lemma read_history_lines: "read_history (concat (map history_line es)) = map Some es"
proof (induction es)
  case Nil
  show ?case by (simp add: read_history_def)
next
  case (Cons e es)
  obtain l where l: "history_line e = l @ [CHR 0x0A]" "CHR 0x0A \<notin> set l" "l \<noteq> []"
      "Option.bind (unmarshal l) entry_of_json = Some e"
    using history_line_reads [of e] unfolding eol_def by blast
  have "split_on CHR 0x0A (concat (map history_line (e # es))) = l # split_on CHR 0x0A (concat (map history_line es))"
    using split_on_append [of "CHR 0x0A" l "concat (map history_line es)"] split_on_free [OF l(2)] l(1) by simp
  with l(3,4) Cons show ?case by (simp add: read_history_def)
qed

text \<open>The entries an exchange leaves behind, by the fault it met, when no write stops within a line.\<close>

definition torn :: "history_fault \<Rightarrow> bool" where
  "torn fault \<longleftrightarrow> (case fault of WriteFails _ k \<Rightarrow> k \<noteq> 0 | _ \<Rightarrow> False)"

definition exchange_entries :: "history_fault \<Rightarrow> string \<Rightarrow> string \<Rightarrow> string \<Rightarrow> history_entry list" where
  "exchange_entries fault now u a =
    take (case fault of MkdirFails \<Rightarrow> 0 | OpenFails \<Rightarrow> 0 | WriteFails n _ \<Rightarrow> min 1 n | _ \<Rightarrow> 2)
      [\<lparr>he_Ts = now, he_Role = ''user'', he_Content = u\<rparr>, \<lparr>he_Ts = now, he_Role = ''assistant'', he_Content = a\<rparr>]"

definition contents_of :: "log_files \<Rightarrow> string \<Rightarrow> string" where
  "contents_of files path = (case files path of None \<Rightarrow> [] | Some c \<Rightarrow> c)"

definition append_exchange ::
  "string \<Rightarrow> string \<Rightarrow> history_fault \<times> string \<times> string \<times> string \<Rightarrow> log_files \<Rightarrow> log_files" where
  "append_exchange workDir day = (\<lambda>(fault, now, u, a) files. fst (append_history fault workDir day now u a files))"

lemma append_exchange_contents:
  assumes "\<not> torn fault"
  shows "contents_of (append_exchange workDir day (fault, now, u, a) files) (history_path workDir day) =
    contents_of files (history_path workDir day) @ concat (map history_line (exchange_entries fault now u a))"
  using assms
  by (cases fault)
    (auto simp: append_exchange_def append_history_def append_file_def contents_of_def exchange_entries_def torn_def Let_def
      split: option.splits nat.splits)



text \<open>A write that stops within a line spoils the first entry of the next exchange as well.\<close>

lemma torn_line_spoils_next:
  "read_history (contents_of (fold (append_exchange ''/w'' ''d'')
      [(WriteFails 0 5, ''t1'', ''a'', ''b''), (HistoryOk, ''t2'', ''c'', ''d'')] Map.empty) (history_path ''/w'' ''d'')) =
    [None, Some \<lparr>he_Ts = ''t2'', he_Role = ''assistant'', he_Content = ''d''\<rparr>]"
  by code_simp

end
