(* ===== verification/Media_Cleaner.thy ===== *)
theory Media_Cleaner
  imports Media
begin

text \<open>
  The goroutine that cleans a media store (\<open>Start\<close> and \<open>Stop\<close> of \<open>pkg/media/store.go\<close>): when it runs, what
  its ticks do to the store, and that it is started and stopped once.
\<close>

record media_cleaner =
  mc_store :: media_store
  mc_disk :: "string set"
  mc_Enabled :: bool
  mc_Interval :: int
  mc_stop :: bool
  mc_started :: bool
  mc_closed :: bool
  mc_closes :: nat
  mc_loops :: nat

text \<open>A store with clean-up has a stop channel, one without has none.\<close>

definition new_store_with_cleanup :: "bool \<Rightarrow> int \<Rightarrow> int \<Rightarrow> string set \<Rightarrow> media_cleaner" where
  "new_store_with_cleanup enabled maxAge interval disk =
    \<lparr>mc_store = new_media_store maxAge, mc_disk = disk, mc_Enabled = enabled, mc_Interval = interval, mc_stop = True,
     mc_started = False, mc_closed = False, mc_closes = 0, mc_loops = 0\<rparr>"

definition new_store_without_cleanup :: "string set \<Rightarrow> media_cleaner" where
  "new_store_without_cleanup disk = (new_store_with_cleanup False 0 0 disk)\<lparr>mc_stop := False\<rparr>"

definition cleaner_start :: "media_cleaner \<Rightarrow> media_cleaner" where
  "cleaner_start c =
    (if \<not> mc_Enabled c \<or> \<not> mc_stop c then c
     else if mc_Interval c \<le> 0 \<or> ms_maxAge (mc_store c) \<le> 0 then c
     else if mc_started c then c
     else c\<lparr>mc_started := True, mc_loops := Suc (mc_loops c)\<rparr>)"

definition cleaner_stop :: "media_cleaner \<Rightarrow> media_cleaner" where
  "cleaner_stop c =
    (if \<not> mc_stop c then c
     else if mc_closed c then c
     else c\<lparr>mc_closed := True, mc_closes := Suc (mc_closes c)\<rparr>)"

text \<open>
  The loop takes a tick, even one that comes together with the end, or sees the closed channel. Other
  operations on the store come between as they like.
\<close>

definition cleaner_tick :: "string list \<Rightarrow> int \<Rightarrow> media_cleaner \<Rightarrow> media_cleaner" where
  "cleaner_tick order now c =
    (case clean_expired order now (mc_store c) (mc_disk c) of (s, disk, n) \<Rightarrow> c\<lparr>mc_store := s, mc_disk := disk\<rparr>)"

inductive cleaner_step :: "media_cleaner \<Rightarrow> media_cleaner \<Rightarrow> bool" where
  CleanerStarts: "cleaner_step c (cleaner_start c)"
| CleanerStops: "cleaner_step c (cleaner_stop c)"
| CleanerTicks: "0 < mc_loops c \<Longrightarrow> cleaner_step c (cleaner_tick order now c)"
| CleanerEnds: "0 < mc_loops c \<Longrightarrow> mc_closed c \<Longrightarrow> cleaner_step c (c\<lparr>mc_loops := mc_loops c - 1\<rparr>)"
| StoreChanges: "ms_maxAge s = ms_maxAge (mc_store c) \<Longrightarrow> cleaner_step c (c\<lparr>mc_store := s, mc_disk := disk\<rparr>)"

inductive_cases cleaner_step_cases: "cleaner_step c c'"

lemma expire_ref_maxAge: "ms_maxAge (expire_ref cutoff r s) = ms_maxAge s"
  by (simp add: expire_ref_def Let_def split: option.splits if_splits)

lemma clean_expired_maxAge: "ms_maxAge (fst (clean_expired order now s disk)) = ms_maxAge s"
proof -
  have "ms_maxAge (fold (expire_ref cutoff) rs s) = ms_maxAge s" for cutoff rs s
    by (induction rs arbitrary: s) (simp_all add: expire_ref_maxAge)
  then show ?thesis by (simp add: clean_expired_def Let_def)
qed

definition cleaner_inv :: "media_cleaner \<Rightarrow> bool" where
  "cleaner_inv c \<longleftrightarrow>
    mc_loops c \<le> (if mc_started c then 1 else 0) \<and> mc_closes c = (if mc_closed c then 1 else 0) \<and>
    (mc_closed c \<longrightarrow> mc_stop c) \<and>
    (mc_started c \<longrightarrow> mc_Enabled c \<and> mc_stop c \<and> 0 < mc_Interval c \<and> 0 < ms_maxAge (mc_store c))"

lemma cleaner_tick_simps [simp]:
  "mc_loops (cleaner_tick order now c) = mc_loops c" "mc_stop (cleaner_tick order now c) = mc_stop c"
  "mc_started (cleaner_tick order now c) = mc_started c" "mc_closed (cleaner_tick order now c) = mc_closed c"
  "mc_closes (cleaner_tick order now c) = mc_closes c" "mc_Enabled (cleaner_tick order now c) = mc_Enabled c"
  "mc_Interval (cleaner_tick order now c) = mc_Interval c"
  "ms_maxAge (mc_store (cleaner_tick order now c)) = ms_maxAge (mc_store c)"
proof -
  obtain s d n where "clean_expired order now (mc_store c) (mc_disk c) = (s, d, n)" by (metis prod_cases3)
  then show "mc_loops (cleaner_tick order now c) = mc_loops c" "mc_stop (cleaner_tick order now c) = mc_stop c"
    "mc_started (cleaner_tick order now c) = mc_started c" "mc_closed (cleaner_tick order now c) = mc_closed c"
    "mc_closes (cleaner_tick order now c) = mc_closes c" "mc_Enabled (cleaner_tick order now c) = mc_Enabled c"
    "mc_Interval (cleaner_tick order now c) = mc_Interval c"
    "ms_maxAge (mc_store (cleaner_tick order now c)) = ms_maxAge (mc_store c)"
    using clean_expired_maxAge [of order now "mc_store c" "mc_disk c"] by (simp_all add: cleaner_tick_def)
qed

lemma cleaner_inv_step:
  assumes "cleaner_step c c'" "cleaner_inv c"
  shows "cleaner_inv c'"
  using assms
  by (cases rule: cleaner_step.cases)
    (auto simp: cleaner_inv_def cleaner_start_def cleaner_stop_def split: if_splits)

lemma cleaner_stop_channel: "cleaner_step c c' \<Longrightarrow> mc_stop c' = mc_stop c"
  by (erule cleaner_step_cases) (simp_all add: cleaner_start_def cleaner_stop_def)

text \<open>
  However often \<open>Start\<close> and \<open>Stop\<close> are called: there is at most one loop, and none unless clean-up is
  enabled with an interval and an age; the stop channel is closed at most once; and a store without
  clean-up never runs one.
\<close>

lemma cleaner_runs:
  assumes "cleaner_step\<^sup>*\<^sup>* (new_store_with_cleanup enabled maxAge interval disk) c"
  shows "mc_loops c \<le> 1 \<and> mc_closes c \<le> 1 \<and> (0 < mc_loops c \<longrightarrow> mc_Enabled c \<and> 0 < mc_Interval c \<and> 0 < ms_maxAge (mc_store c))"
proof -
  have "cleaner_inv (new_store_with_cleanup enabled maxAge interval disk)"
    by (simp add: cleaner_inv_def new_store_with_cleanup_def)
  with assms have "cleaner_inv c"
    by (induction rule: rtranclp_induct) (blast intro: cleaner_inv_step)+
  then show ?thesis by (auto simp: cleaner_inv_def split: if_splits)
qed

lemma no_cleanup_no_loop:
  assumes "cleaner_step\<^sup>*\<^sup>* (new_store_without_cleanup disk) c"
  shows "mc_loops c = 0 \<and> mc_closes c = 0"
proof -
  have "cleaner_inv c \<and> \<not> mc_stop c"
    using assms
  proof (induction rule: rtranclp_induct)
    case base
    show ?case by (simp add: cleaner_inv_def new_store_without_cleanup_def new_store_with_cleanup_def)
  next
    case (step c c')
    then show ?case using cleaner_inv_step cleaner_stop_channel by blast
  qed
  then show ?thesis by (auto simp: cleaner_inv_def split: if_splits)
qed

text \<open>A cleaner that was stopped stays stopped: starting it again launches nothing.\<close>

lemma stopped_cleaner_stays:
  assumes "mc_started c"
  shows "mc_loops (cleaner_start (cleaner_stop c)) = mc_loops c"
  using assms by (simp add: cleaner_start_def cleaner_stop_def)

end
