(* ===== verification/Upgrade.thy ===== *)
theory Upgrade
  imports Go_Path Go_Numbers
begin

text \<open>
  \<open>cmd/ectoclaw/internal/upgrade\<close>: the command that replaces the running binary by that of a release.
  Requests, the unpacking of archives and the failures of system calls are arguments; the
  replacement is the list of the disk states it goes through, so that a crash is any of them.
\<close>

subsection \<open>Releases\<close>

record github_asset =
  ga_Name :: string
  ga_URL :: string

record github_release =
  gr_TagName :: string
  gr_Assets :: "github_asset list"

definition github_api_base :: string where
  "github_api_base = ''https://api.github.com/repos/ectoclaw/ectoclaw/releases''"

definition release_url :: "bool \<Rightarrow> string" where
  "release_url nightly = github_api_base @ (if nightly then ''/tags/nightly'' else ''/latest'')"

text \<open>\<open>get\<close> gives the error of a request, or its status and the decoded body.\<close>

definition fetch_release :: "(string \<Rightarrow> string + (int \<times> (string + github_release))) \<Rightarrow> bool \<Rightarrow> string + github_release" where
  "fetch_release get nightly =
    (case get (release_url nightly) of
       Inl e \<Rightarrow> Inl (''fetch release: '' @ e)
     | Inr (status, body) \<Rightarrow>
         if status \<noteq> 200 then Inl (''GitHub API returned '' @ format_int status)
         else (case body of Inl e \<Rightarrow> Inl (''decode response: '' @ e) | Inr release \<Rightarrow> Inr release))"

definition os_name :: "string \<Rightarrow> string option" where
  "os_name goos =
    map_of [(''darwin'', ''Darwin''), (''linux'', ''Linux''), (''windows'', ''Windows'')] goos"

definition arch_name :: "string \<Rightarrow> string option" where
  "arch_name goarch = map_of [(''amd64'', ''x86_64''), (''arm64'', ''arm64'')] goarch"

definition asset_name :: "string \<Rightarrow> string \<Rightarrow> string + string" where
  "asset_name goos goarch =
    (case os_name goos of
       None \<Rightarrow> Inl (''unsupported OS: '' @ goos)
     | Some osName \<Rightarrow>
         (case arch_name goarch of
            None \<Rightarrow> Inl (''unsupported architecture: '' @ goarch)
          | Some archName \<Rightarrow>
              Inr (''ectoclaw_'' @ osName @ ''_'' @ archName @ (if goos = ''windows'' then ''.zip'' else ''.tar.gz''))))"

text \<open>\<open>goQuote\<close> is \<open>strconv.Quote\<close>.\<close>

definition find_asset :: "(string \<Rightarrow> string) \<Rightarrow> github_release \<Rightarrow> string \<Rightarrow> string + github_asset" where
  "find_asset goQuote release name =
    (case find (\<lambda>a. ga_Name a = name) (gr_Assets release) of
       Some a \<Rightarrow> Inr a
     | None \<Rightarrow> Inl (''asset '' @ goQuote name @ '' not found in release '' @ gr_TagName release))"

subsection \<open>Archives\<close>

text \<open>
  What the readers of \<open>archive/tar\<close> and \<open>archive/zip\<close> give: the headers in their order, each with the
  outcome of reading its body, or an error. In a zip file opening an entry may fail too.
\<close>

datatype tar_item = TarError string | TarEntry bool string "string + string"

definition is_binary :: "string \<Rightarrow> bool" where
  "is_binary name \<longleftrightarrow> base_name name = ''ectoclaw'' \<or> base_name name = ''ectoclaw.exe''"

fun scan_tar :: "tar_item list \<Rightarrow> string + string" where
  "scan_tar [] = Inl ''ectoclaw binary not found in archive''"
| "scan_tar (TarError e # items) = Inl (''tar: '' @ e)"
| "scan_tar (TarEntry regular name body # items) =
    (if \<not> regular then scan_tar items else if is_binary name then body else scan_tar items)"

definition extract_from_tar_gz :: "string + tar_item list \<Rightarrow> string + string" where
  "extract_from_tar_gz a = (case a of Inl e \<Rightarrow> Inl (''gzip: '' @ e) | Inr items \<Rightarrow> scan_tar items)"

fun scan_zip :: "(string \<times> (string + string)) list \<Rightarrow> string + string" where
  "scan_zip [] = Inl ''ectoclaw binary not found in archive''"
| "scan_zip ((name, body) # files) = (if is_binary name then body else scan_zip files)"

definition extract_from_zip :: "string + (string \<times> (string + string)) list \<Rightarrow> string + string" where
  "extract_from_zip a = (case a of Inl e \<Rightarrow> Inl (''zip: '' @ e) | Inr files \<Rightarrow> scan_zip files)"

record archive_lib =
  al_tar :: "string \<Rightarrow> string + tar_item list"
  al_zip :: "string \<Rightarrow> string + (string \<times> (string + string)) list"

definition extract_binary :: "archive_lib \<Rightarrow> string \<Rightarrow> string \<Rightarrow> string + string" where
  "extract_binary L data kind =
    (if kind = ''.tar.gz'' then extract_from_tar_gz (al_tar L data)
     else if kind = ''.zip'' then extract_from_zip (al_zip L data)
     else Inl (''unsupported archive format: '' @ kind))"

subsection \<open>Replacing the binary\<close>

text \<open>A file has its contents and its mode, and may have reached the disk or only the page cache.\<close>

record file_on_disk =
  fd_data :: string
  fd_mode :: int
  fd_synced :: bool

type_synonym binary_disk = "string \<rightharpoonup> file_on_disk"

datatype replace_step = CreateTemp | WriteTemp | CloseTemp | StatBinary | ChmodTemp | RenameTemp

text \<open>
  \<open>fails\<close> says which call fails and with what, \<open>partial\<close> how much is written before it does. The
  deferred function removes the temporary file unless it was renamed.
\<close>

definition replace_binary ::
  "(replace_step \<Rightarrow> string option) \<Rightarrow> nat \<Rightarrow> binary_disk \<Rightarrow> string \<Rightarrow> string \<Rightarrow> string \<Rightarrow> binary_disk list \<times> string option" where
  "replace_binary fails partial d tmp path binary =
    (let created = d(tmp \<mapsto> \<lparr>fd_data = [], fd_mode = 384, fd_synced = False\<rparr>);
         partly = d(tmp \<mapsto> \<lparr>fd_data = take partial binary, fd_mode = 384, fd_synced = False\<rparr>);
         written = d(tmp \<mapsto> \<lparr>fd_data = binary, fd_mode = 384, fd_synced = False\<rparr>);
         cleaned = d(tmp := None)
     in case fails CreateTemp of
       Some e \<Rightarrow> ([d], Some (''create temp file: '' @ e))
     | None \<Rightarrow>
         (case fails WriteTemp of
            Some e \<Rightarrow> ([d, created, partly, cleaned], Some (''write temp file: '' @ e))
          | None \<Rightarrow>
              (case fails CloseTemp of
                 Some e \<Rightarrow> ([d, created, partly, written, cleaned], Some (''close temp file: '' @ e))
               | None \<Rightarrow>
                   (case (fails StatBinary, d path) of
                      (Some e, _) \<Rightarrow> ([d, created, partly, written, cleaned], Some (''stat binary: '' @ e))
                    | (None, None) \<Rightarrow> ([d, created, partly, written, cleaned], Some (''stat binary: no such file''))
                    | (None, Some old) \<Rightarrow>
                        let new = \<lparr>fd_data = binary, fd_mode = fd_mode old, fd_synced = False\<rparr> in
                        (case fails ChmodTemp of
                           Some e \<Rightarrow> ([d, created, partly, written, cleaned], Some (''chmod: '' @ e))
                         | None \<Rightarrow>
                             (case fails RenameTemp of
                                Some e \<Rightarrow> ([d, created, partly, written, d(tmp \<mapsto> new), cleaned], Some (''replace binary: '' @ e))
                              | None \<Rightarrow> ([d, created, partly, written, d(tmp \<mapsto> new), cleaned(path \<mapsto> new)], None)))))))"

text \<open>\<open>get\<close> gives the error of the request, or its status and the outcome of reading its body.\<close>

definition windows_message :: string where
  "windows_message =
    ''automatic upgrade is not supported on Windows because the running executable is locked'' @ [CHR 0x0A] @
    ''Please download the latest release manually from https://github.com/ectoclaw/ectoclaw/releases''"

definition download_and_replace ::
  "string \<Rightarrow> archive_lib \<Rightarrow> (string \<Rightarrow> string + (int \<times> (string + string))) \<Rightarrow> (replace_step \<Rightarrow> string option) \<Rightarrow> nat \<Rightarrow>
    binary_disk \<Rightarrow> string \<Rightarrow> string \<Rightarrow> string \<Rightarrow> binary_disk list \<times> string option" where
  "download_and_replace goos L get fails partial d tmp url path =
    (if goos = ''windows'' then ([d], Some windows_message)
     else
       (case get url of
          Inl e \<Rightarrow> ([d], Some (''download: '' @ e))
        | Inr (status, body) \<Rightarrow>
            if status \<noteq> 200 then ([d], Some (''download returned '' @ format_int status))
            else
              (case body of
                 Inl e \<Rightarrow> ([d], Some (''read archive: '' @ e))
               | Inr data \<Rightarrow>
                   (case extract_binary L data (if has_suffix ''.zip'' url then ''.zip'' else ''.tar.gz'') of
                      Inl e \<Rightarrow> ([d], Some (''extract: '' @ e))
                    | Inr binary \<Rightarrow> replace_binary fails partial d tmp path binary))))"

definition current_binary_path :: "string + string \<Rightarrow> (string \<Rightarrow> string + string) \<Rightarrow> string + string" where
  "current_binary_path executable evalSymlinks =
    (case executable of
       Inl e \<Rightarrow> Inl (''locate executable: '' @ e)
     | Inr exe \<Rightarrow>
         (case evalSymlinks exe of Inl e \<Rightarrow> Inl (''resolve symlinks: '' @ e) | Inr resolved \<Rightarrow> Inr resolved))"

subsection \<open>The command\<close>

record upgrade_env =
  ue_goos :: string
  ue_goarch :: string
  ue_version :: string
  ue_getRelease :: "string \<Rightarrow> string + (int \<times> (string + github_release))"
  ue_get :: "string \<Rightarrow> string + (int \<times> (string + string))"
  ue_archives :: archive_lib
  ue_quote :: "string \<Rightarrow> string"
  ue_executable :: "string + string"
  ue_evalSymlinks :: "string \<Rightarrow> string + string"
  ue_fails :: "replace_step \<Rightarrow> string option"
  ue_partial :: nat
  ue_temp :: string

text \<open>What the command has done: reported the versions, found nothing to do, or installed a release at a path.\<close>

datatype upgrade_outcome = Checked string | UpToDate | Installed string string | UpgradeFailed string

definition run_upgrade :: "upgrade_env \<Rightarrow> bool \<Rightarrow> bool \<Rightarrow> binary_disk \<Rightarrow> binary_disk list \<times> upgrade_outcome" where
  "run_upgrade E nightly check d =
    (case fetch_release (ue_getRelease E) nightly of
       Inl e \<Rightarrow> ([d], UpgradeFailed (''fetch release info: '' @ e))
     | Inr release \<Rightarrow>
         if check then ([d], Checked (gr_TagName release))
         else if \<not> nightly \<and> ue_version E \<noteq> ''dev'' \<and> ue_version E = gr_TagName release then ([d], UpToDate)
         else
           (case asset_name (ue_goos E) (ue_goarch E) of
              Inl e \<Rightarrow> ([d], UpgradeFailed e)
            | Inr name \<Rightarrow>
                (case find_asset (ue_quote E) release name of
                   Inl e \<Rightarrow> ([d], UpgradeFailed e)
                 | Inr asset \<Rightarrow>
                     (case current_binary_path (ue_executable E) (ue_evalSymlinks E) of
                        Inl e \<Rightarrow> ([d], UpgradeFailed e)
                      | Inr path \<Rightarrow>
                          (case download_and_replace (ue_goos E) (ue_archives E) (ue_get E) (ue_fails E) (ue_partial E)
                             d (ue_temp E) (ga_URL asset) path of
                             (ds, Some e) \<Rightarrow> (ds, UpgradeFailed e)
                           | (ds, None) \<Rightarrow> (ds, Installed (gr_TagName release) path))))))"

subsection \<open>What the command leaves on the disk\<close>

lemma replace_binary_states:
  assumes "replace_binary fails n d tmp path binary = (ds, err)" "tmp \<noteq> path" "d tmp = None"
  shows "ds \<noteq> []" "list_all (\<lambda>d'. \<forall>p. p \<noteq> tmp \<longrightarrow> d' p = d p) (butlast ds)"
    and "if err = None
      then \<exists>old. d path = Some old \<and> last ds = d(path \<mapsto> \<lparr>fd_data = binary, fd_mode = fd_mode old, fd_synced = False\<rparr>)
      else last ds = d"
proof -
  have id: "d(tmp := None) = d" using assms(3) by (simp add: fun_upd_idem)
  show "ds \<noteq> []" "list_all (\<lambda>d'. \<forall>p. p \<noteq> tmp \<longrightarrow> d' p = d p) (butlast ds)"
    and "if err = None
      then \<exists>old. d path = Some old \<and> last ds = d(path \<mapsto> \<lparr>fd_data = binary, fd_mode = fd_mode old, fd_synced = False\<rparr>)
      else last ds = d"
    using assms(1) id by (auto simp: replace_binary_def Let_def split: option.splits)
qed

lemma download_and_replace_states:
  assumes "download_and_replace goos L get fails n d tmp url path = (ds, err)"
  shows "(ds = [d] \<and> err \<noteq> None) \<or>
    (\<exists>data binary. get url = Inr (200, Inr data) \<and>
      extract_binary L data (if has_suffix ''.zip'' url then ''.zip'' else ''.tar.gz'') = Inr binary \<and>
      replace_binary fails n d tmp path binary = (ds, err))"
  using assms by (auto simp: download_and_replace_def split: if_splits sum.splits)

text \<open>The binary a run of the command would install.\<close>

definition release_binary :: "upgrade_env \<Rightarrow> bool \<Rightarrow> string option" where
  "release_binary E nightly =
    (case fetch_release (ue_getRelease E) nightly of
       Inl _ \<Rightarrow> None
     | Inr release \<Rightarrow>
         (case asset_name (ue_goos E) (ue_goarch E) of
            Inl _ \<Rightarrow> None
          | Inr name \<Rightarrow>
              (case find_asset (ue_quote E) release name of
                 Inl _ \<Rightarrow> None
               | Inr asset \<Rightarrow>
                   (case ue_get E (ga_URL asset) of
                      Inr (status, Inr data) \<Rightarrow>
                        (case extract_binary (ue_archives E) data
                          (if has_suffix ''.zip'' (ga_URL asset) then ''.zip'' else ''.tar.gz'') of
                           Inl _ \<Rightarrow> None | Inr binary \<Rightarrow> Some binary)
                    | _ \<Rightarrow> None))))"

lemma run_upgrade_cases:
  assumes "run_upgrade E nightly check d = (ds, out)"
  obtains "ds = [d]" "\<forall>tag p. out \<noteq> Installed tag p"
  | tag path binary err where "current_binary_path (ue_executable E) (ue_evalSymlinks E) = Inr path"
      "release_binary E nightly = Some binary"
      "replace_binary (ue_fails E) (ue_partial E) d (ue_temp E) path binary = (ds, err)"
      "out = (case err of None \<Rightarrow> Installed tag path | Some e \<Rightarrow> UpgradeFailed e)"
proof -
  consider (idle) "ds = [d]" "\<forall>tag p. out \<noteq> Installed tag p"
    | (tried) release name asset path err where
      "fetch_release (ue_getRelease E) nightly = Inr release" "asset_name (ue_goos E) (ue_goarch E) = Inr name"
      "find_asset (ue_quote E) release name = Inr asset"
      "current_binary_path (ue_executable E) (ue_evalSymlinks E) = Inr path"
      "download_and_replace (ue_goos E) (ue_archives E) (ue_get E) (ue_fails E) (ue_partial E) d (ue_temp E)
        (ga_URL asset) path = (ds, err)"
      "out = (case err of None \<Rightarrow> Installed (gr_TagName release) path | Some e \<Rightarrow> UpgradeFailed e)"
    using assms by (auto simp: run_upgrade_def split: if_splits sum.splits prod.splits option.splits)
  then show thesis
  proof cases
    case idle
    with that(1) show thesis .
  next
    case tried
    from download_and_replace_states [OF tried(5)] show thesis
    proof (elim disjE exE conjE)
      assume "ds = [d]" "err \<noteq> None"
      with tried(6) show thesis by (intro that(1)) (auto split: option.splits)
    next
      fix data binary
      assume "ue_get E (ga_URL asset) = Inr (200, Inr data)"
        and "extract_binary (ue_archives E) data (if has_suffix ''.zip'' (ga_URL asset) then ''.zip'' else ''.tar.gz'') = Inr binary"
        and r: "replace_binary (ue_fails E) (ue_partial E) d (ue_temp E) path binary = (ds, err)"
      with tried have "release_binary E nightly = Some binary" by (simp add: release_binary_def)
      from that(2) [OF tried(4) this r tried(6)] show thesis .
    qed
  qed
qed


definition sample_upgrade :: upgrade_env where
  "sample_upgrade =
    \<lparr>ue_goos = ''linux'', ue_goarch = ''amd64'', ue_version = ''1.2.3'',
     ue_getRelease = (\<lambda>_. Inr (200, Inr \<lparr>gr_TagName = ''v1.2.3'',
       gr_Assets = [\<lparr>ga_Name = ''ectoclaw_Linux_x86_64.tar.gz'', ga_URL = ''u''\<rparr>]\<rparr>)),
     ue_get = (\<lambda>_. Inr (200, Inr ''gz'')),
     ue_archives = \<lparr>al_tar = (\<lambda>_. Inr [TarEntry False ''ectoclaw'' (Inr []), TarEntry True ''LICENSE'' (Inr ''MIT''),
       TarEntry True ''bin/ectoclaw'' (Inr ''new'')]), al_zip = (\<lambda>_. Inl [])\<rparr>,
     ue_quote = (\<lambda>s. s), ue_executable = Inr ''/bin/e'', ue_evalSymlinks = Inr,
     ue_fails = (\<lambda>_. None), ue_partial = 0, ue_temp = ''/bin/t''\<rparr>"

definition sample_binary :: binary_disk where
  "sample_binary = [''/bin/e'' \<mapsto> \<lparr>fd_data = ''old'', fd_mode = 493, fd_synced = True\<rparr>]"

lemma sample_upgrade_runs:
  "snd (run_upgrade sample_upgrade False False sample_binary) = Installed ''v1.2.3'' ''/bin/e''"
  by code_simp


text \<open>
  A release build carries the version without the \<open>v\<close> of its tag (\<open>.goreleaser.yaml\<close>), so the comparison
  of \<open>run\<close> never finds it up to date: the sample above installs the release it already is.
\<close>

lemma release_never_up_to_date:
  assumes "fetch_release (ue_getRelease E) nightly = Inr release" "gr_TagName release = CHR ''v'' # ue_version E"
  shows "snd (run_upgrade E nightly check d) \<noteq> UpToDate"
  using assms by (auto simp: run_upgrade_def split: sum.splits prod.splits option.splits)

text \<open>
  Nothing is synced before the rename: a crash of the machine soon after a successful upgrade may leave
  a binary whose bytes never reached the disk.
\<close>

lemma installed_not_synced:
  assumes "replace_binary fails n d tmp path binary = (ds, None)" "tmp \<noteq> path" "d tmp = None"
  shows "\<exists>f. last ds path = Some f \<and> \<not> fd_synced f"
  using replace_binary_states(3) [OF assms] by auto

text \<open>The names that are asked for; for the first four \<open>.goreleaser.yaml\<close> builds the archives so named.\<close>

lemma asset_names:
  "map (\<lambda>(goos, goarch). asset_name goos goarch)
     [(''linux'', ''amd64''), (''linux'', ''arm64''), (''darwin'', ''arm64''), (''windows'', ''amd64''), (''freebsd'', ''amd64''),
      (''linux'', ''riscv64'')] =
   [Inr ''ectoclaw_Linux_x86_64.tar.gz'', Inr ''ectoclaw_Linux_arm64.tar.gz'', Inr ''ectoclaw_Darwin_arm64.tar.gz'',
    Inr ''ectoclaw_Windows_x86_64.zip'', Inl ''unsupported OS: freebsd'', Inl ''unsupported architecture: riscv64'']"
  by code_simp

end
