(* ===== verification/Health.thy ===== *)
theory Health
  imports Prelude Go_Path "HOL-Library.Finite_Map"
begin

text \<open>
  \<open>pkg/health/server.go\<close> and \<open>Manager.SetupHTTPServer\<close>: the endpoints \<open>/health\<close> and \<open>/ready\<close>, and the shared
  multiplexer on which they, the webhooks of channels and the health endpoints of channels are
  registered. Listening is left to the library; a handler is a function to a status and a body.
\<close>

subsection \<open>The health server\<close>

record health_check =
  hc_Name :: string
  hc_Status :: string
  hc_Message :: string
  hc_Timestamp :: int

record status_response =
  sr_Status :: string
  sr_Uptime :: string
  sr_Checks :: "(string, health_check) fmap"

record health_server =
  hs_addr :: string
  hs_ready :: bool
  hs_checks :: "(string, health_check) fmap"
  hs_startTime :: int

definition new_health_server :: "string \<Rightarrow> int \<Rightarrow> health_server" where
  "new_health_server addr now = \<lparr>hs_addr = addr, hs_ready = False, hs_checks = fmempty, hs_startTime = now\<rparr>"

definition set_ready :: "bool \<Rightarrow> health_server \<Rightarrow> health_server" where
  "set_ready ready s = s\<lparr>hs_ready := ready\<rparr>"

text \<open>\<open>Start\<close> and \<open>StartContext\<close> set the flag before they listen; \<open>Stop\<close> clears it before it shuts down.\<close>

definition health_start :: "string option \<Rightarrow> health_server \<Rightarrow> health_server \<times> string option" where
  "health_start listenErr s = (set_ready True s, listenErr)"

definition health_stop :: "string option \<Rightarrow> health_server \<Rightarrow> health_server \<times> string option" where
  "health_stop shutdownErr s = (set_ready False s, shutdownErr)"

text \<open>Either the server fails, or the context ends first and the server is shut down.\<close>

definition health_start_context :: "string option \<Rightarrow> string option \<Rightarrow> health_server \<Rightarrow> health_server \<times> string option" where
  "health_start_context listenErr shutdownErr s =
    (set_ready True s, (case listenErr of Some e \<Rightarrow> Some e | None \<Rightarrow> shutdownErr))"

definition status_string :: "bool \<Rightarrow> string" where
  "status_string ok = (if ok then ''ok'' else ''fail'')"

definition register_check :: "string \<Rightarrow> bool \<times> string \<Rightarrow> int \<Rightarrow> health_server \<Rightarrow> health_server" where
  "register_check name result now s =
    s\<lparr>hs_checks := fmupd name
      \<lparr>hc_Name = name, hc_Status = status_string (fst result), hc_Message = snd result, hc_Timestamp = now\<rparr> (hs_checks s)\<rparr>"

text \<open>\<open>showDuration\<close> is \<open>Duration.String\<close>.\<close>

definition health_handler :: "(int \<Rightarrow> string) \<Rightarrow> int \<Rightarrow> health_server \<Rightarrow> int \<times> status_response" where
  "health_handler showDuration now s =
    (200, \<lparr>sr_Status = ''ok'', sr_Uptime = showDuration (now - hs_startTime s), sr_Checks = fmempty\<rparr>)"

definition ready_handler :: "(int \<Rightarrow> string) \<Rightarrow> int \<Rightarrow> health_server \<Rightarrow> int \<times> status_response" where
  "ready_handler showDuration now s =
    (let refused = (503, \<lparr>sr_Status = ''not ready'', sr_Uptime = [], sr_Checks = hs_checks s\<rparr>) in
     if \<not> hs_ready s then refused
     else if \<not> fmpred (\<lambda>_ c. hc_Status c \<noteq> ''fail'') (hs_checks s) then refused
     else (200, \<lparr>sr_Status = ''ready'', sr_Uptime = showDuration (now - hs_startTime s), sr_Checks = hs_checks s\<rparr>))"

subsection \<open>The shared multiplexer\<close>

text \<open>Registering a path twice, or an empty one, panics. Paths hold no wildcards.\<close>

datatype endpoint = HealthEndpoint | ReadyEndpoint | WebhookEndpoint string | ChannelHealth string

type_synonym mux = "(string, endpoint) fmap"

definition mux_handle :: "string \<Rightarrow> endpoint \<Rightarrow> mux option \<Rightarrow> mux option" where
  "mux_handle path e m =
    (case m of
       None \<Rightarrow> None
     | Some r \<Rightarrow> if path = [] \<or> fmlookup r path \<noteq> None then None else Some (fmupd path e r))"

definition register_on_mux :: "mux option \<Rightarrow> mux option" where
  "register_on_mux m = mux_handle ''/ready'' ReadyEndpoint (mux_handle ''/health'' HealthEndpoint m)"

text \<open>What the manager finds out about a channel: its name and the paths of its handlers, if it has any.\<close>

record mounted =
  mo_name :: string
  mo_webhook :: "string option"
  mo_health :: "string option"

definition mount_channel :: "mounted \<Rightarrow> mux option \<Rightarrow> mux option" where
  "mount_channel c m =
    (let m1 = (case mo_webhook c of None \<Rightarrow> m | Some p \<Rightarrow> mux_handle p (WebhookEndpoint (mo_name c)) m)
     in (case mo_health c of None \<Rightarrow> m1 | Some p \<Rightarrow> mux_handle p (ChannelHealth (mo_name c)) m1))"

definition setup_http_server :: "bool \<Rightarrow> mounted list \<Rightarrow> mux option" where
  "setup_http_server with_health cs =
    fold mount_channel cs (if with_health then register_on_mux (Some fmempty) else Some fmempty)"

subsection \<open>What the endpoints answer\<close>

text \<open>\<open>/ready\<close> answers 200 exactly if the flag is set and the last result of every check was good.\<close>

definition last_results :: "(string \<times> (bool \<times> string) \<times> int) list \<Rightarrow> health_server \<Rightarrow> health_server" where
  "last_results cs s = fold (\<lambda>(name, result, now). register_check name result now) cs s"

lemma last_results_append:
  "last_results (cs @ [(name, result, now)]) s = register_check name result now (last_results cs s)"
  by (simp add: last_results_def)

lemma register_check_ready: "hs_ready (last_results cs s) = hs_ready s"
proof (induction cs rule: rev_induct)
  case Nil
  show ?case by (simp add: last_results_def)
next
  case (snoc c cs)
  then show ?case by (cases c) (simp add: last_results_append register_check_def)
qed

lemma last_result_of:
  "map_option hc_Status (fmlookup (hs_checks (last_results cs (new_health_server addr t))) name) =
    map_option (\<lambda>(result, _). status_string (fst result)) (map_of (rev cs) name)"
proof (induction cs rule: rev_induct)
  case Nil
  show ?case by (simp add: last_results_def new_health_server_def)
next
  case (snoc c cs)
  then show ?case by (cases c) (simp add: last_results_append register_check_def split: if_splits)
qed

lemma status_fail: "status_string b = ''fail'' \<longleftrightarrow> \<not> b"
  by (simp add: status_string_def)

lemma ready_iff:
  "fst (ready_handler showDuration now (set_ready ready (last_results cs (new_health_server addr t)))) = 200 \<longleftrightarrow>
    ready \<and> (\<forall>name result when. map_of (rev cs) name = Some (result, when) \<longrightarrow> fst result)"
proof -
  let ?s = "last_results cs (new_health_server addr t)"
  have "fmpred (\<lambda>_ c. hc_Status c \<noteq> ''fail'') (hs_checks ?s) \<longleftrightarrow>
      (\<forall>name. map_option hc_Status (fmlookup (hs_checks ?s) name) \<noteq> Some ''fail'')"
    by (auto simp: fmpred_iff)
  also have "\<dots> \<longleftrightarrow> (\<forall>name result when. map_of (rev cs) name = Some (result, when) \<longrightarrow> fst result)"
    unfolding last_result_of by (auto simp: status_fail)
  finally have iff: "fmpred (\<lambda>_ c. hc_Status c \<noteq> ''fail'') (hs_checks ?s) \<longleftrightarrow>
      (\<forall>name result when. map_of (rev cs) name = Some (result, when) \<longrightarrow> fst result)" .
  show ?thesis unfolding iff [symmetric] by (simp add: ready_handler_def set_ready_def Let_def)
qed

text \<open>
  The gateway never starts the health server: it only puts its handlers on the shared multiplexer, and
  nothing else sets the flag. So its \<open>/ready\<close> answers 503 as long as it lives.
\<close>

lemma gateway_never_ready:
  "fst (ready_handler showDuration now (last_results cs (new_health_server addr t))) = 503"
  by (simp add: ready_handler_def register_check_ready new_health_server_def)

subsection \<open>Which handler a path has\<close>

lemma mount_None: "mount_channel c None = None"
  by (simp add: mount_channel_def mux_handle_def split: option.splits)

lemma fold_mount_None: "fold mount_channel cs None = None"
  by (induction cs) (simp_all add: mount_None)

lemma mux_handle_keeps: "mux_handle p e (Some r) = Some r' \<Longrightarrow> fmlookup r q = Some x \<Longrightarrow> fmlookup r' q = Some x"
  by (auto simp: mux_handle_def split: if_splits)

lemma mount_some:
  "mount_channel c (Some r) = Some r' \<Longrightarrow>
    \<exists>r1. (case mo_webhook c of None \<Rightarrow> Some r | Some p \<Rightarrow> mux_handle p (WebhookEndpoint (mo_name c)) (Some r)) = Some r1 \<and>
      (case mo_health c of None \<Rightarrow> Some r1 | Some p \<Rightarrow> mux_handle p (ChannelHealth (mo_name c)) (Some r1)) = Some r'"
  by (auto simp: mount_channel_def mux_handle_def Let_def split: option.splits if_splits)

lemma mount_keeps: "mount_channel c (Some r) = Some r' \<Longrightarrow> fmlookup r q = Some x \<Longrightarrow> fmlookup r' q = Some x"
  by (drule mount_some) (auto dest: mux_handle_keeps split: option.splits)

lemma fold_mount_keeps:
  "fold mount_channel cs (Some r) = Some r' \<Longrightarrow> fmlookup r q = Some x \<Longrightarrow> fmlookup r' q = Some x"
proof (induction cs arbitrary: r)
  case (Cons c cs)
  then obtain r1 where r1: "mount_channel c (Some r) = Some r1"
    by (cases "mount_channel c (Some r)") (auto simp: fold_mount_None)
  with Cons.prems have "fold mount_channel cs (Some r1) = Some r'" by simp
  then show ?case using Cons.IH mount_keeps [OF r1 Cons.prems(2)] by blast
qed simp

text \<open>
  If setting up does not panic, the two endpoints of the health server are where they should be and
  every channel has its own paths.
\<close>

lemma mux_of_setup:
  assumes "setup_http_server True cs = Some r"
  shows "fmlookup r ''/health'' = Some HealthEndpoint \<and> fmlookup r ''/ready'' = Some ReadyEndpoint \<and>
    (\<forall>c \<in> set cs. \<forall>p. mo_webhook c = Some p \<longrightarrow> fmlookup r p = Some (WebhookEndpoint (mo_name c)))"
proof -
  let ?r0 = "fmupd ''/ready'' ReadyEndpoint (fmupd ''/health'' HealthEndpoint fmempty)"
  have f: "fold mount_channel cs (Some ?r0) = Some r"
    using assms by (simp add: setup_http_server_def register_on_mux_def mux_handle_def)
  have "fmlookup r p = Some (WebhookEndpoint (mo_name c))" if c: "c \<in> set cs" "mo_webhook c = Some p" for c p
  proof -
    from c(1) obtain xs ys where cs: "cs = xs @ c # ys" by (meson split_list)
    obtain r1 where r1: "fold mount_channel xs (Some ?r0) = Some r1"
      using f cs by (cases "fold mount_channel xs (Some ?r0)") (simp_all add: mount_None fold_mount_None)
    obtain r2 where r2: "mount_channel c (Some r1) = Some r2"
      using f cs r1 by (cases "mount_channel c (Some r1)") (auto simp: fold_mount_None)
    have "fmlookup r2 p = Some (WebhookEndpoint (mo_name c))"
      using mount_some [OF r2] c(2) by (auto simp: mux_handle_def split: option.splits if_splits)
    moreover have "fold mount_channel ys (Some r2) = Some r" using f cs r1 r2 by simp
    ultimately show ?thesis using fold_mount_keeps by blast
  qed
  then show ?thesis using fold_mount_keeps [OF f] by simp
qed

text \<open>A webhook that is configured to a path of the health server makes the gateway panic when it starts.\<close>

lemma webhook_on_health_path:
  "setup_http_server True [\<lparr>mo_name = ''line'', mo_webhook = Some ''/health'', mo_health = None\<rparr>] = None"
  by (simp add: setup_http_server_def register_on_mux_def mux_handle_def mount_channel_def)

end
