(* ===== verification/Config.thy ===== *)
theory Config
  imports Stores Base_Channel
begin

text \<open>
  \<open>pkg/config\<close>: lists of strings that accept numbers, the home directory in paths, loading and saving of
  the configuration. Decoding of the whole configuration, the environment and the defaults are
  arguments of the loader; the records of the adapters are in their theories.
\<close>

subsection \<open>Lists of strings that accept numbers\<close>

text \<open>
  An integer literal of JSON as a \<open>float64\<close>: 53 bits, halves to the even neighbour; \<open>None\<close> where it is
  out of range, which fails the decoding.
\<close>

fun bits :: "nat \<Rightarrow> nat" where
  "bits n = (if n = 0 then 0 else Suc (bits (n div 2)))"

declare bits.simps [simp del]

definition round_half_even :: "nat \<Rightarrow> nat \<Rightarrow> nat" where
  "round_half_even a e =
    (let q = a div 2 ^ e; r = a mod 2 ^ e
     in (if 2 * r > 2 ^ e \<or> 2 * r = 2 ^ e \<and> odd q then q + 1 else q) * 2 ^ e)"

definition to_float64 :: "int \<Rightarrow> int option" where
  "to_float64 i =
    (let a = nat \<bar>i\<bar>;
         m = (if a \<le> 2 ^ 53 then a else round_half_even a (bits a - 53))
     in if 2 ^ 1024 \<le> m then None else Some (sgn i * int m))"

text \<open>
  An element that is no string: an integer is printed with \<open>%.0f\<close>, everything else but a fraction with
  \<open>%v\<close>. \<open>fraction i\<close> is the text of the fraction at position \<open>i\<close>, \<open>nested\<close> that of a list or an object.
\<close>

definition flexible_element :: "(nat \<Rightarrow> string) \<Rightarrow> (json \<Rightarrow> string) \<Rightarrow> nat \<Rightarrow> json \<Rightarrow> string option" where
  "flexible_element fraction nested i v =
    (case v of
       JStr s \<Rightarrow> Some s
     | JInt n \<Rightarrow> map_option format_int (to_float64 n)
     | JFraction \<Rightarrow> Some (fraction i)
     | JNull \<Rightarrow> Some ''<nil>''
     | JBool b \<Rightarrow> Some (if b then ''true'' else ''false'')
     | _ \<Rightarrow> Some (nested v))"

fun all_some :: "'a option list \<Rightarrow> 'a list option" where
  "all_some [] = Some []"
| "all_some (x # xs) = (case (x, all_some xs) of (Some a, Some as) \<Rightarrow> Some (a # as) | _ \<Rightarrow> None)"

text \<open>What \<open>json.Unmarshal\<close> into a list of strings does with an element: a string, or the empty one for null.\<close>

definition plain_element :: "json \<Rightarrow> string option" where
  "plain_element v = (case v of JStr s \<Rightarrow> Some s | JNull \<Rightarrow> Some [] | _ \<Rightarrow> None)"

definition flexible_string_slice :: "(nat \<Rightarrow> string) \<Rightarrow> (json \<Rightarrow> string) \<Rightarrow> json \<Rightarrow> string list option" where
  "flexible_string_slice fraction nested v =
    (case v of
       JNull \<Rightarrow> Some []
     | JArr vs \<Rightarrow>
         (case all_some (map plain_element vs) of
            Some ss \<Rightarrow> Some ss
          | None \<Rightarrow> all_some (map (\<lambda>(i, x). flexible_element fraction nested i x) (enumerate 0 vs)))
     | _ \<Rightarrow> None)"

lemma all_some_map: "\<forall>x \<in> set xs. f x = Some (g x) \<Longrightarrow> all_some (map f xs) = Some (map g xs)"
  by (induction xs) auto

lemma all_some_None: "all_some xs = None \<longleftrightarrow> None \<in> set xs"
  by (induction xs) (auto split: option.splits)

lemma to_float64_exact: "\<bar>i\<bar> \<le> 2 ^ 53 \<Longrightarrow> to_float64 i = Some i"
proof -
  assume "\<bar>i\<bar> \<le> 2 ^ 53"
  then have a: "nat \<bar>i\<bar> \<le> 2 ^ 53" by simp
  then have "\<not> 2 ^ 1024 \<le> nat \<bar>i\<bar>"
  proof -
    have "(2::nat) ^ 53 < 2 ^ 1024" by (rule power_strict_increasing) simp_all
    with a show ?thesis by linarith
  qed
  with a show ?thesis by (simp add: to_float64_def Let_def sgn_mult_abs)
qed

text \<open>
  A list of strings and of integers of at most 53 bits is read as the strings and the digits of the
  numbers, as "123" and 123 are meant to be the same.
\<close>

fun entry_text :: "json \<Rightarrow> string" where
  "entry_text (JStr s) = s"
| "entry_text (JInt n) = format_int n"
| "entry_text _ = []"

lemma flexible_numbers:
  assumes "\<forall>v \<in> set vs. (\<exists>s. v = JStr s) \<or> (\<exists>n. v = JInt n \<and> \<bar>n\<bar> \<le> 2 ^ 53)"
  shows "flexible_string_slice fraction nested (JArr vs) = Some (map entry_text vs)"
proof (cases "\<exists>n. JInt n \<in> set vs")
  case True
  then have "None \<in> set (map plain_element vs)" by (force simp: plain_element_def)
  then have plain: "all_some (map plain_element vs) = None" by (simp add: all_some_None)
  have el: "flexible_element fraction nested i v = Some (entry_text v)" if "v \<in> set vs" for i v
  proof -
    from assms that consider s where "v = JStr s" | n where "v = JInt n" "\<bar>n\<bar> \<le> 2 ^ 53" by blast
    then show ?thesis by cases (simp_all add: flexible_element_def to_float64_exact)
  qed
  have "all_some (map (\<lambda>(i, x). flexible_element fraction nested i x) (enumerate 0 vs)) =
      Some (map (\<lambda>(i, x). entry_text x) (enumerate 0 vs))"
    by (rule all_some_map) (auto simp: el in_set_enumerate_eq)
  moreover have "map (\<lambda>(i, x). entry_text x) (enumerate 0 vs) = map entry_text vs"
    by (metis (no_types, lifting) case_prod_unfold comp_apply map_eq_conv map_map map_snd_enumerate)
  ultimately show ?thesis by (simp add: flexible_string_slice_def plain)
next
  case False
  with assms have "all_some (map plain_element vs) = Some (map entry_text vs)"
    by (intro all_some_map) (auto simp: plain_element_def)
  then show ?thesis by (simp add: flexible_string_slice_def)
qed

text \<open>
  Larger numbers, such as the 64-bit ids of Discord, lose their last digits: the list then admits
  another user than the one it names.
\<close>

lemma snowflake_rounded:
  "to_float64 1234567890123456789 = Some 1234567890123456768"
proof -
  have "bits 1234567890123456789 = 61" by (simp add: bits.simps)
  then show ?thesis by (simp add: to_float64_def round_half_even_def Let_def)
qed

text \<open>A null among strings becomes the empty string, among strings and numbers the text \<open><nil>\<close>.\<close>

lemma null_entries:
  "flexible_string_slice fraction nested (JArr [JStr ''a'', JNull]) = Some [''a'', []]"
  "flexible_string_slice fraction nested (JArr [JInt 1, JNull]) = Some [''1'', ''<nil>'']"
proof -
  have "format_int 1 = ''1''" by code_simp
  then show "flexible_string_slice fraction nested (JArr [JInt 1, JNull]) = Some [''1'', ''<nil>'']"
    by (simp add: flexible_string_slice_def plain_element_def flexible_element_def to_float64_exact)
qed (simp add: flexible_string_slice_def plain_element_def)

subsection \<open>Paths\<close>

definition expand_home :: "string \<Rightarrow> string \<Rightarrow> string" where
  "expand_home home path =
    (if path = [] then path
     else if hd path = CHR ''~'' then
       (if 1 < length path \<and> path ! 1 = CHR ''/'' then home @ tl path else home)
     else path)"

lemma expand_home_cases:
  "expand_home home (''~/'' @ p) = home @ ''/'' @ p" "expand_home home ''~'' = home"
  "path \<noteq> [] \<Longrightarrow> hd path \<noteq> CHR ''~'' \<Longrightarrow> expand_home home path = path"
  by (simp_all add: expand_home_def)

text \<open>A path that starts with the home of another user is the home of this one, without the rest.\<close>

lemma expand_home_other_user:
  assumes "c \<noteq> CHR ''/''"
  shows "expand_home home (CHR ''~'' # c # rest) = home"
  using assms by (simp add: expand_home_def)

subsection \<open>Loading and saving\<close>

text \<open>The flag of old configurations of Discord moves to the group trigger.\<close>

definition migrate_mention_only :: "bool \<Rightarrow> group_trigger \<Rightarrow> group_trigger" where
  "migrate_mention_only legacy g = (if legacy \<and> \<not> MentionOnly g then g\<lparr>MentionOnly := True\<rparr> else g)"

lemma migrate_mention_only_idem:
  "migrate_mention_only legacy (migrate_mention_only legacy g) = migrate_mention_only legacy g"
  "MentionOnly (migrate_mention_only legacy g) \<longleftrightarrow> legacy \<or> MentionOnly g"
  by (auto simp: migrate_mention_only_def)

text \<open>
  The default configuration, the decoder, which fills a configuration that is there, the environment
  and the migration are arguments. \<open>readErr\<close> is the error of reading a file that exists.
\<close>

record 'c config_lib =
  cl_default :: 'c
  cl_decode :: "string \<Rightarrow> 'c \<Rightarrow> string + 'c"
  cl_env :: "'c \<Rightarrow> string + 'c"
  cl_migrate :: "'c \<Rightarrow> 'c"
  cl_encode :: "'c \<Rightarrow> string + string"

definition load_config :: "'c config_lib \<Rightarrow> string option \<Rightarrow> disk \<Rightarrow> string \<Rightarrow> string + 'c" where
  "load_config L readErr d path =
    (case d path of
       None \<Rightarrow> Inr (cl_default L)
     | Some text \<Rightarrow>
         (case readErr of
            Some e \<Rightarrow> Inl e
          | None \<Rightarrow>
              (case cl_decode L text (cl_default L) of
                 Inl e \<Rightarrow> Inl e
               | Inr c \<Rightarrow> (case cl_env L c of Inl e \<Rightarrow> Inl e | Inr c' \<Rightarrow> Inr (cl_migrate L c')))))"

definition save_config ::
  "'c config_lib \<Rightarrow> (write_step \<Rightarrow> bool) \<Rightarrow> nat \<Rightarrow> disk \<Rightarrow> string \<Rightarrow> string \<Rightarrow> 'c \<Rightarrow> disk list \<times> string option" where
  "save_config L fails n d tmp path c =
    (case cl_encode L c of
       Inl e \<Rightarrow> ([d], Some e)
     | Inr text \<Rightarrow> write_file_atomic fails n d tmp path text)"

text \<open>A configuration that was saved is loaded again, up to the environment and the migration.\<close>

lemma saved_config_loads:
  assumes "cl_encode L c = Inr text" "cl_decode L text (cl_default L) = Inr c"
    and "save_config L fails n d tmp path c = (ds, None)" "tmp \<noteq> path"
  shows "load_config L None (last ds) path = (case cl_env L c of Inl e \<Rightarrow> Inl e | Inr c' \<Rightarrow> Inr (cl_migrate L c'))"
  using write_file_atomic_states [of fails n d tmp path "text" ds None] assms
  by (simp add: save_config_def load_config_def)

text \<open>Without a file the environment is not read at all.\<close>

lemma environment_needs_file:
  assumes "d path = None"
  shows "load_config L readErr d path = Inr (cl_default L)"
  using assms by (simp add: load_config_def)

end
