(* ===== verification/Service_Install.thy ===== *)
theory Service_Install
  imports Go_Path
begin

text \<open>
  \<open>cmd/ectoclaw/internal/service/helpers.go\<close>: installing the gateway as a service of systemd or launchd. The
  state is the files and the commands that were run so far; which calls fail, and what commands print,
  are arguments. What the commands print for the user is left out.
\<close>

subsection \<open>State\<close>

record service_state =
  sv_files :: "string \<rightharpoonup> string"
  sv_commands :: "string list list"

text \<open>
  \<open>se_open p\<close> and \<open>se_remove p\<close> are the errors of opening a file for writing and of removing one that
  exists, \<open>se_writes\<close> how much of a file is written before writing fails, if it does, and \<open>se_run\<close> the output
  of a command and its error.
\<close>

record service_env =
  se_goos :: string
  se_executable :: "string + string"
  se_abs :: "string \<Rightarrow> string + string"
  se_home :: "string + string"
  se_path :: string
  se_open :: "string \<Rightarrow> string option"
  se_mkdir :: "string \<Rightarrow> string option"
  se_writes :: "(nat \<times> string) option"
  se_remove :: "string \<Rightarrow> string option"
  se_run :: "string list \<Rightarrow> string \<times> string option"

type_synonym service_result = "service_state \<times> string option"

definition service_name :: string where "service_name = ''ectoclaw''"

definition nl :: string where "nl = [CHR 0x0A]"

definition run_command :: "service_env \<Rightarrow> string list \<Rightarrow> service_state \<Rightarrow> service_state \<times> string \<times> string option" where
  "run_command E args s = (s\<lparr>sv_commands := sv_commands s @ [args]\<rparr>, se_run E args)"

text \<open>A command whose error is reported with its output.\<close>

definition checked_command :: "service_env \<Rightarrow> string \<Rightarrow> string list \<Rightarrow> service_state \<Rightarrow> service_result" where
  "checked_command E tool args s =
    (case run_command E (tool # args) s of
       (s', out, Some e) \<Rightarrow> (s', Some (tool @ '' '' @ join '' '' args @ '': '' @ e @ nl @ out))
     | (s', out, None) \<Rightarrow> (s', None))"

definition systemctl :: "service_env \<Rightarrow> string list \<Rightarrow> service_state \<Rightarrow> service_result" where
  "systemctl E = checked_command E ''systemctl''"

definition launchctl :: "service_env \<Rightarrow> string list \<Rightarrow> service_state \<Rightarrow> service_result" where
  "launchctl E = checked_command E ''launchctl''"

text \<open>\<open>template.Execute\<close> into a file that was just truncated.\<close>

definition write_text :: "service_env \<Rightarrow> string \<Rightarrow> string \<Rightarrow> service_state \<Rightarrow> service_result" where
  "write_text E path contents s =
    (case se_writes E of
       Some (n, e) \<Rightarrow> (s\<lparr>sv_files := (sv_files s)(path \<mapsto> take n contents)\<rparr>, Some e)
     | None \<Rightarrow> (s\<lparr>sv_files := (sv_files s)(path \<mapsto> contents)\<rparr>, None))"

definition truncate_file :: "string \<Rightarrow> service_state \<Rightarrow> service_state" where
  "truncate_file path s = s\<lparr>sv_files := (sv_files s)(path \<mapsto> [])\<rparr>"

text \<open>A file that does not exist is no error.\<close>

definition remove_if_there :: "service_env \<Rightarrow> string \<Rightarrow> string \<Rightarrow> service_state \<Rightarrow> service_result" where
  "remove_if_there E what path s =
    (case sv_files s path of
       None \<Rightarrow> (s, None)
     | Some _ \<Rightarrow>
         (case se_remove E path of
            Some e \<Rightarrow> (s, Some (what @ e))
          | None \<Rightarrow> (s\<lparr>sv_files := (sv_files s)(path := None)\<rparr>, None)))"

definition absolute_executable :: "service_env \<Rightarrow> string + string" where
  "absolute_executable E =
    (case se_executable E of
       Inl e \<Rightarrow> Inl (''resolve executable path: '' @ e)
     | Inr exe \<Rightarrow>
         (case se_abs E exe of Inl e \<Rightarrow> Inl (''resolve absolute path: '' @ e) | Inr p \<Rightarrow> Inr p))"

subsection \<open>systemd\<close>

definition systemd_unit :: "string \<Rightarrow> string \<Rightarrow> string \<Rightarrow> string" where
  "systemd_unit home path execPath =
    join nl
      [''[Unit]'', ''Description=EctoClaw personal AI assistant'', ''After=network.target'', [],
       ''[Service]'', ''Type=simple'', ''Environment=HOME='' @ home, ''Environment=PATH='' @ path,
       ''ExecStart='' @ execPath @ '' gateway'', ''Restart=on-failure'', ''RestartSec=5'', ''StandardOutput=journal'',
       ''StandardError=journal'', [], ''[Install]'', ''WantedBy=multi-user.target'', []]"

definition systemd_unit_path :: string where
  "systemd_unit_path = ''/etc/systemd/system/'' @ service_name @ ''.service''"

definition and_then :: "service_result \<Rightarrow> (service_state \<Rightarrow> service_result) \<Rightarrow> service_result" where
  "and_then r f = (case r of (s, Some e) \<Rightarrow> (s, Some e) | (s, None) \<Rightarrow> f s)"

definition install_systemd :: "service_env \<Rightarrow> service_state \<Rightarrow> service_result" where
  "install_systemd E s =
    (case absolute_executable E of
       Inl e \<Rightarrow> (s, Some e)
     | Inr execPath \<Rightarrow>
         (case se_open E systemd_unit_path of
            Some e \<Rightarrow> (s, Some (''write unit file (try sudo): '' @ e))
          | None \<Rightarrow>
              let s1 = truncate_file systemd_unit_path s in
              (case se_home E of
                 Inl e \<Rightarrow> (s1, Some (''resolve home dir: '' @ e))
               | Inr home \<Rightarrow>
                   and_then (write_text E systemd_unit_path (systemd_unit home (se_path E) execPath) s1)
                     (\<lambda>s2. and_then (systemctl E [''daemon-reload''] s2) (systemctl E [''enable'', service_name])))))"

definition uninstall_systemd :: "service_env \<Rightarrow> service_state \<Rightarrow> service_result" where
  "uninstall_systemd E s =
    (let s1 = fst (systemctl E [''stop'', service_name] s);
         s2 = fst (systemctl E [''disable'', service_name] s1)
     in case remove_if_there E ''remove unit file: '' systemd_unit_path s2 of
          (s3, Some e) \<Rightarrow> (s3, Some e)
        | (s3, None) \<Rightarrow> (fst (systemctl E [''daemon-reload''] s3), None))"

definition start_systemd :: "service_env \<Rightarrow> service_state \<Rightarrow> service_result" where
  "start_systemd E = systemctl E [''start'', service_name]"

definition stop_systemd :: "service_env \<Rightarrow> service_state \<Rightarrow> service_result" where
  "stop_systemd E s =
    (case run_command E [''systemctl'', ''stop'', service_name] s of
       (s', out, Some e) \<Rightarrow>
         if contains ''not loaded'' out then (s', None)
         else (s', Some (''systemctl stop '' @ service_name @ '': '' @ e @ nl @ out))
     | (s', out, None) \<Rightarrow> (s', None))"

definition status_systemd :: "service_env \<Rightarrow> service_state \<Rightarrow> service_result" where
  "status_systemd E s = (fst (run_command E [''systemctl'', ''status'', service_name] s), None)"

subsection \<open>launchd\<close>

definition launchd_label :: string where "launchd_label = ''io.ectoclaw.'' @ service_name"

definition launchd_plist :: "string \<Rightarrow> string \<Rightarrow> string \<Rightarrow> string" where
  "launchd_plist label execPath logDir =
    join nl
      [''<?xml version=\"1.0\" encoding=\"UTF-8\"?>'',
       ''<!DOCTYPE plist PUBLIC \"-//Apple//DTD PLIST 1.0//EN\"'', ''  \"http://www.apple.com/DTDs/PropertyList-1.0.dtd\">'',
       ''<plist version=\"1.0\">'', ''<dict>'', ''  <key>Label</key>'', ''  <string>'' @ label @ ''</string>'',
       ''  <key>ProgramArguments</key>'', ''  <array>'', ''    <string>'' @ execPath @ ''</string>'', ''    <string>gateway</string>'',
       ''  </array>'', ''  <key>RunAtLoad</key>'', ''  <true/>'', ''  <key>KeepAlive</key>'', ''  <true/>'',
       ''  <key>StandardOutPath</key>'', ''  <string>'' @ logDir @ ''/ectoclaw.log</string>'',
       ''  <key>StandardErrorPath</key>'', ''  <string>'' @ logDir @ ''/ectoclaw.err</string>'', ''</dict>'', ''</plist>'', []]"

definition launchd_plist_path :: "service_env \<Rightarrow> string + string" where
  "launchd_plist_path E =
    (case se_home E of
       Inl e \<Rightarrow> Inl e
     | Inr home \<Rightarrow> Inr (path_join [home, ''Library'', ''LaunchAgents'', launchd_label @ ''.plist'']))"

definition install_launchd :: "service_env \<Rightarrow> service_state \<Rightarrow> service_result" where
  "install_launchd E s =
    (case absolute_executable E of
       Inl e \<Rightarrow> (s, Some e)
     | Inr execPath \<Rightarrow>
         (case (se_home E, launchd_plist_path E) of
            (Inr home, Inr plistPath) \<Rightarrow>
              (case se_mkdir E (dir_name plistPath) of
                 Some e \<Rightarrow> (s, Some e)
               | None \<Rightarrow>
                   (case se_open E plistPath of
                      Some e \<Rightarrow> (s, Some (''write plist: '' @ e))
                    | None \<Rightarrow>
                        write_text E plistPath
                          (launchd_plist launchd_label execPath (path_join [home, ''Library'', ''Logs'']))
                          (truncate_file plistPath s)))
          | (Inl e, _) \<Rightarrow> (s, Some e)
          | (_, Inl e) \<Rightarrow> (s, Some e)))"

definition with_plist :: "service_env \<Rightarrow> (string \<Rightarrow> service_state \<Rightarrow> service_result) \<Rightarrow> service_state \<Rightarrow> service_result" where
  "with_plist E f s = (case launchd_plist_path E of Inl e \<Rightarrow> (s, Some e) | Inr p \<Rightarrow> f p s)"

definition uninstall_launchd :: "service_env \<Rightarrow> service_state \<Rightarrow> service_result" where
  "uninstall_launchd E = with_plist E (\<lambda>plistPath s.
    remove_if_there E ''remove plist: '' plistPath (fst (launchctl E [''unload'', plistPath] s)))"

definition start_launchd :: "service_env \<Rightarrow> service_state \<Rightarrow> service_result" where
  "start_launchd E = with_plist E (\<lambda>plistPath. launchctl E [''load'', plistPath])"

definition stop_launchd :: "service_env \<Rightarrow> service_state \<Rightarrow> service_result" where
  "stop_launchd E = with_plist E (\<lambda>plistPath. launchctl E [''unload'', plistPath])"

definition status_launchd :: "service_env \<Rightarrow> service_state \<Rightarrow> service_result" where
  "status_launchd E s = (fst (run_command E [''launchctl'', ''list'', launchd_label] s), None)"

subsection \<open>Dispatch\<close>

definition on_platform ::
  "service_env \<Rightarrow> (service_state \<Rightarrow> service_result) \<Rightarrow> (service_state \<Rightarrow> service_result) \<Rightarrow> service_state \<Rightarrow> service_result" where
  "on_platform E linux darwin s =
    (if se_goos E = ''linux'' then linux s
     else if se_goos E = ''darwin'' then darwin s
     else (s, Some (''service management is not supported on '' @ se_goos E)))"

definition service_install where "service_install E = on_platform E (install_systemd E) (install_launchd E)"
definition service_uninstall where "service_uninstall E = on_platform E (uninstall_systemd E) (uninstall_launchd E)"
definition service_start where "service_start E = on_platform E (start_systemd E) (start_launchd E)"
definition service_stop where "service_stop E = on_platform E (stop_systemd E) (stop_launchd E)"
definition service_status where "service_status E = on_platform E (status_systemd E) (status_launchd E)"

subsection \<open>What the commands change\<close>

text \<open>The one file of the service, where it can be told.\<close>

definition service_file :: "service_env \<Rightarrow> string option" where
  "service_file E =
    (if se_goos E = ''linux'' then Some systemd_unit_path
     else if se_goos E = ''darwin'' then (case launchd_plist_path E of Inl _ \<Rightarrow> None | Inr p \<Rightarrow> Some p)
     else None)"

lemma checked_command_files: "sv_files (fst (checked_command E tool args s)) = sv_files s"
  by (simp add: checked_command_def run_command_def split: prod.splits option.splits)

lemma run_command_files: "sv_files (fst (run_command E args s)) = sv_files s"
  by (simp add: run_command_def)

lemma and_then_files:
  assumes "\<And>s. sv_files (fst (f s)) = sv_files s"
  shows "sv_files (fst (and_then r f)) = sv_files (fst r)"
  using assms by (simp add: and_then_def split: prod.splits option.splits)

lemma systemctl_files: "sv_files (fst (systemctl E args s)) = sv_files s"
  by (simp add: systemctl_def checked_command_files)

lemma launchctl_files: "sv_files (fst (launchctl E args s)) = sv_files s"
  by (simp add: launchctl_def checked_command_files)

lemma remove_if_there_files:
  assumes "remove_if_there E what path s = (s', err)"
  shows "if err = None then sv_files s' = (sv_files s)(path := None) else s' = s"
  using assms by (auto simp: remove_if_there_def fun_upd_idem split: option.splits)

lemma write_text_other: "p \<noteq> path \<Longrightarrow> sv_files (fst (write_text E path contents s)) p = sv_files s p"
  by (simp add: write_text_def split: option.splits prod.splits)

lemma install_systemd_other: "p \<noteq> systemd_unit_path \<Longrightarrow> sv_files (fst (install_systemd E s)) p = sv_files s p"
  by (simp add: install_systemd_def Let_def and_then_files systemctl_files write_text_other truncate_file_def
      split: sum.splits option.splits)

lemma install_launchd_other:
  "launchd_plist_path E = Inr q \<Longrightarrow> p \<noteq> q \<Longrightarrow> sv_files (fst (install_launchd E s)) p = sv_files s p"
  by (simp add: install_launchd_def Let_def write_text_other truncate_file_def split: sum.splits option.splits)

text \<open>No command touches another file than that of the service, and none at all on other systems.\<close>

lemma service_touches_own_file:
  assumes "service_file E \<noteq> Some p"
  shows "sv_files (fst (service_install E s)) p = sv_files s p"
    and "sv_files (fst (service_uninstall E s)) p = sv_files s p"
proof -
  show "sv_files (fst (service_install E s)) p = sv_files s p"
  proof (cases "se_goos E = ''linux''")
    case True
    with assms show ?thesis by (simp add: service_install_def on_platform_def service_file_def install_systemd_other)
  next
    case False
    then show ?thesis
    proof (cases "se_goos E = ''darwin''")
      case True
      show ?thesis
      proof (cases "launchd_plist_path E")
        case (Inl e)
        then show ?thesis using True
          by (auto simp: service_install_def on_platform_def install_launchd_def launchd_plist_path_def split: sum.splits)
      next
        case (Inr q)
        with assms True show ?thesis
          by (simp add: service_install_def on_platform_def service_file_def install_launchd_other)
      qed
    qed (simp add: service_install_def on_platform_def)
  qed
  have rm: "sv_files (fst (remove_if_there E what q s1)) p = sv_files s1 p" if "p \<noteq> q" for what q s1
    using that by (simp add: remove_if_there_def split: option.splits)
  show "sv_files (fst (service_uninstall E s)) p = sv_files s p"
    using assms rm
    by (auto simp: service_uninstall_def on_platform_def service_file_def uninstall_systemd_def uninstall_launchd_def
        with_plist_def Let_def systemctl_files launchctl_files split: prod.splits option.splits sum.splits
        dest!: remove_if_there_files)
qed

text \<open>
  After a successful installation the file of the service holds the whole text, and after a successful
  removal it is gone, whatever the commands in between reported.
\<close>

lemma installed_unit:
  assumes "install_systemd E s = (s', None)"
  shows "\<exists>execPath home. absolute_executable E = Inr execPath \<and> se_home E = Inr home \<and>
    sv_files s' = (sv_files s)(systemd_unit_path \<mapsto> systemd_unit home (se_path E) execPath) \<and>
    sv_commands s' = sv_commands s @ [[''systemctl'', ''daemon-reload''], [''systemctl'', ''enable'', service_name]]"
  using assms
  by (auto simp: install_systemd_def Let_def and_then_def write_text_def truncate_file_def systemctl_def checked_command_def
      run_command_def split: sum.splits option.splits prod.splits)

lemma uninstalled_unit:
  assumes "uninstall_systemd E s = (s', None)"
  shows "sv_files s' = (sv_files s)(systemd_unit_path := None)"
proof -
  let ?s2 = "fst (systemctl E [''disable'', service_name] (fst (systemctl E [''stop'', service_name] s)))"
  obtain s3 where s3: "remove_if_there E ''remove unit file: '' systemd_unit_path ?s2 = (s3, None)"
      "s' = fst (systemctl E [''daemon-reload''] s3)"
    using assms by (auto simp: uninstall_systemd_def Let_def split: prod.splits option.splits)
  from remove_if_there_files [OF s3(1)] s3(2) show ?thesis by (simp add: systemctl_files)
qed

text \<open>
  The home directory is looked up only when the unit file is already open: without one, a service that
  was installed before is left with an empty unit.
\<close>

lemma failed_install_empties_unit:
  assumes "absolute_executable E = Inr execPath" "se_open E systemd_unit_path = None" "se_home E = Inl e"
  shows "\<exists>s' err. install_systemd E s = (s', Some err) \<and> sv_files s' systemd_unit_path = Some []"
  using assms by (simp add: install_systemd_def truncate_file_def)

end
