(* ===== verification/Agent_Cli.thy ===== *)
theory Agent_Cli
  imports Stores Providers Output
begin

text \<open>
  \<open>cmd/ectoclaw/internal/agent/helpers.go\<close>: talking to the agent from the terminal. The provider, the system
  prompt and what is typed are arguments; the sessions are those of the gateway.
\<close>

subsection \<open>One message\<close>

text \<open>\<open>ae_invoke n\<close> is the answer to the n-th request; \<open>ae_fails\<close> and \<open>ae_partial\<close> describe the n-th save.\<close>

record agent_env =
  ae_workspace :: string
  ae_model :: string
  ae_prompt :: "nat \<Rightarrow> string"
  ae_invoke :: "nat \<Rightarrow> invoke_request \<Rightarrow> string + invoke_result"
  ae_fails :: "nat \<Rightarrow> write_step \<Rightarrow> bool"
  ae_partial :: "nat \<Rightarrow> nat"
  ae_temp :: "nat \<Rightarrow> string"

text \<open>The sessions in memory, the disk, and the number of requests made.\<close>

record agent_state =
  ag_sessions :: sessions
  ag_disk :: disk
  ag_requests :: nat

definition agent_request :: "agent_env \<Rightarrow> string \<Rightarrow> string \<Rightarrow> agent_state \<Rightarrow> invoke_request" where
  "agent_request E sessionKey msg s =
    \<lparr>iq_LogKey = sessionKey, iq_SessionKey = sessionKey,
     iq_SessionID = (case sessions_get (ag_sessions s) sessionKey of None \<Rightarrow> [] | Some i \<Rightarrow> i),
     iq_SystemPrompt = ae_prompt E (ag_requests s), iq_UserMessage = msg, iq_WorkDir = ae_workspace E,
     iq_Model = ae_model E, iq_Stateless = False\<rparr>"

text \<open>\<open>None\<close> is the panic of storing into a nil map. A failed save goes unnoticed.\<close>

definition agent_invoke :: "agent_env \<Rightarrow> string \<Rightarrow> string \<Rightarrow> agent_state \<Rightarrow> ((string + string) \<times> agent_state) option" where
  "agent_invoke E sessionKey msg s =
    (let n = ag_requests s; s1 = s\<lparr>ag_requests := Suc n\<rparr> in
     case ae_invoke E n (agent_request E sessionKey msg s) of
       Inl e \<Rightarrow> Some (Inl e, s1)
     | Inr result \<Rightarrow>
         let answer = Inr (trim_space (fst (parse_output (ir_Text result)))) in
           if ir_SessionID result = [] then Some (answer, s1)
           else
             (case sessions_set sessionKey (ir_SessionID result) (ag_sessions s) of
                None \<Rightarrow> None
              | Some sess \<Rightarrow>
                  Some (answer, s1\<lparr>ag_sessions := sess,
                    ag_disk := last (fst (sessions_save (ae_fails E n) (ae_partial E n) (ag_disk s) (ae_temp E n) sess))\<rparr>)))"

subsection \<open>Conversations\<close>

text \<open>A line that is typed, or what reading one ends with.\<close>

datatype typed = TypedLine string | InputEnds | InputFails string

datatype shown = Answer string | ShownError string | ReadError string | Goodbye

text \<open>
  Both loops: with \<open>readline\<close>, where an interrupt ends the input as well, and without. Errors of reading
  and of the agent are shown, and the loop goes on.
\<close>

fun interactive_mode ::
  "agent_env \<Rightarrow> string \<Rightarrow> typed list \<Rightarrow> agent_state \<Rightarrow> (shown list \<times> agent_state) option" where
  "interactive_mode E key [] s = Some ([], s)"
| "interactive_mode E key (InputEnds # inputs) s = Some ([Goodbye], s)"
| "interactive_mode E key (InputFails e # inputs) s =
    map_option (\<lambda>(out, s'). (ReadError e # out, s')) (interactive_mode E key inputs s)"
| "interactive_mode E key (TypedLine line # inputs) s =
    (let msg = trim_space line in
     if msg = [] then interactive_mode E key inputs s
     else if msg = ''exit'' \<or> msg = ''quit'' then Some ([Goodbye], s)
     else
       (case agent_invoke E key msg s of
          None \<Rightarrow> None
        | Some (answer, s1) \<Rightarrow>
            map_option (\<lambda>(out, s'). ((case answer of Inl e \<Rightarrow> ShownError e | Inr t \<Rightarrow> Answer t) # out, s'))
              (interactive_mode E key inputs s1)))"

text \<open>
  \<open>agentCmd\<close>: sessions are loaded once, a load that fails is only logged; then one message is answered or a
  conversation is held.
\<close>

definition agent_cmd ::
  "agent_env \<Rightarrow> bool \<Rightarrow> string \<Rightarrow> string \<Rightarrow> string \<Rightarrow> typed list \<Rightarrow> disk \<Rightarrow> (shown list \<times> agent_state \<times> string option) option" where
  "agent_cmd E unreadable sessionsPath message key inputs d =
    (let s = \<lparr>ag_sessions = fst (sessions_load unreadable d (new_sessions sessionsPath)), ag_disk = d, ag_requests = 0\<rparr> in
     if message = [] then map_option (\<lambda>(out, s'). (out, s', None)) (interactive_mode E key inputs s)
     else
       map_option (\<lambda>(answer, s').
         case answer of Inl e \<Rightarrow> ([], s', Some (''error: '' @ e)) | Inr t \<Rightarrow> ([Answer t], s', None))
         (agent_invoke E key message s))"

subsection \<open>What conversations do to the sessions\<close>

text \<open>The file of the sessions is written to one path and nothing else but a temporary file changes.\<close>

lemma agent_invoke_sessions:
  assumes "agent_invoke E key msg s = Some (answer, s')" "ae_temp E (ag_requests s) \<noteq> ss_path (ag_sessions s)"
  shows "ss_path (ag_sessions s') = ss_path (ag_sessions s)"
    and "\<forall>k. k \<noteq> key \<longrightarrow> sessions_get (ag_sessions s') k = sessions_get (ag_sessions s) k"
    and "\<forall>p. p \<noteq> ss_path (ag_sessions s) \<longrightarrow> ag_disk s' p = ag_disk s p"
proof -
  have keep: "last (fst (sessions_save fails n d tmp sess)) p = d p" if "tmp \<noteq> ss_path sess" "p \<noteq> ss_path sess" for fails n d tmp sess p
  proof -
    obtain ds err where w: "sessions_save fails n d tmp sess = (ds, err)" by force
    from write_file_atomic_states(1) [OF w [unfolded sessions_save_def] that(1)] that(2) w show ?thesis
      by (simp split: if_splits)
  qed
  have set: "ss_path sess' = ss_path sess \<and> (\<forall>k. k \<noteq> key \<longrightarrow> sessions_get sess' k = sessions_get sess k)"
    if "sessions_set key i sess = Some sess'" for i sess sess'
    using that by (auto simp: sessions_set_def sessions_get_def split: option.splits)
  show "ss_path (ag_sessions s') = ss_path (ag_sessions s)"
    and "\<forall>k. k \<noteq> key \<longrightarrow> sessions_get (ag_sessions s') k = sessions_get (ag_sessions s) k"
    and "\<forall>p. p \<noteq> ss_path (ag_sessions s) \<longrightarrow> ag_disk s' p = ag_disk s p"
    using assms set keep
    by (auto simp: agent_invoke_def Let_def split: sum.splits if_splits option.splits)
qed

text \<open>A conversation continues its own session: the id of an answer is the one the next request carries.\<close>

lemma agent_continues_session:
  assumes "agent_invoke E key msg s = Some (Inr answer, s')"
    and "ae_invoke E (ag_requests s) (agent_request E key msg s) = Inr result" "ir_SessionID result \<noteq> []"
  shows "iq_SessionID (agent_request E key msg' s') = ir_SessionID result"
  using assms
  by (auto simp: agent_invoke_def agent_request_def sessions_set_def sessions_get_def Let_def split: option.splits)

text \<open>
  The command writes the sessions as it read them at its start, with its own on top. A session that a running
  gateway stored in the meantime is gone from the file.
\<close>

lemma agent_loses_sessions:
  assumes "ae_invoke E (ag_requests s) (agent_request E key msg s) = Inr result" "ir_SessionID result \<noteq> []"
    and "ss_data (ag_sessions s) = Some m" "fmlookup m other = None" "other \<noteq> key"
    and "\<forall>step. \<not> ae_fails E (ag_requests s) step" "ae_temp E (ag_requests s) \<noteq> ss_path (ag_sessions s)"
    and "ag_disk s (ae_temp E (ag_requests s)) = None"
  shows "\<exists>answer s'. agent_invoke E key msg s = Some (answer, s') \<and>
    sessions_get (fst (sessions_load False (ag_disk s') (new_sessions (ss_path (ag_sessions s))))) other = None"
proof -
  let ?n = "ag_requests s" and ?m = "fmupd key (ir_SessionID result) m" and ?p = "ss_path (ag_sessions s)"
  let ?sess = "(ag_sessions s)\<lparr>ss_data := Some ?m\<rparr>"
  have set: "sessions_set key (ir_SessionID result) (ag_sessions s) = Some ?sess"
    using assms(3) by (simp add: sessions_set_def)
  have disk: "last (fst (sessions_save (ae_fails E ?n) (ae_partial E ?n) (ag_disk s) (ae_temp E ?n) ?sess)) ?p =
      Some (marshal (sessions_json (Some ?m)))"
    using assms(6,7,8) by (simp add: sessions_save_def write_file_atomic_def Let_def)
  have "\<exists>answer s'. agent_invoke E key msg s = Some (answer, s') \<and> ag_disk s' ?p = Some (marshal (sessions_json (Some ?m)))"
    using assms(1,2) set disk by (simp add: agent_invoke_def Let_def)
  then obtain answer s' where s': "agent_invoke E key msg s = Some (answer, s')"
      "ag_disk s' ?p = Some (marshal (sessions_json (Some ?m)))" by blast
  have "sessions_load False (ag_disk s') (new_sessions ?p) = (\<lparr>ss_data = Some ?m, ss_path = ?p\<rparr>, None)"
    using s'(2) by (simp add: sessions_load_def new_sessions_def sessions_read_json)
  with s'(1) assms(4,5) show ?thesis by (auto simp: sessions_get_def)
qed

text \<open>A conversation ends at \<open>exit\<close>, \<open>quit\<close> or the end of the input, whatever follows.\<close>

lemma conversation_ends:
  assumes "interactive_mode E key (pre @ x # inputs) s = Some (out, s')"
    and "x = InputEnds \<or> (\<exists>line. x = TypedLine line \<and> trim_space line \<in> {''exit'', ''quit''})"
  shows "interactive_mode E key (pre @ [x]) s = Some (out, s')"
  using assms
proof (induction pre arbitrary: s out s')
  case Nil
  then show ?case by (auto simp: Let_def)
next
  case (Cons y pre)
  have step: "interactive_mode E key (pre @ [x]) s0 = interactive_mode E key (pre @ x # inputs) s0"
    if "interactive_mode E key (pre @ x # inputs) s0 \<noteq> None" for s0
  proof -
    from that obtain out1 s1 where "interactive_mode E key (pre @ x # inputs) s0 = Some (out1, s1)" by force
    with Cons.IH [OF this Cons.prems(2)] show ?thesis by simp
  qed
  show ?case
  proof (cases y)
    case (TypedLine line)
    show ?thesis
    proof (cases "trim_space line \<in> {[], ''exit'', ''quit''}")
      case True
      then show ?thesis using Cons.prems(1) TypedLine step by (auto simp: Let_def)
    next
      case False
      obtain answer s1 where inv: "agent_invoke E key (trim_space line) s = Some (answer, s1)"
        using Cons.prems(1) TypedLine False by (cases "agent_invoke E key (trim_space line) s") (auto simp: Let_def)
      then have "interactive_mode E key (pre @ x # inputs) s1 \<noteq> None"
        using Cons.prems(1) TypedLine False by (auto simp: Let_def)
      from step [OF this] inv Cons.prems(1) TypedLine False show ?thesis by (simp add: Let_def)
    qed
  next
    case InputEnds
    with Cons.prems(1) show ?thesis by simp
  next
    case (InputFails e)
    with Cons.prems(1) have "interactive_mode E key (pre @ x # inputs) s \<noteq> None" by auto
    from step [OF this] Cons.prems(1) InputFails show ?thesis by simp
  qed
qed

end
