(* ===== verification/Markdown.thy ===== *)
theory Markdown
  imports Go_Regex Go_Numbers
begin

text \<open>
  What the adapters share of the Markdown of answers: the expressions for code and links, and the
  placeholders that keep code out of the way of the other replacements.
\<close>

subsection \<open>The expressions\<close>

text \<open>Three backquotes, a word, at most one newline, and everything up to three backquotes.\<close>

definition fence :: string where "fence = [CHR 0x60, CHR 0x60, CHR 0x60]"

definition reCodeBlock :: "string \<Rightarrow> (string \<times> string) option" where
  "reCodeBlock s =
    (if has_prefix fence s
     then until (\<lambda>_. True) fence (trim_prefix [newline] (dropWhile is_word (drop 3 s)))
     else None)"

text \<open>Text in brackets and an address in parentheses.\<close>

definition reLink :: "string \<Rightarrow> ((string \<times> string) \<times> string) option" where
  "reLink s =
    (case s of
       [] \<Rightarrow> None
     | c # t \<Rightarrow>
         if c \<noteq> CHR ''['' then None
         else
           let label = takeWhile (\<lambda>c. c \<noteq> CHR '']'') t; after = drop (length label) t in
             if label = [] \<or> \<not> has_prefix ''](''  after then None
             else
               let addr = takeWhile (\<lambda>c. c \<noteq> CHR '')'') (drop 2 after); rest = drop (length addr) (drop 2 after) in
                 if addr = [] \<or> rest = [] then None else Some ((label, addr), tl rest))"

definition reInlineCode :: "string \<Rightarrow> (string \<times> string) option" where
  "reInlineCode = delimited [CHR 0x60] (\<lambda>c. c \<noteq> CHR 0x60)"

lemma re_link_parts:
  assumes "reLink s = Some ((label, addr), rest)"
  shows "s = ''['' @ label @ ''](''  @ addr @ '')'' @ rest"
proof -
  from assms obtain t after where s: "s = CHR ''['' # t" and l: "label = takeWhile (\<lambda>c. c \<noteq> CHR '']'') t"
      and a: "after = drop (length label) t" "has_prefix ''](''  after"
      and d: "addr = takeWhile (\<lambda>c. c \<noteq> CHR '')'') (drop 2 after)"
      and r: "drop (length addr) (drop 2 after) \<noteq> []" "rest = tl (drop (length addr) (drop 2 after))"
    by (auto simp: reLink_def Let_def split: list.splits if_splits)
  have t: "t = label @ after" using l a(1) by (metis append_take_drop_id takeWhile_eq_take)
  have after: "after = ''](''  @ drop 2 after" using has_prefixE [OF a(2)] by (simp add: numeral_2_eq_2)
  define u where "u = drop 2 after"
  have u: "drop (length addr) u = dropWhile (\<lambda>c. c \<noteq> CHR '')'') u" "u = addr @ drop (length addr) u"
    using d unfolding u_def [symmetric] by (simp_all add: dropWhile_eq_drop) (metis append_take_drop_id takeWhile_eq_take)
  then have "hd (drop (length addr) u) = CHR '')''"
    using r(1) hd_dropWhile [of "\<lambda>c. c \<noteq> CHR '')''" u] unfolding u_def [symmetric] by simp
  then have "u = addr @ '')'' @ rest"
    using r u(2) unfolding u_def [symmetric] by (metis append_Cons append_Nil list.collapse)
  with s t after show ?thesis by (simp add: u_def)
qed

subsection \<open>Code behind placeholders\<close>

definition placeholder :: "string \<Rightarrow> nat \<Rightarrow> string" where
  "placeholder kind i = [CHR 0x00] @ kind @ format_nat i @ [CHR 0x00]"

fun park :: "string \<Rightarrow> nat \<Rightarrow> (char + string) list \<Rightarrow> string" where
  "park kind i [] = []"
| "park kind i (Inl c # ps) = c # park kind i ps"
| "park kind i (Inr g # ps) = placeholder kind i @ park kind (Suc i) ps"

definition extract_code_blocks :: "string \<Rightarrow> string \<times> string list" where
  "extract_code_blocks s = (park ''CB'' 0 (pieces reCodeBlock s), match_groups reCodeBlock s)"

definition extract_inline_codes :: "string \<Rightarrow> string \<times> string list" where
  "extract_inline_codes s = (park ''IC'' 0 (pieces reInlineCode s), match_groups reInlineCode s)"

fun unpark :: "string \<Rightarrow> string \<Rightarrow> string \<Rightarrow> nat \<Rightarrow> string list \<Rightarrow> string \<Rightarrow> string" where
  "unpark kind op cl i [] s = s"
| "unpark kind op cl i (code # codes) s =
    unpark kind op cl (Suc i) codes (replace_all (placeholder kind i) (op @ code @ cl) s)"

subsection \<open>Text without code\<close>

lemma no_code_pieces:
  assumes "\<And>c t. c \<in> set s \<Longrightarrow> m (c # t) = None"
  shows "pieces m s = map Inl s"
  using assms by (induction s) auto

lemma park_no_code: "park kind i (map Inl s) = s"
  by (induction s) auto

lemma match_groups_none: "pieces m s = map Inl s \<Longrightarrow> match_groups m s = []"
  by (auto simp: match_groups_def)

end
