(* ===== verification/Telegram_Format.thy ===== *)
theory Telegram_Format
  imports Markdown Go_Runes
begin

text \<open>
  The formatter of \<open>pkg/channels/telegram/telegram.go\<close>: Markdown becomes the HTML of the Telegram
  API by a fixed sequence of regular-expression replacements around the escaping of the text, with
  code parked behind placeholders. The delimiters of the expressions are ASCII, so they are matched
  on bytes.
\<close>

subsection \<open>The expressions\<close>

definition reBoldStar :: "string \<Rightarrow> (string \<times> string) option" where
  "reBoldStar = delimited ''**'' (\<lambda>c. c \<noteq> newline)"

definition reBoldUnder :: "string \<Rightarrow> (string \<times> string) option" where
  "reBoldUnder = delimited ''__'' (\<lambda>c. c \<noteq> newline)"

definition reItalic :: "string \<Rightarrow> (string \<times> string) option" where
  "reItalic = delimited ''_'' (\<lambda>c. c \<noteq> CHR ''_'')"

definition reStrike :: "string \<Rightarrow> (string \<times> string) option" where
  "reStrike = delimited ''~~'' (\<lambda>c. c \<noteq> newline)"

text \<open>
  The expressions that start with \<open>^\<close> and end with \<open>$\<close>; without the flag \<open>m\<close> they match at the
  start and the end of the whole text only. White space is taken greedily; where it leaves nothing
  for \<open>.+\<close> one byte of it is given back.
\<close>

definition heading :: "string \<Rightarrow> string" where
  "heading s =
    (let marks = length (takeWhile (\<lambda>c. c = CHR ''#'') s);
         white = takeWhile is_white (drop marks s);
         body = drop (marks + length white) s
     in if marks = 0 \<or> marks > 6 \<or> white = [] then s
        else if body \<noteq> [] then (if newline \<in> set body then s else body)
        else if length white \<ge> 2 \<and> last white \<noteq> newline then [last white] else s)"

definition blockquote :: "string \<Rightarrow> string" where
  "blockquote s =
    (if has_prefix ''>'' s then
       (let body = dropWhile is_white (tl s) in if newline \<in> set body then s else body)
     else s)"

definition bullet :: string where "bullet = [CHR 0xE2, CHR 0x80, CHR 0xA2, CHR 0x20]"

definition list_item :: "string \<Rightarrow> string" where
  "list_item s =
    (case s of
       [] \<Rightarrow> []
     | c # t \<Rightarrow>
         if (c = CHR ''-'' \<or> c = CHR ''*'') \<and> takeWhile is_white t \<noteq> []
         then bullet @ dropWhile is_white t else s)"

subsection \<open>The conversion\<close>

definition escape_html :: "string \<Rightarrow> string" where
  "escape_html s = replace_all ''>'' ''&gt;'' (replace_all ''<'' ''&lt;'' (replace_all ''&'' ''&amp;'' s))"

definition link_html :: "string \<times> string \<Rightarrow> string" where
  "link_html = (\<lambda>(label, addr). ''<a href='' @ [CHR 0x22] @ addr @ [CHR 0x22] @ ''>'' @ label @ ''</a>'')"

definition style :: "string \<Rightarrow> string" where
  "style s =
    (let s1 = replace_matches reLink link_html s;
         s2 = replace_matches reBoldStar (\<lambda>g. ''<b>'' @ g @ ''</b>'') s1;
         s3 = replace_matches reBoldUnder (\<lambda>g. ''<b>'' @ g @ ''</b>'') s2;
         s4 = replace_matches reItalic (\<lambda>g. ''<i>'' @ g @ ''</i>'') s3;
         s5 = replace_matches reStrike (\<lambda>g. ''<s>'' @ g @ ''</s>'') s4
     in list_item s5)"

definition markdown_to_telegram_html :: "string \<Rightarrow> string" where
  "markdown_to_telegram_html s =
    (if s = [] then []
     else
       let (s1, blocks) = extract_code_blocks s;
           (s2, codes) = extract_inline_codes s1;
           s3 = style (escape_html (blockquote (heading s2)));
           s4 = unpark ''IC'' ''<code>'' ''</code>'' 0 (map escape_html codes) s3
       in unpark ''CB'' ''<pre><code>'' ''</code></pre>'' 0 (map escape_html blocks) s4)"


subsection \<open>Tags\<close>

text \<open>
  Texts in which every angle bracket belongs to a tag the formatter writes. A byte is plain when no
  tag contains it and it is no angle bracket, so that a tag never spans it.
\<close>

definition tags :: "string list" where
  "tags = [''<b>'', ''</b>'', ''<i>'', ''</i>'', ''<s>'', ''</s>'', ''<code>'', ''</code>'',
    ''<pre>'', ''</pre>'', ''<a href='' @ [CHR 0x22], [CHR 0x22] @ ''>'', ''</a>'']"

inductive tagged :: "string \<Rightarrow> bool" where
  tagged_Nil [simp, intro]: "tagged []"
| tagged_char: "c \<noteq> CHR ''<'' \<Longrightarrow> c \<noteq> CHR ''>'' \<Longrightarrow> tagged s \<Longrightarrow> tagged (c # s)"
| tagged_tag: "t \<in> set tags \<Longrightarrow> tagged s \<Longrightarrow> tagged (t @ s)"

definition plain :: "char \<Rightarrow> bool" where
  "plain c \<longleftrightarrow> list_all (\<lambda>t. c \<notin> set t) tags"

lemma plain_tag: "plain c \<Longrightarrow> t \<in> set tags \<Longrightarrow> c \<notin> set t"
  by (simp add: plain_def list_all_iff)

lemma plain_brackets: "plain c \<Longrightarrow> c \<noteq> CHR ''<'' \<and> c \<noteq> CHR ''>''"
  using plain_tag [of c "''<b>''"] by (auto simp: tags_def)

lemma tagged_append: "tagged s \<Longrightarrow> tagged t \<Longrightarrow> tagged (s @ t)"
  by (induction s rule: tagged.induct) (auto intro: tagged_char tagged_tag)

lemma tagged_plain: "list_all (\<lambda>c. c \<noteq> CHR ''<'' \<and> c \<noteq> CHR ''>'') s \<Longrightarrow> tagged s"
  by (induction s) (auto intro: tagged_char)

lemma tagged_of_tag: "t \<in> set tags \<Longrightarrow> tagged t"
  using tagged_tag [of t "[]"] by simp

text \<open>A plain byte cuts a tagged text into two.\<close>

lemma tagged_cut: "tagged s \<Longrightarrow> plain c \<Longrightarrow> s = a @ c # b \<Longrightarrow> tagged a \<and> tagged b"
proof (induction s arbitrary: a b rule: tagged.induct)
  case (tagged_char d s)
  show ?case
  proof (cases a)
    case Nil
    with tagged_char show ?thesis by simp
  next
    case (Cons x a')
    with tagged_char show ?thesis by (auto intro: tagged.tagged_char)
  qed
next
  case (tagged_tag t s)
  have "c \<notin> set t" using plain_tag tagged_tag by blast
  with tagged_tag.prems(2) obtain a' where "a = t @ a'" "s = a' @ c # b"
    by (auto simp: append_eq_append_conv2 append_eq_Cons_conv Cons_eq_append_conv)
  with tagged_tag show ?case by (auto intro: tagged.tagged_tag)
qed simp

lemma tagged_cut_all:
  assumes "tagged (a @ w @ b)" "list_all plain w" "w \<noteq> []"
  shows "tagged a \<and> tagged b"
  using assms
proof (induction w arbitrary: a rule: list.induct)
  case (Cons c w)
  then have ab: "tagged a" "tagged (w @ b)" using tagged_cut [OF Cons.prems(1), of c a "w @ b"] by auto
  then show ?case using Cons.IH [of "[]"] Cons.prems by (cases "w = []") auto
qed simp


text \<open>A replacement of matches that start at plain bytes keeps a text tagged.\<close>

lemma replace_matches_skip:
  assumes "\<And>c s. m (c # s) \<noteq> None \<Longrightarrow> plain c" "\<And>c. c \<in> set t \<Longrightarrow> \<not> plain c"
  shows "replace_matches m f (t @ s) = t @ replace_matches m f s"
  using assms(2)
proof (induction t)
  case (Cons c t)
  then have "m (c # t @ s) = None" using assms(1) by fastforce
  with Cons show ?case by (simp add: replace_matches_simps(2))
qed simp

lemma tagged_replace_matches:
  assumes start: "\<And>c s. m (c # s) \<noteq> None \<Longrightarrow> plain c"
    and hit: "\<And>s g rest. m s = Some (g, rest) \<Longrightarrow> tagged s \<Longrightarrow> length rest < length s \<and> tagged (f g) \<and> tagged rest"
    and s: "tagged s"
  shows "tagged (replace_matches m f s)"
  using s
proof (induction s rule: length_induct)
  case (1 s)
  from "1.prems" show ?case
  proof cases
    case tagged_Nil
    then show ?thesis by (simp add: replace_matches_simps)
  next
    case (tagged_char c t)
    show ?thesis
    proof (cases "m (c # t)")
      case None
      then show ?thesis using 1 tagged_char by (auto simp: replace_matches_simps intro: tagged.tagged_char)
    next
      case (Some p)
      then obtain g rest where p: "m (c # t) = Some (g, rest)" by (cases p) simp
      then have "length rest < length (c # t) \<and> tagged (f g) \<and> tagged rest"
        using hit [OF p] "1.prems" tagged_char(1) by simp
      then show ?thesis
        using replace_matches_simps(3) [of m c t g rest f] p 1 tagged_char(1) by (auto intro: tagged_append)
    qed
  next
    case (tagged_tag t u)
    have "\<not> plain c" if "c \<in> set t" for c using plain_tag that tagged_tag(2) by blast
    then have "replace_matches m f s = t @ replace_matches m f u"
      using replace_matches_skip [of m t f u, OF start] tagged_tag(1) by simp
    moreover have "t \<noteq> []" using tagged_tag(2) by (auto simp: tags_def)
    ultimately show ?thesis using 1 tagged_tag by (auto intro: tagged.tagged_tag)
  qed
qed

lemma tagged_delimited:
  assumes "list_all plain d" "d \<noteq> []" "op \<in> set tags" "cl \<in> set tags" "tagged s"
  shows "tagged (replace_matches (delimited d P) (\<lambda>g. op @ g @ cl) s)"
proof (rule tagged_replace_matches [OF _ _ assms(5)])
  show "plain c" if "delimited d P (c # s) \<noteq> None" for c s
    using that assms(1,2) by (cases d) (auto simp: delimited_def split: if_splits)
  fix s g rest
  assume m: "delimited d P s = Some (g, rest)" and s: "tagged s"
  have eq: "s = d @ g @ d @ rest" by (rule delimited_parts [OF m])
  then have "tagged (g @ d @ rest)" using tagged_cut_all [of "[]" d] s assms(1,2) by simp
  then have "tagged g \<and> tagged rest" using tagged_cut_all assms(1,2) by blast
  then show "length rest < length s \<and> tagged (op @ g @ cl) \<and> tagged rest"
    using eq assms(2) tagged_append [OF tagged_of_tag [OF assms(3)] tagged_append [OF _ tagged_of_tag [OF assms(4)]]]
    by simp
qed

lemma tagged_replace_all:
  assumes "list_all plain w" "w \<noteq> []" "tagged r" "tagged s"
  shows "tagged (replace_all w r s)"
proof -
  define m where "m = (\<lambda>s. if has_prefix w s then Some ((), drop (length w) s) else None)"
  have "replace_all w r s = replace_matches m (\<lambda>_. r) s"
    unfolding m_def using assms(2)
    by (induction w r s rule: replace_all.induct) (auto simp: replace_matches_def)
  moreover have "tagged (replace_matches m (\<lambda>_. r) s)"
  proof (rule tagged_replace_matches [OF _ _ assms(4)])
    show "plain c" if "m (c # s) \<noteq> None" for c s
      using that assms(1,2) by (cases w) (auto simp: m_def split: if_splits)
    fix s g rest
    assume m: "m s = Some (g, rest)" and s: "tagged s"
    then have "s = [] @ w @ rest" by (auto simp: m_def dest: has_prefixE split: if_splits)
    then show "length rest < length s \<and> tagged r \<and> tagged rest"
      using tagged_cut_all [of "[]" w rest] assms(1-3) s by auto
  qed
  ultimately show ?thesis by simp
qed

lemma tagged_link:
  assumes "tagged s"
  shows "tagged (replace_matches reLink link_html s)"
proof (rule tagged_replace_matches [OF _ _ assms])
  have p: "plain CHR ''[''" "plain CHR '']''" "plain CHR ''(''" "plain CHR '')''"
    by (simp_all add: plain_def tags_def)
  show "plain c" if "reLink (c # s) \<noteq> None" for c s
    using that p by (auto simp: reLink_def split: if_splits)
  fix s and g :: "string \<times> string" and rest
  assume m: "reLink s = Some (g, rest)" and s: "tagged s"
  obtain label addr where g: "g = (label, addr)" by force
  have eq: "s = ''['' @ label @ ''](''  @ addr @ '')'' @ rest" using re_link_parts m g by simp
  then have "tagged (label @ ''](''  @ addr @ '')'' @ rest)" using tagged_cut_all [of "[]" "''[''"] s p by simp
  then have l: "tagged label" "tagged (addr @ '')'' @ rest)" using tagged_cut_all [of label "''](''"] p by auto
  then have "tagged addr" "tagged rest" using tagged_cut_all [of addr "'')''" rest] p by auto
  with l eq g show "length rest < length s \<and> tagged (link_html g) \<and> tagged rest"
    using tagged_of_tag [of "''</a>''"] tagged_tag [of "''<a href='' @ [CHR 0x22]" "addr @ [CHR 0x22] @ ''>'' @ label @ ''</a>''"]
      tagged_tag [of "[CHR 0x22] @ ''>''" "label @ ''</a>''"]
    by (auto simp: link_html_def tags_def intro!: tagged_append)
qed

lemma tagged_drop_white: "tagged s \<Longrightarrow> tagged (dropWhile is_white s)"
proof (induction s)
  case (Cons c s)
  show ?case
  proof (cases "is_white c")
    case True
    with Cons.prems have "tagged s" by cases (auto simp: tags_def is_white_def)
    with Cons True show ?thesis by simp
  qed (use Cons in simp)
qed simp

lemma tagged_list_item: "tagged s \<Longrightarrow> tagged (list_item s)"
proof -
  assume s: "tagged s"
  have p: "plain CHR ''-''" "plain CHR ''*''" by (simp_all add: plain_def tags_def)
  have b: "tagged bullet" by (rule tagged_plain) (simp add: bullet_def)
  show ?thesis
  proof (cases s)
    case (Cons c t)
    have "tagged t" if "c = CHR ''-'' \<or> c = CHR ''*''"
      using tagged_cut [OF s, of c "[]" t] p that Cons by auto
    then show ?thesis
      using s b Cons by (auto simp: list_item_def intro!: tagged_append tagged_drop_white)
  qed (simp add: list_item_def)
qed

lemma tagged_style: "tagged s \<Longrightarrow> tagged (style s)"
proof -
  have p: "plain CHR ''*''" "plain CHR ''_''" "plain CHR ''~''" by (simp_all add: plain_def tags_def)
  assume "tagged s"
  then show ?thesis
    unfolding style_def Let_def reBoldStar_def reBoldUnder_def reItalic_def reStrike_def
    by (intro tagged_list_item tagged_delimited tagged_link) (simp_all add: p, simp_all add: tags_def)
qed

lemma escape_html_free: "c \<in> set (escape_html s) \<Longrightarrow> c \<noteq> CHR ''<'' \<and> c \<noteq> CHR ''>''"
  by (auto simp: escape_html_def replace_all_single split: if_splits)

lemma tagged_escape: "tagged (escape_html s)"
  by (rule tagged_plain) (auto simp: list_all_iff dest: escape_html_free)

lemma plain_placeholder:
  assumes "list_all plain kind"
  shows "list_all plain (placeholder kind i)"
proof -
  have "plain c" if "is_digit c" for c using that by (auto simp: plain_def tags_def is_digit_def)
  then have "list_all plain (format_nat i)" using format_nat_digits [of i] by (auto simp: list_all_iff)
  moreover have "plain CHR 0x00" by (simp add: plain_def tags_def)
  ultimately show ?thesis using assms by (simp add: placeholder_def)
qed

lemma tagged_unpark:
  assumes "list_all plain kind" "tagged op" "tagged cl" "\<And>c. c \<in> set codes \<Longrightarrow> tagged c" "tagged s"
  shows "tagged (unpark kind op cl i codes s)"
  using assms
proof (induction codes arbitrary: i s)
  case (Cons c codes)
  have "placeholder kind i \<noteq> []" by (simp add: placeholder_def)
  then have "tagged (replace_all (placeholder kind i) (op @ c @ cl) s)"
    using Cons.prems plain_placeholder by (intro tagged_replace_all) (auto intro!: tagged_append)
  with Cons show ?case by simp
qed simp

text \<open>
  C33: no input smuggles a tag into the message: every angle bracket of the HTML belongs to one of the
  tags the formatter writes, whatever the agent wrote, code and placeholders included.
\<close>

theorem markdown_html_tags: "tagged (markdown_to_telegram_html s)"
proof -
  have k: "list_all plain ''IC''" "list_all plain ''CB''" by (simp_all add: plain_def tags_def)
  have c: "tagged ''<code>''" "tagged ''</code>''" "tagged ''<pre><code>''" "tagged ''</code></pre>''"
    using tagged_of_tag [of "''<code>''"] tagged_of_tag [of "''</code>''"]
      tagged_tag [of "''<pre>''" "''<code>''"] tagged_tag [of "''</code>''" "''</pre>''"] tagged_of_tag [of "''</pre>''"]
    by (simp_all add: tags_def)
  show ?thesis
    unfolding markdown_to_telegram_html_def Let_def
    by (auto split: prod.splits intro!: tagged_unpark k c tagged_style tagged_escape)
qed


subsection \<open>Text without markup and code\<close>

definition escape_char :: "char \<Rightarrow> string" where
  "escape_char c =
    (if c = CHR ''&'' then ''&amp;'' else if c = CHR ''<'' then ''&lt;'' else if c = CHR ''>'' then ''&gt;'' else [c])"

lemma escape_html_chars: "escape_html s = concat (map escape_char s)"
proof -
  have "concat (map (\<lambda>x. if x = CHR ''>'' then ''&gt;'' else [x])
          (concat (map (\<lambda>x. if x = CHR ''<'' then ''&lt;'' else [x]) (if c = CHR ''&'' then ''&amp;'' else [c])))) =
        escape_char c" for c
    by (simp add: escape_char_def)
  then show ?thesis
    unfolding escape_html_def replace_all_single by (induction s) simp_all
qed

definition ordinary :: "char \<Rightarrow> bool" where
  "ordinary c \<longleftrightarrow> c \<notin> {CHR 0x60, CHR ''*'', CHR ''_'', CHR ''~'', CHR ''['' }"

lemma ordinary_no_match:
  assumes "ordinary c"
  shows "reCodeBlock (c # t) = None" "reInlineCode (c # t) = None" "reLink (c # t) = None"
    "reBoldStar (c # t) = None" "reBoldUnder (c # t) = None" "reItalic (c # t) = None" "reStrike (c # t) = None"
  using assms
  by (auto simp: ordinary_def reCodeBlock_def fence_def reInlineCode_def reLink_def reBoldStar_def
      reBoldUnder_def reItalic_def reStrike_def delimited_def)

lemma extract_none:
  assumes "\<forall>c \<in> set s. ordinary c"
  shows "extract_code_blocks s = (s, [])" "extract_inline_codes s = (s, [])"
proof -
  have "pieces reCodeBlock s = map Inl s" "pieces reInlineCode s = map Inl s"
    by (rule no_code_pieces, use assms ordinary_no_match in blast)+
  then show "extract_code_blocks s = (s, [])" "extract_inline_codes s = (s, [])"
    by (simp_all add: extract_code_blocks_def extract_inline_codes_def park_no_code match_groups_none)
qed

definition plain_start :: "string \<Rightarrow> bool" where
  "plain_start s \<longleftrightarrow> s = [] \<or> hd s \<notin> {CHR ''#'', CHR ''>'', CHR ''-'', CHR ''*''}"

lemma style_none:
  assumes "\<forall>c \<in> set s. ordinary c" "plain_start s"
  shows "style s = s"
proof -
  have "replace_matches reLink link_html s = s" "replace_matches reBoldStar f s = s"
      "replace_matches reBoldUnder f s = s" "replace_matches reItalic f s = s" "replace_matches reStrike f s = s" for f
    by (rule replace_matches_none, use assms(1) ordinary_no_match in blast)+
  then show ?thesis
    using assms(2) by (auto simp: style_def list_item_def plain_start_def split: list.splits)
qed

lemma line_start_none:
  assumes "plain_start s"
  shows "heading s = s" "blockquote s = s"
  using assms by (cases s; auto simp: heading_def blockquote_def plain_start_def)+

lemma escape_ordinary:
  assumes "\<forall>c \<in> set s. ordinary c" "plain_start s"
  shows "(\<forall>c \<in> set (escape_html s). ordinary c) \<and> plain_start (escape_html s)"
proof -
  have "\<forall>c \<in> set (escape_char d). ordinary c" if "ordinary d" for d
    using that by (auto simp: escape_char_def ordinary_def)
  moreover have "plain_start (escape_char c @ t)" if "plain_start (c # u)" for c t u
    using that by (auto simp: escape_char_def plain_start_def)
  ultimately show ?thesis
    using assms
    by (cases s) (simp add: escape_html_chars plain_start_def, fastforce simp: escape_html_chars simp del: append_is_Nil_conv)
qed

lemma plain_text_html:
  assumes "\<forall>c \<in> set s. ordinary c" "plain_start s"
  shows "markdown_to_telegram_html s = concat (map escape_char s)"
proof -
  have "style (escape_html s) = escape_html s"
    using escape_ordinary [OF assms] style_none by blast
  then show ?thesis
    using assms extract_none line_start_none
    by (simp add: markdown_to_telegram_html_def escape_html_chars)
qed

text \<open>
  Text without markup comes out as its escape, character by character: no word of the agent is
  lost or reordered.
\<close>

theorem plain_text_escaped:
  assumes "\<forall>c \<in> set s. ordinary c" "plain_start s"
  shows "markdown_to_telegram_html s = concat (map escape_char s)"
  using assms by (rule plain_text_html)

theorem plain_text_escaped_witness:
  "markdown_to_telegram_html ''if a < b & c: 5 - 3'' = ''if a &lt; b &amp; c: 5 - 3''"
  by (subst plain_text_escaped) (simp_all add: ordinary_def plain_start_def escape_char_def)

text \<open>
  a message that is a code block arrives as preformatted text that holds the code itself, escaped
  and otherwise unchanged: no expression rewrites inside it.
\<close>

theorem code_block_verbatim:
  assumes lang: "list_all is_word lang"
    and code: "index_of fence (code @ fence) = Some (length code)"
  shows "markdown_to_telegram_html (fence @ lang @ [newline] @ code @ fence) =
    ''<pre><code>'' @ concat (map escape_char code) @ ''</code></pre>''"
proof -
  define text1 where "text1 = fence @ lang @ [newline] @ code @ fence"
  define mark where "mark = placeholder ''CB'' 0"
  have w: "dropWhile is_word (lang @ [newline] @ code @ fence) = [newline] @ code @ fence"
    using lang by (subst dropWhile_append2) (auto simp: list_all_iff is_word_def newline_def)
  have m: "reCodeBlock text1 = Some (code, [])"
    using code w by (simp add: text1_def reCodeBlock_def fence_def until_index trim_prefix_single)
  then have "pieces reCodeBlock text1 = [Inr code]"
    by (simp add: text1_def fence_def)
  then have e: "extract_code_blocks text1 = (mark, [code])"
    by (simp add: extract_code_blocks_def match_groups_def mark_def)
  have mark: "mark = [CHR 0x00, CHR ''C'', CHR ''B'', CHR ''0'', CHR 0x00]"
    unfolding mark_def by code_simp
  then have o: "\<forall>c \<in> set mark. ordinary c" "plain_start mark"
    by (simp_all add: ordinary_def plain_start_def)
  have "escape_html mark = mark"
    by (simp add: mark escape_html_chars escape_char_def)
  then have "style (escape_html (blockquote (heading mark))) = mark"
    using o line_start_none style_none by simp
  moreover have "extract_inline_codes mark = (mark, [])"
    using extract_none o by blast
  moreover have "unpark ''CB'' ''<pre><code>'' ''</code></pre>'' 0 [escape_html code] mark =
      ''<pre><code>'' @ concat (map escape_char code) @ ''</code></pre>''"
    using mark by (simp add: mark_def [symmetric] escape_html_chars)
  ultimately show ?thesis
    using e unfolding text1_def [symmetric]
    by (simp add: markdown_to_telegram_html_def) (simp add: text1_def fence_def)
qed

theorem code_block_verbatim_witness:
  "markdown_to_telegram_html (fence @ ''go'' @ [newline] @ ''a *b* _c_ <d>'' @ fence) =
    ''<pre><code>a *b* _c_ &lt;d&gt;</code></pre>''"
  by (subst code_block_verbatim) (simp_all add: is_word_def fence_def escape_char_def)

subsection \<open>What the expressions miss\<close>

text \<open>
  A heading, a quotation or a list is only rewritten where it starts the whole text, and a heading or a
  quotation only where it is the whole text.
\<close>

lemma heading_in_text_kept:
  "markdown_to_telegram_html (''# Title'' @ [newline] @ ''- a'' @ [newline] @ ''- b'') =
    ''# Title'' @ [newline] @ ''- a'' @ [newline] @ ''- b''"
  by code_simp

text \<open>Underscores within words and addresses count as markup, and a quote in an address ends the attribute.\<close>

lemma underscores_break_links:
  "markdown_to_telegram_html ''my_var_name'' = ''my<i>var</i>name''"
  "markdown_to_telegram_html ''[x](http://a/b_c_d)'' =
    ''<a href='' @ [CHR 0x22] @ ''http://a/b<i>c</i>d'' @ [CHR 0x22] @ ''>x</a>''"
  by code_simp+

end
