(* ===== verification/Telegram.thy ===== *)
theory Telegram
  imports Telegram_Format Base_Channel Split Media Commands "HOL-Library.Log_Nat"
begin

text \<open>
  \<open>pkg/channels/telegram/telegram.go\<close> and \<open>command_registration.go\<close>: the Telegram adapter. The client
  library is outside of the repository: what it answers (which calls fail, where a file is, the name of
  the bot) is an argument, and the calls made to it are the result.
\<close>

subsection \<open>Floating point\<close>

text \<open>
  The double next to a positive rational, ties to even, in the range of normal numbers: \<open>e\<close> is the
  exponent with \<open>2 ^ e \<le> x < 2 ^ (e + 1)\<close>.
\<close>

definition round_even :: "rat \<Rightarrow> int" where
  "round_even y =
    (let n = \<lfloor>y\<rfloor>; d = y - of_int n in
     if d < 1 / 2 \<or> d = 1 / 2 \<and> even n then n else n + 1)"

definition pow2 :: "int \<Rightarrow> rat" where
  "pow2 e = (if e \<ge> 0 then 2 ^ nat e else 1 / 2 ^ nat (- e))"

definition exponent :: "rat \<Rightarrow> int" where
  "exponent x =
    (let (a, b) = quotient_of x; k = int (floorlog 2 (nat a)) - int (floorlog 2 (nat b))
     in if pow2 k \<le> x then k else k - 1)"

definition fl64 :: "rat \<Rightarrow> rat" where
  "fl64 x = (let u = pow2 (exponent x - 52) in of_int (round_even (x / u)) * u)"

subsection \<open>State\<close>

datatype tg_proxy = NoProxy | FixedProxy string | ProxyFromEnvironment

record telegram_config =
  tc_Token :: string
  tc_Proxy :: string
  tc_BaseURL :: string
  tc_AllowFrom :: "string list"
  tc_GroupTrigger :: group_trigger
  tc_ReasoningChannelID :: string

record telegram_channel =
  tg_base :: base_channel
  tg_proxy :: tg_proxy
  tg_server :: "string option"
  tg_username :: string
  tg_chatIDs :: "string \<rightharpoonup> int"
  tg_polling :: bool

definition trim_right_slashes :: "string \<Rightarrow> string" where
  "trim_right_slashes s = rev (dropWhile (\<lambda>c. c = CHR ''/'') (rev s))"

text \<open>Whether an address parses, and what \<open>NewBot\<close> gives: an error or the name of the bot.\<close>

definition new_telegram_channel ::
  "(string \<Rightarrow> bool) \<Rightarrow> bool \<Rightarrow> (string \<Rightarrow> string + string) \<Rightarrow> telegram_config \<Rightarrow> string + telegram_channel" where
  "new_telegram_channel url_ok envProxy new_bot cfg =
    (if tc_Proxy cfg \<noteq> [] \<and> \<not> url_ok (tc_Proxy cfg) then Inl ''invalid proxy URL''
     else
       let baseURL = trim_right_slashes (trim_space (tc_BaseURL cfg)) in
         (case new_bot (tc_Token cfg) of
            Inl e \<Rightarrow> Inl (''failed to create telegram bot: '' @ e)
          | Inr username \<Rightarrow>
              Inr \<lparr>tg_base = new_base_channel ''telegram'' (tc_AllowFrom cfg)
                     [with_max_message_length 4000, with_group_trigger (tc_GroupTrigger cfg),
                      with_reasoning_channel_id (tc_ReasoningChannelID cfg)],
                   tg_proxy = (if tc_Proxy cfg \<noteq> [] then FixedProxy (tc_Proxy cfg)
                               else if envProxy then ProxyFromEnvironment else NoProxy),
                   tg_server = (if baseURL \<noteq> [] then Some baseURL else None),
                   tg_username = username, tg_chatIDs = Map.empty, tg_polling = False\<rparr>))"

definition telegram_start ::
  "string option \<Rightarrow> string option \<Rightarrow> telegram_channel \<Rightarrow> telegram_channel \<times> string option" where
  "telegram_start pollErr handlerErr c =
    (case pollErr of
       Some e \<Rightarrow> (c\<lparr>tg_polling := False\<rparr>, Some (''failed to start long polling: '' @ e))
     | None \<Rightarrow>
         (case handlerErr of
            Some e \<Rightarrow> (c\<lparr>tg_polling := False\<rparr>, Some (''failed to create bot handler: '' @ e))
          | None \<Rightarrow> (c\<lparr>tg_polling := True, tg_base := set_running True (tg_base c)\<rparr>, None)))"

definition telegram_stop :: "telegram_channel \<Rightarrow> telegram_channel" where
  "telegram_stop c = c\<lparr>tg_polling := False, tg_base := set_running False (tg_base c)\<rparr>"

subsection \<open>Chat identifiers\<close>

text \<open>
  \<open>Sscanf\<close> with \<open>%d\<close>: leading space but no newline, a sign, digits; what follows is ignored, and a
  number out of range is an error.
\<close>

definition parse_chat_id :: "string \<Rightarrow> int option" where
  "parse_chat_id s =
    (let t = strip (filter (\<lambda>w. w \<noteq> [newline]) space_seqs) s;
         sign = takeWhile (\<lambda>c. c = CHR ''-'' \<or> c = CHR ''+'') (take 1 t);
         ds = takeWhile is_digit (drop (length sign) t);
         v = (if sign = ''-'' then - int (decimal_value ds) else int (decimal_value ds))
     in if ds \<noteq> [] \<and> int64 v then Some v else None)"

subsection \<open>Sending\<close>

datatype tg_call =
    SendHtml int string
  | SendPlain int string
  | SendPhoto int string string
  | SendAudio int string string
  | SendVideo int string string
  | SendDocument int string string
  | ChatAction int

text \<open>The next smaller length, computed in doubles and truncated.\<close>

definition smaller_len :: "nat \<Rightarrow> nat \<Rightarrow> int" where
  "smaller_len chunkLen htmlLen =
    max 100 \<lfloor>fl64 (fl64 (4096 * fl64 (of_nat chunkLen / of_nat htmlLen)) * fl64 (95 / 100))\<rfloor>"

text \<open>\<open>SplitMessage\<close> on a string.\<close>

definition split_text :: "string \<Rightarrow> int \<Rightarrow> (split_error + string list) option" where
  "split_text s m = map_option (map_sum id (map string_of_runes)) (split_message (runes_of s) m)"

text \<open>\<open>sendHTMLChunk\<close>: \<open>api n\<close> tells whether the n-th call of a send succeeds.\<close>

definition send_html_chunk :: "(nat \<Rightarrow> bool) \<Rightarrow> nat \<Rightarrow> int \<Rightarrow> string \<Rightarrow> string \<Rightarrow> tg_call list \<times> send_error option" where
  "send_html_chunk api n chat html md =
    (if api n then ([SendHtml chat html], None)
     else ([SendHtml chat html, SendPlain chat md],
           if api (Suc n) then None else Some (Wrapped ErrTemporary ''telegram send'')))"

text \<open>
  A text of the queue is sent or, when its HTML is too long, split; \<open>Stuck\<close> is a split that does not
  return.
\<close>

datatype tg_error = SendErr send_error | SplitPanic

datatype text_step = Emit string | Resplit "string list" | Stuck | Panics

definition text_step :: "string \<Rightarrow> text_step" where
  "text_step chunk =
    (let html = markdown_to_telegram_html chunk; hlen = length (runes_of html) in
     if hlen > 4096 then
       (case split_text chunk (smaller_len (length (runes_of chunk)) hlen) of
          None \<Rightarrow> Stuck
        | Some (Inl _) \<Rightarrow> Panics
        | Some (Inr subChunks) \<Rightarrow> Resplit subChunks)
     else Emit html)"

text \<open>The loop over the queue, with the calls made so far; \<open>None\<close> when it does not return.\<close>

partial_function (option) text_loop ::
  "(nat \<Rightarrow> bool) \<Rightarrow> int \<Rightarrow> tg_call list \<Rightarrow> string list \<Rightarrow> (tg_call list \<times> tg_error option) option" where
  "text_loop api chat calls queue =
    (if queue = [] then Some (calls, None)
     else
       (case text_step (hd queue) of
          Stuck \<Rightarrow> None
        | Panics \<Rightarrow> Some (calls, Some SplitPanic)
        | Resplit subChunks \<Rightarrow> text_loop api chat calls (subChunks @ tl queue)
        | Emit html \<Rightarrow>
            (case snd (send_html_chunk api (length calls) chat html (hd queue)) of
               Some e \<Rightarrow> Some (calls @ fst (send_html_chunk api (length calls) chat html (hd queue)), Some (SendErr e))
             | None \<Rightarrow> text_loop api chat (calls @ fst (send_html_chunk api (length calls) chat html (hd queue))) (tl queue))))"

definition media_call :: "string \<Rightarrow> int \<Rightarrow> string \<Rightarrow> string \<Rightarrow> tg_call" where
  "media_call ty chat path caption =
    (if ty = ''image'' then SendPhoto chat path caption
     else if ty = ''audio'' then SendAudio chat path caption
     else if ty = ''video'' then SendVideo chat path caption
     else SendDocument chat path caption)"

definition caption_for :: "nat \<Rightarrow> string \<Rightarrow> media_part \<Rightarrow> string" where
  "caption_for i content part =
    (if i = 0 \<and> mp_Caption part = [] \<and> length (runes_of content) \<le> 1024 then content else mp_Caption part)"

text \<open>The parts: one that does not resolve or open is skipped, a failed call ends the send.\<close>

fun send_media_parts ::
  "(nat \<Rightarrow> bool) \<Rightarrow> media_store \<Rightarrow> string set \<Rightarrow> int \<Rightarrow> string \<Rightarrow> nat \<Rightarrow> nat \<Rightarrow> media_part list \<Rightarrow>
    tg_call list \<times> tg_error option" where
  "send_media_parts api s disk chat content n i [] = ([], None)"
| "send_media_parts api s disk chat content n i (part # parts) =
    (case resolve s (mp_Ref part) of
       None \<Rightarrow> send_media_parts api s disk chat content n (Suc i) parts
     | Some path \<Rightarrow>
         if path \<notin> disk then send_media_parts api s disk chat content n (Suc i) parts
         else
           let call = media_call (mp_Type part) chat path (markdown_to_telegram_html (caption_for i content part)) in
             if \<not> api n then ([call], Some (SendErr (Wrapped ErrTemporary ''telegram send media'')))
             else let (calls, err) = send_media_parts api s disk chat content (Suc n) (Suc i) parts in (call # calls, err))"

definition embed_as_caption :: "outbound_message \<Rightarrow> bool" where
  "embed_as_caption msg \<longleftrightarrow> om_Parts msg \<noteq> [] \<and> length (runes_of (om_Content msg)) \<le> 1024"

definition telegram_send ::
  "(nat \<Rightarrow> bool) \<Rightarrow> media_store option \<Rightarrow> string set \<Rightarrow> telegram_channel \<Rightarrow> outbound_message \<Rightarrow>
    (tg_call list \<times> tg_error option) option" where
  "telegram_send api store disk c msg =
    (if \<not> bc_running (tg_base c) then Some ([], Some (SendErr (Sentinel ErrNotRunning)))
     else
       (case parse_chat_id (om_ChatID msg) of
          None \<Rightarrow> Some ([], Some (SendErr (Wrapped ErrSendFailed (''invalid chat ID '' @ om_ChatID msg))))
        | Some chat \<Rightarrow>
            (case (if om_Content msg = [] \<or> embed_as_caption msg then Some ([], None)
                   else text_loop api chat [] [om_Content msg]) of
               None \<Rightarrow> None
             | Some (calls, Some e) \<Rightarrow> Some (calls, Some e)
             | Some (calls, None) \<Rightarrow>
                 if om_Parts msg = [] then Some (calls, None)
                 else
                   (case store of
                      None \<Rightarrow> Some (calls, Some (SendErr (Wrapped ErrSendFailed ''no media store available'')))
                    | Some s \<Rightarrow>
                        let (calls', err) = send_media_parts api s disk chat (om_Content msg) (length calls) 0 (om_Parts msg)
                        in Some (calls @ calls', err)))))"

text \<open>The typing indicator: one call at once and one at each tick until the context is done.\<close>

datatype typing_event = TypingTick | TypingDone

fun typing_loop :: "int \<Rightarrow> typing_event list \<Rightarrow> tg_call list" where
  "typing_loop chat (TypingTick # es) = ChatAction chat # typing_loop chat es"
| "typing_loop chat _ = []"

definition telegram_start_typing :: "string \<Rightarrow> typing_event list \<Rightarrow> tg_call list \<times> bool" where
  "telegram_start_typing chatID es =
    (case parse_chat_id chatID of
       None \<Rightarrow> ([], False)
     | Some chat \<Rightarrow> (ChatAction chat # typing_loop chat es, True))"

subsection \<open>Mentions\<close>

record tg_entity =
  te_Type :: string
  te_Offset :: int
  te_Length :: int
  te_User :: "string option"

record tg_message =
  tm_From :: "(int \<times> string \<times> string) option"
  tm_ChatID :: int
  tm_ChatType :: string
  tm_MessageID :: int
  tm_Text :: string
  tm_Entities :: "tg_entity list"
  tm_Caption :: string
  tm_CaptionEntities :: "tg_entity list"
  tm_Photo :: "string list"
  tm_Voice :: "string option"
  tm_Audio :: "string option"
  tm_Document :: "(string \<times> string) option"

definition telegram_entity_text_and_list :: "tg_message \<Rightarrow> string \<times> tg_entity list" where
  "telegram_entity_text_and_list m =
    (if tm_Text m \<noteq> [] then (tm_Text m, tm_Entities m) else (tm_Caption m, tm_CaptionEntities m))"

text \<open>The runes an entity covers; its offset and length are those of a message, so their sum does not wrap.\<close>

definition telegram_entity_text :: "rune list \<Rightarrow> tg_entity \<Rightarrow> string option" where
  "telegram_entity_text runes e =
    (if te_Offset e < 0 \<or> te_Length e \<le> 0 then None
     else if te_Offset e \<ge> int (length runes) \<or> te_Offset e + te_Length e > int (length runes) then None
     else Some (string_of_runes (take (nat (te_Length e)) (drop (nat (te_Offset e)) runes))))"

definition is_bot_command_entity :: "unicode \<Rightarrow> string \<Rightarrow> string \<Rightarrow> bool" where
  "is_bot_command_entity U entityText botUsername =
    (if \<not> has_prefix ''/'' entityText then False
     else
       let command = trim_prefix ''/'' entityText in
         if command = [] then False
         else
           (case index_of ''@'' command of
              None \<Rightarrow> True
            | Some pos \<Rightarrow>
                let mention = drop (pos + 1) command in
                  mention \<noteq> [] \<and> botUsername \<noteq> [] \<and> equal_fold U mention botUsername))"

definition entity_mentions_bot :: "unicode \<Rightarrow> string \<Rightarrow> rune list \<Rightarrow> tg_entity \<Rightarrow> bool" where
  "entity_mentions_bot U me runes e =
    (case telegram_entity_text runes e of
       None \<Rightarrow> False
     | Some t \<Rightarrow>
         if te_Type e = ''mention'' then me \<noteq> [] \<and> equal_fold U t (''@'' @ me)
         else if te_Type e = ''text_mention''
         then me \<noteq> [] \<and> (case te_User e of None \<Rightarrow> False | Some u \<Rightarrow> equal_fold U u me)
         else te_Type e = ''bot_command'' \<and> is_bot_command_entity U t me)"

definition telegram_mentioned :: "unicode \<Rightarrow> string \<Rightarrow> tg_message \<Rightarrow> bool" where
  "telegram_mentioned U me m =
    (let (t, entities) = telegram_entity_text_and_list m in
     t \<noteq> [] \<and> list_ex (entity_mentions_bot U me (runes_of t)) entities)"

text \<open>
  The expression \<open>(?i)@name\<close> for a name of ASCII letters, digits and underscores, as Telegram gives
  them: under case folding the letter k also matches the Kelvin sign and s the long s.
\<close>

definition fold_char :: "char \<Rightarrow> string \<Rightarrow> string option" where
  "fold_char c s =
    (if s \<noteq> [] \<and> ascii_lower (hd s) = ascii_lower c then Some (tl s)
     else if ascii_lower c = CHR ''k'' \<and> has_prefix [CHR 0xE2, CHR 0x84, CHR 0xAA] s then Some (drop 3 s)
     else if ascii_lower c = CHR ''s'' \<and> has_prefix [CHR 0xC5, CHR 0xBF] s then Some (drop 2 s)
     else None)"

fun fold_prefix :: "string \<Rightarrow> string \<Rightarrow> string option" where
  "fold_prefix [] s = Some s"
| "fold_prefix (c # name) s = (case fold_char c s of None \<Rightarrow> None | Some s' \<Rightarrow> fold_prefix name s')"

definition telegram_strip_mention :: "string \<Rightarrow> string \<Rightarrow> string" where
  "telegram_strip_mention me content =
    (if me = [] then content
     else trim_space (replace_matches (\<lambda>s. map_option (Pair ()) (fold_prefix (''@'' @ me) s)) (\<lambda>_. []) content))"

subsection \<open>Inbound messages\<close>

text \<open>
  The surroundings of a message: the paths the API gives for file identifiers, the address of a path,
  \<open>utils.DownloadFile\<close> (empty on failure), the media store with the files on disk, the references it
  would give one after the other, and the clock.
\<close>

record telegram_env =
  tv_file :: "string \<Rightarrow> string option"
  tv_url :: "string \<Rightarrow> string"
  tv_download :: "string \<Rightarrow> string \<Rightarrow> string"
  tv_store :: "media_store option"
  tv_disk :: "string set"
  tv_ref :: "nat \<Rightarrow> string"
  tv_now :: int
  tv_prefix :: string
  tv_counter :: "64 word"

definition telegram_download :: "telegram_env \<Rightarrow> string \<Rightarrow> string \<Rightarrow> string" where
  "telegram_download E fileID ending =
    (case tv_file E fileID of
       None \<Rightarrow> []
     | Some path \<Rightarrow> if path = [] then [] else tv_download E (tv_url E path) (path @ ending))"

text \<open>The attachments: the largest photo, the voice message, the audio file and the document.\<close>

definition telegram_files :: "tg_message \<Rightarrow> (string \<times> string \<times> string) list" where
  "telegram_files m =
    (if tm_Photo m \<noteq> [] then [(last (tm_Photo m), ''.jpg'', ''photo.jpg'')] else []) @
    (case tm_Voice m of None \<Rightarrow> [] | Some f \<Rightarrow> [(f, ''.ogg'', ''voice.ogg'')]) @
    (case tm_Audio m of None \<Rightarrow> [] | Some f \<Rightarrow> [(f, ''.mp3'', ''audio.mp3'')]) @
    (case tm_Document m of None \<Rightarrow> [] | Some (f, name) \<Rightarrow> [(f, [], name)])"

definition telegram_store_media ::
  "telegram_env \<Rightarrow> nat \<Rightarrow> string \<Rightarrow> media_store option \<Rightarrow> string \<Rightarrow> string \<Rightarrow> media_store option \<times> string" where
  "telegram_store_media E i scope = store_or_path ''telegram'' (tv_disk E) (tv_ref E i) (tv_now E) scope"

fun telegram_attachments ::
  "telegram_env \<Rightarrow> nat \<Rightarrow> string \<Rightarrow> media_store option \<Rightarrow> (string \<times> string \<times> string) list \<Rightarrow>
    media_store option \<times> string list" where
  "telegram_attachments E i scope store [] = (store, [])"
| "telegram_attachments E i scope store ((fileID, ending, filename) # fs) =
    (let path = telegram_download E fileID ending in
     if path = [] then telegram_attachments E i scope store fs
     else
       let (store', ref) = telegram_store_media E i scope store path filename;
           (store'', refs) = telegram_attachments E (Suc i) scope store' fs
       in (store'', ref # refs))"

definition telegram_content :: "tg_message \<Rightarrow> string" where
  "telegram_content m =
    (let content = tm_Text m @
       (if tm_Caption m \<noteq> [] then (if tm_Text m \<noteq> [] then [newline] else []) @ tm_Caption m else [])
     in if content = [] then ''[empty message]'' else content)"

definition telegram_sender :: "unicode \<Rightarrow> int \<times> string \<times> string \<Rightarrow> sender_info" where
  "telegram_sender U = (\<lambda>(userID, username, firstName).
    \<lparr>Platform = ''telegram'', PlatformID = format_int userID,
     CanonicalID = build_canonical_id U ''telegram'' (format_int userID),
     Username = username, DisplayName = firstName\<rparr>)"

text \<open>Group chats: the mention is cut out and the group trigger decides.\<close>

definition telegram_trigger :: "unicode \<Rightarrow> telegram_channel \<Rightarrow> tg_message \<Rightarrow> bool \<times> string" where
  "telegram_trigger U c m =
    (let content = telegram_content m in
     if tm_ChatType m \<noteq> ''private'' then
       let isMentioned = telegram_mentioned U (tg_username c) m;
           content' = (if isMentioned then telegram_strip_mention (tg_username c) content else content)
       in should_respond_in_group (tg_base c) isMentioned content'
     else (True, content))"

definition telegram_peer :: "int \<Rightarrow> tg_message \<Rightarrow> peer" where
  "telegram_peer userID m =
    (if tm_ChatType m \<noteq> ''private'' then \<lparr>p_Kind = ''group'', p_ID = format_int (tm_ChatID m)\<rparr>
     else \<lparr>p_Kind = ''direct'', p_ID = format_int userID\<rparr>)"

text \<open>
  \<open>handleMessage\<close>: an error, or the channel, the media store and the counter afterwards with the
  effects of \<open>HandleMessage\<close>.
\<close>

definition telegram_handle_message ::
  "unicode \<Rightarrow> telegram_env \<Rightarrow> telegram_channel \<Rightarrow> tg_message option \<Rightarrow>
    string + telegram_channel \<times> media_store option \<times> 64 word \<times> channel_effect list" where
  "telegram_handle_message U E c message =
    (case message of
       None \<Rightarrow> Inl ''message is nil''
     | Some m \<Rightarrow>
         (case tm_From m of
            None \<Rightarrow> Inl ''message sender (user) is nil''
          | Some user \<Rightarrow>
              let sender = telegram_sender U user; userID = fst user in
                if \<not> is_allowed_sender U (tg_base c) sender then Inr (c, tv_store E, tv_counter E, [])
                else
                  let c' = c\<lparr>tg_chatIDs := (tg_chatIDs c)(PlatformID sender \<mapsto> tm_ChatID m)\<rparr>;
                      chatID = format_int (tm_ChatID m);
                      messageID = format_int (tm_MessageID m);
                      (scope, n) = build_media_scope (tv_prefix E) (tv_counter E) ''telegram'' chatID messageID;
                      (store', refs) = telegram_attachments E 0 scope (tv_store E) (telegram_files m);
                      (respond, content) = telegram_trigger U c' m
                  in
                    if \<not> respond then Inr (c', store', n, [])
                    else
                      let (effs, n') = handle_message U (tv_prefix E) n (tg_base c') (telegram_peer userID m) messageID
                            (PlatformID sender) chatID content refs
                            [''user_id'' \<mapsto> format_int userID, ''username'' \<mapsto> fst (snd user), ''first_name'' \<mapsto> snd (snd user),
                             ''is_group'' \<mapsto> (if tm_ChatType m \<noteq> ''private'' then ''true'' else ''false'')]
                            [sender]
                      in Inr (c', store', n', effs)))"

subsection \<open>Registration of the commands\<close>

definition command_registration_backoff :: "int list" where
  "command_registration_backoff = map ((*) 1000000000) [5, 15, 60, 300, 600]"

text \<open>Half to the full delay, by a random number in [0, 1).\<close>

definition command_registration_delay :: "rat \<Rightarrow> nat \<Rightarrow> int" where
  "command_registration_delay rnd attempt =
    (if command_registration_backoff = [] then 0
     else
       let base = command_registration_backoff ! min attempt (length command_registration_backoff - 1)
       in \<lfloor>fl64 (of_int base * fl64 (1 / 2 + rnd * (1 / 2)))\<rfloor>)"

definition bot_commands :: "command_meta list \<Rightarrow> (string \<times> string) list" where
  "bot_commands defs =
    map (\<lambda>d. (cm_Name d, cm_Description d)) (filter (\<lambda>d. cm_Name d \<noteq> [] \<and> cm_Description d \<noteq> []) defs)"

text \<open>\<open>RegisterCommands\<close>: the commands the bot has (unless they cannot be read) and its answer; what is set.\<close>

definition register_commands ::
  "(string \<times> string) list option \<Rightarrow> string option \<Rightarrow> command_meta list \<Rightarrow> (string \<times> string) list option \<times> string option" where
  "register_commands current answer defs =
    (if current = Some (bot_commands defs) then (None, None) else (Some (bot_commands defs), answer))"

text \<open>
  The retries: an attempt that fails waits, and the wait ends with the timer or with the channel. The
  delays waited in full, and whether the commands were registered.
\<close>

partial_function (option) command_registration ::
  "(nat \<Rightarrow> rat) \<Rightarrow> (nat \<Rightarrow> bool) \<Rightarrow> (nat \<Rightarrow> bool) \<Rightarrow> nat \<Rightarrow> int list \<Rightarrow> (int list \<times> bool) option" where
  "command_registration rnd ok cancelled attempt delays =
    (if ok attempt then Some (delays, True)
     else if cancelled attempt then Some (delays, False)
     else command_registration rnd ok cancelled (Suc attempt)
       (delays @ [command_registration_delay (rnd attempt) attempt]))"


subsection \<open>Chat identifiers round trip\<close>

lemma strip_no_space: "c # s \<noteq> [] \<Longrightarrow> (\<forall>w \<in> set ws. w \<noteq> [] \<and> hd w \<noteq> c) \<Longrightarrow> strip ws (c # s) = c # s"
proof -
  assume a: "\<forall>w \<in> set ws. w \<noteq> [] \<and> hd w \<noteq> c"
  have "\<not> has_prefix w (c # s)" if "w \<in> set ws" for w
    using a that by (cases w) auto
  then have "head_len ws (c # s) = 0" using a head_len_zero [of ws] by blast
  then show ?thesis by simp
qed

lemma space_seq_heads:
  assumes "w \<in> set (filter (\<lambda>w. w \<noteq> [newline]) space_seqs)" "is_digit c \<or> c = CHR ''-''"
  shows "w \<noteq> [] \<and> hd w \<noteq> c"
proof -
  have "list_all (\<lambda>w. w \<noteq> [] \<and> \<not> is_digit (hd w) \<and> hd w \<noteq> CHR ''-'') space_seqs" by code_simp
  with assms show ?thesis by (auto simp: list_all_iff)
qed

text \<open>The chat identifier an inbound message carries is read back as the chat when an answer goes out.\<close>

theorem chat_id_roundtrip:
  assumes "int64 v"
  shows "parse_chat_id (format_int v) = Some v"
proof -
  let ?ws = "filter (\<lambda>w. w \<noteq> [newline]) space_seqs"
  obtain ds where ds: "ds = format_nat (nat \<bar>v\<bar>)" by blast
  then have d: "list_all is_digit ds" "ds \<noteq> []" "decimal_value ds = nat \<bar>v\<bar>"
    using format_nat_digits format_nat_nonempty decimal_value_format by auto
  then obtain c t where ct: "ds = c # t" "is_digit c" by (cases ds) auto
  have tw: "takeWhile is_digit ds = ds" using takeWhile_digits [of ds "[]"] d(1) by simp
  have num: "takeWhile is_digit t = t" "is_digit c" "decimal_value (c # t) = nat \<bar>v\<bar>"
    using tw ct d(3) by auto
  have no_sign: "c \<noteq> CHR ''-''" "c \<noteq> CHR ''+''" using ct(2) by (auto simp: is_digit_def)
  have strip: "strip ?ws (c # t) = c # t" "strip ?ws (CHR ''-'' # c # t) = CHR ''-'' # c # t"
    by (rule strip_no_space; use space_seq_heads ct(2) in blast)+
  show ?thesis
  proof (cases "v < 0")
    case True
    then have "format_int v = CHR ''-'' # c # t" using ds ct(1) by (simp add: format_int_def)
    with True show ?thesis
      using strip num(2,3) assms by (simp add: num(1) parse_chat_id_def Let_def)
  next
    case False
    then have "format_int v = c # t" using ds ct(1) by (simp add: format_int_def)
    with False show ?thesis
      using strip num(2,3) assms no_sign by (simp add: num(1) parse_chat_id_def Let_def)
  qed
qed

theorem chat_id_roundtrip_witness: "parse_chat_id (format_int (- 1001234567890)) = Some (- 1001234567890)"
  by (rule chat_id_roundtrip) (simp add: int64_def)

subsection \<open>What an inbound message does\<close>

lemma telegram_attachments_scope:
  assumes "telegram_attachments E i scope (Some s) fs = (st, refs)"
    and disk: "\<And>url name. tv_download E url name \<noteq> [] \<Longrightarrow> tv_download E url name \<in> tv_disk E"
  shows "\<exists>s'. st = Some s' \<and> (\<forall>ref. ms_refToScope s ref = Some scope \<longrightarrow> ms_refToScope s' ref = Some scope) \<and>
    (\<forall>ref \<in> set refs. ms_refToScope s' ref = Some scope)"
  using assms(1)
proof (induction fs arbitrary: i s refs)
  case (Cons f fs)
  obtain fileID ending filename where f: "f = (fileID, ending, filename)" by (cases f) auto
  define path where "path = telegram_download E fileID ending"
  show ?case
  proof (cases "path = []")
    case True
    with Cons f show ?thesis by (simp add: path_def [symmetric])
  next
    case False
    then have "path \<in> tv_disk E"
      using disk by (auto simp: path_def telegram_download_def split: option.splits if_splits)
    then obtain s1 where s1: "telegram_store_media E i scope (Some s) path filename = (Some s1, tv_ref E i)"
        "ms_refToScope s1 = (ms_refToScope s)(tv_ref E i \<mapsto> scope)"
      using store_or_path_kept unfolding telegram_store_media_def by blast
    obtain st' refs' where r: "telegram_attachments E (Suc i) scope (Some s1) fs = (st', refs')" by force
    then have "st = st'" "refs = tv_ref E i # refs'"
      using Cons.prems f False s1(1) by (auto simp: path_def [symmetric])
    with Cons.IH [of "Suc i" s1 refs'] r s1(2) show ?thesis by (auto simp: fun_upd_def split: if_splits)
  qed
qed auto

text \<open>The end of the handler, where the message is published.\<close>

lemma telegram_handled:
  assumes "telegram_handle_message U E c (Some m) = Inr (c', st, n, effs)" "tm_From m = Some user"
  shows "\<not> is_allowed_sender U (tg_base c) (telegram_sender U user) \<and>
      c' = c \<and> st = tv_store E \<and> n = tv_counter E \<and> effs = [] \<or>
    is_allowed_sender U (tg_base c) (telegram_sender U user) \<and> tg_base c' = tg_base c \<and>
      tg_chatIDs c' = (tg_chatIDs c)(format_int (fst user) \<mapsto> tm_ChatID m) \<and>
      (\<exists>refs. telegram_attachments E 0
          (''telegram:'' @ format_int (tm_ChatID m) @ '':'' @ format_int (tm_MessageID m)) (tv_store E)
          (telegram_files m) = (st, refs) \<and>
        (\<not> fst (telegram_trigger U c m) \<and> effs = [] \<or>
         fst (telegram_trigger U c m) \<and>
           (\<exists>md. handle_message U (tv_prefix E) (tv_counter E) (tg_base c) (telegram_peer (fst user) m)
             (format_int (tm_MessageID m)) (format_int (fst user)) (format_int (tm_ChatID m))
             (snd (telegram_trigger U c m)) refs md [telegram_sender U user] = (effs, n))))"
proof -
  have s: "build_media_scope p k ''telegram'' chat (format_int i) =
      (''telegram:'' @ chat @ '':'' @ format_int i, k)" for p k chat i
    using format_nat_nonempty by (simp add: build_media_scope_def format_int_def)
  have t: "telegram_trigger U (c\<lparr>tg_chatIDs := x\<rparr>) m = telegram_trigger U c m" for x
    by (simp add: telegram_trigger_def Let_def)
  have p: "PlatformID (telegram_sender U user) = format_int (fst user)"
    by (simp add: telegram_sender_def split: prod.splits)
  show ?thesis
    using assms unfolding telegram_handle_message_def
    by (auto simp: s t p Let_def split: prod.splits if_splits)
qed

text \<open>
  A message is published only for a sender of the allow-list and, in a group, only when the bot is
  addressed or its trigger fires; a rejected sender changes nothing, not even by a download.
\<close>

theorem telegram_message_gate:
  assumes "telegram_handle_message U E c (Some m) = Inr (c', st, n, effs)" "tm_From m = Some user"
  shows "(\<not> is_allowed_sender U (tg_base c) (telegram_sender U user) \<longrightarrow>
      c' = c \<and> st = tv_store E \<and> n = tv_counter E \<and> effs = []) \<and>
    (effs \<noteq> [] \<longrightarrow> is_allowed_sender U (tg_base c) (telegram_sender U user) \<and> fst (telegram_trigger U c m) \<and>
      (\<exists>im. last effs = PublishInboundMessage im \<and> im_ChatID im = format_int (tm_ChatID m) \<and>
        im_Content im = snd (telegram_trigger U c m) \<and> im_Sender im = telegram_sender U user))"
proof -
  have "\<exists>im. last effs = PublishInboundMessage im \<and> im_ChatID im = format_int (tm_ChatID m) \<and>
      im_Content im = snd (telegram_trigger U c m) \<and> im_Sender im = telegram_sender U user"
    if "handle_message U (tv_prefix E) (tv_counter E) (tg_base c) (telegram_peer (fst user) m)
      (format_int (tm_MessageID m)) (format_int (fst user)) (format_int (tm_ChatID m))
      (snd (telegram_trigger U c m)) refs md [telegram_sender U user] = (effs, n)" "effs \<noteq> []" for refs md
    using that by (auto simp: handle_message_def Let_def split: if_splits prod.splits)
  with telegram_handled [OF assms] show ?thesis by blast
qed


definition sample_telegram :: telegram_channel where
  "sample_telegram = \<lparr>tg_base = new_base_channel ''telegram'' [''7''] [], tg_proxy = NoProxy, tg_server = None,
    tg_username = ''bot'', tg_chatIDs = Map.empty, tg_polling = True\<rparr>"

definition sample_telegram_env :: telegram_env where
  "sample_telegram_env = \<lparr>tv_file = \<lambda>f. Some (''photos/'' @ f), tv_url = (\<lambda>p. p), tv_download = \<lambda>u n. ''/tmp/a.jpg'',
    tv_store = Some (new_media_store 0), tv_disk = {''/tmp/a.jpg''}, tv_ref = \<lambda>i. ''ref'' @ format_nat i,
    tv_now = 0, tv_prefix = ''p'', tv_counter = 0\<rparr>"

definition sample_tg_message :: tg_message where
  "sample_tg_message = \<lparr>tm_From = Some (7, ''ann'', ''Ann''), tm_ChatID = 7, tm_ChatType = ''private'', tm_MessageID = 3,
    tm_Text = ''hi'', tm_Entities = [],
    tm_Caption = [], tm_CaptionEntities = [], tm_Photo = [''f''], tm_Voice = None, tm_Audio = None,
    tm_Document = None\<rparr>"

definition single_message :: "channel_effect list \<Rightarrow> inbound_message option" where
  "single_message effs = (case effs of [PublishInboundMessage im] \<Rightarrow> Some im | _ \<Rightarrow> None)"

lemma single_message_Some: "single_message effs = Some im \<longleftrightarrow> effs = [PublishInboundMessage im]"
  by (auto simp: single_message_def split: list.splits channel_effect.splits)

lemma sample_telegram_run:
  "case telegram_handle_message ascii_only sample_telegram_env sample_telegram (Some sample_tg_message) of
     Inl _ \<Rightarrow> False
   | Inr (_, _, _, effs) \<Rightarrow>
       (case single_message effs of Some im \<Rightarrow> im_Media im = [''ref0''] | None \<Rightarrow> False)"
  by code_simp

lemma sample_telegram_published:
  "\<exists>c' st n im. telegram_handle_message ascii_only sample_telegram_env sample_telegram (Some sample_tg_message) =
     Inr (c', st, n, [PublishInboundMessage im]) \<and> im_Media im = [''ref0'']"
  using sample_telegram_run by (auto simp: single_message_Some split: sum.splits option.splits)

theorem telegram_message_gate_witness:
  "is_allowed_sender ascii_only (tg_base sample_telegram) (telegram_sender ascii_only (7, ''ann'', ''Ann''))"
proof -
  obtain c' st n im where
      "telegram_handle_message ascii_only sample_telegram_env sample_telegram (Some sample_tg_message) =
        Inr (c', st, n, [PublishInboundMessage im])"
    using sample_telegram_published by blast
  from telegram_message_gate [OF this, of "(7, ''ann'', ''Ann'')"] show ?thesis
    by (simp add: sample_tg_message_def)
qed

text \<open>
  the attachments of a published message are stored under the media scope the message carries, so
  that releasing the scope after the answer releases all of them.
\<close>

theorem telegram_media_in_scope:
  assumes run: "telegram_handle_message U E c (Some m) = Inr (c', st, n, effs)" "PublishInboundMessage im \<in> set effs"
    and name: "bc_name (tg_base c) = ''telegram''" and store: "tv_store E \<noteq> None"
    and disk: "\<And>url name. tv_download E url name \<noteq> [] \<Longrightarrow> tv_download E url name \<in> tv_disk E"
  shows "\<exists>s'. st = Some s' \<and> (\<forall>ref \<in> set (im_Media im). ms_refToScope s' ref = Some (im_MediaScope im))"
proof -
  obtain user where user: "tm_From m = Some user"
    using run(1) by (cases "tm_From m") (auto simp: telegram_handle_message_def)
  obtain s where s: "tv_store E = Some s" using store by auto
  obtain refs md where refs: "telegram_attachments E 0
        (''telegram:'' @ format_int (tm_ChatID m) @ '':'' @ format_int (tm_MessageID m)) (Some s)
        (telegram_files m) = (st, refs)"
    and h: "handle_message U (tv_prefix E) (tv_counter E) (tg_base c) (telegram_peer (fst user) m)
      (format_int (tm_MessageID m)) (format_int (fst user)) (format_int (tm_ChatID m))
      (snd (telegram_trigger U c m)) refs md [telegram_sender U user] = (effs, n)"
    using telegram_handled [OF run(1) user] run(2) s by auto
  have "im_Media im = refs \<and>
      im_MediaScope im = ''telegram:'' @ format_int (tm_ChatID m) @ '':'' @ format_int (tm_MessageID m)"
    using handle_message_media [OF h run(2)] name format_nat_nonempty
    by (simp add: build_media_scope_def format_int_def)
  with telegram_attachments_scope [OF refs disk] show ?thesis by auto
qed

theorem telegram_media_in_scope_witness:
  "\<exists>c' s' n im. telegram_handle_message ascii_only sample_telegram_env sample_telegram (Some sample_tg_message) =
      Inr (c', Some s', n, [PublishInboundMessage im]) \<and> ms_refToScope s' ''ref0'' = Some (im_MediaScope im)"
proof -
  obtain c' st n im where
      r: "telegram_handle_message ascii_only sample_telegram_env sample_telegram (Some sample_tg_message) =
        Inr (c', st, n, [PublishInboundMessage im])" "im_Media im = [''ref0'']"
    using sample_telegram_published by blast
  have "\<exists>s'. st = Some s' \<and> (\<forall>ref \<in> set (im_Media im). ms_refToScope s' ref = Some (im_MediaScope im))"
    by (rule telegram_media_in_scope [OF r(1)])
      (simp_all add: sample_telegram_def sample_telegram_env_def new_base_channel_def)
  then obtain s' where "st = Some s'" "ms_refToScope s' ''ref0'' = Some (im_MediaScope im)"
    using r(2) by auto
  with r(1) show ?thesis by blast
qed

text \<open>
  Telegram counts the offsets of entities in UTF-16 units: behind a character outside the basic plane
  the runes are off by one and the mention of the bot is missed.
\<close>

lemma mention_behind_emoji_missed:
  "\<not> telegram_mentioned ascii_only ''bot''
     (sample_tg_message\<lparr>tm_Text := [CHR 0xF0, CHR 0x9F, CHR 0x98, CHR 0x80] @ '' @bot'',
        tm_Entities := [\<lparr>te_Type = ''mention'', te_Offset = 3, te_Length = 4, te_User = None\<rparr>]\<rparr>)"
  by (simp add: telegram_mentioned_def telegram_entity_text_and_list_def sample_tg_message_def
      entity_mentions_bot_def telegram_entity_text_def decode_rune_def byte_at_def cont_byte_def)

subsection \<open>Limits of a send\<close>

definition within_limit :: "tg_call \<Rightarrow> bool" where
  "within_limit call \<longleftrightarrow> (case call of SendHtml _ t \<Rightarrow> length (runes_of t) \<le> 4096 | _ \<Rightarrow> True)"

lemma text_step_emit: "text_step chunk = Emit html \<Longrightarrow> html = markdown_to_telegram_html chunk \<and> length (runes_of html) \<le> 4096"
  by (auto simp: text_step_def Let_def split: if_splits option.splits sum.splits)

lemma send_html_chunk_within:
  "length (runes_of html) \<le> 4096 \<Longrightarrow> list_all within_limit (fst (send_html_chunk api n chat html md))"
  by (simp add: send_html_chunk_def within_limit_def)

lemma text_loop_within:
  assumes "text_loop api chat calls queue = Some (calls', err)" "list_all within_limit calls"
  shows "list_all within_limit calls'"
proof -
  have "list_all within_limit calls \<longrightarrow> list_all within_limit (fst (calls', err))"
  proof (rule text_loop.raw_induct [where P = "\<lambda>api chat calls queue r. list_all within_limit calls \<longrightarrow> list_all within_limit (fst r)",
        OF _ assms(1)])
    fix f api chat calls queue r
    assume IH: "\<And>api chat calls queue r. f api chat calls queue = Some r \<Longrightarrow>
        list_all within_limit calls \<longrightarrow> list_all within_limit (fst r)"
      and eq: "(if queue = [] then Some (calls, None)
        else (case text_step (hd queue) of
            Emit html \<Rightarrow>
              (case snd (send_html_chunk api (length calls) chat html (hd queue)) of
                 None \<Rightarrow> f api chat (calls @ fst (send_html_chunk api (length calls) chat html (hd queue))) (tl queue)
               | Some e \<Rightarrow> Some (calls @ fst (send_html_chunk api (length calls) chat html (hd queue)), Some (SendErr e)))
          | Resplit subChunks \<Rightarrow> f api chat calls (subChunks @ tl queue)
          | Stuck \<Rightarrow> None
          | Panics \<Rightarrow> Some (calls, Some SplitPanic))) = Some r"
    show "list_all within_limit calls \<longrightarrow> list_all within_limit (fst r)"
    proof
      assume ok: "list_all within_limit calls"
      show "list_all within_limit (fst r)"
      proof (cases "queue = []")
        case True
        with eq ok show ?thesis by auto
      next
        case False
        show ?thesis
        proof (cases "text_step (hd queue)")
          case (Emit html)
          let ?cs = "fst (send_html_chunk api (length calls) chat html (hd queue))"
          have "list_all within_limit (calls @ ?cs)"
            using ok text_step_emit [OF Emit] by (auto intro: send_html_chunk_within)
          then show ?thesis using eq False Emit IH by (auto split: option.splits)
        next
          case (Resplit subChunks)
          then show ?thesis using eq False IH ok by auto
        qed (use eq False ok in auto)
      qed
    qed
  qed
  with assms(2) show ?thesis by simp
qed

lemma media_parts_within: "list_all within_limit (fst (send_media_parts api s disk chat content n i parts))"
  by (induction api s disk chat content n i parts rule: send_media_parts.induct)
    (auto simp: media_call_def within_limit_def Let_def split: option.splits prod.splits)



definition running_telegram :: telegram_channel where
  "running_telegram = sample_telegram\<lparr>tg_base := set_running True (tg_base sample_telegram)\<rparr>"

definition sample_tg_outbound :: outbound_message where
  "sample_tg_outbound = \<lparr>om_Channel = ''telegram'', om_ChatID = ''7'', om_Content = ''a < b'', om_Parts = []\<rparr>"

lemma sample_telegram_send:
  "telegram_send (\<lambda>_. True) None {} running_telegram sample_tg_outbound = Some ([SendHtml 7 ''a &lt; b''], None)"
proof -
  have p: "parse_chat_id ''7'' = Some 7" by code_simp
  have h: "markdown_to_telegram_html ''a < b'' = ''a &lt; b''" by code_simp
  have "text_step ''a < b'' = Emit ''a &lt; b''"
    unfolding text_step_def h Let_def by (simp add: runes_of_ascii del: runes_of.simps)
  then have "text_loop (\<lambda>_. True) 7 [] [''a < b''] = Some ([SendHtml 7 ''a &lt; b''], None)"
    by (simp add: text_loop.simps [of _ _ _ "[_]"] text_loop.simps [of _ _ _ "[]"] send_html_chunk_def)
  then show ?thesis
    by (simp add: telegram_send_def running_telegram_def sample_telegram_def set_running_def sample_tg_outbound_def p
        embed_as_caption_def)
qed


text \<open>
  A short text with parts is left to the caption of the first part; when that part has a caption of its
  own, or its file is gone, nothing carries the text, and the send succeeds all the same.
\<close>

lemma media_parts_content:
  assumes "i > 0"
  shows "send_media_parts api s disk chat content n i parts = send_media_parts api s disk chat content' n i parts"
  using assms
  by (induction api s disk chat content n i parts rule: send_media_parts.induct)
    (auto simp: caption_for_def Let_def split: option.splits)

lemma telegram_caption_drops_text:
  assumes "embed_as_caption msg" "om_Parts msg = part # parts" "mp_Caption part \<noteq> [] \<or> resolve s (mp_Ref part) = None"
  shows "telegram_send api (Some s) disk c msg = telegram_send api (Some s) disk c (msg\<lparr>om_Content := []\<rparr>)"
proof -
  have "send_media_parts api s disk chat content n 0 (part # parts) =
      send_media_parts api s disk chat [] n 0 (part # parts)" for chat content n
    using assms(3) media_parts_content [of "Suc 0" api s disk chat content _ parts "[]"]
    by (auto simp: caption_for_def Let_def split: option.splits)
  with assms(1,2) show ?thesis by (simp add: telegram_send_def embed_as_caption_def split: option.splits)
qed

subsection \<open>Rounding errors\<close>

lemma pow2_power_int: "pow2 e = 2 powi e"
  by (simp add: pow2_def power_int_def power_inverse inverse_eq_divide power_one_over)

lemma pow2_pos [simp]: "0 < pow2 e"
  by (simp add: pow2_def)

lemma pow2_exponent:
  assumes "0 < x"
  shows "pow2 (exponent x) \<le> x"
proof -
  obtain a b where q: "quotient_of x = (a, b)" by force
  have b: "0 < b" using quotient_of_denom_pos [OF q] .
  have x: "x = of_int a / of_int b" using quotient_of_div [OF q] .
  then have a: "0 < a" using assms b by (simp add: zero_less_divide_iff)
  define k where "k = int (floorlog 2 (nat a)) - int (floorlog 2 (nat b))"
  have "2 ^ (floorlog 2 (nat a) - 1) \<le> nat a" "nat b < 2 ^ floorlog 2 (nat b)" "floorlog 2 (nat a) > 0"
    using floorlog_bounds [of "nat a" 2] floorlog_bounds [of "nat b" 2] a b floorlog_eq_zero_iff [of 2 "nat a"] by auto
  then have ab: "2 ^ (floorlog 2 (nat a) - 1) \<le> a" "b \<le> 2 ^ floorlog 2 (nat b)" "floorlog 2 (nat a) > 0"
    using a b by (auto simp: nat_less_iff le_nat_iff)
  have "pow2 (k - 1) = 2 ^ (floorlog 2 (nat a) - 1) / 2 ^ floorlog 2 (nat b)"
  proof -
    have "k - 1 = int (floorlog 2 (nat a) - 1) - int (floorlog 2 (nat b))" using ab(3) by (simp add: k_def of_nat_diff)
    then show ?thesis by (simp add: pow2_power_int power_int_diff)
  qed
  also have "\<dots> \<le> of_int a / of_int b"
  proof (rule frac_le)
    show "(2::rat) ^ (floorlog 2 (nat a) - 1) \<le> of_int a" using ab(1) by (metis of_int_le_iff of_int_numeral of_int_power)
    show "of_int b \<le> (2::rat) ^ floorlog 2 (nat b)" using ab(2) by (metis of_int_le_iff of_int_numeral of_int_power)
  qed (use a b in auto)
  finally have "pow2 (k - 1) \<le> x" using x by simp
  then show ?thesis by (simp add: exponent_def q Let_def k_def)
qed

lemma round_even_error: "\<bar>of_int (round_even y) - y\<bar> \<le> 1 / 2"
  using floor_correct [of y] by (auto simp: round_even_def Let_def abs_le_iff)

lemma fl64_error:
  assumes "0 < x"
  shows "\<bar>fl64 x - x\<bar> \<le> x / 2 ^ 53"
proof -
  define u where "u = pow2 (exponent x - 52)"
  have u: "0 < u" "u * 2 ^ 52 = pow2 (exponent x)"
    by (simp_all add: u_def) (simp add: pow2_power_int power_int_diff)
  have "\<bar>fl64 x - x\<bar> = u * \<bar>of_int (round_even (x / u)) - x / u\<bar>"
  proof -
    have "fl64 x - x = u * (of_int (round_even (x / u)) - x / u)"
      using u(1) by (simp add: fl64_def u_def [symmetric] field_simps)
    then show ?thesis using u(1) by (simp add: abs_mult)
  qed
  also have "\<dots> \<le> u * (1 / 2)" using round_even_error u(1) by (intro mult_left_mono) auto
  also have "\<dots> \<le> x / 2 ^ 53" using u(2) pow2_exponent [OF assms] by simp
  finally show ?thesis .
qed

lemma fl64_bounds:
  assumes "0 < x"
  shows "x * (1 - 1 / 2 ^ 53) \<le> fl64 x" "fl64 x \<le> x * (1 + 1 / 2 ^ 53)"
proof -
  define d where "d = x / 2 ^ 53"
  have "x * (1 - 1 / 2 ^ 53) = x - d" "x * (1 + 1 / 2 ^ 53) = x + d"
    by (simp_all add: d_def right_diff_distrib distrib_left)
  then show "x * (1 - 1 / 2 ^ 53) \<le> fl64 x" "fl64 x \<le> x * (1 + 1 / 2 ^ 53)"
    using fl64_error [OF assms] unfolding d_def [symmetric] abs_diff_le_iff by simp_all
qed


lemma fl64_factor:
  obtains q :: rat where "1 < q" "q \<le> 1 + 1 / 10 ^ 15" "\<And>x. 0 < x \<Longrightarrow> 0 < fl64 x \<and> x / q \<le> fl64 x + x / 10 ^ 15 \<and> fl64 x \<le> x * q"
proof
  let ?q = "1 + 1 / 2 ^ 53 :: rat"
  show "1 < ?q" "?q \<le> 1 + 1 / 10 ^ 15" by simp_all
  fix x :: rat
  assume x: "0 < x"
  have "0 < x * (1 - 1 / 2 ^ 53)" using x by simp
  then have "0 < fl64 x" using fl64_bounds(1) [OF x] by (rule less_le_trans)
  moreover have "x / ?q \<le> x" using x by (simp add: field_simps)
  moreover have "x \<le> fl64 x + x / 10 ^ 15"
  proof -
    have "x - x / 10 ^ 15 \<le> x * (1 - 1 / 2 ^ 53)" using x by (simp add: field_simps)
    then show ?thesis using fl64_bounds(1) [OF x] by simp
  qed
  ultimately show "0 < fl64 x \<and> x / ?q \<le> fl64 x + x / 10 ^ 15 \<and> fl64 x \<le> x * ?q"
    using fl64_bounds(2) [OF x] by auto
qed

text \<open>The length asked for is below that of the text, so the pieces get shorter.\<close>

lemma smaller_len_less:
  assumes "n > 100" "h > 4096"
  shows "smaller_len n h < int n"
proof -
  obtain q :: rat where q: "1 < q" "q \<le> 1 + 1 / 10 ^ 15" and
    fl: "\<And>x. 0 < x \<Longrightarrow> 0 < fl64 x" "\<And>x. 0 < x \<Longrightarrow> fl64 x \<le> x * q"
    by (rule fl64_factor) auto
  define r where "r = (of_nat n / of_nat h :: rat)"
  have r: "0 < r" "4096 * r < of_nat n" using assms by (auto simp: r_def field_simps)
  have q2: "0 < q" "q * q * q * q * (95 / 100) \<le> 1"
  proof -
    have q1: "q \<le> 101 / 100" using q(2) by simp
    have "q * q \<le> 101 / 100 * (101 / 100)" by (rule mult_mono [OF q1 q1]) (use q(1) in simp_all)
    then have "q * q * (q * q) \<le> 101 / 100 * (101 / 100) * (101 / 100 * (101 / 100))"
      by (rule mult_mono) (use \<open>q * q \<le> _\<close> q(1) in simp_all)
    then have "q * q * q * q \<le> 101 / 100 * (101 / 100) * (101 / 100 * (101 / 100))" by (simp add: mult.assoc)
    then show "q * q * q * q * (95 / 100) \<le> 1" by simp
  qed (use q(1) in simp)
  have "fl64 (4096 * fl64 r) \<le> 4096 * fl64 r * q" using fl r by simp
  also have "\<dots> \<le> 4096 * (r * q) * q" using fl(2) [OF r(1)] q2(1) by simp
  finally have p1: "fl64 (4096 * fl64 r) \<le> 4096 * (r * q) * q" .
  have p2: "fl64 (95 / 100) \<le> 95 / 100 * q" using fl(2) [of "95 / 100"] by simp
  have pos: "0 < fl64 (4096 * fl64 r)" "0 < fl64 (95 / 100)" using fl(1) r(1) by simp_all
  have "fl64 (fl64 (4096 * fl64 r) * fl64 (95 / 100)) \<le> fl64 (4096 * fl64 r) * fl64 (95 / 100) * q"
    using pos by (intro fl(2)) simp
  also have "\<dots> \<le> 4096 * (r * q) * q * (95 / 100 * q) * q"
    using pos p1 p2 q2(1) r(1) by (intro mult_right_mono mult_mono) auto
  also have "\<dots> = 4096 * r * (q * q * q * q * (95 / 100))" by (simp add: algebra_simps)
  also have "\<dots> \<le> 4096 * r * 1" using q2(2) r(1) by (intro mult_left_mono) auto
  also have "\<dots> < of_nat n" using r(2) by simp
  finally have "\<lfloor>fl64 (fl64 (4096 * fl64 r) * fl64 (95 / 100))\<rfloor> < int n" by (simp add: floor_less_iff)
  with assms(1) show ?thesis by (simp add: smaller_len_def r_def)
qed


subsection \<open>Sends that return\<close>

text \<open>
  A text whose stretches of up to 100 runes all have an HTML within the limit: the queue empties, since
  the pieces of a text that is too long are shorter than the text.
\<close>

definition short_html :: "rune list \<Rightarrow> bool" where
  "short_html rs \<longleftrightarrow>
    (\<forall>a c b. rs = a @ c @ b \<longrightarrow> length c \<le> 100 \<longrightarrow>
      length (runes_of (markdown_to_telegram_html (string_of_runes c))) \<le> 4096)"

lemma short_html_stretch: "short_html (a @ c @ b) \<Longrightarrow> short_html c"
  unfolding short_html_def by (metis append.assoc)

lemma has_fence_stretch: "\<not> has_fence (a @ c @ b) \<Longrightarrow> \<not> has_fence c"
proof -
  have "has_fence c \<Longrightarrow> has_fence (c @ b)" by (induction c rule: has_fence.induct) auto
  moreover have "has_fence (c @ b) \<Longrightarrow> has_fence (a @ c @ b)" using has_fence_drop [of "length a" "a @ c @ b"] by simp
  ultimately show "\<not> has_fence (a @ c @ b) \<Longrightarrow> \<not> has_fence c" by blast
qed

lemma runes_of_valid: "\<forall>r \<in> set rs. scalar r = r \<Longrightarrow> runes_of (string_of_runes rs) = rs"
  by (simp add: runes_of_string_of_runes map_idI)

lemma text_loop_returns:
  assumes "\<forall>r \<in> set rs. scalar r = r" "\<not> has_fence rs" "short_html rs"
    and "\<And>calls. \<exists>r. text_loop api chat calls rest = Some r"
  shows "\<exists>r. text_loop api chat calls (string_of_runes rs # rest) = Some r"
  using assms
proof (induction "length rs" arbitrary: rs rest calls rule: less_induct)
  case less
  let ?chunk = "string_of_runes rs" and ?html = "markdown_to_telegram_html (string_of_runes rs)"
  have len: "runes_of ?chunk = rs" using less.prems(1) by (rule runes_of_valid)
  show ?case
  proof (cases "length (runes_of ?html) > 4096")
    case False
    then have "text_step ?chunk = Emit ?html" by (simp add: text_step_def Let_def)
    then show ?thesis
      using less.prems(4) by (auto simp: text_loop.simps [of _ _ _ "_ # _"] split: option.splits)
  next
    case True
    then have big: "length rs > 100"
      using less.prems(3) [unfolded short_html_def, rule_format, of "[]" rs "[]"] by force
    define m where "m = smaller_len (length rs) (length (runes_of ?html))"
    have m: "0 < m" "m < int (length rs)"
      using smaller_len_less [OF big True] by (simp_all add: m_def smaller_len_def)
    obtain chunks where chunks: "split_message rs m = Some (Inr chunks)"
        "\<And>c. c \<in> set chunks \<Longrightarrow> int (length c) \<le> m \<and> (\<exists>a b. rs = a @ c @ b)"
      using split_message_stretches [OF less.prems(2) m(1)] by blast
    have "text_step ?chunk = Resplit (map string_of_runes chunks)"
      using True chunks(1) len by (simp add: text_step_def split_text_def Let_def m_def)
    moreover have "\<exists>r. text_loop api chat calls (map string_of_runes cs @ rest) = Some r"
      if "set cs \<subseteq> set chunks" for cs calls
      using that
    proof (induction cs arbitrary: calls)
      case Nil
      then show ?case using less.prems(4) by simp
    next
      case (Cons c cs)
      then obtain a b where ab: "rs = a @ c @ b" "int (length c) \<le> m" using chunks(2) [of c] by auto
      have "\<exists>r. text_loop api chat calls (string_of_runes c # map string_of_runes cs @ rest) = Some r"
      proof (rule less.hyps)
        show "length c < length rs" using ab(2) m(2) by linarith
        show "\<forall>r \<in> set c. scalar r = r" using less.prems(1) ab(1) by simp
        show "\<not> has_fence c" using less.prems(2) ab(1) has_fence_stretch by blast
        show "short_html c" using less.prems(3) ab(1) short_html_stretch by blast
      qed (use Cons in auto)
      then show ?case by simp
    qed
    ultimately show ?thesis by (simp add: text_loop.simps [of _ _ _ "_ # _"])
  qed
qed

text \<open>
  sending returns for every text of valid UTF-8 without a code fence whose short stretches have an
  HTML within the limit, whichever calls fail.
\<close>

theorem telegram_send_returns:
  assumes "om_Content msg = string_of_runes rs" "\<forall>r \<in> set rs. scalar r = r" "\<not> has_fence rs" "short_html rs"
  shows "\<exists>calls err. telegram_send api store disk c msg = Some (calls, err)"
proof -
  have "\<exists>r. text_loop api chat [] [om_Content msg] = Some r" for chat
    unfolding assms(1) by (rule text_loop_returns [OF assms(2-4)]) (simp add: text_loop.simps [of _ _ _ "[]"])
  then obtain f where f: "\<And>chat. text_loop api chat [] [om_Content msg] = Some (f chat)" by metis
  show ?thesis
    unfolding telegram_send_def f by (auto split: option.splits prod.splits if_splits)
qed

text \<open>A text of one ordinary letter is its own HTML.\<close>

lemma letters_html: "markdown_to_telegram_html (string_of_runes (replicate n 97)) = replicate n CHR ''a''"
proof -
  have s: "string_of_runes (replicate n 97) = replicate n CHR ''a''"
  proof -
    have "is_ascii (replicate n CHR ''a'')" by (induction n) simp_all
    from string_of_runes_ascii [OF this] show ?thesis by simp
  qed
  have "plain_start (replicate n CHR ''a'')" by (cases n) (simp_all add: plain_start_def)
  moreover have "concat (map escape_char (replicate n CHR ''a'')) = replicate n CHR ''a''"
    by (induction n) (simp_all add: escape_char_def)
  ultimately show ?thesis using plain_text_html [of "replicate n CHR ''a''"] unfolding s by (simp add: ordinary_def)
qed

lemma letters_short: "short_html (replicate n 97)"
proof -
  have "length (runes_of (markdown_to_telegram_html (string_of_runes c))) \<le> 4096"
    if "replicate n 97 = a @ c @ b" "length c \<le> 100" for a c b
  proof -
    have "set c \<subseteq> {97}" using that(1) by (metis Un_upper1 Un_upper2 order_trans set_append set_replicate_conv_if subset_insertI)
    then have "c = replicate (length c) 97" by (intro replicate_eqI) auto
    then have "markdown_to_telegram_html (string_of_runes c) = replicate (length c) CHR ''a''" using letters_html by metis
    then show ?thesis using that(2) length_runes_of [of "replicate (length c) CHR ''a''"] by simp
  qed
  then show ?thesis unfolding short_html_def by blast
qed

theorem telegram_send_returns_witness:
  "\<exists>calls err. telegram_send (\<lambda>n. n < 3) None {} running_telegram
     (sample_tg_outbound\<lparr>om_Content := string_of_runes (replicate 5000 97)\<rparr>) = Some (calls, err)"
proof -
  have "\<not> has_fence (replicate n 97)" for n
  proof (induction n)
    case (Suc n)
    then show ?case by (cases "replicate n (97::nat)" rule: has_fence.cases) auto
  qed simp
  then show ?thesis
    by (intro telegram_send_returns [OF _ _ _ letters_short]) (auto simp: scalar_def)
qed

subsection \<open>Delays of the command registration\<close>

lemma command_registration_delay_bounds:
  fixes rnd :: rat and attempt :: nat
  assumes "0 \<le> rnd" "rnd < 1"
  defines "base \<equiv> command_registration_backoff ! min attempt 4"
  shows "base div 2 - 1 \<le> command_registration_delay rnd attempt \<and> command_registration_delay rnd attempt \<le> base"
proof -
  obtain q :: rat where q: "1 < q" "q \<le> 1 + 1 / 10 ^ 15" and
    fl: "\<And>x. 0 < x \<Longrightarrow> 0 < fl64 x \<and> x / q \<le> fl64 x + x / 10 ^ 15 \<and> fl64 x \<le> x * q"
    by (rule fl64_factor) auto
  have low: "x * (1 - 1 / 10 ^ 14) \<le> fl64 x" if "0 < x" for x
  proof -
    have "x * (1 - 1 / 10 ^ 15) \<le> x / q"
    proof -
      have "(1 - 1 / 10 ^ 15) * q \<le> (1 - 1 / 10 ^ 15) * (1 + 1 / 10 ^ 15 :: rat)" using q(2) by (intro mult_left_mono) auto
      also have "\<dots> \<le> 1" by simp
      finally show ?thesis using that q(1) by (simp add: pos_le_divide_eq mult.assoc)
    qed
    then show ?thesis using fl [OF that] that by (simp add: algebra_simps)
  qed
  have "base \<in> {5000000000, 15000000000, 60000000000, 300000000000, 600000000000}"
  proof -
    have "min attempt 4 \<in> {0, 1, 2, 3, 4}" by auto
    then show ?thesis by (auto simp: base_def command_registration_backoff_def)
  qed
  then have base: "0 < base" "base \<le> 600000000000" "even base" by auto
  define f where "f = fl64 (1 / 2 + rnd * (1 / 2))"
  have f: "1 / 2 * (1 - 1 / 10 ^ 14) \<le> f" "f \<le> q" "0 < f"
  proof -
    have r: "0 < 1 / 2 + rnd * (1 / 2)" "1 / 2 + rnd * (1 / 2) \<le> 1" using assms(1,2) by auto
    show "1 / 2 * (1 - 1 / 10 ^ 14) \<le> f"
      using low [OF r(1)] assms(1) unfolding f_def by simp
    have "f \<le> (1 / 2 + rnd * (1 / 2)) * q" using fl [OF r(1)] by (simp add: f_def)
    also have "\<dots> \<le> 1 * q" by (rule mult_right_mono [OF r(2)]) (use q(1) in simp)
    finally show "f \<le> q" by simp
    show "0 < f" using fl [OF r(1)] by (simp add: f_def)
  qed
  define d where "d = fl64 (of_int base * f)"
  have pos: "0 < of_int base * f" using base(1) f(3) by simp
  have up: "d < of_int base + 1"
  proof -
    have "d \<le> of_int base * f * q" using fl [OF pos] by (simp add: d_def)
    also have "\<dots> \<le> of_int base * q * q" using f(2) base(1) q(1) by simp
    also have "\<dots> \<le> of_int base * (1 + 1 / 10 ^ 15) * (1 + 1 / 10 ^ 15)"
      using base(1) q by (intro mult_mono) auto
    also have "\<dots> < of_int base + 1" using base(2) by simp
    finally show ?thesis .
  qed
  have down: "of_int (base div 2 - 1) \<le> d"
  proof -
    have half: "(of_int (base div 2) :: rat) = of_int base / 2" using base(3) by (auto elim!: evenE)
    have "of_int (base div 2 - 1) \<le> of_int base * (1 / 2 * (1 - 1 / 10 ^ 14)) * (1 - 1 / 10 ^ 14 :: rat)"
      using base(1,2) by (simp add: half)
    also have "\<dots> \<le> of_int base * f * (1 - 1 / 10 ^ 14)"
      using f(1) base(1) by (intro mult_right_mono mult_left_mono) auto
    also have "\<dots> \<le> d" using low [OF pos] by (simp add: d_def)
    finally show ?thesis .
  qed
  have "command_registration_delay rnd attempt = \<lfloor>d\<rfloor>"
    by (simp add: command_registration_delay_def d_def f_def base_def command_registration_backoff_def
        eval_nat_numeral)
  then show ?thesis using up down by (simp add: le_floor_iff floor_le_iff)
qed

text \<open>
  the registration of the commands ends as soon as an attempt succeeds or the channel stops, and it
  waits between half and all of the delay of each attempt, to the nanosecond.
\<close>

theorem command_registration_ends:
  assumes "ok k \<or> cancelled k" "\<And>i. 0 \<le> rnd i \<and> rnd i < 1"
  shows "\<exists>delays done. command_registration rnd ok cancelled 0 [] = Some (delays, done) \<and> length delays \<le> k \<and>
    (done \<longleftrightarrow> ok (length delays)) \<and>
    (\<forall>i < length delays. let base = command_registration_backoff ! min i 4 in
      base div 2 - 1 \<le> delays ! i \<and> delays ! i \<le> base)"
proof -
  let ?ok = "\<lambda>delays. \<forall>i < length delays. let base = command_registration_backoff ! min i 4 in
      base div 2 - 1 \<le> delays ! i \<and> delays ! i \<le> base"
  have "\<exists>delays' done. command_registration rnd ok cancelled n delays = Some (delays', done) \<and> length delays' \<le> k \<and>
      (done \<longleftrightarrow> ok (length delays')) \<and> ?ok delays'"
    if "n \<le> k" "length delays = n" "?ok delays" for n delays
    using that
  proof (induction "k - n" arbitrary: n delays rule: less_induct)
    case less
    show ?case
    proof (cases "ok n \<or> cancelled n")
      case True
      with less.prems show ?thesis by (auto simp: command_registration.simps [of _ _ _ n])
    next
      case False
      with assms(1) less.prems(1) have n: "n < k" by (cases "n = k") auto
      let ?ds = "delays @ [command_registration_delay (rnd n) n]"
      have "?ok ?ds"
        using less.prems(2,3) command_registration_delay_bounds [of "rnd n" n] assms(2)
        by (auto simp: nth_append Let_def less_Suc_eq)
      then have "\<exists>delays' done. command_registration rnd ok cancelled (Suc n) ?ds = Some (delays', done) \<and>
          length delays' \<le> k \<and> (done \<longleftrightarrow> ok (length delays')) \<and> ?ok delays'"
        using n less.prems(2) by (intro less.hyps) auto
      with False show ?thesis by (simp add: command_registration.simps [of _ _ _ n])
    qed
  qed
  from this [of 0 "[]"] show ?thesis by simp
qed

theorem command_registration_ends_witness:
  "\<exists>delays done. command_registration (\<lambda>_. 1 / 3) (\<lambda>n. n = 7) (\<lambda>n. n = 9) 0 [] = Some (delays, done) \<and> length delays \<le> 7"
  using command_registration_ends [of "\<lambda>n. n = 7" 7 "\<lambda>n. n = 9" "\<lambda>_. 1 / 3"] by auto

subsection \<open>What is published\<close>

lemma telegram_passed_on:
  assumes "telegram_handle_message U E c message = Inr (c', store', n, effs)" "effs \<noteq> []"
  shows "passed_on U ''telegram'' (tg_base c) effs"
proof -
  have peer: "peer_ok (telegram_sender U (i, rest)) chat (telegram_peer i m)" for i rest chat m
    by (cases rest) (simp add: peer_ok_def telegram_peer_def telegram_sender_def)
  have sender: "Platform (telegram_sender U user) = ''telegram''" "PlatformID (telegram_sender U user) = format_int (fst user)"
      "CanonicalID (telegram_sender U user) = build_canonical_id U ''telegram'' (format_int (fst user))" for user
    by (cases user; simp add: telegram_sender_def)+
  show ?thesis
    using assms
    by (auto simp: telegram_handle_message_def Let_def peer sender split: option.splits if_splits prod.splits
        intro!: passed_onI)
qed

definition telegram_effects :: "unicode \<Rightarrow> telegram_env \<times> tg_message option \<Rightarrow> telegram_channel \<Rightarrow> channel_effect list" where
  "telegram_effects U = (\<lambda>(E, message) c.
    case telegram_handle_message U E c message of Inl _ \<Rightarrow> [] | Inr (_, _, _, effs) \<Rightarrow> effs)"

interpretation telegram_inbound: inbound_adapter U "''telegram''" tg_base "telegram_effects U" for U
  by unfold_locales (auto simp: telegram_effects_def dest: telegram_passed_on split: sum.splits)

end
