(* ===== verification/Discord.thy ===== *)
theory Discord
  imports Go_Regex Go_Numbers Base_Channel Media Utils
begin

text \<open>
  \<open>pkg/channels/discord/discord.go\<close>: the Discord adapter. What the session of the client library
  answers, downloads, the media store and the files on disk are arguments.
\<close>

subsection \<open>State\<close>

record discord_config =
  dc_Token :: string
  dc_Proxy :: string
  dc_AllowFrom :: "string list"
  dc_GroupTrigger :: group_trigger
  dc_ReasoningChannelID :: string

text \<open>The stop channels of the typing loops are numbers; the closed ones are kept.\<close>

record typing_loops =
  tl_stop :: "string \<rightharpoonup> nat"
  tl_next :: nat
  tl_closed :: "nat set"

definition no_typing :: typing_loops where
  "no_typing = \<lparr>tl_stop = Map.empty, tl_next = 0, tl_closed = {}\<rparr>"

record discord_channel =
  dd_base :: base_channel
  dd_config :: discord_config
  dd_proxy :: "string option option"
  dd_botUserID :: string
  dd_typing :: typing_loops

text \<open>\<open>applyDiscordProxy\<close>: no proxy, the one of the environment, or the given address.\<close>

definition apply_discord_proxy :: "(string \<Rightarrow> bool) \<Rightarrow> bool \<Rightarrow> string \<Rightarrow> string + string option option" where
  "apply_discord_proxy url_ok envProxy proxyAddr =
    (if proxyAddr \<noteq> [] then
       (if url_ok proxyAddr then Inr (Some (Some proxyAddr)) else Inl ''invalid discord proxy URL'')
     else if envProxy then Inr (Some None) else Inr None)"

definition new_discord_channel ::
  "(string \<Rightarrow> bool) \<Rightarrow> bool \<Rightarrow> string option \<Rightarrow> discord_config \<Rightarrow> string + discord_channel" where
  "new_discord_channel url_ok envProxy sessionErr cfg =
    (case sessionErr of
       Some e \<Rightarrow> Inl (''failed to create discord session: '' @ e)
     | None \<Rightarrow>
         (case apply_discord_proxy url_ok envProxy (dc_Proxy cfg) of
            Inl e \<Rightarrow> Inl e
          | Inr proxy \<Rightarrow>
              Inr \<lparr>dd_base = new_base_channel ''discord'' (dc_AllowFrom cfg)
                     [with_max_message_length 2000, with_group_trigger (dc_GroupTrigger cfg),
                      with_reasoning_channel_id (dc_ReasoningChannelID cfg)],
                   dd_config = cfg, dd_proxy = proxy, dd_botUserID = [], dd_typing = no_typing\<rparr>))"

definition discord_start ::
  "string + string \<Rightarrow> string option \<Rightarrow> discord_channel \<Rightarrow> discord_channel \<times> string option" where
  "discord_start botUser openErr c =
    (case botUser of
       Inl e \<Rightarrow> (c, Some (''failed to get bot user: '' @ e))
     | Inr userID \<Rightarrow>
         (case openErr of
            Some e \<Rightarrow> (c\<lparr>dd_botUserID := userID\<rparr>, Some (''failed to open discord session: '' @ e))
          | None \<Rightarrow> (c\<lparr>dd_botUserID := userID, dd_base := set_running True (dd_base c)\<rparr>, None)))"

subsection \<open>Typing loops\<close>

text \<open>Closing a channel that is closed already panics: \<open>None\<close>.\<close>

definition close_loop :: "nat \<Rightarrow> typing_loops \<Rightarrow> typing_loops option" where
  "close_loop i t = (if i \<in> tl_closed t then None else Some (t\<lparr>tl_closed := insert i (tl_closed t)\<rparr>))"

definition start_typing :: "string \<Rightarrow> typing_loops \<Rightarrow> typing_loops option" where
  "start_typing chatID t =
    map_option (\<lambda>t. t\<lparr>tl_stop := (tl_stop t)(chatID \<mapsto> tl_next t), tl_next := tl_next t + 1\<rparr>)
      (case tl_stop t chatID of None \<Rightarrow> Some t | Some i \<Rightarrow> close_loop i t)"

definition stop_typing :: "string \<Rightarrow> typing_loops \<Rightarrow> typing_loops option" where
  "stop_typing chatID t =
    (case tl_stop t chatID of
       None \<Rightarrow> Some t
     | Some i \<Rightarrow> map_option (\<lambda>t. t\<lparr>tl_stop := (tl_stop t)(chatID := None)\<rparr>) (close_loop i t))"

text \<open>\<open>Stop\<close>: all loops end, in the order the map gives them, then the session is closed.\<close>

fun stop_all_typing :: "string list \<Rightarrow> typing_loops \<Rightarrow> typing_loops option" where
  "stop_all_typing [] t = Some t"
| "stop_all_typing (chatID # order) t = Option.bind (stop_typing chatID t) (stop_all_typing order)"

definition discord_stop :: "string list \<Rightarrow> string option \<Rightarrow> discord_channel \<Rightarrow> (discord_channel \<times> string option) option" where
  "discord_stop order closeErr c =
    map_option (\<lambda>t. (c\<lparr>dd_base := set_running False (dd_base c), dd_typing := t\<rparr>,
        map_option ((@) ''failed to close discord session: '') closeErr))
      (stop_all_typing order (dd_typing c))"

datatype discord_typing_op = StartTypingOp string | StopTypingOp string | StopAllTypingOp "string list"

fun typing_step :: "discord_typing_op \<Rightarrow> typing_loops \<Rightarrow> typing_loops option" where
  "typing_step (StartTypingOp c) t = start_typing c t"
| "typing_step (StopTypingOp c) t = stop_typing c t"
| "typing_step (StopAllTypingOp order) t = stop_all_typing order t"

fun typing_run :: "discord_typing_op list \<Rightarrow> typing_loops \<Rightarrow> typing_loops option" where
  "typing_run [] t = Some t"
| "typing_run (x # xs) t = Option.bind (typing_step x t) (typing_run xs)"

text \<open>The loops that were started and not told to stop.\<close>

definition live_loops :: "typing_loops \<Rightarrow> nat set" where
  "live_loops t = {i. i < tl_next t \<and> i \<notin> tl_closed t}"

subsection \<open>Sending\<close>

datatype discord_call =
    SendText string string
  | SendFiles string string "(string \<times> string \<times> string) list"

text \<open>What a call gives before its time is up: an answer, or the error of the context.\<close>

datatype discord_answer = Sent | Refused | TimedOut string

definition call_result :: "string \<Rightarrow> discord_answer \<Rightarrow> send_error option" where
  "call_result what answer =
    (case answer of
       Sent \<Rightarrow> None
     | Refused \<Rightarrow> Some (Wrapped ErrTemporary what)
     | TimedOut e \<Rightarrow> Some (OtherError e))"

definition discord_file :: "media_store \<Rightarrow> string set \<Rightarrow> media_part \<Rightarrow> (string \<times> string \<times> string) list" where
  "discord_file s disk part =
    (case resolve s (mp_Ref part) of
       None \<Rightarrow> []
     | Some path \<Rightarrow>
         if path \<in> disk
         then [(if mp_Filename part = [] then ''file'' else mp_Filename part, mp_ContentType part, path)] else [])"

definition discord_send ::
  "discord_answer \<Rightarrow> media_store option \<Rightarrow> string set \<Rightarrow> discord_channel \<Rightarrow> outbound_message \<Rightarrow>
    discord_call list \<times> send_error option" where
  "discord_send answer store disk c msg =
    (let channelID = om_ChatID msg;
         chunk = ([SendText channelID (om_Content msg)], call_result ''discord send'' answer)
     in
       if \<not> bc_running (dd_base c) then ([], Some (Sentinel ErrNotRunning))
       else if channelID = [] then ([], Some (OtherError ''channel ID is empty''))
       else if om_Content msg = [] \<and> om_Parts msg = [] then ([], None)
       else if om_Parts msg = [] then chunk
       else
         (case store of
            None \<Rightarrow> ([], Some (Wrapped ErrSendFailed ''no media store available''))
          | Some s \<Rightarrow>
              let files = concat (map (discord_file s disk) (om_Parts msg)) in
                if files = [] then chunk
                else ([SendFiles channelID (om_Content msg) files], call_result ''discord send media'' answer)))"

subsection \<open>References in a text\<close>

definition channelRefRe :: "string \<Rightarrow> (string \<times> string) option" where
  "channelRefRe s =
    (if has_prefix ''<#'' s then
       (let ds = takeWhile is_digit (drop 2 s); rest = drop (length ds) (drop 2 s) in
        if ds \<noteq> [] \<and> has_prefix ''>'' rest then Some (ds, tl rest) else None)
     else None)"

text \<open>Digits and a slash, and the link of a message.\<close>

definition digits_slash :: "string \<Rightarrow> (string \<times> string) option" where
  "digits_slash s =
    (let ds = takeWhile is_digit s; rest = drop (length ds) s in
     if ds \<noteq> [] \<and> has_prefix ''/'' rest then Some (ds, tl rest) else None)"

definition msgLinkRe :: "string \<Rightarrow> ((string \<times> string \<times> string) \<times> string) option" where
  "msgLinkRe s =
    (case List.find (\<lambda>h. has_prefix (''https://'' @ h @ ''/channels/'') s) [''discord.com'', ''discordapp.com''] of
       None \<Rightarrow> None
     | Some h \<Rightarrow>
         (case digits_slash (drop (length (''https://'' @ h @ ''/channels/'')) s) of
            None \<Rightarrow> None
          | Some (guild, s1) \<Rightarrow>
              (case digits_slash s1 of
                 None \<Rightarrow> None
               | Some (channel, s2) \<Rightarrow>
                   let message = takeWhile is_digit s2 in
                     if message = [] then None else Some ((guild, channel, message), drop (length message) s2))))"

text \<open>What the session knows: names of channels (cached or by the API) and messages with their author.\<close>

record discord_session =
  ds_cached :: "string \<Rightarrow> string option"
  ds_channel :: "string \<Rightarrow> string option"
  ds_message :: "string \<Rightarrow> string \<Rightarrow> (string option \<times> string) option"
  ds_userID :: string

definition resolve_channel :: "discord_session \<Rightarrow> string \<Rightarrow> string" where
  "resolve_channel S i =
    (case ds_cached S i of
       Some name \<Rightarrow> ''#'' @ name
     | None \<Rightarrow> (case ds_channel S i of Some name \<Rightarrow> ''#'' @ name | None \<Rightarrow> ''<#'' @ i @ ''>''))"

definition author_name :: "string option \<Rightarrow> string" where
  "author_name a = (case a of None \<Rightarrow> ''unknown'' | Some n \<Rightarrow> n)"

definition expand_link :: "discord_session \<Rightarrow> string \<Rightarrow> string \<times> string \<times> string \<Rightarrow> string" where
  "expand_link S guildID = (\<lambda>(linkGuildID, channelID, messageID).
    if linkGuildID \<noteq> guildID then []
    else
      (case ds_message S channelID messageID of
         None \<Rightarrow> []
       | Some (author, content) \<Rightarrow>
           if content = [] then []
           else [newline] @ ''[linked message from '' @ author_name author @ '']: '' @ content))"

definition resolve_discord_refs :: "discord_session \<Rightarrow> string \<Rightarrow> string \<Rightarrow> string" where
  "resolve_discord_refs S s guildID =
    (let t = replace_matches channelRefRe (resolve_channel S) s in
     t @ concat (map (expand_link S guildID) (take 3 (match_groups msgLinkRe t))))"

definition discord_strip_mention :: "string \<Rightarrow> string \<Rightarrow> string" where
  "discord_strip_mention botUserID s =
    (if botUserID = [] then s
     else trim_space (replace_all (''<@!'' @ botUserID @ ''>'') [] (replace_all (''<@'' @ botUserID @ ''>'') [] s)))"

subsection \<open>Inbound messages\<close>

record discord_author =
  da_ID :: string
  da_Username :: string
  da_Discriminator :: string

record discord_message =
  dm_ID :: string
  dm_Author :: "discord_author option"
  dm_Content :: string
  dm_ChannelID :: string
  dm_GuildID :: string
  dm_Mentions :: "string list"
  dm_Referenced :: "(string option \<times> string) option"
  dm_Attachments :: "(string \<times> string \<times> string) list"

record discord_env =
  de_store :: "media_store option"
  de_disk :: "string set"
  de_ref :: "nat \<Rightarrow> string"
  de_now :: int
  de_download :: "string \<Rightarrow> string \<Rightarrow> string"
  de_prefix :: string
  de_counter :: "64 word"

definition append_content :: "string \<Rightarrow> string \<Rightarrow> string" where
  "append_content content suffix = (if content = [] then suffix else content @ [newline] @ suffix)"

definition discord_sender :: "unicode \<Rightarrow> discord_author \<Rightarrow> sender_info" where
  "discord_sender U a =
    \<lparr>Platform = ''discord'', PlatformID = da_ID a, CanonicalID = build_canonical_id U ''discord'' (da_ID a),
     Username = da_Username a,
     DisplayName = da_Username a @
       (if da_Discriminator a \<noteq> [] \<and> da_Discriminator a \<noteq> ''0'' then ''#'' @ da_Discriminator a else [])\<rparr>"

text \<open>In a guild the group trigger decides, in a direct message only the mention is cut out.\<close>

definition discord_trigger :: "discord_channel \<Rightarrow> discord_message \<Rightarrow> bool \<times> string" where
  "discord_trigger c m =
    (let content = discord_strip_mention (dd_botUserID c) (dm_Content m) in
     if dm_GuildID m \<noteq> []
     then should_respond_in_group (dd_base c) (dd_botUserID c \<in> set (dm_Mentions m)) content
     else (True, content))"

definition with_references :: "discord_session \<Rightarrow> discord_message \<Rightarrow> string \<Rightarrow> string" where
  "with_references S m content =
    (let resolved = resolve_discord_refs S content (dm_GuildID m) in
     case dm_Referenced m of
       None \<Rightarrow> resolved
     | Some (author, refContent) \<Rightarrow>
         if refContent = [] then resolved
         else ''[quoted message from '' @ author_name author @ '']: '' @
           resolve_discord_refs S refContent (dm_GuildID m) @ [newline, newline] @ resolved)"

definition discord_store_media ::
  "discord_env \<Rightarrow> nat \<Rightarrow> string \<Rightarrow> media_store option \<Rightarrow> string \<Rightarrow> string \<Rightarrow> media_store option \<times> string" where
  "discord_store_media E i scope = store_or_path ''discord'' (de_disk E) (de_ref E i) (de_now E) scope"

text \<open>The attachments in order: audio files are downloaded, everything else is passed on by address.\<close>

fun discord_attachments ::
  "unicode \<Rightarrow> discord_env \<Rightarrow> nat \<Rightarrow> string \<Rightarrow> media_store option \<Rightarrow> string \<Rightarrow> (string \<times> string \<times> string) list \<Rightarrow>
    media_store option \<times> string \<times> string list" where
  "discord_attachments U E i scope store content [] = (store, content, [])"
| "discord_attachments U E i scope store content ((url, filename, contentType) # as) =
    (let path = (if is_audio_file U filename contentType then de_download E url filename else []) in
     if path \<noteq> [] then
       let (store', ref) = discord_store_media E i scope store path filename;
           (store'', content', refs) = discord_attachments U E (Suc i) scope store'
             (append_content content (''[audio: '' @ filename @ '']'')) as
       in (store'', content', ref # refs)
     else
       let (store', content', refs) = discord_attachments U E i scope store
             (append_content content (''[attachment: '' @ url @ '']'')) as
       in (store', content', url # refs))"

definition discord_peer :: "discord_message \<Rightarrow> string \<Rightarrow> peer" where
  "discord_peer m senderID =
    (if dm_GuildID m = [] then \<lparr>p_Kind = ''direct'', p_ID = senderID\<rparr>
     else \<lparr>p_Kind = ''channel'', p_ID = dm_ChannelID m\<rparr>)"

definition discord_handle_message ::
  "unicode \<Rightarrow> discord_session \<Rightarrow> discord_env \<Rightarrow> discord_channel \<Rightarrow> discord_message option \<Rightarrow>
    media_store option \<times> channel_effect list \<times> 64 word" where
  "discord_handle_message U S E c message =
    (let ignored = (de_store E, [], de_counter E) in
     case message of
       None \<Rightarrow> ignored
     | Some m \<Rightarrow>
         (case dm_Author m of
            None \<Rightarrow> ignored
          | Some author \<Rightarrow>
              let sender = discord_sender U author; (respond, content) = discord_trigger c m in
                if da_ID author = ds_userID S \<or> \<not> is_allowed_sender U (dd_base c) sender \<or> \<not> respond then ignored
                else
                  let (scope, n) = build_media_scope (de_prefix E) (de_counter E) ''discord'' (dm_ChannelID m) (dm_ID m);
                      (store', content', refs) = discord_attachments U E 0 scope (de_store E)
                        (with_references S m content) (dm_Attachments m)
                  in
                    if content' = [] \<and> refs = [] then (store', [], n)
                    else
                      (store', handle_message U (de_prefix E) n (dd_base c) (discord_peer m (da_ID author)) (dm_ID m)
                         (da_ID author) (dm_ChannelID m) (if content' = [] then ''[media only]'' else content') refs
                         [''user_id'' \<mapsto> da_ID author, ''username'' \<mapsto> da_Username author,
                          ''display_name'' \<mapsto> DisplayName sender, ''guild_id'' \<mapsto> dm_GuildID m,
                          ''channel_id'' \<mapsto> dm_ChannelID m,
                          ''is_dm'' \<mapsto> (if dm_GuildID m = [] then ''true'' else ''false'')]
                         [sender])))"


subsection \<open>One typing loop for each chat\<close>

definition typing_ok :: "typing_loops \<Rightarrow> bool" where
  "typing_ok t \<longleftrightarrow> inj_on (tl_stop t) (dom (tl_stop t)) \<and> live_loops t = ran (tl_stop t) \<and> tl_closed t \<subseteq> {..<tl_next t}"

lemma typing_ok_live: "typing_ok t \<Longrightarrow> tl_stop t c = Some i \<Longrightarrow> i < tl_next t \<and> i \<notin> tl_closed t"
  by (auto simp: typing_ok_def live_loops_def ran_def)

lemma ran_delete:
  assumes "inj_on m (dom m)" "m c = Some i"
  shows "ran (m(c := None)) = ran m - {i}"
proof (intro set_eqI iffI)
  fix x
  assume "x \<in> ran (m(c := None))"
  then obtain a where a: "a \<noteq> c" "m a = Some x" by (auto simp: ran_def split: if_splits)
  then have "x \<noteq> i" using inj_onD [OF assms(1), of a c] assms(2) by auto
  with a show "x \<in> ran m - {i}" by (auto simp: ran_def)
next
  fix x
  assume "x \<in> ran m - {i}"
  then obtain a where a: "m a = Some x" "x \<noteq> i" by (auto simp: ran_def)
  then have "(m(c := None)) a = Some x" using assms(2) by auto
  then show "x \<in> ran (m(c := None))" by (rule ranI)
qed

lemma inj_on_insert:
  assumes "inj_on (m(c := None)) (dom (m(c := None)))" "n \<notin> ran (m(c := None))"
  shows "inj_on (m(c \<mapsto> n)) (dom (m(c \<mapsto> n)))"
proof (rule inj_onI)
  fix a b
  assume ab: "a \<in> dom (m(c \<mapsto> n))" "(m(c \<mapsto> n)) a = (m(c \<mapsto> n)) b"
  have other: "m d \<noteq> Some n" if "d \<noteq> c" for d
    using assms(2) ranI [of "m(c := None)" d n] that by auto
  show "a = b"
  proof (cases "a = c \<or> b = c")
    case True
    with ab(2) other show ?thesis by (auto split: if_splits)
  next
    case False
    with ab obtain y where "m a = Some y" "m b = Some y" by (auto simp: dom_def split: if_splits)
    with False have "(m(c := None)) a = (m(c := None)) b" "a \<in> dom (m(c := None))" "b \<in> dom (m(c := None))"
      by auto
    then show ?thesis using inj_onD [OF assms(1)] by blast
  qed
qed

lemma inj_on_delete: "inj_on m (dom m) \<Longrightarrow> inj_on (m(c := None)) (dom (m(c := None)))"
  by (auto simp: inj_on_def dom_def split: if_splits)

lemma stop_typing_ok:
  assumes "typing_ok t"
  shows "\<exists>t'. stop_typing c t = Some t' \<and> typing_ok t'"
proof (cases "tl_stop t c")
  case (Some i)
  then have i: "i < tl_next t" "i \<notin> tl_closed t" using typing_ok_live [OF assms] by blast+
  have "typing_ok (t\<lparr>tl_closed := insert i (tl_closed t), tl_stop := (tl_stop t)(c := None)\<rparr>)"
    using assms ran_delete [of "tl_stop t" c i] inj_on_delete [of "tl_stop t" c] Some i(1)
    unfolding typing_ok_def live_loops_def by auto
  then show ?thesis using Some i(2) by (simp add: stop_typing_def close_loop_def)
qed (use assms in \<open>simp add: stop_typing_def\<close>)

lemma start_typing_ok:
  assumes "typing_ok t"
  shows "\<exists>t'. start_typing c t = Some t' \<and> typing_ok t'"
proof -
  define m where "m = (tl_stop t)(c := None)"
  have inj: "inj_on m (dom m)"
    using assms inj_on_delete [of "tl_stop t" c] unfolding m_def typing_ok_def by blast
  obtain t1 where t1: "(case tl_stop t c of None \<Rightarrow> Some t | Some i \<Rightarrow> close_loop i t) = Some t1"
      "tl_next t1 = tl_next t" "tl_stop t1 = tl_stop t" "live_loops t1 = ran m" "tl_closed t1 \<subseteq> {..<tl_next t}"
  proof (cases "tl_stop t c")
    case None
    then show ?thesis using that [of t] assms by (auto simp: typing_ok_def m_def fun_upd_idem)
  next
    case (Some i)
    with typing_ok_live [OF assms Some] that [of "t\<lparr>tl_closed := insert i (tl_closed t)\<rparr>"]
      ran_delete [of "tl_stop t" c i] assms
    show ?thesis by (auto simp: typing_ok_def m_def close_loop_def live_loops_def)
  qed
  let ?t' = "t1\<lparr>tl_stop := (tl_stop t1)(c \<mapsto> tl_next t1), tl_next := tl_next t1 + 1\<rparr>"
  have "live_loops ?t' = insert (tl_next t) (live_loops t1)"
    using t1(2,5) by (auto simp: live_loops_def less_Suc_eq)
  moreover have "ran ((tl_stop t)(c \<mapsto> tl_next t)) = insert (tl_next t) (ran m)"
    using ran_map_upd [of m c "tl_next t"] by (simp add: m_def)
  moreover have "tl_next t \<notin> ran m" using t1(2,4) by (auto simp: live_loops_def)
  then have "inj_on ((tl_stop t)(c \<mapsto> tl_next t)) (dom ((tl_stop t)(c \<mapsto> tl_next t)))"
    using inj unfolding m_def by (rule inj_on_insert [rotated])
  ultimately have "typing_ok ?t'"
    using t1 by (auto simp: typing_ok_def)
  then show ?thesis using t1(1) by (simp add: start_typing_def)
qed

lemma typing_run_ok: "typing_ok t \<Longrightarrow> \<exists>t'. typing_run ops t = Some t' \<and> typing_ok t'"
proof (induction ops arbitrary: t)
  case (Cons x ops)
  have "\<exists>t'. typing_step x t = Some t' \<and> typing_ok t'"
  proof (cases x)
    case (StopAllTypingOp order)
    have "\<exists>t'. stop_all_typing order t = Some t' \<and> typing_ok t'" if "typing_ok t" for t
      using that
    proof (induction order arbitrary: t)
      case (Cons c order)
      obtain t' where "stop_typing c t = Some t'" "typing_ok t'" using stop_typing_ok [OF Cons.prems] by blast
      with Cons.IH [of t'] show ?case by simp
    qed simp
    with StopAllTypingOp Cons.prems show ?thesis by simp
  qed (use Cons.prems start_typing_ok stop_typing_ok in auto)
  then obtain t' where "typing_step x t = Some t'" "typing_ok t'" by blast
  with Cons.IH [of t'] show ?case by simp
qed simp



text \<open>
  The function that ends an indicator ends the loop its chat has at that time: the one of an earlier
  message ends the loop of a later one.
\<close>

lemma earlier_stop_ends_later_loop:
  "map_option live_loops (typing_run [StartTypingOp ''a'', StartTypingOp ''a'', StopTypingOp ''a''] no_typing) = Some {}"
  by (auto simp: no_typing_def start_typing_def stop_typing_def close_loop_def live_loops_def less_Suc_eq)

subsection \<open>What references bring in\<close>

text \<open>
  besides the names of its channels a text only gains messages whose link is among its first three
  and names its own guild; in a direct message it gains nothing.
\<close>

theorem discord_refs_expansions:
  "\<exists>links. resolve_discord_refs S s guildID =
      replace_matches channelRefRe (resolve_channel S) s @ concat (map (expand_link S guildID) links) \<and>
    length links \<le> 3 \<and> (\<forall>l \<in> set links. fst l \<noteq> guildID \<longrightarrow> expand_link S guildID l = []) \<and>
    (guildID = [] \<longrightarrow> concat (map (expand_link S guildID) links) = [])"
proof -
  have guild: "fst g \<noteq> []" if "msgLinkRe u = Some (g, rest)" for u g rest
    using that by (auto simp: msgLinkRe_def digits_slash_def Let_def split: option.splits if_splits)
  define t where "t = replace_matches channelRefRe (resolve_channel S) s"
  have none: "expand_link S guildID l = []" if "fst l \<noteq> guildID" for l
    using that by (auto simp: expand_link_def split: prod.splits)
  have "concat (map (expand_link S []) (take 3 (match_groups msgLinkRe t))) = []"
  proof -
    have "expand_link S [] l = []" if "l \<in> set (take 3 (match_groups msgLinkRe t))" for l
      using match_groups_hit [OF in_set_takeD [OF that]] guild by (fastforce simp: expand_link_def split: prod.splits)
    then show ?thesis by auto
  qed
  with none show ?thesis
    unfolding resolve_discord_refs_def Let_def t_def [symmetric]
    by (intro exI [of _ "take 3 (match_groups msgLinkRe t)"]) auto
qed

theorem discord_refs_expansions_witness:
  "\<exists>links. length links \<le> 3 \<and>
    resolve_discord_refs \<lparr>ds_cached = \<lambda>_. Some ''general'', ds_channel = \<lambda>_. None, ds_message = \<lambda>_ _. None, ds_userID = ''1''\<rparr>
      ''see <#12>'' [] = ''see #general'' @ concat (map (expand_link
        \<lparr>ds_cached = \<lambda>_. Some ''general'', ds_channel = \<lambda>_. None, ds_message = \<lambda>_ _. None, ds_userID = ''1''\<rparr> []) links)"
proof -
  let ?S = "\<lparr>ds_cached = \<lambda>_. Some ''general'', ds_channel = \<lambda>_. None, ds_message = \<lambda>_ _. None, ds_userID = ''1''\<rparr>"
  have "replace_matches channelRefRe (resolve_channel ?S) ''see <#12>'' = ''see #general''" by code_simp
  with discord_refs_expansions [of ?S "''see <#12>''" "[]"] show ?thesis by auto
qed

text \<open>
  The link only claims the guild: the message is fetched by the channel of the link, wherever that
  channel is, so a link made up with one's own guild brings in a message of another one.
\<close>

lemma guild_check_bypassed:
  assumes "ds_message S ''99'' ''7'' = Some (Some ''eve'', secret)" "secret \<noteq> []"
  shows "resolve_discord_refs S ''https://discord.com/channels/5/99/7'' ''5'' =
    ''https://discord.com/channels/5/99/7'' @ [newline] @ ''[linked message from eve]: '' @ secret"
proof -
  let ?u = "''https://discord.com/channels/5/99/7''"
  have r: "replace_matches channelRefRe (resolve_channel S) ?u = ?u"
    by (rule replace_matches_none) (auto simp: channelRefRe_def)
  have g: "match_groups msgLinkRe ?u = [(''5'', ''99'', ''7'')]" by code_simp
  show ?thesis
    using assms unfolding resolve_discord_refs_def Let_def r g by (simp add: expand_link_def author_name_def)
qed

subsection \<open>What is published\<close>

lemma discord_passed_on:
  assumes "discord_handle_message U S E c message = (store', effs, n)" "effs \<noteq> []"
  shows "passed_on U ''discord'' (dd_base c) effs"
proof -
  have peer: "peer_ok (discord_sender U a) chat (discord_peer m (da_ID a))" for a chat m
    by (simp add: peer_ok_def discord_peer_def discord_sender_def)
  have sender: "Platform (discord_sender U a) = ''discord''" "PlatformID (discord_sender U a) = da_ID a"
      "CanonicalID (discord_sender U a) = build_canonical_id U ''discord'' (da_ID a)" for a
    by (simp_all add: discord_sender_def)
  show ?thesis
    using assms
    by (auto simp: discord_handle_message_def Let_def peer sender split: option.splits if_splits prod.splits intro!: passed_onI)
qed

interpretation discord_inbound: inbound_adapter U "''discord''" dd_base
    "\<lambda>x c. fst (snd (discord_handle_message U (fst x) (fst (snd x)) c (snd (snd x))))" for U
proof
  fix x :: "discord_session \<times> discord_env \<times> discord_message option" and c
  obtain store' effs n where
    run: "discord_handle_message U (fst x) (fst (snd x)) c (snd (snd x)) = (store', effs, n)" by (metis prod_cases3)
  assume "fst (snd (discord_handle_message U (fst x) (fst (snd x)) c (snd (snd x)))) \<noteq> []"
  then show "passed_on U ''discord'' (dd_base c) (fst (snd (discord_handle_message U (fst x) (fst (snd x)) c (snd (snd x)))))"
    using discord_passed_on [OF run] by (simp add: run)
qed

end
