(* ===== verification/Slack.thy ===== *)
theory Slack
  imports Markdown Base_Channel Media
begin

text \<open>
  \<open>pkg/channels/slack/slack.go\<close>: the Slack adapter. What the API answers, downloads, the media store
  and the files on disk are arguments; the calls of the API are the result.
\<close>

subsection \<open>Markdown\<close>

definition slackReHeading :: "string \<Rightarrow> (string \<times> string) option" where
  "slackReHeading s =
    (let marks = length (takeWhile (\<lambda>c. c = CHR ''#'') s) in
     if 1 \<le> marks \<and> marks \<le> 6 then white_then_line 1 (drop marks s) else None)"

definition slack_style :: "string \<Rightarrow> string" where
  "slack_style s =
    (let bold = (\<lambda>g. ''*'' @ g @ ''*'');
         s1 = replace_line_matches slackReHeading bold s;
         s2 = replace_matches reLink (\<lambda>(label, addr). ''<'' @ addr @ ''|'' @ label @ ''>'') s1;
         s3 = replace_matches (delimited ''**'' (\<lambda>c. c \<noteq> newline)) bold s2;
         s4 = replace_matches (delimited ''__'' (\<lambda>c. c \<noteq> newline)) bold s3
     in replace_matches (delimited ''~~'' (\<lambda>c. c \<noteq> newline)) (\<lambda>g. ''~'' @ g @ ''~'') s4)"

definition markdown_to_slack :: "string \<Rightarrow> string" where
  "markdown_to_slack s =
    (if s = [] then []
     else
       let (s1, blocks) = extract_code_blocks s;
           (s2, codes) = extract_inline_codes s1;
           s3 = unpark ''IC'' [CHR 0x60] [CHR 0x60] 0 codes (slack_style s2)
       in unpark ''CB'' fence fence 0 blocks s3)"

subsection \<open>State\<close>

record slack_config =
  sc_BotToken :: string
  sc_AppToken :: string
  sc_AllowFrom :: "string list"
  sc_GroupTrigger :: group_trigger
  sc_ReasoningChannelID :: string

text \<open>\<open>pendingAcks\<close>: the channel and time stamp of the last message of a chat.\<close>

record slack_channel =
  sk_base :: base_channel
  sk_config :: slack_config
  sk_botUserID :: string
  sk_teamID :: string
  sk_pendingAcks :: "string \<rightharpoonup> string \<times> string"

definition new_slack_channel :: "slack_config \<Rightarrow> string + slack_channel" where
  "new_slack_channel cfg =
    (if sc_BotToken cfg = [] \<or> sc_AppToken cfg = [] then Inl ''slack bot_token and app_token are required''
     else Inr \<lparr>sk_base = new_base_channel ''slack'' (sc_AllowFrom cfg)
                 [with_max_message_length 40000, with_group_trigger (sc_GroupTrigger cfg),
                  with_reasoning_channel_id (sc_ReasoningChannelID cfg)],
               sk_config = cfg, sk_botUserID = [], sk_teamID = [], sk_pendingAcks = Map.empty\<rparr>)"

definition slack_start :: "string + string \<times> string \<Rightarrow> slack_channel \<Rightarrow> slack_channel \<times> string option" where
  "slack_start auth c =
    (case auth of
       Inl e \<Rightarrow> (c, Some (''slack auth test failed: '' @ e))
     | Inr (user, team) \<Rightarrow> (c\<lparr>sk_botUserID := user, sk_teamID := team, sk_base := set_running True (sk_base c)\<rparr>, None))"

definition slack_stop :: "slack_channel \<Rightarrow> slack_channel" where
  "slack_stop c = c\<lparr>sk_base := set_running False (sk_base c)\<rparr>"

subsection \<open>Sending\<close>

datatype slack_call =
    PostMessage string string "string option"
  | AddReaction string string string
  | RemoveReaction string string string
  | UploadFile string string string string

definition parse_slack_chat_id :: "string \<Rightarrow> string \<times> string" where
  "parse_slack_chat_id chatID =
    (case split_n2 CHR ''/'' chatID of [c] \<Rightarrow> (c, []) | c # t # _ \<Rightarrow> (c, t) | [] \<Rightarrow> ([], []))"

text \<open>The parts; \<open>api n\<close> tells whether the n-th post or upload of a send succeeds.\<close>

fun slack_send_parts ::
  "(nat \<Rightarrow> bool) \<Rightarrow> media_store \<Rightarrow> string \<Rightarrow> nat \<Rightarrow> media_part list \<Rightarrow> slack_call list \<times> send_error option" where
  "slack_send_parts api s channelID n [] = ([], None)"
| "slack_send_parts api s channelID n (part # parts) =
    (case resolve s (mp_Ref part) of
       None \<Rightarrow> slack_send_parts api s channelID n parts
     | Some path \<Rightarrow>
         let filename = (if mp_Filename part = [] then ''file'' else mp_Filename part);
             title = (if mp_Caption part = [] then filename else mp_Caption part);
             call = UploadFile channelID path filename title
         in
           if \<not> api n then ([call], Some (Wrapped ErrTemporary ''slack send media''))
           else let (calls, err) = slack_send_parts api s channelID (Suc n) parts in (call # calls, err))"

definition slack_send ::
  "(nat \<Rightarrow> bool) \<Rightarrow> media_store option \<Rightarrow> slack_channel \<Rightarrow> outbound_message \<Rightarrow>
    slack_channel \<times> slack_call list \<times> send_error option" where
  "slack_send api store c msg =
    (if \<not> bc_running (sk_base c) then (c, [], Some (Sentinel ErrNotRunning))
     else
       let (channelID, threadTS) = parse_slack_chat_id (om_ChatID msg) in
         if channelID = [] then (c, [], Some (OtherError (''invalid slack chat ID: '' @ om_ChatID msg)))
         else
           let post = PostMessage channelID (markdown_to_slack (om_Content msg)) (if threadTS \<noteq> [] then Some threadTS else None) in
             if \<not> api 0 then (c, [post], Some (Wrapped ErrTemporary ''slack send''))
             else
               let ack = (case sk_pendingAcks c (om_ChatID msg) of
                     None \<Rightarrow> []
                   | Some (channel, ts) \<Rightarrow> [AddReaction ''white_check_mark'' channel ts]);
                   c' = c\<lparr>sk_pendingAcks := (sk_pendingAcks c)(om_ChatID msg := None)\<rparr>
               in
                 if om_Parts msg = [] then (c', post # ack, None)
                 else
                   (case store of
                      None \<Rightarrow> (c', post # ack, Some (Wrapped ErrSendFailed ''no media store available''))
                    | Some s \<Rightarrow>
                        let (calls, err) = slack_send_parts api s channelID 1 (om_Parts msg)
                        in (c', post # ack @ calls, err)))"

text \<open>\<open>ReactToMessage\<close>: the call it makes and the one its undo function makes.\<close>

definition slack_react :: "string \<Rightarrow> string \<Rightarrow> slack_call list \<times> slack_call list" where
  "slack_react chatID messageID =
    (let channelID = fst (parse_slack_chat_id chatID) in
     if channelID = [] then ([], [])
     else ([AddReaction ''eyes'' channelID messageID], [RemoveReaction ''eyes'' channelID messageID]))"

subsection \<open>Inbound events\<close>

record slack_file =
  sf_URLPrivateDownload :: string
  sf_URLPrivate :: string
  sf_Name :: string

record slack_message =
  se_User :: string
  se_BotID :: string
  se_SubType :: string
  se_Channel :: string
  se_ThreadTS :: string
  se_TS :: string
  se_Text :: string
  se_Files :: "slack_file list"

datatype slack_event =
    MessageEvent slack_message
  | AppMentionEvent slack_message
  | SlashCommand string string string string
  | Interactive
  | OtherEvent

record slack_env =
  sv_store :: "media_store option"
  sv_disk :: "string set"
  sv_ref :: "nat \<Rightarrow> string"
  sv_now :: int
  sv_download :: "string \<Rightarrow> string \<Rightarrow> string"
  sv_prefix :: string
  sv_counter :: "64 word"

type_synonym slack_result = "slack_channel \<times> media_store option \<times> channel_effect list \<times> 64 word"

definition slack_strip_mention :: "slack_channel \<Rightarrow> string \<Rightarrow> string" where
  "slack_strip_mention c s = trim_space (replace_all (''<@'' @ sk_botUserID c @ ''>'') [] s)"

definition slack_sender :: "unicode \<Rightarrow> string \<Rightarrow> sender_info" where
  "slack_sender U user =
    no_sender\<lparr>Platform := ''slack'', PlatformID := user, CanonicalID := build_canonical_id U ''slack'' user\<rparr>"

definition download_slack_file :: "slack_env \<Rightarrow> slack_file \<Rightarrow> string" where
  "download_slack_file E f =
    (let url = (if sf_URLPrivateDownload f = [] then sf_URLPrivate f else sf_URLPrivateDownload f) in
     if url = [] then [] else sv_download E url (sf_Name f))"

fun slack_files ::
  "slack_env \<Rightarrow> nat \<Rightarrow> string \<Rightarrow> media_store option \<Rightarrow> slack_file list \<Rightarrow> media_store option \<times> string \<times> string list" where
  "slack_files E i scope store [] = (store, [], [])"
| "slack_files E i scope store (f # fs) =
    (let path = download_slack_file E f in
     if path = [] then slack_files E i scope store fs
     else
       let (store', ref) = store_or_path ''slack'' (sv_disk E) (sv_ref E i) (sv_now E) scope store path (sf_Name f);
           (store'', content, refs) = slack_files E (Suc i) scope store' fs
       in (store'', [newline] @ ''[file: '' @ sf_Name f @ '']'' @ content, ref # refs))"

definition slack_peer :: "string \<Rightarrow> string \<Rightarrow> peer" where
  "slack_peer channelID senderID =
    (if has_prefix ''D'' channelID then \<lparr>p_Kind = ''direct'', p_ID = senderID\<rparr>
     else \<lparr>p_Kind = ''channel'', p_ID = channelID\<rparr>)"

definition thread_chat :: "string \<Rightarrow> string \<Rightarrow> string" where
  "thread_chat channelID threadTS = (if threadTS \<noteq> [] then channelID @ ''/'' @ threadTS else channelID)"

definition slack_message_event :: "unicode \<Rightarrow> slack_env \<Rightarrow> slack_channel \<Rightarrow> slack_message \<Rightarrow> slack_result" where
  "slack_message_event U E c ev =
    (let ignored = (c, sv_store E, [], sv_counter E); sender = slack_sender U (se_User ev) in
     if se_User ev = sk_botUserID c \<or> se_User ev = [] \<or> se_BotID ev \<noteq> [] \<or>
        (se_SubType ev \<noteq> [] \<and> se_SubType ev \<noteq> ''file_share'') \<or> \<not> is_allowed_sender U (sk_base c) sender
     then ignored
     else
       let chatID = thread_chat (se_Channel ev) (se_ThreadTS ev);
           c' = c\<lparr>sk_pendingAcks := (sk_pendingAcks c)(chatID \<mapsto> (se_Channel ev, se_TS ev))\<rparr>;
           content = slack_strip_mention c (se_Text ev);
           (respond, cleaned) =
             (if \<not> has_prefix ''D'' (se_Channel ev) then should_respond_in_group (sk_base c) False content else (True, content))
       in
         if \<not> respond then (c', sv_store E, [], sv_counter E)
         else
           let (scope, n) = build_media_scope (sv_prefix E) (sv_counter E) ''slack'' chatID (se_TS ev);
               (store', suffix, refs) = slack_files E 0 scope (sv_store E) (se_Files ev);
               content' = cleaned @ suffix
           in
             if trim_space content' = [] then (c', store', [], n)
             else
               (c', store', handle_message U (sv_prefix E) n (sk_base c) (slack_peer (se_Channel ev) (se_User ev)) (se_TS ev)
                  (se_User ev) chatID content' refs
                  [''message_ts'' \<mapsto> se_TS ev, ''channel_id'' \<mapsto> se_Channel ev, ''thread_ts'' \<mapsto> se_ThreadTS ev,
                   ''platform'' \<mapsto> ''slack'', ''team_id'' \<mapsto> sk_teamID c] [sender]))"

definition slack_app_mention :: "unicode \<Rightarrow> slack_env \<Rightarrow> slack_channel \<Rightarrow> slack_message \<Rightarrow> slack_result" where
  "slack_app_mention U E c ev =
    (let sender = slack_sender U (se_User ev) in
     if se_User ev = sk_botUserID c \<or> \<not> is_allowed_sender U (sk_base c) sender then (c, sv_store E, [], sv_counter E)
     else
       let chatID = se_Channel ev @ ''/'' @ (if se_ThreadTS ev \<noteq> [] then se_ThreadTS ev else se_TS ev);
           c' = c\<lparr>sk_pendingAcks := (sk_pendingAcks c)(chatID \<mapsto> (se_Channel ev, se_TS ev))\<rparr>;
           content = slack_strip_mention c (se_Text ev)
       in
         if trim_space content = [] then (c', sv_store E, [], sv_counter E)
         else
           (c', sv_store E, handle_message U (sv_prefix E) (sv_counter E) (sk_base c)
              (slack_peer (se_Channel ev) (se_User ev)) (se_TS ev) (se_User ev) chatID content []
              [''message_ts'' \<mapsto> se_TS ev, ''channel_id'' \<mapsto> se_Channel ev, ''thread_ts'' \<mapsto> se_ThreadTS ev,
               ''platform'' \<mapsto> ''slack'', ''is_mention'' \<mapsto> ''true'', ''team_id'' \<mapsto> sk_teamID c] [sender]))"

definition slack_slash_command ::
  "unicode \<Rightarrow> slack_env \<Rightarrow> slack_channel \<Rightarrow> string \<Rightarrow> string \<Rightarrow> string \<Rightarrow> string \<Rightarrow> slack_result" where
  "slack_slash_command U E c userID channelID commandText triggerID =
    (let sender = slack_sender U userID in
     if \<not> is_allowed_sender U (sk_base c) sender then (c, sv_store E, [], sv_counter E)
     else
       (c, sv_store E, handle_message U (sv_prefix E) (sv_counter E) (sk_base c)
          \<lparr>p_Kind = ''channel'', p_ID = channelID\<rparr> [] userID channelID
          (if trim_space commandText = [] then ''help'' else commandText) []
          [''channel_id'' \<mapsto> channelID, ''platform'' \<mapsto> ''slack'', ''is_command'' \<mapsto> ''true'',
           ''trigger_id'' \<mapsto> triggerID, ''team_id'' \<mapsto> sk_teamID c] [sender]))"

definition slack_dispatch :: "unicode \<Rightarrow> slack_env \<Rightarrow> slack_channel \<Rightarrow> slack_event \<Rightarrow> slack_result" where
  "slack_dispatch U E c ev =
    (case ev of
       MessageEvent m \<Rightarrow> slack_message_event U E c m
     | AppMentionEvent m \<Rightarrow> slack_app_mention U E c m
     | SlashCommand userID channelID commandText triggerID \<Rightarrow>
         slack_slash_command U E c userID channelID commandText triggerID
     | _ \<Rightarrow> (c, sv_store E, [], sv_counter E))"

subsection \<open>What is published\<close>

lemma slack_passed_on:
  assumes "slack_dispatch U E c ev = (c', store', effs, n)" "effs \<noteq> []"
  shows "passed_on U ''slack'' (sk_base c) effs"
proof -
  have peer: "peer_ok (slack_sender U user) chat (slack_peer channelID user)"
      "peer_ok (slack_sender U user) chat \<lparr>p_Kind = ''channel'', p_ID = channelID\<rparr>" for user chat channelID
    by (simp_all add: peer_ok_def slack_peer_def slack_sender_def)
  have sender: "Platform (slack_sender U user) = ''slack''" "PlatformID (slack_sender U user) = user"
      "CanonicalID (slack_sender U user) = build_canonical_id U ''slack'' user" for user
    by (simp_all add: slack_sender_def)
  show ?thesis
    using assms
    by (cases ev)
      (auto simp: slack_dispatch_def slack_message_event_def slack_app_mention_def slack_slash_command_def Let_def
        peer sender split: if_splits prod.splits intro!: passed_onI)
qed

interpretation slack_inbound: inbound_adapter U "''slack''" sk_base
    "\<lambda>x c. fst (snd (snd (slack_dispatch U (fst x) c (snd x))))" for U
proof
  fix x :: "slack_env \<times> slack_event" and c
  obtain c' store' effs n where run: "slack_dispatch U (fst x) c (snd x) = (c', store', effs, n)"
    by (metis prod_cases4)
  assume "fst (snd (snd (slack_dispatch U (fst x) c (snd x)))) \<noteq> []"
  then show "passed_on U ''slack'' (sk_base c) (fst (snd (snd (slack_dispatch U (fst x) c (snd x)))))"
    using slack_passed_on [OF run] by (simp add: run)
qed

subsection \<open>Replies go back to where the message came from\<close>

lemma split_n2_slash:
  "CHR ''/'' \<notin> set a \<Longrightarrow> split_n2 CHR ''/'' a = [a]"
  "CHR ''/'' \<notin> set a \<Longrightarrow> split_n2 CHR ''/'' (a @ CHR ''/'' # b) = [a, b]"
  by (simp_all add: split_n2_found) (simp add: split_n2_def index_of_single_None [THEN iffD2])

lemma parse_thread_chat:
  assumes "CHR ''/'' \<notin> set channelID"
  shows "parse_slack_chat_id (thread_chat channelID threadTS) = (channelID, threadTS)"
  using assms split_n2_slash by (simp add: parse_slack_chat_id_def thread_chat_def)

lemma slack_published:
  assumes "handle_message U prefix n bc peer mid sid chat content media md [s] = (effs, n')"
    and "PublishInboundMessage im \<in> set effs"
  shows "im_ChatID im = chat \<and> im_Content im = content"
proof -
  have "PublishInboundMessage im \<notin> set (typing_effects bc chat @ reaction_effects bc chat mid)"
    using effects_publish [of bc chat] by (fastforce simp: list_all_iff)
  with assms show ?thesis
    by (auto simp: handle_message_def Let_def split: if_splits prod.splits)
qed

text \<open>A message that reaches the agent leaves its channel and time stamp for the reply.\<close>

lemma slack_event_pending:
  assumes "slack_dispatch U E c ev = (c', store', effs, n)" "PublishInboundMessage im \<in> set effs"
    and "ev = MessageEvent m \<or> ev = AppMentionEvent m"
  defines "thread \<equiv> if se_ThreadTS m \<noteq> [] \<or> ev = MessageEvent m then se_ThreadTS m else se_TS m"
  shows "im_ChatID im = (if ev = MessageEvent m then thread_chat (se_Channel m) thread else se_Channel m @ ''/'' @ thread) \<and>
    c' = c\<lparr>sk_pendingAcks := (sk_pendingAcks c)(im_ChatID im \<mapsto> (se_Channel m, se_TS m))\<rparr>"
  using assms(3)
proof
  assume "ev = MessageEvent m"
  with assms(1,2) show ?thesis
    by (auto simp: slack_dispatch_def slack_message_event_def Let_def thread_def dest: slack_published
        split: if_splits prod.splits)
next
  assume "ev = AppMentionEvent m"
  with assms(1,2) show ?thesis
    by (auto simp: slack_dispatch_def slack_app_mention_def Let_def thread_def dest: slack_published
        split: if_splits prod.splits)
qed


definition slack_sample :: slack_channel where
  "slack_sample =
    \<lparr>sk_base = set_running True (new_base_channel ''slack'' [] []),
     sk_config = \<lparr>sc_BotToken = ''b'', sc_AppToken = ''a'', sc_AllowFrom = [],
       sc_GroupTrigger = \<lparr>MentionOnly = False, Prefixes = []\<rparr>, sc_ReasoningChannelID = []\<rparr>,
     sk_botUserID = ''UB'', sk_teamID = ''T'', sk_pendingAcks = Map.empty\<rparr>"

definition slack_sample_env :: slack_env where
  "slack_sample_env = \<lparr>sv_store = None, sv_disk = {}, sv_ref = (\<lambda>_. ''r''), sv_now = 0, sv_download = (\<lambda>_ _. []),
    sv_prefix = ''p'', sv_counter = 0\<rparr>"

definition slack_sample_message :: slack_message where
  "slack_sample_message = \<lparr>se_User = ''U1'', se_BotID = [], se_SubType = [], se_Channel = ''C1'', se_ThreadTS = [],
    se_TS = ''17.5'', se_Text = ''<@UB> hi'', se_Files = []\<rparr>"

definition slack_sample_answer :: "string \<Rightarrow> outbound_message" where
  "slack_sample_answer chat = \<lparr>om_Channel = ''slack'', om_ChatID = chat, om_Content = ''yes'', om_Parts = []\<rparr>"


text \<open>
  A mention in a channel arrives as a message and as a mention; without \<open>MentionOnly\<close> both are published,
  in two conversations, and the agent answers twice.
\<close>

lemma mention_published_twice:
  "map (\<lambda>ev. map (\<lambda>e. case e of PublishInboundMessage im \<Rightarrow> (im_SessionKey im, im_Content im) | _ \<Rightarrow> ([], []))
      (fst (snd (snd (slack_dispatch ascii_only slack_sample_env slack_sample ev)))))
     [MessageEvent slack_sample_message, AppMentionEvent slack_sample_message] =
   [[(''slack:C1'', ''hi'')], [(''slack:C1/17.5'', ''hi'')]]"
  by code_simp

text \<open>
  A message with media only posts its empty text first; where the API refuses the post (it does refuse
  an empty text) no file is uploaded. And the files of an answer in a thread go to the channel.
\<close>

lemma slack_media_behind_text:
  assumes "\<not> api 0" "om_Content msg = []" "slack_send api store c msg = (c', calls, err)"
  shows "set calls \<subseteq> {PostMessage channelID [] thread | channelID thread. True} \<and> err \<noteq> None"
  using assms by (auto simp: slack_send_def markdown_to_slack_def Let_def split: if_splits prod.splits)

lemma slack_files_outside_thread:
  "slack_send_parts api s channelID n parts = (calls, err) \<Longrightarrow>
    \<forall>x \<in> set calls. \<exists>path name title. x = UploadFile channelID path name title"
  by (induction api s channelID n parts arbitrary: calls err rule: slack_send_parts.induct)
     (auto simp: Let_def split: option.splits if_splits prod.splits)

text \<open>
  When the upload behind a text fails for the time being, \<open>Send\<close> returns that error and the manager
  sends the message again: the channel gets the text a second time.
\<close>

lemma slack_resend_repeats:
  assumes "bc_running (sk_base c)" "parse_slack_chat_id (om_ChatID msg) = (channelID, threadTS)" "channelID \<noteq> []"
    and "om_Parts msg = part # parts" "resolve s (mp_Ref part) = Some path" "api 0" "\<not> api 1"
  shows "\<exists>c' calls. slack_send api (Some s) c msg =
    (c', PostMessage channelID (markdown_to_slack (om_Content msg)) (if threadTS \<noteq> [] then Some threadTS else None) # calls,
     Some (Wrapped ErrTemporary ''slack send media''))"
  using assms by (simp add: slack_send_def Let_def)

text \<open>A message of a group that gets no answer leaves its mark behind for the next thing sent there.\<close>

lemma unanswered_message_acked:
  "sk_pendingAcks (fst (slack_dispatch ascii_only slack_sample_env
      (slack_sample\<lparr>sk_base := with_group_trigger \<lparr>MentionOnly = True, Prefixes = []\<rparr> (sk_base slack_sample)\<rparr>)
      (MessageEvent slack_sample_message))) ''C1'' = Some (''C1'', ''17.5'')"
  by code_simp

subsection \<open>Text without marks\<close>

lemma slack_heading_none: "c \<noteq> CHR ''#'' \<Longrightarrow> slackReHeading (c # s) = None"
  by (simp add: slackReHeading_def)

text \<open>A text without any of the marks of Markdown is sent as it is.\<close>

definition slack_mark :: "char \<Rightarrow> bool" where
  "slack_mark c \<longleftrightarrow> c \<in> set (CHR 0x60 # ''#[*_~'')"

lemma line_pieces_none:
  assumes "\<And>c t. c \<in> set s \<Longrightarrow> m (c # t) = None"
  shows "line_pieces m b s = map Inl s"
  using assms by (induction s arbitrary: b) auto

lemma slack_plain_text:
  assumes "\<And>c. c \<in> set s \<Longrightarrow> \<not> slack_mark c"
  shows "markdown_to_slack s = s"
proof -
  have d: "delimited d P (c # t) = None" if "c \<in> set s" "d \<in> {''**'', ''__'', ''~~'', [CHR 0x60]}" for c t d P
    using assms [OF that(1)] that(2) by (auto simp: delimited_def slack_mark_def has_prefix_def)
  have b: "pieces reCodeBlock s = map Inl s" "pieces reInlineCode s = map Inl s"
    using assms d by (auto intro!: no_code_pieces simp: reCodeBlock_def reInlineCode_def fence_def slack_mark_def has_prefix_def)
  have h: "replace_line_matches slackReHeading f s = s" for f
    using assms line_pieces_none [of s slackReHeading True] slack_heading_none
    by (fastforce simp: replace_line_matches_def slack_mark_def comp_def)
  have r: "replace_matches reLink f s = s" for f
    using assms by (intro replace_matches_none) (fastforce simp: reLink_def slack_mark_def)
  have "replace_matches (delimited d P) f s = s" if "d \<in> {''**'', ''__'', ''~~''}" for d P f
    using d that by (intro replace_matches_none) auto
  then have "slack_style s = s" by (simp add: slack_style_def h r Let_def)
  then show ?thesis
    using b by (simp add: markdown_to_slack_def extract_code_blocks_def extract_inline_codes_def park_no_code match_groups_none)
qed

end
