(* ===== verification/Line.thy ===== *)
theory Line
  imports Manager Json_Struct Go_Runes Go_Path Media
begin

text \<open>
  \<open>pkg/channels/line/line.go\<close>: the LINE adapter. Requests of the webhook are authenticated and decoded,
  events become inbound messages, answers go out through the reply API while the token of the last
  message is fresh and through the push API otherwise. The keyed hash of the body (HMAC-SHA256 in
  base64) is an argument, and so are the answers of the API and the clock, in nanoseconds.
\<close>

subsection \<open>State\<close>

record line_config =
  lc_ChannelSecret :: string
  lc_ChannelAccessToken :: string
  lc_WebhookPath :: string
  lc_AllowFrom :: "string list"
  lc_GroupTrigger :: group_trigger
  lc_ReasoningChannelID :: string

record line_channel =
  ln_base :: base_channel
  ln_config :: line_config
  ln_botUserID :: string
  ln_botBasicID :: string
  ln_botDisplayName :: string
  ln_replyTokens :: "string \<rightharpoonup> string \<times> int"
  ln_quoteTokens :: "string \<rightharpoonup> string"

definition lineReplyTokenMaxAge :: int where "lineReplyTokenMaxAge = 25 * 1000000000"

definition new_line_channel :: "line_config \<Rightarrow> string + line_channel" where
  "new_line_channel cfg =
    (if lc_ChannelSecret cfg = [] \<or> lc_ChannelAccessToken cfg = []
     then Inl ''line channel_secret and channel_access_token are required''
     else Inr \<lparr>ln_base = new_base_channel ''line'' (lc_AllowFrom cfg)
                 [with_max_message_length 5000, with_group_trigger (lc_GroupTrigger cfg),
                  with_reasoning_channel_id (lc_ReasoningChannelID cfg)],
               ln_config = cfg, ln_botUserID = [], ln_botBasicID = [], ln_botDisplayName = [],
               ln_replyTokens = Map.empty, ln_quoteTokens = Map.empty\<rparr>)"

text \<open>The profile of the bot as the API answered it; \<open>Start\<close> goes on without one.\<close>

definition bot_info_fields :: "line_channel field_table" where
  "bot_info_fields =
    [(''userId'', set_string (\<lambda>s c. c\<lparr>ln_botUserID := s\<rparr>)),
     (''basicId'', set_string (\<lambda>s c. c\<lparr>ln_botBasicID := s\<rparr>)),
     (''displayName'', set_string (\<lambda>s c. c\<lparr>ln_botDisplayName := s\<rparr>))]"

definition fetch_bot_info :: "(int \<times> string) option \<Rightarrow> line_channel \<Rightarrow> line_channel" where
  "fetch_bot_info answer c =
    (case answer of
       None \<Rightarrow> c
     | Some (status, body) \<Rightarrow>
         if status \<noteq> 200 then c
         else (case unmarshal body of
             None \<Rightarrow> c
           | Some v \<Rightarrow>
               (case decode_struct bot_info_fields v (c\<lparr>ln_botUserID := [], ln_botBasicID := [], ln_botDisplayName := []\<rparr>) of
                  (c', False) \<Rightarrow> c'
                | (_, True) \<Rightarrow> c)))"

definition line_start :: "(int \<times> string) option \<Rightarrow> line_channel \<Rightarrow> line_channel" where
  "line_start answer c = (let c' = fetch_bot_info answer c in c'\<lparr>ln_base := set_running True (ln_base c')\<rparr>)"

definition line_stop :: "line_channel \<Rightarrow> line_channel" where
  "line_stop c = c\<lparr>ln_base := set_running False (ln_base c)\<rparr>"

definition webhook_path :: "line_channel \<Rightarrow> string" where
  "webhook_path c =
    (if lc_WebhookPath (ln_config c) \<noteq> [] then lc_WebhookPath (ln_config c) else ''/webhook/line'')"

subsection \<open>Events\<close>

record line_source =
  so_Type :: string
  so_UserID :: string
  so_GroupID :: string
  so_RoomID :: string

record line_event =
  le_Type :: string
  le_ReplyToken :: string
  le_Source :: line_source
  le_Message :: "json option"
  le_Timestamp :: int

record line_mentionee =
  ml_Index :: int
  ml_Length :: int
  ml_Type :: string
  ml_UserID :: string

record line_message =
  lm_ID :: string
  lm_Type :: string
  lm_Text :: string
  lm_QuoteToken :: string
  lm_Mention :: "line_mentionee list option"
  lm_ContentProvider :: string

definition source_fields :: "line_source field_table" where
  "source_fields =
    [(''type'', set_string (\<lambda>s r. r\<lparr>so_Type := s\<rparr>)), (''userId'', set_string (\<lambda>s r. r\<lparr>so_UserID := s\<rparr>)),
     (''groupId'', set_string (\<lambda>s r. r\<lparr>so_GroupID := s\<rparr>)), (''roomId'', set_string (\<lambda>s r. r\<lparr>so_RoomID := s\<rparr>))]"

definition no_source :: line_source where
  "no_source = \<lparr>so_Type = [], so_UserID = [], so_GroupID = [], so_RoomID = []\<rparr>"

definition event_fields :: "line_event field_table" where
  "event_fields =
    [(''type'', set_string (\<lambda>s r. r\<lparr>le_Type := s\<rparr>)),
     (''replyToken'', set_string (\<lambda>s r. r\<lparr>le_ReplyToken := s\<rparr>)),
     (''source'', set_struct source_fields le_Source (\<lambda>q r. r\<lparr>le_Source := q\<rparr>)),
     (''message'', set_raw (\<lambda>m r. r\<lparr>le_Message := m\<rparr>)),
     (''timestamp'', set_int (\<lambda>i r. r\<lparr>le_Timestamp := i\<rparr>))]"

definition no_event :: line_event where
  "no_event = \<lparr>le_Type = [], le_ReplyToken = [], le_Source = no_source, le_Message = None, le_Timestamp = 0\<rparr>"

definition webhook_fields :: "line_event list field_table" where
  "webhook_fields = [(''events'', set_list (decode_struct event_fields) no_event (\<lambda>es _. es))]"

definition mentionee_fields :: "line_mentionee field_table" where
  "mentionee_fields =
    [(''index'', set_int (\<lambda>i r. r\<lparr>ml_Index := i\<rparr>)), (''length'', set_int (\<lambda>i r. r\<lparr>ml_Length := i\<rparr>)),
     (''type'', set_string (\<lambda>s r. r\<lparr>ml_Type := s\<rparr>)), (''userId'', set_string (\<lambda>s r. r\<lparr>ml_UserID := s\<rparr>))]"

definition mention_fields :: "line_mentionee list field_table" where
  "mention_fields =
    [(''mentionees'', set_list (decode_struct mentionee_fields)
        \<lparr>ml_Index = 0, ml_Length = 0, ml_Type = [], ml_UserID = []\<rparr> (\<lambda>ms _. ms))]"

definition message_fields :: "line_message field_table" where
  "message_fields =
    [(''id'', set_string (\<lambda>s r. r\<lparr>lm_ID := s\<rparr>)), (''type'', set_string (\<lambda>s r. r\<lparr>lm_Type := s\<rparr>)),
     (''text'', set_string (\<lambda>s r. r\<lparr>lm_Text := s\<rparr>)), (''quoteToken'', set_string (\<lambda>s r. r\<lparr>lm_QuoteToken := s\<rparr>)),
     (''mention'', set_pointer mention_fields [] lm_Mention (\<lambda>p r. r\<lparr>lm_Mention := p\<rparr>)),
     (''contentProvider'', set_struct [(''type'', set_string (\<lambda>s _. s))] lm_ContentProvider
        (\<lambda>q r. r\<lparr>lm_ContentProvider := q\<rparr>))]"

definition no_message :: line_message where
  "no_message = \<lparr>lm_ID = [], lm_Type = [], lm_Text = [], lm_QuoteToken = [], lm_Mention = None, lm_ContentProvider = []\<rparr>"

text \<open>The message of an event; a missing one does not parse.\<close>

definition event_message :: "line_event \<Rightarrow> line_message option" where
  "event_message event =
    (case le_Message event of
       None \<Rightarrow> None
     | Some v \<Rightarrow> (case decode_struct message_fields v no_message of (m, False) \<Rightarrow> Some m | (_, True) \<Rightarrow> None))"

subsection \<open>The webhook\<close>

definition verify_signature :: "(string \<Rightarrow> string \<Rightarrow> string) \<Rightarrow> line_channel \<Rightarrow> string \<Rightarrow> string \<Rightarrow> bool" where
  "verify_signature hmac c body signature \<longleftrightarrow>
    signature \<noteq> [] \<and> hmac (lc_ChannelSecret (ln_config c)) body = signature"

text \<open>The status a request is answered with and the events that are processed.\<close>

definition webhook_handler ::
  "(string \<Rightarrow> string \<Rightarrow> string) \<Rightarrow> line_channel \<Rightarrow> string \<Rightarrow> string option \<Rightarrow> string \<Rightarrow> int \<times> line_event list" where
  "webhook_handler hmac c httpMethod body signature =
    (if httpMethod \<noteq> ''POST'' then (405, [])
     else (case body of
       None \<Rightarrow> (400, [])
     | Some b \<Rightarrow>
         if \<not> verify_signature hmac c b signature then (403, [])
         else (case unmarshal b of
             None \<Rightarrow> (400, [])
           | Some v \<Rightarrow>
               (case decode_struct webhook_fields v [] of
                  (_, True) \<Rightarrow> (400, [])
                | (events, False) \<Rightarrow> (200, events)))))"

subsection \<open>Mentions\<close>

definition rune_slice :: "rune list \<Rightarrow> int \<Rightarrow> int \<Rightarrow> string" where
  "rune_slice runes i n = string_of_runes (take (nat n) (drop (nat i) runes))"

text \<open>A mention whose text, where its position is valid, contains the name of the bot.\<close>

definition names_bot :: "line_channel \<Rightarrow> rune list \<Rightarrow> line_mentionee \<Rightarrow> bool" where
  "names_bot c runes m \<longleftrightarrow>
    ln_botDisplayName c \<noteq> [] \<and> ml_Index m \<ge> 0 \<and> ml_Length m > 0 \<and>
    ml_Index m + ml_Length m \<le> int (length runes) \<and>
    contains (ln_botDisplayName c) (rune_slice runes (ml_Index m) (ml_Length m))"

definition is_bot_mentioned :: "line_channel \<Rightarrow> line_message \<Rightarrow> bool" where
  "is_bot_mentioned c msg \<longleftrightarrow>
    (case lm_Mention msg of
       None \<Rightarrow> False
     | Some ms \<Rightarrow>
         list_ex (\<lambda>m. ml_Type m = ''all'' \<or> (ln_botUserID c \<noteq> [] \<and> ml_UserID m = ln_botUserID c)) ms \<or>
         list_ex (names_bot c (runes_of (lm_Text msg))) ms) \<or>
    (ln_botDisplayName c \<noteq> [] \<and> contains (''@'' @ ln_botDisplayName c) (lm_Text msg))"

text \<open>
  Cutting the mentions of the bot out of the text, the last one first. A mention of negative length
  makes Go slice from its end to its start, which panics or reads stale runes: \<open>None\<close>.
\<close>

definition strip_mention :: "line_channel \<Rightarrow> line_mentionee \<Rightarrow> rune list \<times> bool \<Rightarrow> (rune list \<times> bool) option" where
  "strip_mention c m = (\<lambda>(runes, stripped).
    if (ln_botUserID c \<noteq> [] \<and> ml_UserID m = ln_botUserID c) \<or> names_bot c runes m then
      (if ml_Index m \<ge> 0 \<and> ml_Index m + ml_Length m \<le> int (length runes) then
         (if ml_Length m < 0 then None
          else Some (take (nat (ml_Index m)) runes @ drop (nat (ml_Index m + ml_Length m)) runes, True))
       else Some (runes, stripped))
    else Some (runes, stripped))"

fun strip_mentions :: "line_channel \<Rightarrow> line_mentionee list \<Rightarrow> rune list \<times> bool \<Rightarrow> (rune list \<times> bool) option" where
  "strip_mentions c [] acc = Some acc"
| "strip_mentions c (m # ms) acc =
    (case strip_mention c m acc of None \<Rightarrow> None | Some acc' \<Rightarrow> strip_mentions c ms acc')"

definition strip_bot_mention :: "line_channel \<Rightarrow> string \<Rightarrow> line_message \<Rightarrow> string option" where
  "strip_bot_mention c content msg =
    (let fallback = trim_space
           (if ln_botDisplayName c \<noteq> [] then replace_all (''@'' @ ln_botDisplayName c) [] content else content)
     in
       (case lm_Mention msg of
          None \<Rightarrow> Some fallback
        | Some ms \<Rightarrow>
            (case strip_mentions c (rev ms) (runes_of content, False) of
               None \<Rightarrow> None
             | Some (runes, True) \<Rightarrow> Some (trim_space (string_of_runes runes))
             | Some (_, False) \<Rightarrow> Some fallback)))"

subsection \<open>Inbound messages\<close>

definition resolve_chat_id :: "line_source \<Rightarrow> string" where
  "resolve_chat_id source =
    (if so_Type source = ''group'' then so_GroupID source
     else if so_Type source = ''room'' then so_RoomID source else so_UserID source)"

definition is_group_source :: "line_source \<Rightarrow> bool" where
  "is_group_source source \<longleftrightarrow> so_Type source = ''group'' \<or> so_Type source = ''room''"

text \<open>
  The surroundings of an event: the clock, the media store with the files on disk and the reference
  it would give, what a download of a message's content gives (empty on failure), the prefix and
  counter of unique identifiers.
\<close>

record line_env =
  ev_now :: int
  ev_store :: "media_store option"
  ev_disk :: "string set"
  ev_ref :: string
  ev_download :: "string \<Rightarrow> string \<Rightarrow> string"
  ev_prefix :: string
  ev_counter :: "64 word"

text \<open>The tokens of a message are kept under its chat, replacing those of an earlier one.\<close>

definition keep_tokens :: "int \<Rightarrow> string \<Rightarrow> line_event \<Rightarrow> line_message \<Rightarrow> line_channel \<Rightarrow> line_channel" where
  "keep_tokens now chatID event msg c =
    c\<lparr>ln_replyTokens := (if le_ReplyToken event \<noteq> [] then (ln_replyTokens c)(chatID \<mapsto> (le_ReplyToken event, now))
                          else ln_replyTokens c),
      ln_quoteTokens := (if lm_QuoteToken msg \<noteq> [] then (ln_quoteTokens c)(chatID \<mapsto> lm_QuoteToken msg)
                          else ln_quoteTokens c)\<rparr>"

definition store_media :: "line_env \<Rightarrow> string \<Rightarrow> string \<Rightarrow> string \<Rightarrow> media_store option \<times> string" where
  "store_media E scope = store_or_path ''line'' (ev_disk E) (ev_ref E) (ev_now E) scope (ev_store E)"

definition media_file :: "string \<Rightarrow> (string \<times> string) option" where
  "media_file ty =
    (if ty = ''image'' then Some (''image.jpg'', ''[image]'')
     else if ty = ''audio'' then Some (''audio.m4a'', ''[audio]'')
     else if ty = ''video'' then Some (''video.mp4'', ''[video]'') else None)"

text \<open>The content of a message, its media, and the media store afterwards.\<close>

definition message_content ::
  "line_env \<Rightarrow> line_channel \<Rightarrow> string \<Rightarrow> bool \<Rightarrow> line_message \<Rightarrow> (string \<times> string list \<times> media_store option) option" where
  "message_content E c scope isGroup msg =
    (if lm_Type msg = ''text'' then
       (case (if isGroup then strip_bot_mention c (lm_Text msg) msg else Some (lm_Text msg)) of
          None \<Rightarrow> None
        | Some content \<Rightarrow> Some (content, [], ev_store E))
     else
       (case media_file (lm_Type msg) of
          Some (filename, label) \<Rightarrow>
            let localPath = ev_download E (lm_ID msg) filename in
            if localPath = [] then Some ([], [], ev_store E)
            else let (store', ref) = store_media E scope localPath filename in Some (label, [ref], store')
        | None \<Rightarrow> Some (''['' @ lm_Type msg @ '']'', [], ev_store E)))"

definition line_sender :: "unicode \<Rightarrow> string \<Rightarrow> sender_info" where
  "line_sender U senderID =
    no_sender\<lparr>Platform := ''line'', PlatformID := senderID, CanonicalID := build_canonical_id U ''line'' senderID\<rparr>"

text \<open>The end of \<open>processEvent\<close>: the group trigger, the allow-list and \<open>HandleMessage\<close>.\<close>

definition accept_event ::
  "unicode \<Rightarrow> string \<Rightarrow> 64 word \<Rightarrow> line_channel \<Rightarrow> line_source \<Rightarrow> line_message \<Rightarrow> string \<Rightarrow> string list \<Rightarrow>
    channel_effect list \<times> 64 word" where
  "accept_event U prefix n c source msg content refs =
    (let senderID = so_UserID source;
         chatID = resolve_chat_id source;
         isGroup = is_group_source source;
         (respond, cleaned) =
           (if isGroup then should_respond_in_group (ln_base c) (is_bot_mentioned c msg) content else (True, content));
         sender = line_sender U senderID
     in
       if \<not> respond then ([], n)
       else if \<not> is_allowed_sender U (ln_base c) sender then ([], n)
       else handle_message U prefix n (ln_base c)
           (if isGroup then \<lparr>p_Kind = ''group'', p_ID = chatID\<rparr> else \<lparr>p_Kind = ''direct'', p_ID = senderID\<rparr>)
           (lm_ID msg) senderID chatID cleaned refs
           [''platform'' \<mapsto> ''line'', ''source_type'' \<mapsto> so_Type source] [sender])"

text \<open>
  \<open>processEvent\<close>: the channel, the media store and the counter afterwards, and the effects of
  \<open>HandleMessage\<close>; \<open>None\<close> when cutting out a mention panics.
\<close>

definition process_event ::
  "unicode \<Rightarrow> line_env \<Rightarrow> line_event \<Rightarrow> line_channel \<Rightarrow>
    (line_channel \<times> media_store option \<times> 64 word \<times> channel_effect list) option" where
  "process_event U E event c =
    (if le_Type event \<noteq> ''message'' then Some (c, ev_store E, ev_counter E, [])
     else
       let source = le_Source event; chatID = resolve_chat_id source in
         (case event_message event of
            None \<Rightarrow> Some (c, ev_store E, ev_counter E, [])
          | Some msg \<Rightarrow>
              let c' = keep_tokens (ev_now E) chatID event msg c;
                  (scope, n) = build_media_scope (ev_prefix E) (ev_counter E) ''line'' chatID (lm_ID msg)
              in
                (case message_content E c' scope (is_group_source source) msg of
                   None \<Rightarrow> None
                 | Some (content, refs, store') \<Rightarrow>
                     let (effs, n') =
                       (if trim_space content = [] then ([], n)
                        else accept_event U (ev_prefix E) n c' source msg content refs)
                     in Some (c', store', n', effs))))"

subsection \<open>Outbound messages\<close>

text \<open>Calls of the API, and what the API answers to the n-th call of a send.\<close>

datatype line_call =
    Reply string string string
  | Push string string string
  | Loading string

datatype api_answer = NetError string | Status int string

definition call_api :: "api_answer \<Rightarrow> send_error option" where
  "call_api answer =
    (case answer of
       NetError e \<Rightarrow> classify_net_error (Some (OtherError e))
     | Status s body \<Rightarrow>
         if s = 200 then None else Some (classify_send_error s (OtherError (''LINE API error: '' @ body))))"

text \<open>The JSON bodies: a text message with an optional quote.\<close>

definition build_text_message :: "string \<Rightarrow> string \<Rightarrow> json" where
  "build_text_message content quoteToken =
    JObj ((if quoteToken \<noteq> [] then [(''quoteToken'', JStr quoteToken)] else []) @
      [(''text'', JStr content), (''type'', JStr ''text'')])"

definition call_body :: "line_call \<Rightarrow> json" where
  "call_body call =
    (case call of
       Reply tok content q \<Rightarrow>
         JObj [(''messages'', JArr [build_text_message content q]), (''replyToken'', JStr tok)]
     | Push to content q \<Rightarrow>
         JObj [(''messages'', JArr [build_text_message content q]), (''to'', JStr to)]
     | Loading chat \<Rightarrow> JObj [(''chatId'', JStr chat), (''loadingSeconds'', JInt 60)])"

definition part_caption :: "media_part \<Rightarrow> string" where
  "part_caption part =
    (if mp_Caption part \<noteq> [] then mp_Caption part
     else ''['' @ mp_Type part @ '': '' @ mp_Filename part @ '']'')"

fun push_parts :: "(nat \<Rightarrow> api_answer) \<Rightarrow> nat \<Rightarrow> string \<Rightarrow> media_part list \<Rightarrow> line_call list \<times> send_error option" where
  "push_parts api n chatID [] = ([], None)"
| "push_parts api n chatID (part # parts) =
    (case call_api (api n) of
       Some e \<Rightarrow> ([Push chatID (part_caption part) []], Some e)
     | None \<Rightarrow>
         let (calls, err) = push_parts api (Suc n) chatID parts
         in (Push chatID (part_caption part) [] # calls, err))"

definition push_all :: "(nat \<Rightarrow> api_answer) \<Rightarrow> nat \<Rightarrow> outbound_message \<Rightarrow> string \<Rightarrow> line_call list \<times> send_error option" where
  "push_all api n msg quoteToken =
    (case call_api (api n) of
       Some e \<Rightarrow> ([Push (om_ChatID msg) (om_Content msg) quoteToken], Some e)
     | None \<Rightarrow>
         let (calls, err) = push_parts api (Suc n) (om_ChatID msg) (om_Parts msg)
         in (Push (om_ChatID msg) (om_Content msg) quoteToken # calls, err))"

definition line_send ::
  "int \<Rightarrow> (nat \<Rightarrow> api_answer) \<Rightarrow> line_channel \<Rightarrow> outbound_message \<Rightarrow> line_channel \<times> line_call list \<times> send_error option" where
  "line_send now api c msg =
    (if \<not> bc_running (ln_base c) then (c, [], Some (Sentinel ErrNotRunning))
     else
       let chatID = om_ChatID msg;
           quoteToken = (case ln_quoteTokens c chatID of None \<Rightarrow> [] | Some q \<Rightarrow> q);
           entry = ln_replyTokens c chatID;
           c' = c\<lparr>ln_quoteTokens := (ln_quoteTokens c)(chatID := None),
                   ln_replyTokens := (ln_replyTokens c)(chatID := None)\<rparr>
       in
         (case entry of
            Some (token, timestamp) \<Rightarrow>
              if now - timestamp < lineReplyTokenMaxAge then
                let reply = Reply token (om_Content msg) quoteToken in
                if call_api (api 0) = None then (c', [reply], None)
                else let (calls, err) = push_all api 1 msg quoteToken in (c', reply # calls, err)
              else let (calls, err) = push_all api 0 msg quoteToken in (c', calls, err)
          | None \<Rightarrow> let (calls, err) = push_all api 0 msg quoteToken in (c', calls, err)))"

text \<open>
  \<open>StartTyping\<close>: no call for groups and rooms, whose ids start with C or R, and a failed first call
  is reported; afterwards the indicator is refreshed until it is stopped.
\<close>

definition line_start_typing :: "(nat \<Rightarrow> api_answer) \<Rightarrow> string \<Rightarrow> line_call list \<times> send_error option \<times> bool" where
  "line_start_typing api chatID =
    (if chatID = [] \<or> has_prefix ''C'' chatID \<or> has_prefix ''R'' chatID then ([], None, False)
     else (case call_api (api 0) of
         Some e \<Rightarrow> ([Loading chatID], Some e, False)
       | None \<Rightarrow> ([Loading chatID], None, True)))"

subsection \<open>What the webhook lets through\<close>

lemma keep_tokens_frame [frame]:
  "ln_base (keep_tokens now chat event msg c) = ln_base c"
  "ln_botUserID (keep_tokens now chat event msg c) = ln_botUserID c"
  "ln_botDisplayName (keep_tokens now chat event msg c) = ln_botDisplayName c"
  by (simp_all add: keep_tokens_def)

lemma is_bot_mentioned_keep: "is_bot_mentioned (keep_tokens now chat event msg c) m = is_bot_mentioned c m"
proof -
  have "names_bot (keep_tokens now chat event msg c) = names_bot c"
    by (intro ext) (simp add: names_bot_def frame)
  then show ?thesis by (cases "lm_Mention m") (simp_all add: is_bot_mentioned_def frame)
qed

lemma webhook_signed:
  "webhook_handler hmac c m body sig = (status, events) \<Longrightarrow> status = 200 \<or> events \<noteq> [] \<Longrightarrow>
    m = ''POST'' \<and> status = 200 \<and> (\<exists>b. body = Some b \<and> sig \<noteq> [] \<and> sig = hmac (lc_ChannelSecret (ln_config c)) b)"
  by (auto simp: webhook_handler_def verify_signature_def split: if_splits option.splits prod.splits bool.splits)


definition sample_line :: line_channel where
  "sample_line =
    \<lparr>ln_base = new_base_channel ''line'' [''line:U1''] [],
     ln_config = \<lparr>lc_ChannelSecret = ''key'', lc_ChannelAccessToken = ''t'', lc_WebhookPath = [], lc_AllowFrom = [''line:U1''],
       lc_GroupTrigger = \<lparr>MentionOnly = False, Prefixes = []\<rparr>, lc_ReasoningChannelID = []\<rparr>,
     ln_botUserID = [], ln_botBasicID = [], ln_botDisplayName = [], ln_replyTokens = Map.empty, ln_quoteTokens = Map.empty\<rparr>"

definition sample_event_json :: json where
  "sample_event_json =
    JObj [(''type'', JStr ''message''), (''replyToken'', JStr ''r1''),
      (''source'', JObj [(''type'', JStr ''user''), (''userId'', JStr ''U1'')]),
      (''message'', JObj [(''id'', JStr ''7''), (''type'', JStr ''text''), (''text'', JStr ''hi'')])]"

definition sample_event :: line_event where
  "sample_event = fst (decode_struct event_fields sample_event_json no_event)"

definition line_sample_env :: line_env where
  "line_sample_env = \<lparr>ev_now = 0, ev_store = None, ev_disk = {}, ev_ref = [], ev_download = \<lambda>_ _. [], ev_prefix = ''p'', ev_counter = 0\<rparr>"

lemma sample_webhook:
  "webhook_handler (\<lambda>k b. k @ b) sample_line ''POST'' (Some (marshal (JObj [(''events'', JArr [sample_event_json])])))
    (''key'' @ marshal (JObj [(''events'', JArr [sample_event_json])])) = (200, [sample_event])"
proof -
  have "decode_struct webhook_fields (JObj [(''events'', JArr [sample_event_json])]) [] =
      (map (\<lambda>v. fst (decode_struct event_fields v no_event)) [sample_event_json],
       list_ex (\<lambda>v. snd (decode_struct event_fields v no_event)) [sample_event_json])"
    by (simp add: webhook_fields_def decode_struct_def [of _ "JObj _" "[] :: line_event list"] set_member_apply set_list_def Let_def)
  moreover have "\<not> snd (decode_struct event_fields sample_event_json no_event)" by code_simp
  ultimately show ?thesis
    by (simp add: webhook_handler_def verify_signature_def unmarshal_marshal sample_event_def)
      (simp add: sample_line_def)
qed


subsection \<open>What a send does\<close>

definition is_reply :: "line_call \<Rightarrow> bool" where
  "is_reply call \<longleftrightarrow> (case call of Reply _ _ _ \<Rightarrow> True | _ \<Rightarrow> False)"

definition captions :: "outbound_message \<Rightarrow> line_call list" where
  "captions msg = map (\<lambda>p. Push (om_ChatID msg) (part_caption p) []) (om_Parts msg)"

lemma push_parts_calls:
  "push_parts api n chat parts = (calls, err) \<Longrightarrow>
    (\<exists>k. calls = take k (map (\<lambda>p. Push chat (part_caption p) []) parts) \<and> (err = None \<longrightarrow> k = length parts))"
proof (induction parts arbitrary: n calls)
  case (Cons part parts)
  let ?push = "\<lambda>p. Push chat (part_caption p) []"
  show ?case
  proof (cases "call_api (api n)")
    case None
    obtain calls' e where rest: "push_parts api (Suc n) chat parts = (calls', e)" by force
    with Cons.prems None have eq: "calls = ?push part # calls'" "err = e" by simp_all
    with rest have "push_parts api (Suc n) chat parts = (calls', err)" by simp
    from Cons.IH [OF this] obtain k where "calls' = take k (map ?push parts)" "err = None \<longrightarrow> k = length parts" by blast
    with eq show ?thesis by (intro exI [of _ "Suc k"]) simp
  next
    case (Some e)
    with Cons.prems have "calls = [?push part]" "err = Some e" by simp_all
    then show ?thesis by (intro exI [of _ "Suc 0"]) simp
  qed
qed simp

lemma push_all_calls:
  assumes "push_all api n msg q = (calls, err)"
  shows "\<exists>k. calls = Push (om_ChatID msg) (om_Content msg) q # take k (captions msg) \<and>
    (err = None \<longrightarrow> k = length (om_Parts msg))"
proof (cases "call_api (api n)")
  case None
  obtain ps e where p: "push_parts api (Suc n) (om_ChatID msg) (om_Parts msg) = (ps, e)" by force
  with None assms have "calls = Push (om_ChatID msg) (om_Content msg) q # ps" "err = e"
    by (simp_all add: push_all_def)
  with push_parts_calls [OF p] show ?thesis unfolding captions_def by blast
next
  case (Some e)
  with assms have "calls = [Push (om_ChatID msg) (om_Content msg) q]" "err = Some e"
    by (simp_all add: push_all_def)
  then show ?thesis by (intro exI [of _ 0]) simp
qed

text \<open>
  A send consumes the tokens of its chat and of no other. It uses the reply token at most once, as
  its first call, and only while it is younger than 25 seconds; else, or when that call fails, the
  text is pushed and the captions of the parts after it, in order, and all of them when no error
  is reported.
\<close>

theorem line_send_calls:
  assumes "line_send now api c msg = (c', calls, err)" and "bc_running (ln_base c)"
  shows "ln_replyTokens c' = (ln_replyTokens c)(om_ChatID msg := None) \<and>
    ln_quoteTokens c' = (ln_quoteTokens c)(om_ChatID msg := None) \<and>
    (\<exists>q replies pushes. calls = replies @ pushes \<and>
      (replies = [] \<or> (\<exists>tok ts. replies = [Reply tok (om_Content msg) q] \<and>
          ln_replyTokens c (om_ChatID msg) = Some (tok, ts) \<and> now - ts < 25 * 1000000000)) \<and>
      (if pushes = [] then replies \<noteq> [] \<and> err = None
       else \<exists>k. pushes = Push (om_ChatID msg) (om_Content msg) q # take k (captions msg) \<and>
         (err = None \<longrightarrow> k = length (om_Parts msg))))"
proof -
  let ?q = "case ln_quoteTokens c (om_ChatID msg) of None \<Rightarrow> [] | Some q \<Rightarrow> q"
  let ?goal = "\<lambda>replies pushes. calls = replies @ pushes \<and>
      (replies = [] \<or> (\<exists>tok ts. replies = [Reply tok (om_Content msg) ?q] \<and>
          ln_replyTokens c (om_ChatID msg) = Some (tok, ts) \<and> now - ts < 25 * 1000000000)) \<and>
      (if pushes = [] then replies \<noteq> [] \<and> err = None
       else \<exists>k. pushes = Push (om_ChatID msg) (om_Content msg) ?q # take k (captions msg) \<and>
         (err = None \<longrightarrow> k = length (om_Parts msg)))"
  have tokens: "ln_replyTokens c' = (ln_replyTokens c)(om_ChatID msg := None)"
      "ln_quoteTokens c' = (ln_quoteTokens c)(om_ChatID msg := None)"
    using assms by (auto simp: line_send_def Let_def split: option.splits prod.splits if_splits)
  consider tok ts where "ln_replyTokens c (om_ChatID msg) = Some (tok, ts)" "now - ts < lineReplyTokenMaxAge"
    | "\<not> (\<exists>tok ts. ln_replyTokens c (om_ChatID msg) = Some (tok, ts) \<and> now - ts < lineReplyTokenMaxAge)"
    by blast
  then have "\<exists>replies pushes. ?goal replies pushes"
  proof cases
    case (1 tok ts)
    let ?r = "[Reply tok (om_Content msg) ?q]"
    show ?thesis
    proof (cases "call_api (api 0) = None")
      case True
      with assms 1 have "?goal ?r []" by (auto simp: line_send_def Let_def lineReplyTokenMaxAge_def)
      then show ?thesis by blast
    next
      case False
      obtain ps e where p: "push_all api 1 msg ?q = (ps, e)" by force
      with assms 1 False have "calls = ?r @ ps" "err = e"
        by (auto simp: line_send_def Let_def)
      with push_all_calls [OF p] 1 have "?goal ?r ps" by (auto simp: lineReplyTokenMaxAge_def)
      then show ?thesis by blast
    qed
  next
    case 2
    obtain ps e where p: "push_all api 0 msg ?q = (ps, e)" by force
    with assms 2 have "calls = ps" "err = e"
      by (auto simp: line_send_def Let_def split: option.splits prod.splits if_splits)
    with push_all_calls [OF p] have "?goal [] ps" by auto
    then show ?thesis by blast
  qed
  with tokens show ?thesis by blast
qed

theorem line_send_calls_witness:
  "\<exists>c' calls. line_send 0 (\<lambda>_. Status 200 []) (line_start None sample_line) sample_outbound = (c', calls, None) \<and>
    calls = [Push ''c'' ''hi'' []]"
proof -
  let ?c = "line_start None sample_line"
  obtain c' calls err where run: "line_send 0 (\<lambda>_. Status 200 []) ?c sample_outbound = (c', calls, err)"
    by (metis prod_cases3)
  have running: "bc_running (ln_base ?c)" and none: "ln_replyTokens ?c = Map.empty" "ln_quoteTokens ?c = Map.empty"
    by (simp_all add: line_start_def fetch_bot_info_def set_running_def sample_line_def)
  obtain q replies pushes where parts: "calls = replies @ pushes"
      "replies = [] \<or> (\<exists>tok ts. replies = [Reply tok (om_Content sample_outbound) q] \<and>
          ln_replyTokens ?c (om_ChatID sample_outbound) = Some (tok, ts) \<and> 0 - ts < 25 * 1000000000)"
      "if pushes = [] then replies \<noteq> [] \<and> err = None
       else \<exists>k. pushes = Push (om_ChatID sample_outbound) (om_Content sample_outbound) q # take k (captions sample_outbound) \<and>
         (err = None \<longrightarrow> k = length (om_Parts sample_outbound))"
    using line_send_calls [OF run running] by blast
  with none have "calls = [Push ''c'' ''hi'' q]"
    by (auto simp: sample_outbound_def captions_def split: if_splits)
  moreover have "err = None" "calls = [Push ''c'' ''hi'' []]"
    using run running none by (auto simp: line_send_def push_all_def call_api_def sample_outbound_def Let_def)
  ultimately show ?thesis using run by blast
qed

text \<open>The parts of a message are lost when its text goes out as a reply.\<close>

theorem line_reply_drops_parts:
  assumes "bc_running (ln_base c)" and "ln_replyTokens c (om_ChatID msg) = Some (tok, ts)"
    and "now - ts < 25 * 1000000000" and "api 0 = Status 200 []"
  shows "\<exists>c' q. line_send now api c msg = (c', [Reply tok (om_Content msg) q], None)"
  using assms by (auto simp: line_send_def lineReplyTokenMaxAge_def call_api_def Let_def)

text \<open>
  When the text was pushed and a caption fails for the time being, the error makes the manager send
  the message again, and the text is pushed a second time.
\<close>

theorem line_resend_repeats:
  assumes "bc_running (ln_base c)" and "ln_replyTokens c (om_ChatID msg) = None" and "om_Parts msg = [p]"
  shows "\<exists>c1 calls1 e c2 calls2 q.
    line_send now (\<lambda>n. if n = 0 then Status 200 [] else Status 500 []) c msg = (c1, calls1, Some e) \<and> \<not> permanent e \<and>
    line_send now' (\<lambda>_. Status 200 []) c1 msg = (c2, calls2, None) \<and>
    Push (om_ChatID msg) (om_Content msg) q \<in> set calls1 \<and> Push (om_ChatID msg) (om_Content msg) [] \<in> set calls2"
  using assms
  by (auto simp: line_send_def push_all_def call_api_def classify_send_error_def permanent_def Let_def)

subsection \<open>What is published\<close>

lemma line_passed_on:
  assumes "process_event U E event c = Some (c', store', n, effs)" "effs \<noteq> []"
  shows "passed_on U ''line'' (ln_base c) effs"
proof -
  have peer: "peer_ok (line_sender U user) room \<lparr>p_Kind = ''direct'', p_ID = user\<rparr>"
      "peer_ok (line_sender U user) room \<lparr>p_Kind = ''group'', p_ID = chat\<rparr>" for user room chat
    by (simp_all add: peer_ok_def line_sender_def)
  have sender: "Platform (line_sender U user) = ''line''" "PlatformID (line_sender U user) = user"
      "CanonicalID (line_sender U user) = build_canonical_id U ''line'' user" for user
    by (simp_all add: line_sender_def)
  have base: "ln_base (keep_tokens now chat event msg c) = ln_base c" for now chat event msg
    by (simp add: keep_tokens_def)
  show ?thesis
    using assms
    by (auto simp: process_event_def accept_event_def Let_def peer sender base
        split: option.splits if_splits prod.splits intro!: passed_onI)
qed

definition line_effects :: "unicode \<Rightarrow> line_env \<times> line_event \<Rightarrow> line_channel \<Rightarrow> channel_effect list" where
  "line_effects U = (\<lambda>(E, event) c. case process_event U E event c of None \<Rightarrow> [] | Some (_, _, _, effs) \<Rightarrow> effs)"

interpretation line_inbound: inbound_adapter U "''line''" ln_base "line_effects U" for U
  by unfold_locales (auto simp: line_effects_def dest: line_passed_on split: option.splits)

end
