(* ===== verification/Irc.thy ===== *)
theory Irc
  imports Markdown Go_Runes Base_Channel
begin

text \<open>
  \<open>pkg/channels/irc/irc.go\<close> and \<open>handler.go\<close>: the IRC adapter. The connection is outside of the
  repository: what is sent to it is the result of the operations.
\<close>

subsection \<open>State\<close>

record irc_config =
  ic_Server :: string
  ic_TLS :: bool
  ic_Nick :: string
  ic_User :: string
  ic_RealName :: string
  ic_Password :: string
  ic_NickServPassword :: string
  ic_SASLUser :: string
  ic_SASLPassword :: string
  ic_Channels :: "string list"
  ic_RequestCaps :: "string list"
  ic_AllowFrom :: "string list"
  ic_GroupTrigger :: group_trigger
  ic_TypingEnabled :: bool
  ic_ReasoningChannelID :: string

text \<open>The connection as \<open>Start\<close> sets it up, and the capabilities the server acknowledged.\<close>

record irc_connection =
  cn_Server :: string
  cn_Nick :: string
  cn_User :: string
  cn_RealName :: string
  cn_Password :: string
  cn_UseTLS :: bool
  cn_RequestCaps :: "string list"
  cn_TLSServerName :: "string option"
  cn_SASL :: "(string \<times> string) option"
  cn_Caps :: "string set"

record irc_channel =
  ir_base :: base_channel
  ir_config :: irc_config
  ir_conn :: "irc_connection option"

datatype irc_command =
    Privmsg string string
  | Join string
  | TagTyping string string
  | Quit

definition new_irc_channel :: "irc_config \<Rightarrow> string + irc_channel" where
  "new_irc_channel cfg =
    (if ic_Server cfg = [] then Inl ''irc server is required''
     else if ic_Nick cfg = [] then Inl ''irc nick is required''
     else Inr \<lparr>ir_base = new_base_channel ''irc'' (ic_AllowFrom cfg)
                 [with_max_message_length 400, with_group_trigger (ic_GroupTrigger cfg),
                  with_reasoning_channel_id (ic_ReasoningChannelID cfg)],
               ir_config = cfg, ir_conn = None\<rparr>)"

definition extract_host :: "string \<Rightarrow> string" where
  "extract_host server = (case index_of '':'' server of Some i \<Rightarrow> take i server | None \<Rightarrow> server)"

definition irc_connection_of :: "irc_config \<Rightarrow> irc_connection" where
  "irc_connection_of cfg =
    \<lparr>cn_Server = ic_Server cfg, cn_Nick = ic_Nick cfg,
     cn_User = (if ic_User cfg = [] then ic_Nick cfg else ic_User cfg),
     cn_RealName = (if ic_RealName cfg = [] then ic_Nick cfg else ic_RealName cfg),
     cn_Password = ic_Password cfg, cn_UseTLS = ic_TLS cfg,
     cn_RequestCaps = (if ic_RequestCaps cfg = [] then [''server-time'', ''message-tags''] else ic_RequestCaps cfg),
     cn_TLSServerName = (if ic_TLS cfg then Some (extract_host (ic_Server cfg)) else None),
     cn_SASL = (if ic_SASLUser cfg \<noteq> [] \<and> ic_SASLPassword cfg \<noteq> []
                then Some (ic_SASLUser cfg, ic_SASLPassword cfg) else None),
     cn_Caps = {}\<rparr>"

definition irc_start :: "string option \<Rightarrow> irc_channel \<Rightarrow> irc_channel \<times> string option" where
  "irc_start connectErr c =
    (case connectErr of
       Some e \<Rightarrow> (c, Some (''irc connect failed: '' @ e))
     | None \<Rightarrow> (c\<lparr>ir_conn := Some (irc_connection_of (ir_config c)), ir_base := set_running True (ir_base c)\<rparr>, None))"

definition irc_stop :: "irc_channel \<Rightarrow> irc_channel \<times> irc_command list" where
  "irc_stop c = (c\<lparr>ir_base := set_running False (ir_base c)\<rparr>, if ir_conn c = None then [] else [Quit])"

definition on_connect :: "irc_config \<Rightarrow> irc_command list" where
  "on_connect cfg =
    (if ic_NickServPassword cfg \<noteq> [] \<and> ic_SASLUser cfg = []
     then [Privmsg ''NickServ'' (''IDENTIFY '' @ ic_NickServPassword cfg)] else []) @
    map Join (ic_Channels cfg)"

subsection \<open>Outbound messages\<close>

definition ircReItalic :: "string \<Rightarrow> (string \<times> string) option" where
  "ircReItalic = delimited ''_'' (\<lambda>c. c \<noteq> newline)"

definition ircReHeading :: "string \<Rightarrow> (string \<times> string) option" where
  "ircReHeading s =
    (let marks = length (takeWhile (\<lambda>c. c = CHR ''#'') s) in
     if 1 \<le> marks \<and> marks \<le> 6 then white_then_line 1 (drop marks s) else None)"

text \<open>The mark of a quotation, at most one byte of white space, and the rest of the line.\<close>

definition ircReBlockquote :: "string \<Rightarrow> (string \<times> string) option" where
  "ircReBlockquote s =
    (case s of
       [] \<Rightarrow> None
     | c # t \<Rightarrow>
         if c \<noteq> CHR ''>'' then None
         else
           let cut = (\<lambda>u. (takeWhile (\<lambda>c. c \<noteq> newline) u, dropWhile (\<lambda>c. c \<noteq> newline) u)) in
             if t \<noteq> [] \<and> is_white (hd t) \<and> tl t \<noteq> [] \<and> hd (tl t) \<noteq> newline then Some (cut (tl t))
             else if t \<noteq> [] \<and> hd t \<noteq> newline then Some (cut t) else None)"

definition strip_markdown :: "unicode \<Rightarrow> string \<Rightarrow> string" where
  "strip_markdown U s =
    (if s = [] then []
     else
       let s1 = replace_matches reCodeBlock (\<lambda>g. g) s;
           s2 = replace_matches reInlineCode (\<lambda>g. g) s1;
           s3 = replace_line_matches ircReHeading (to_upper U) s2;
           s4 = replace_matches reLink (\<lambda>(label, addr). label @ '': '' @ addr) s3;
           s5 = replace_matches (delimited ''**'' (\<lambda>c. c \<noteq> newline)) (\<lambda>g. g) s4;
           s6 = replace_matches (delimited ''__'' (\<lambda>c. c \<noteq> newline)) (\<lambda>g. g) s5;
           s7 = replace_matches ircReItalic (\<lambda>g. g) s6;
           s8 = replace_matches (delimited ''~~'' (\<lambda>c. c \<noteq> newline)) (\<lambda>g. g) s7
       in replace_line_matches ircReBlockquote (\<lambda>g. g) s8)"

definition trim_right_cr :: "string \<Rightarrow> string" where
  "trim_right_cr s = rev (dropWhile (\<lambda>c. c = CHR 0x0D) (rev s))"

definition irc_send :: "unicode \<Rightarrow> irc_channel \<Rightarrow> outbound_message \<Rightarrow> irc_command list \<times> send_error option" where
  "irc_send U c msg =
    (if \<not> bc_running (ir_base c) then ([], Some (Sentinel ErrNotRunning))
     else if om_ChatID msg = [] then ([], Some (Wrapped ErrSendFailed ''chat ID is empty''))
     else if trim_space (om_Content msg) = [] then ([], None)
     else
       (map (Privmsg (om_ChatID msg))
          (filter (\<lambda>l. l \<noteq> []) (map trim_right_cr (split_on newline (strip_markdown U (om_Content msg))))), None))"

text \<open>\<open>StartTyping\<close>: what is sent at once, and what the function it returns sends.\<close>

definition can_type :: "irc_channel \<Rightarrow> bool" where
  "can_type c \<longleftrightarrow> ic_TypingEnabled (ir_config c) \<and> bc_running (ir_base c) \<and>
    (case ir_conn c of None \<Rightarrow> False | Some conn \<Rightarrow> ''message-tags'' \<in> cn_Caps conn)"

definition irc_start_typing :: "irc_channel \<Rightarrow> string \<Rightarrow> irc_command list \<times> (irc_channel \<Rightarrow> irc_command list)" where
  "irc_start_typing c chatID =
    (if can_type c
     then ([TagTyping ''active'' chatID],
           \<lambda>c'. if bc_running (ir_base c') \<and> ir_conn c' \<noteq> None then [TagTyping ''done'' chatID] else [])
     else ([], \<lambda>_. []))"

subsection \<open>Mentions\<close>

text \<open>
  Letters and digits; the tables beyond ASCII are an argument. The nick is looked for in the lower-cased
  text by bytes, but the character in front of it is taken from its runes, at the index of the byte:
  \<open>None\<close> when that index is out of range, \<open>Some None\<close> when the nick is not mentioned.
\<close>

definition is_alnum :: "(rune \<Rightarrow> bool) \<Rightarrow> rune \<Rightarrow> bool" where
  "is_alnum A r \<longleftrightarrow> (if r < 128 then 48 \<le> r \<and> r \<le> 57 \<or> 65 \<le> r \<and> r \<le> 90 \<or> 97 \<le> r \<and> r \<le> 122 else A r)"

definition nick_mentioned_at :: "unicode \<Rightarrow> (rune \<Rightarrow> bool) \<Rightarrow> string \<Rightarrow> string \<Rightarrow> nat option option" where
  "nick_mentioned_at U A content nick =
    (let lower = to_lower U content; lowerNick = to_lower U nick in
     if has_prefix (lowerNick @ '':'') lower \<or> has_prefix (lowerNick @ '','') lower then Some (Some 0)
     else
       (case index_of lowerNick lower of
          None \<Rightarrow> Some None
        | Some idx \<Rightarrow>
            let runes = runes_of lower;
                endIdx = idx + length (string_of_runes (runes_of lowerNick));
                follows = endIdx \<ge> length lower \<or> \<not> is_alnum A (of_char (lower ! endIdx))
            in
              if idx = 0 then Some (if follows then Some idx else None)
              else if idx - 1 \<ge> length runes then None
              else Some (if \<not> is_alnum A (runes ! (idx - 1)) \<and> follows then Some idx else None)))"

definition irc_strip_mention :: "unicode \<Rightarrow> (rune \<Rightarrow> bool) \<Rightarrow> string \<Rightarrow> string \<Rightarrow> string option" where
  "irc_strip_mention U A content nick =
    (case nick_mentioned_at U A content nick of
       None \<Rightarrow> None
     | Some at \<Rightarrow>
         if at \<noteq> Some 0 then Some content
         else
           let lowerNick = to_lower U nick; lower = to_lower U content in
             (case List.find (\<lambda>sep. has_prefix (lowerNick @ sep) lower) ['':'', '',''] of
                None \<Rightarrow> Some content
              | Some sep \<Rightarrow>
                  if length (lowerNick @ sep) > length content then None
                  else Some (trim_space (drop (length (lowerNick @ sep)) content))))"

subsection \<open>Inbound messages\<close>

definition irc_sender :: "unicode \<Rightarrow> string \<Rightarrow> sender_info" where
  "irc_sender U nick =
    \<lparr>Platform = ''irc'', PlatformID = nick, CanonicalID = build_canonical_id U ''irc'' nick,
     Username = nick, DisplayName = nick\<rparr>"

text \<open>Messages to a channel: the mention and the group trigger.\<close>

definition irc_trigger ::
  "unicode \<Rightarrow> (rune \<Rightarrow> bool) \<Rightarrow> irc_channel \<Rightarrow> string \<Rightarrow> string \<Rightarrow> (bool \<times> string) option" where
  "irc_trigger U A c currentNick content =
    (case nick_mentioned_at U A content currentNick of
       None \<Rightarrow> None
     | Some None \<Rightarrow> Some (should_respond_in_group (ir_base c) False content)
     | Some (Some _) \<Rightarrow>
         map_option (should_respond_in_group (ir_base c) True) (irc_strip_mention U A content currentNick))"

text \<open>
  \<open>onPrivmsg\<close> on the parameters of a message from \<open>nick\<close>; \<open>None\<close> when the search for the mention
  panics. \<open>now\<close> is the clock in nanoseconds.
\<close>

definition on_privmsg ::
  "unicode \<Rightarrow> (rune \<Rightarrow> bool) \<Rightarrow> string \<Rightarrow> 64 word \<Rightarrow> int \<Rightarrow> irc_channel \<Rightarrow> string \<Rightarrow> string \<Rightarrow> string list \<Rightarrow>
    (channel_effect list \<times> 64 word) option" where
  "on_privmsg U A prefix n now c currentNick nick params =
    (case params of
       target # content # _ \<Rightarrow>
         if equal_fold U nick currentNick then Some ([], n)
         else
           let isDM = (\<not> has_prefix ''#'' target \<and> \<not> has_prefix ''&'' target);
               chatID = (if isDM then nick else target);
               sender = irc_sender U nick
           in
             if \<not> is_allowed_sender U (ir_base c) sender then Some ([], n)
             else
               (case (if isDM then Some (True, content) else irc_trigger U A c currentNick content) of
                  None \<Rightarrow> None
                | Some (respond, content') \<Rightarrow>
                    if \<not> respond \<or> trim_space content' = [] then Some ([], n)
                    else
                      Some (handle_message U prefix n (ir_base c)
                        (if isDM then \<lparr>p_Kind = ''direct'', p_ID = nick\<rparr> else \<lparr>p_Kind = ''group'', p_ID = target\<rparr>)
                        (nick @ ''-'' @ format_int now) nick chatID content' []
                        ([''platform'' \<mapsto> ''irc'', ''server'' \<mapsto> ic_Server (ir_config c)] ++
                         (if isDM then Map.empty else [''channel'' \<mapsto> target])) [sender]))
     | _ \<Rightarrow> Some ([], n))"


subsection \<open>What is sent\<close>

definition irc_line_ok :: "string \<Rightarrow> irc_command \<Rightarrow> bool" where
  "irc_line_ok target cmd \<longleftrightarrow>
    (case cmd of Privmsg t l \<Rightarrow> t = target \<and> l \<noteq> [] \<and> newline \<notin> set l \<and> last l \<noteq> CHR 0x0D | _ \<Rightarrow> False)"

lemma trim_right_cr_props:
  "set (trim_right_cr s) \<subseteq> set s"
  "trim_right_cr s \<noteq> [] \<Longrightarrow> last (trim_right_cr s) \<noteq> CHR 0x0D"
proof -
  show "set (trim_right_cr s) \<subseteq> set s"
    by (auto simp: trim_right_cr_def dest: set_dropWhileD)
  assume "trim_right_cr s \<noteq> []"
  then show "last (trim_right_cr s) \<noteq> CHR 0x0D"
    using hd_dropWhile [of "\<lambda>c. c = CHR 0x0D" "rev s"] by (auto simp: trim_right_cr_def last_rev)
qed

text \<open>
  whatever a message holds, all a send gives to the connection are messages to its chat of one
  non-empty line each, so that no line of an answer can pass for a command of its own.
\<close>

theorem irc_send_lines: "list_all (irc_line_ok (om_ChatID msg)) (fst (irc_send U c msg))"
proof -
  have "irc_line_ok t (Privmsg t l)"
    if "l \<in> set (filter (\<lambda>l. l \<noteq> []) (map trim_right_cr (split_on newline s)))" for t l s
  proof -
    from that obtain p where p: "p \<in> set (split_on newline s)" "l = trim_right_cr p" "l \<noteq> []" by auto
    have "newline \<notin> set l"
      using split_on_parts [OF p(1)] trim_right_cr_props(1) [of p] p(2) by auto
    then show ?thesis using p trim_right_cr_props(2) [of p] by (simp add: irc_line_ok_def)
  qed
  then show ?thesis by (auto simp: irc_send_def list_all_iff)
qed

subsection \<open>When the nick is mentioned\<close>

text \<open>The nick stands as a word at a byte of the text.\<close>

definition word_at :: "(rune \<Rightarrow> bool) \<Rightarrow> string \<Rightarrow> string \<Rightarrow> nat \<Rightarrow> bool" where
  "word_at A w s i \<longleftrightarrow>
    has_prefix w (drop i s) \<and>
    (i = 0 \<or> \<not> is_alnum A (of_char (s ! (i - 1)))) \<and>
    (i + length w \<ge> length s \<or> \<not> is_alnum A (of_char (s ! (i + length w))))"

lemma index_of_least:
  "index_of w s = Some i \<Longrightarrow> has_prefix w (drop i s) \<and> i + length w \<le> length s"
  using index_of_Some_prefix by blast

lemma prefix_sep_word:
  assumes "has_prefix (w @ [c]) s" "\<not> is_alnum A (of_char c)"
  shows "word_at A w s 0"
proof -
  obtain t where "s = w @ c # t" using assms(1) by (auto simp: has_prefix_append_iff)
  with assms(2) show ?thesis by (simp add: word_at_def has_prefix_append nth_append)
qed

text \<open>
  C37: in ASCII text the search for the nick never fails, what it finds is the nick as a word of its
  own, and it finds nothing only when the first occurrence of the nick is part of a longer word or
  there is none.
\<close>

theorem nick_mentioned_ascii:
  assumes "is_ascii content" "is_ascii nick"
  shows "case nick_mentioned_at U A content nick of
      None \<Rightarrow> False
    | Some (Some i) \<Rightarrow> word_at A (map ascii_lower nick) (map ascii_lower content) i
    | Some None \<Rightarrow>
        (case index_of (map ascii_lower nick) (map ascii_lower content) of
           None \<Rightarrow> True | Some i \<Rightarrow> \<not> word_at A (map ascii_lower nick) (map ascii_lower content) i)"
proof -
  define s w where "s = map ascii_lower content" and "w = map ascii_lower nick"
  have low: "to_lower U content = s" "to_lower U nick = w" "is_ascii s" "is_ascii w"
    using assms by (simp_all add: to_lower_ascii s_def w_def)
  have sep: "\<not> is_alnum A (of_char CHR '':'')" "\<not> is_alnum A (of_char CHR '','')"
    by (simp_all add: is_alnum_def)
  show ?thesis
    unfolding s_def [symmetric] w_def [symmetric]
  proof (cases "has_prefix (w @ '':'') s \<or> has_prefix (w @ '','') s")
    case True
    then show "case nick_mentioned_at U A content nick of None \<Rightarrow> False | Some None \<Rightarrow>
          (case index_of w s of None \<Rightarrow> True | Some i \<Rightarrow> \<not> word_at A w s i) | Some (Some i) \<Rightarrow> word_at A w s i"
      using prefix_sep_word sep by (auto simp: nick_mentioned_at_def low Let_def)
  next
    case False
    show "case nick_mentioned_at U A content nick of None \<Rightarrow> False | Some None \<Rightarrow>
          (case index_of w s of None \<Rightarrow> True | Some i \<Rightarrow> \<not> word_at A w s i) | Some (Some i) \<Rightarrow> word_at A w s i"
    proof (cases "index_of w s")
      case None
      with False show ?thesis by (simp add: nick_mentioned_at_def low Let_def)
    next
      case (Some i)
      have i: "has_prefix w (drop i s)" "i + length w \<le> length s" using index_of_least [OF Some] by auto
      have r: "runes_of s = map of_char s" "string_of_runes (runes_of w) = w"
        using low by (simp_all add: runes_of_ascii string_of_runes_ascii)
      show ?thesis
      proof (cases "i = 0")
        case True
        with False Some i r show ?thesis by (simp add: nick_mentioned_at_def low Let_def word_at_def)
      next
        case pos: False
        then have "i - 1 < length s" using i(2) by linarith
        with pos False Some i r show ?thesis by (auto simp: nick_mentioned_at_def low Let_def word_at_def)
      qed
    qed
  qed
qed

theorem nick_mentioned_ascii_witness:
  "nick_mentioned_at ascii_only (\<lambda>_. False) ''hey Bot!'' ''bot'' = Some (Some 4) \<and>
   word_at (\<lambda>_. False) (map ascii_lower ''bot'') (map ascii_lower ''hey Bot!'') 4"
proof -
  have n: "nick_mentioned_at ascii_only (\<lambda>_. False) ''hey Bot!'' ''bot'' = Some (Some 4)" by code_simp
  show ?thesis
    using nick_mentioned_ascii [of "''hey Bot!''" "''bot''", where U = ascii_only and A = "\<lambda>_. False"] n by simp
qed

text \<open>
  Beyond ASCII the byte index runs past the runes: a message of letters of two bytes in front of the
  nick makes the search panic. And a nick that first occurs within a word is not found behind it.
\<close>

lemma nick_search_panics:
  "nick_mentioned_at ascii_only (\<lambda>_. True) (concat (replicate 6 [CHR 0xC3, CHR 0xA9]) @ '' bot'') ''bot'' = None"
  by code_simp

lemma later_mention_missed:
  "nick_mentioned_at ascii_only (\<lambda>_. False) ''robots need a bot'' ''bot'' = Some None"
  by code_simp

text \<open>
  A message is answered in the chat it came from, and only when its sender is admitted, is not the bot
  itself and, in a channel, addresses it or passes the group trigger.
\<close>

theorem irc_message_gate:
  assumes "on_privmsg U A prefix n now c currentNick nick (target # content # params) = Some (effs, n')" "effs \<noteq> []"
  defines "dm \<equiv> \<not> has_prefix ''#'' target \<and> \<not> has_prefix ''&'' target"
  shows "\<not> equal_fold U nick currentNick \<and> is_allowed_sender U (ir_base c) (irc_sender U nick) \<and>
    (\<exists>text'. (if dm then text' = content else irc_trigger U A c currentNick content = Some (True, text')) \<and>
      trim_space text' \<noteq> [] \<and>
      (\<exists>im. last effs = PublishInboundMessage im \<and> im_ChatID im = (if dm then nick else target) \<and>
        im_Content im = text' \<and> im_Sender im = irc_sender U nick))"
proof -
  have h: "\<exists>im. last effs = PublishInboundMessage im \<and> im_ChatID im = chat \<and> im_Content im = t \<and> im_Sender im = sn"
    if "handle_message U prefix n (ir_base c) peer mid nick chat t [] md [sn] = (effs, n')" for peer mid chat t md sn
    using that assms(2) by (auto simp: handle_message_def Let_def split: if_splits prod.splits)
  show ?thesis
    using assms(1,2) unfolding on_privmsg_def dm_def
    by (auto simp: Let_def split: if_splits option.splits prod.splits dest: h)
qed

subsection \<open>What is published\<close>

record irc_env =
  ie_alnum :: "rune \<Rightarrow> bool"
  ie_prefix :: string
  ie_counter :: "64 word"
  ie_now :: int
  ie_currentNick :: string

text \<open>The effects of a message: of the sender's nick and the parameters; none where the search panics.\<close>

definition irc_effects :: "unicode \<Rightarrow> irc_env \<times> string \<times> string list \<Rightarrow> irc_channel \<Rightarrow> channel_effect list" where
  "irc_effects U = (\<lambda>(E, nick, params) c.
    case on_privmsg U (ie_alnum E) (ie_prefix E) (ie_counter E) (ie_now E) c (ie_currentNick E) nick params of
      None \<Rightarrow> [] | Some (effs, _) \<Rightarrow> effs)"

lemma irc_passed_on:
  assumes "on_privmsg U A prefix n now c currentNick nick params = Some (effs, n')" "effs \<noteq> []"
  shows "passed_on U ''irc'' (ir_base c) effs"
proof -
  have peer: "peer_ok (irc_sender U nick) chat \<lparr>p_Kind = ''direct'', p_ID = nick\<rparr>"
      "peer_ok (irc_sender U nick) chat \<lparr>p_Kind = ''group'', p_ID = target\<rparr>" for nick chat target
    by (simp_all add: peer_ok_def irc_sender_def)
  have sender: "Platform (irc_sender U nick) = ''irc''" "PlatformID (irc_sender U nick) = nick"
      "CanonicalID (irc_sender U nick) = build_canonical_id U ''irc'' nick" for nick
    by (simp_all add: irc_sender_def)
  show ?thesis
    using assms
    by (auto simp: on_privmsg_def Let_def peer sender split: list.splits option.splits if_splits prod.splits
        intro!: passed_onI)
qed

interpretation irc_inbound: inbound_adapter U "''irc''" ir_base "irc_effects U" for U
  by unfold_locales (auto simp: irc_effects_def dest: irc_passed_on split: option.splits)

end
