(* ===== verification/Matrix_Rooms.thy ===== *)
theory Matrix_Rooms
  imports Prelude "HOL-Library.Finite_Map" "HOL-Library.Char_ord" "HOL-Library.List_Lexorder"
begin

text \<open>
  The cache of room kinds in \<open>pkg/channels/matrix/matrix.go\<close>: whether a room has more than two
  members, kept for a while for a bounded number of rooms. Where the code ranges over the map, the
  order is an argument.
\<close>

subsection \<open>Operations\<close>

record room_entry =
  re_isGroup :: bool
  re_expiresAt :: int
  re_touchedAt :: int

type_synonym room_entries = "(string, room_entry) fmap"

record room_cache =
  rc_entries :: room_entries
  rc_maxEntries :: int
  rc_ttl :: int

definition room_kind_cache_ttl :: int where "room_kind_cache_ttl = 5 * 60 * 1000000000"

definition room_kind_cache_max_entries :: int where "room_kind_cache_max_entries = 2048"

definition new_room_kind_cache :: "int \<Rightarrow> int \<Rightarrow> room_cache" where
  "new_room_kind_cache maxEntries ttl =
    \<lparr>rc_entries = fmempty,
     rc_maxEntries = (if maxEntries \<le> 0 then room_kind_cache_max_entries else maxEntries),
     rc_ttl = (if ttl \<le> 0 then room_kind_cache_ttl else ttl)\<rparr>"

text \<open>The kind of a room, if it is known, and the cache without an entry found expired.\<close>

definition room_get :: "string \<Rightarrow> int \<Rightarrow> room_cache \<Rightarrow> bool option \<times> room_cache" where
  "room_get roomID now c =
    (case fmlookup (rc_entries c) roomID of
       None \<Rightarrow> (None, c)
     | Some e \<Rightarrow>
         if \<not> now < re_expiresAt e then (None, c\<lparr>rc_entries := fmdrop roomID (rc_entries c)\<rparr>)
         else (Some (re_isGroup e), c))"

definition cleanup_expired :: "int \<Rightarrow> room_entries \<Rightarrow> room_entries" where
  "cleanup_expired now m =
    fmfilter (\<lambda>roomID. case fmlookup m roomID of None \<Rightarrow> False | Some e \<Rightarrow> now < re_expiresAt e) m"

text \<open>\<open>evictOldestLocked\<close>: the oldest entry so far is named by its room, the empty name stands for none.\<close>

fun find_oldest :: "room_entries \<Rightarrow> string list \<Rightarrow> string \<times> int \<Rightarrow> string" where
  "find_oldest m [] (oldest, oldestAt) = oldest"
| "find_oldest m (roomID # order) (oldest, oldestAt) =
    (case fmlookup m roomID of
       None \<Rightarrow> find_oldest m order (oldest, oldestAt)
     | Some e \<Rightarrow>
         find_oldest m order
           (if oldest = [] \<or> re_touchedAt e < oldestAt then (roomID, re_touchedAt e) else (oldest, oldestAt)))"

definition evict_oldest :: "string list \<Rightarrow> room_entries \<Rightarrow> room_entries option" where
  "evict_oldest order m = (if m = fmempty then None else Some (fmdrop (find_oldest m order ([], 0)) m))"

text \<open>Entries are evicted until there is room; every round takes an order of its own.\<close>

partial_function (option) make_room ::
  "(nat \<Rightarrow> room_entries \<Rightarrow> string list) \<Rightarrow> nat \<Rightarrow> int \<Rightarrow> room_entries \<Rightarrow> room_entries option" where
  [code]: "make_room ord n maxEntries m =
    (if int (fcard (fmdom m)) < maxEntries then Some m
     else
       (case evict_oldest (ord n m) m of
          None \<Rightarrow> Some m
        | Some m' \<Rightarrow> make_room ord (Suc n) maxEntries m'))"

definition room_set ::
  "(nat \<Rightarrow> room_entries \<Rightarrow> string list) \<Rightarrow> string \<Rightarrow> bool \<Rightarrow> int \<Rightarrow> room_cache \<Rightarrow> room_cache option" where
  "room_set ord roomID isGroup now c =
    (let e = \<lparr>re_isGroup = isGroup, re_expiresAt = now + rc_ttl c, re_touchedAt = now\<rparr> in
     if fmlookup (rc_entries c) roomID \<noteq> None then Some (c\<lparr>rc_entries := fmupd roomID e (rc_entries c)\<rparr>)
     else
       map_option (\<lambda>m. c\<lparr>rc_entries := fmupd roomID e m\<rparr>)
         (make_room ord 0 (rc_maxEntries c) (cleanup_expired now (rc_entries c))))"

definition room_cleanup :: "int \<Rightarrow> room_cache \<Rightarrow> room_cache" where
  "room_cleanup now c = c\<lparr>rc_entries := cleanup_expired now (rc_entries c)\<rparr>"

text \<open>
  \<open>isGroupRoom\<close>: the cached kind, else the number of joined members, if the server tells it. Where it does
  not, the room counts as direct and nothing is cached.
\<close>

definition is_group_room ::
  "(nat \<Rightarrow> room_entries \<Rightarrow> string list) \<Rightarrow> nat option \<Rightarrow> int \<Rightarrow> string \<Rightarrow> room_cache \<Rightarrow> (bool \<times> room_cache) option" where
  "is_group_room ord joined now roomID c =
    (case room_get roomID now c of
       (Some isGroup, c') \<Rightarrow> Some (isGroup, c')
     | (None, c') \<Rightarrow>
         (case joined of
            None \<Rightarrow> Some (False, c')
          | Some members \<Rightarrow>
              map_option (Pair (members > 2)) (room_set ord roomID (members > 2) now c')))"

subsection \<open>One eviction\<close>

definition enumerates_rooms :: "(nat \<Rightarrow> room_entries \<Rightarrow> string list) \<Rightarrow> bool" where
  "enumerates_rooms ord \<longleftrightarrow> (\<forall>n m. set (ord n m) = fset (fmdom m))"

lemma find_oldest_spec:
  assumes "set order \<subseteq> fset (fmdom m)" "[] \<notin> fset (fmdom m)"
    and "oldest = [] \<or> (\<exists>e. fmlookup m oldest = Some e \<and> re_touchedAt e = oldestAt)"
    and "oldest \<noteq> [] \<or> order \<noteq> []"
  shows "\<exists>e. fmlookup m (find_oldest m order (oldest, oldestAt)) = Some e \<and>
    (oldest \<noteq> [] \<longrightarrow> re_touchedAt e \<le> oldestAt) \<and>
    (\<forall>r \<in> set order. \<forall>e'. fmlookup m r = Some e' \<longrightarrow> re_touchedAt e \<le> re_touchedAt e')"
  using assms
proof (induction order arbitrary: oldest oldestAt)
  case (Cons r order)
  then have "r \<in> fset (fmdom m)" by simp
  then obtain e0 where e0: "fmlookup m r = Some e0" by (auto simp: fmlookup_dom_iff)
  have r: "r \<noteq> []" using \<open>r \<in> fset (fmdom m)\<close> Cons.prems(2) by auto
  have sub: "set order \<subseteq> fset (fmdom m)" using Cons.prems(1) by simp
  show ?case
  proof (cases "oldest = [] \<or> re_touchedAt e0 < oldestAt")
    case True
    have "r = [] \<or> (\<exists>e. fmlookup m r = Some e \<and> re_touchedAt e = re_touchedAt e0)" using e0 by simp
    from Cons.IH [OF sub Cons.prems(2) this] r obtain e where
        e: "fmlookup m (find_oldest m order (r, re_touchedAt e0)) = Some e" "re_touchedAt e \<le> re_touchedAt e0"
          "\<forall>r \<in> set order. \<forall>e'. fmlookup m r = Some e' \<longrightarrow> re_touchedAt e \<le> re_touchedAt e'" by blast
    from True have "find_oldest m (r # order) (oldest, oldestAt) = find_oldest m order (r, re_touchedAt e0)"
      by (simp add: e0)
    with e e0 True show ?thesis by auto
  next
    case False
    from False Cons.prems(3) have "oldest = [] \<or> (\<exists>e. fmlookup m oldest = Some e \<and> re_touchedAt e = oldestAt)" by simp
    from Cons.IH [OF sub Cons.prems(2) this] False obtain e where
        e: "fmlookup m (find_oldest m order (oldest, oldestAt)) = Some e" "re_touchedAt e \<le> oldestAt"
          "\<forall>r \<in> set order. \<forall>e'. fmlookup m r = Some e' \<longrightarrow> re_touchedAt e \<le> re_touchedAt e'" by blast
    from False have "find_oldest m (r # order) (oldest, oldestAt) = find_oldest m order (oldest, oldestAt)"
      by (simp add: e0)
    with e e0 False show ?thesis by auto
  qed
qed auto

lemma evict_oldest_spec:
  assumes "set order = fset (fmdom m)" "[] \<notin> fset (fmdom m)" "m \<noteq> fmempty"
  shows "\<exists>r e. fmlookup m r = Some e \<and> evict_oldest order m = Some (fmdrop r m) \<and>
    (\<forall>r' e'. fmlookup m r' = Some e' \<longrightarrow> re_touchedAt e \<le> re_touchedAt e')"
proof -
  have "fmdom m \<noteq> {||}" using assms(3) by (metis fmrestrict_fset_dom fmrestrict_fset_null)
  then have ne: "order \<noteq> []" using assms(1) by (metis bot_fset.rep_eq fset_inject list.set(1))
  from find_oldest_spec [of order m "[]" 0] assms ne obtain e where
    e: "fmlookup m (find_oldest m order ([], 0)) = Some e"
      "\<forall>r \<in> set order. \<forall>e'. fmlookup m r = Some e' \<longrightarrow> re_touchedAt e \<le> re_touchedAt e'" by auto
  have "\<forall>r' e'. fmlookup m r' = Some e' \<longrightarrow> re_touchedAt e \<le> re_touchedAt e'"
    using e(2) assms(1) fmlookup_dom_iff by fast
  with e(1) assms(3) show ?thesis by (auto simp: evict_oldest_def)
qed

lemma fcard_fmdrop: "fmlookup m r = Some e \<Longrightarrow> Suc (fcard (fmdom (fmdrop r m))) = fcard (fmdom m)"
  by (metis fmdom_drop fmdomI fcard_Suc_fminus1)

lemma make_room_spec:
  assumes "set (ord 0 m) = fset (fmdom m)" "[] \<notin> fset (fmdom m)"
    and "0 < maxEntries" "int (fcard (fmdom m)) \<le> maxEntries"
  shows "\<exists>m'. make_room ord 0 maxEntries m = Some m' \<and> int (fcard (fmdom m')) < maxEntries \<and>
    (m' = m \<or> (\<exists>r e. m' = fmdrop r m \<and> fmlookup m r = Some e \<and> int (fcard (fmdom m)) = maxEntries \<and>
      (\<forall>r' e'. fmlookup m r' = Some e' \<longrightarrow> re_touchedAt e \<le> re_touchedAt e')))"
proof (cases "int (fcard (fmdom m)) < maxEntries")
  case True
  then show ?thesis by (simp add: make_room.simps)
next
  case False
  then have "m \<noteq> fmempty" using assms(3) by (auto simp: fcard_fempty)
  from evict_oldest_spec [OF assms(1,2) this] obtain r e where
      r: "fmlookup m r = Some e" "evict_oldest (ord 0 m) m = Some (fmdrop r m)"
        "\<forall>r' e'. fmlookup m r' = Some e' \<longrightarrow> re_touchedAt e \<le> re_touchedAt e'" by blast
  have less: "int (fcard (fmdom (fmdrop r m))) < maxEntries"
    using fcard_fmdrop [OF r(1)] assms(4) False by linarith
  have "make_room ord 0 maxEntries m = make_room ord 1 maxEntries (fmdrop r m)"
    using False r(2) by (subst make_room.simps) simp
  also have "\<dots> = Some (fmdrop r m)" using less by (subst make_room.simps) simp
  finally show ?thesis using r False assms(4) less by auto
qed

lemma cleanup_lookup:
  "fmlookup (cleanup_expired now m) r =
    (case fmlookup m r of None \<Rightarrow> None | Some e \<Rightarrow> if now < re_expiresAt e then Some e else None)"
  by (simp add: cleanup_expired_def split: option.splits)

lemma cleanup_card: "fcard (fmdom (cleanup_expired now m)) \<le> fcard (fmdom m)"
  by (rule fcard_mono) (auto simp: cleanup_expired_def fmlookup_dom_iff)

lemma cleanup_dom: "r \<in> fset (fmdom (cleanup_expired now m)) \<Longrightarrow> r \<in> fset (fmdom m)"
  by (auto simp: fmlookup_dom_iff cleanup_lookup split: option.splits if_splits)

subsection \<open>What the cache keeps\<close>

definition rooms_ok :: "room_cache \<Rightarrow> bool" where
  "rooms_ok c \<longleftrightarrow> 0 < rc_maxEntries c \<and> 0 < rc_ttl c \<and>
    int (fcard (fmdom (rc_entries c))) \<le> rc_maxEntries c \<and> [] \<notin> fset (fmdom (rc_entries c))"

text \<open>What setting a room does to the entries of the others.\<close>

lemma room_set_spec:
  assumes "rooms_ok c" "enumerates_rooms ord" "roomID \<noteq> []"
  shows "\<exists>c'. room_set ord roomID isGroup now c = Some c' \<and> rooms_ok c' \<and> rc_ttl c' = rc_ttl c \<and>
    fmlookup (rc_entries c') roomID =
      Some \<lparr>re_isGroup = isGroup, re_expiresAt = now + rc_ttl c, re_touchedAt = now\<rparr> \<and>
    (\<forall>r e. r \<noteq> roomID \<longrightarrow> fmlookup (rc_entries c') r = Some e \<longrightarrow> fmlookup (rc_entries c) r = Some e) \<and>
    (\<forall>r e. r \<noteq> roomID \<longrightarrow> fmlookup (rc_entries c) r = Some e \<longrightarrow> fmlookup (rc_entries c') r = None \<longrightarrow>
      re_expiresAt e \<le> now \<or>
      int (fcard (fmdom (rc_entries c'))) = rc_maxEntries c \<and>
        (\<forall>r' e'. r' \<noteq> roomID \<longrightarrow> fmlookup (rc_entries c') r' = Some e' \<longrightarrow> re_touchedAt e \<le> re_touchedAt e'))"
proof (cases "fmlookup (rc_entries c) roomID")
  case (Some e0)
  then have "finsert roomID (fmdom (rc_entries c)) = fmdom (rc_entries c)" by (auto simp: fmlookup_dom_iff)
  with Some assms(1) show ?thesis by (auto simp: room_set_def rooms_ok_def Let_def)
next
  case None
  define m where "m = cleanup_expired now (rc_entries c)"
  have m: "int (fcard (fmdom m)) \<le> rc_maxEntries c" "[] \<notin> fset (fmdom m)" "0 < rc_maxEntries c"
    using assms(1) cleanup_card [of now "rc_entries c"] cleanup_dom [of "[]" now "rc_entries c"]
    unfolding rooms_ok_def m_def by (linarith, blast, blast)
  from make_room_spec [OF _ m(2,3,1)] assms(2) obtain m' where
      m': "make_room ord 0 (rc_maxEntries c) m = Some m'" "int (fcard (fmdom m')) < rc_maxEntries c"
        "m' = m \<or> (\<exists>r e. m' = fmdrop r m \<and> fmlookup m r = Some e \<and> int (fcard (fmdom m)) = rc_maxEntries c \<and>
          (\<forall>r' e'. fmlookup m r' = Some e' \<longrightarrow> re_touchedAt e \<le> re_touchedAt e'))"
    unfolding enumerates_rooms_def by blast
  have sub: "fmlookup m r = Some e" if "fmlookup m' r = Some e" for r e
    using m'(3) that by (auto split: if_splits)
  have "fmlookup m roomID = None" using None by (simp add: m_def cleanup_lookup)
  then have new: "roomID |\<notin>| fmdom m'" using m'(3) by (auto simp: fmlookup_dom_iff split: if_splits)
  let ?e = "\<lparr>re_isGroup = isGroup, re_expiresAt = now + rc_ttl c, re_touchedAt = now\<rparr>"
  let ?c = "c\<lparr>rc_entries := fmupd roomID ?e m'\<rparr>"
  have set: "room_set ord roomID isGroup now c = Some ?c"
    using None m'(1) by (simp add: room_set_def m_def Let_def)
  have card: "int (fcard (fmdom (rc_entries ?c))) = int (fcard (fmdom m')) + 1"
    using new by (simp add: fcard_finsert_if)
  have "[] \<notin> fset (fmdom m')"
    using m(2) sub [of "[]"] by (cases "fmlookup m' []") (auto simp: fmlookup_dom_iff)
  then have ok: "rooms_ok ?c"
    using assms(1,3) card m'(2) unfolding rooms_ok_def by simp
  have kept: "fmlookup (rc_entries c) r = Some e" if "r \<noteq> roomID" "fmlookup (rc_entries ?c) r = Some e" for r e
  proof -
    from that have "fmlookup m r = Some e" by (simp add: sub)
    then show ?thesis by (simp add: m_def cleanup_lookup split: option.splits if_splits)
  qed
  have lost: "re_expiresAt e \<le> now \<or> int (fcard (fmdom (rc_entries ?c))) = rc_maxEntries c \<and>
      (\<forall>r' e'. r' \<noteq> roomID \<longrightarrow> fmlookup (rc_entries ?c) r' = Some e' \<longrightarrow> re_touchedAt e \<le> re_touchedAt e')"
    if r: "r \<noteq> roomID" "fmlookup (rc_entries c) r = Some e" "fmlookup (rc_entries ?c) r = None" for r e
  proof (cases "re_expiresAt e \<le> now")
    case False
    then have "fmlookup m r = Some e" using r(2) by (simp add: m_def cleanup_lookup)
    moreover have "fmlookup m' r = None" using r by simp
    ultimately obtain e2 where e2: "m' = fmdrop r m" "fmlookup m r = Some e2" "int (fcard (fmdom m)) = rc_maxEntries c"
        "\<forall>r' e'. fmlookup m r' = Some e' \<longrightarrow> re_touchedAt e2 \<le> re_touchedAt e'"
      using m'(3) by (auto split: if_splits)
    have "int (fcard (fmdom (rc_entries ?c))) = rc_maxEntries c"
      using card fcard_fmdrop [OF e2(2)] e2(1,3) by simp
    moreover have "re_touchedAt e \<le> re_touchedAt e'" if "r' \<noteq> roomID" "fmlookup (rc_entries ?c) r' = Some e'" for r' e'
      using e2(2,4) sub [of r' e'] that \<open>fmlookup m r = Some e\<close> by auto
    ultimately show ?thesis by blast
  qed simp
  show ?thesis using set ok kept lost by auto
qed

subsection \<open>Histories of the cache\<close>

datatype room_op = GetRoom string int | SetRoom string bool int | CleanRooms int

fun room_step :: "(nat \<Rightarrow> room_entries \<Rightarrow> string list) \<Rightarrow> room_op \<Rightarrow> room_cache \<Rightarrow> room_cache option" where
  "room_step ord (GetRoom roomID now) c = Some (snd (room_get roomID now c))"
| "room_step ord (SetRoom roomID isGroup now) c = room_set ord roomID isGroup now c"
| "room_step ord (CleanRooms now) c = Some (room_cleanup now c)"

fun room_run :: "(nat \<Rightarrow> room_entries \<Rightarrow> string list) \<Rightarrow> room_op list \<Rightarrow> room_cache \<Rightarrow> room_cache option" where
  "room_run ord [] c = Some c"
| "room_run ord (x # xs) c = Option.bind (room_step ord x c) (room_run ord xs)"

text \<open>What was last set for a room, and when.\<close>

fun last_set :: "room_op list \<Rightarrow> (string \<rightharpoonup> bool \<times> int) \<Rightarrow> string \<rightharpoonup> bool \<times> int" where
  "last_set [] L = L"
| "last_set (SetRoom r g t # xs) L = last_set xs (L(r \<mapsto> (g, t)))"
| "last_set (_ # xs) L = last_set xs L"

fun names_room :: "room_op \<Rightarrow> bool" where
  "names_room (SetRoom r g t) \<longleftrightarrow> r \<noteq> []"
| "names_room _ \<longleftrightarrow> True"

definition entries_from :: "(string \<rightharpoonup> bool \<times> int) \<Rightarrow> room_cache \<Rightarrow> bool" where
  "entries_from L c \<longleftrightarrow> (\<forall>r e. fmlookup (rc_entries c) r = Some e \<longrightarrow>
    L r = Some (re_isGroup e, re_touchedAt e) \<and> re_expiresAt e = re_touchedAt e + rc_ttl c)"

lemma room_get_ok:
  assumes "rooms_ok c" "entries_from L c"
  shows "rooms_ok (snd (room_get r now c))" "entries_from L (snd (room_get r now c))"
    "rc_maxEntries (snd (room_get r now c)) = rc_maxEntries c"
proof -
  have "fcard (fmdom (fmdrop r m)) \<le> fcard (fmdom m)" for m :: room_entries
    by (rule fcard_mono) auto
  from order_trans [OF of_nat_mono [OF this]] assms
  show "rooms_ok (snd (room_get r now c))" "entries_from L (snd (room_get r now c))"
      "rc_maxEntries (snd (room_get r now c)) = rc_maxEntries c"
    by (auto simp: room_get_def rooms_ok_def entries_from_def split: option.split if_splits)
qed

lemma room_cleanup_ok:
  assumes "rooms_ok c" "entries_from L c"
  shows "rooms_ok (room_cleanup now c)" "entries_from L (room_cleanup now c)"
proof -
  show "rooms_ok (room_cleanup now c)"
    using assms(1) cleanup_card [of now "rc_entries c"] cleanup_dom [of "[]" now "rc_entries c"]
    by (auto simp: rooms_ok_def room_cleanup_def)
  show "entries_from L (room_cleanup now c)"
    using assms(2) by (auto simp: entries_from_def room_cleanup_def cleanup_lookup split: option.splits if_splits)
qed

lemma room_run_ok:
  assumes "rooms_ok c" "entries_from L c" "enumerates_rooms ord" "list_all names_room ops"
  shows "\<exists>c'. room_run ord ops c = Some c' \<and> rooms_ok c' \<and> entries_from (last_set ops L) c'"
  using assms
proof (induction ops arbitrary: c L)
  case (Cons x ops)
  have ops: "list_all names_room ops" using Cons.prems(4) by simp
  show ?case
  proof (cases x)
    case (GetRoom r now)
    from Cons.IH [OF room_get_ok(1,2) [OF Cons.prems(1,2)] Cons.prems(3) ops]
    show ?thesis unfolding GetRoom by simp
  next
    case (CleanRooms now)
    from Cons.IH [OF room_cleanup_ok [OF Cons.prems(1,2)] Cons.prems(3) ops]
    show ?thesis unfolding CleanRooms by simp
  next
    case (SetRoom r g now)
    with Cons.prems(4) have "r \<noteq> []" by simp
    from room_set_spec [OF Cons.prems(1,3) this] obtain c' where
        c': "room_set ord r g now c = Some c'" "rooms_ok c'" "rc_ttl c' = rc_ttl c"
          "fmlookup (rc_entries c') r = Some \<lparr>re_isGroup = g, re_expiresAt = now + rc_ttl c, re_touchedAt = now\<rparr>"
          "\<forall>q e. q \<noteq> r \<longrightarrow> fmlookup (rc_entries c') q = Some e \<longrightarrow> fmlookup (rc_entries c) q = Some e" by blast
    have e: "entries_from (L(r \<mapsto> (g, now))) c'"
      unfolding entries_from_def
    proof (intro allI impI)
      fix q e
      assume q: "fmlookup (rc_entries c') q = Some e"
      show "(L(r \<mapsto> (g, now))) q = Some (re_isGroup e, re_touchedAt e) \<and> re_expiresAt e = re_touchedAt e + rc_ttl c'"
      proof (cases "q = r")
        case True
        with q c'(4) have "e = \<lparr>re_isGroup = g, re_expiresAt = now + rc_ttl c, re_touchedAt = now\<rparr>" by simp
        with True c'(3) show ?thesis by simp
      next
        case False
        with c'(5) q have "fmlookup (rc_entries c) q = Some e" by blast
        with False Cons.prems(2) c'(3) show ?thesis unfolding entries_from_def by simp
      qed
    qed
    from Cons.IH [OF c'(2) e Cons.prems(3) ops] obtain c2 where
        "room_run ord ops c' = Some c2" "rooms_ok c2" "entries_from (last_set ops (L(r \<mapsto> (g, now)))) c2"
      by blast
    then show ?thesis unfolding SetRoom using c'(1) by simp
  qed
qed auto

text \<open>
  C39: whatever was asked and stored, the cache never holds more rooms than its limit, storing always
  returns, and the answer for a room is what was stored for it last, less than the time to live ago.
\<close>

theorem room_kinds_fresh:
  assumes "enumerates_rooms ord" "list_all names_room ops"
  shows "\<exists>c. room_run ord ops (new_room_kind_cache maxEntries ttl) = Some c \<and>
    int (fcard (fmdom (rc_entries c))) \<le> (if maxEntries \<le> 0 then 2048 else maxEntries) \<and>
    (\<forall>r g now. fst (room_get r now c) = Some g \<longrightarrow>
      (\<exists>t. last_set ops Map.empty r = Some (g, t) \<and> now < t + (if ttl \<le> 0 then 300000000000 else ttl)))"
proof -
  let ?c = "new_room_kind_cache maxEntries ttl"
  have "rooms_ok ?c" "entries_from Map.empty ?c"
    by (simp_all add: rooms_ok_def entries_from_def new_room_kind_cache_def fcard_fempty
        room_kind_cache_max_entries_def room_kind_cache_ttl_def)
  from room_run_ok [OF this assms] obtain c where
    c: "room_run ord ops ?c = Some c" "rooms_ok c" "entries_from (last_set ops Map.empty) c" by blast
  have frame: "rc_maxEntries c' = rc_maxEntries c0 \<and> rc_ttl c' = rc_ttl c0"
    if "room_run ord xs c0 = Some c'" for xs c0 c'
    using that
  proof (induction xs arbitrary: c0)
    case (Cons x xs)
    then obtain c1 where "room_step ord x c0 = Some c1" "room_run ord xs c1 = Some c'" by (auto split: bind_splits)
    moreover have "rc_maxEntries c1 = rc_maxEntries c0 \<and> rc_ttl c1 = rc_ttl c0"
      using \<open>room_step ord x c0 = Some c1\<close>
      by (cases x) (auto simp: room_get_def room_set_def room_cleanup_def Let_def split: option.splits if_splits)
    ultimately show ?case using Cons.IH [of c1] by simp
  qed simp
  have "\<exists>t. last_set ops Map.empty r = Some (g, t) \<and> now < t + rc_ttl c" if "fst (room_get r now c) = Some g" for r g now
    using c(3) that by (auto simp: room_get_def entries_from_def split: option.splits if_splits)
  moreover have "rc_maxEntries c = (if maxEntries \<le> 0 then 2048 else maxEntries)"
      "rc_ttl c = (if ttl \<le> 0 then 300000000000 else ttl)"
    using frame [OF c(1)] by (simp_all add: new_room_kind_cache_def room_kind_cache_max_entries_def room_kind_cache_ttl_def)
  ultimately show ?thesis using c(1,2) by (intro exI [of _ c]) (simp add: rooms_ok_def)
qed


definition listed_order :: "nat \<Rightarrow> room_entries \<Rightarrow> string list" where
  "listed_order n m = sorted_list_of_fset (fmdom m)"

lemma listed_order_enumerates: "enumerates_rooms listed_order"
  by (simp add: enumerates_rooms_def listed_order_def)

theorem room_kinds_fresh_witness:
  "\<exists>c. room_run listed_order [SetRoom ''!a'' True 0, SetRoom ''!b'' False 5] (new_room_kind_cache 1 10) = Some c \<and>
    int (fcard (fmdom (rc_entries c))) \<le> 1"
  using room_kinds_fresh [OF listed_order_enumerates, of "[SetRoom ''!a'' True 0, SetRoom ''!b'' False 5]" 1 10] by auto

end
