(* ===== verification/Matrix_Mention.thy ===== *)
theory Matrix_Mention
  imports Go_Regex Go_Runes Json
begin

text \<open>
  Mentions in \<open>pkg/channels/matrix/matrix.go\<close>: the expression for the local part of the bot's name, the
  links of formatted messages, and how a mention is cut out. A local part is ASCII, as the grammar of
  Matrix identifiers has it. \<open>html.UnescapeString\<close> and \<open>url.Parse\<close> are arguments.
\<close>

subsection \<open>The local part of a name\<close>

definition matrix_localpart :: "string \<Rightarrow> string" where
  "matrix_localpart userID =
    (let s = trim_prefix ''@'' userID in
     trim_space (case index_of '':'' s of Some i \<Rightarrow> take i s | None \<Rightarrow> s))"

text \<open>
  A character without regard to case: besides the two ASCII letters, the Kelvin sign folds to \<open>k\<close> and
  the long s to \<open>s\<close>. The result is what follows.
\<close>

definition fold_char :: "char \<Rightarrow> string \<Rightarrow> string option" where
  "fold_char p s =
    (if s \<noteq> [] \<and> ascii_lower (hd s) = ascii_lower p then Some (tl s)
     else if ascii_lower p = CHR ''k'' \<and> has_prefix [CHR 0xE2, CHR 0x84, CHR 0xAA] s then Some (drop 3 s)
     else if ascii_lower p = CHR ''s'' \<and> has_prefix [CHR 0xC5, CHR 0xBF] s then Some (drop 2 s)
     else None)"

fun fold_prefix :: "string \<Rightarrow> string \<Rightarrow> string option" where
  "fold_prefix [] s = Some s"
| "fold_prefix (p # ps) s = Option.bind (fold_char p s) (fold_prefix ps)"

text \<open>One rune that is no letter, digit or underscore of ASCII.\<close>

definition non_word :: "string \<Rightarrow> (string \<times> string) option" where
  "non_word s =
    (if s = [] \<or> is_word (hd s) then None
     else let w = snd (decode_rune s) in Some (take w s, drop w s))"

definition mention_tail :: "string \<Rightarrow> (string \<times> string) option" where
  "mention_tail s = (if s = [] then Some ([], []) else non_word s)"

definition is_server :: "char \<Rightarrow> bool" where
  "is_server c \<longleftrightarrow> is_word c \<and> c \<noteq> CHR ''_'' \<or> c \<in> {CHR ''.'', CHR '':'', CHR ''-''}"

text \<open>Behind the local part: a server as long as possible, if any, and the end of the word.\<close>

definition mention_rest :: "string \<Rightarrow> (string \<times> string) option" where
  "mention_rest u =
    (let server = (if u \<noteq> [] \<and> hd u = CHR '':'' then takeWhile is_server (tl u) else []);
         tries = map (\<lambda>k. drop (Suc k) u) (rev [1..<Suc (length server)]) @ [u]
     in case List.find (\<lambda>v. mention_tail v \<noteq> None) tries of None \<Rightarrow> None | Some v \<Rightarrow> mention_tail v)"

definition mention_at :: "string \<Rightarrow> string \<Rightarrow> (string \<times> string) option" where
  "mention_at p t =
    (if t \<noteq> [] \<and> hd t = CHR ''@'' then Option.bind (fold_prefix p (tl t)) mention_rest else None)"

text \<open>
  \<open>localpartMentionRegexp\<close>: the start of the text or one rune that ends a word, the mention, and again
  one rune or the end.
\<close>

definition mention_match :: "string \<Rightarrow> bool \<Rightarrow> string \<Rightarrow> ((string \<times> string) \<times> string) option" where
  "mention_match p start s =
    (case (if start then mention_at p s else None) of
       Some (g, rest) \<Rightarrow> Some (([], g), rest)
     | None \<Rightarrow>
         (case non_word s of
            None \<Rightarrow> None
          | Some (g1, t) \<Rightarrow> map_option (\<lambda>(g2, rest). ((g1, g2), rest)) (mention_at p t)))"

definition localpart_mention_regexp :: "string \<Rightarrow> string option" where
  "localpart_mention_regexp localpart = (let p = trim_space localpart in if p = [] then None else Some p)"

definition has_mention :: "string \<Rightarrow> string \<Rightarrow> bool" where
  "has_mention p s \<longleftrightarrow>
    mention_match p True s \<noteq> None \<or> s \<noteq> [] \<and> match_groups (mention_match p False) (tl s) \<noteq> []"

definition replace_mentions :: "string \<Rightarrow> string \<Rightarrow> string" where
  "replace_mentions p s =
    (let around = (\<lambda>(g1, g2). g1 @ g2) in
     case mention_match p True s of
       Some (g, rest) \<Rightarrow> around g @ replace_matches (mention_match p False) around rest
     | None \<Rightarrow> (case s of [] \<Rightarrow> [] | c # t \<Rightarrow> c # replace_matches (mention_match p False) around t))"

definition strip_user_mention_with_regexp :: "string \<Rightarrow> string \<Rightarrow> string option \<Rightarrow> string" where
  "strip_user_mention_with_regexp s userID mentionR =
    (let cleaned = replace_all userID [] s;
         cleaned' = (case mentionR of None \<Rightarrow> cleaned | Some p \<Rightarrow> replace_mentions p cleaned)
     in trim_space (dropWhile (\<lambda>c. c \<in> set '',:; '') (trim_space cleaned')))"

definition strip_user_mention :: "string \<Rightarrow> string \<Rightarrow> string" where
  "strip_user_mention s userID =
    strip_user_mention_with_regexp s userID (localpart_mention_regexp (matrix_localpart userID))"

subsection \<open>Links of formatted messages\<close>

record html_lib =
  hl_unescape :: "string \<Rightarrow> string"
  hl_parse :: "string \<Rightarrow> (string \<times> string) option"

text \<open>\<open>url.QueryUnescape\<close>; \<open>None\<close> is an escape that is not two hexadecimal digits.\<close>

fun query_unescape :: "string \<Rightarrow> string option" where
  "query_unescape [] = Some []"
| "query_unescape (c # s) =
    (if c = CHR ''%'' then
       (case s of
          a # b # t \<Rightarrow>
            (case (hex_char a, hex_char b) of
               (Some x, Some y) \<Rightarrow> map_option ((#) (char_of (16 * x + y))) (query_unescape t)
             | _ \<Rightarrow> None)
        | _ \<Rightarrow> None)
     else map_option ((#) (if c = CHR ''+'' then CHR '' '' else c)) (query_unescape s))"

definition decode_matrix_mention_href :: "html_lib \<Rightarrow> string \<Rightarrow> string" where
  "decode_matrix_mention_href H v =
    (let d = hl_unescape H (trim_space v) in
     if d = [] then []
     else
       (case query_unescape d of
          None \<Rightarrow> d
        | Some d1 \<Rightarrow> if d1 = d then d else (case query_unescape d1 of None \<Rightarrow> d1 | Some d2 \<Rightarrow> d2)))"

definition is_quote :: "char \<Rightarrow> bool" where
  "is_quote c \<longleftrightarrow> c = CHR 0x22 \<or> c = CHR 0x27"

definition quoted_value :: "string \<Rightarrow> (string \<times> string) option" where
  "quoted_value s =
    (if s = [] \<or> \<not> is_quote (hd s) then None
     else
       let g = takeWhile (\<lambda>c. \<not> is_quote c) (tl s); rest = drop (length g) (tl s) in
         if g = [] \<or> rest = [] then None else Some (g, tl rest))"

text \<open>An opening tag with an address; the last address before the tag ends that can be read is taken.\<close>

definition mention_href :: "string \<Rightarrow> (string \<times> string) option" where
  "mention_href s =
    (case fold_prefix ''<a'' s of
       None \<Rightarrow> None
     | Some t \<Rightarrow>
         let run = takeWhile (\<lambda>c. c \<noteq> CHR ''>'') t;
             value = (\<lambda>k. Option.bind (fold_prefix ''href='' (drop k t)) quoted_value)
         in
           (case List.find (\<lambda>k. value k \<noteq> None) (rev [1..<Suc (length run)]) of
              None \<Rightarrow> None
            | Some k \<Rightarrow> value k))"

definition mentions_user_in_formatted_body :: "unicode \<Rightarrow> html_lib \<Rightarrow> string \<Rightarrow> string \<Rightarrow> bool" where
  "mentions_user_in_formatted_body U H formattedBody userID =
    (let target = to_lower U (trim_space userID); body = trim_space formattedBody;
         names = (\<lambda>s. contains target (to_lower U s))
     in target \<noteq> [] \<and> body \<noteq> [] \<and>
       (names body \<or>
        list_ex (\<lambda>href.
            let d = decode_matrix_mention_href H href in
              names d \<or>
              (case hl_parse H d of
                 None \<Rightarrow> False
               | Some (path, fragment) \<Rightarrow> names path \<or> names fragment \<or> names (decode_matrix_mention_href H fragment)))
          (match_groups mention_href body)))"

definition matrix_is_bot_mentioned ::
  "unicode \<Rightarrow> html_lib \<Rightarrow> string \<Rightarrow> string option \<Rightarrow> string set option \<Rightarrow> string \<Rightarrow> string \<Rightarrow> bool" where
  "matrix_is_bot_mentioned U H userID mentionR mentions body formattedBody =
    (let R = (case mentionR of None \<Rightarrow> localpart_mention_regexp (matrix_localpart userID) | Some p \<Rightarrow> Some p) in
       (case mentions of None \<Rightarrow> False | Some M \<Rightarrow> userID \<in> M) \<or>
       (userID \<noteq> [] \<and> contains userID body) \<or>
       mentions_user_in_formatted_body U H formattedBody userID \<or>
       (case R of None \<Rightarrow> False | Some p \<Rightarrow> has_mention p body \<or> has_mention p formattedBody))"

subsection \<open>What the expression matches\<close>

lemma fold_prefix_ascii:
  "is_ascii s \<Longrightarrow>
    fold_prefix p s = Some t \<longleftrightarrow> (\<exists>q. s = q @ t \<and> map ascii_lower q = map ascii_lower p)"
proof (induction p arbitrary: s)
  case Nil
  show ?case by auto
next
  case (Cons a p)
  have none: "\<not> has_prefix [CHR 0xE2, CHR 0x84, CHR 0xAA] s" "\<not> has_prefix [CHR 0xC5, CHR 0xBF] s"
    using Cons.prems by (cases s; auto)+
  show ?case
  proof (cases s)
    case Nil
    then show ?thesis using none by (simp add: fold_char_def)
  next
    case (Cons c s')
    have IH: "fold_prefix p s' = Some t \<longleftrightarrow> (\<exists>q. s' = q @ t \<and> map ascii_lower q = map ascii_lower p)"
      using Cons.IH [of s'] Cons.prems Cons by simp
    show ?thesis
    proof (cases "ascii_lower c = ascii_lower a")
      case True
      then have "(\<exists>q. s = q @ t \<and> map ascii_lower q = map ascii_lower (a # p)) \<longleftrightarrow>
          (\<exists>q. s' = q @ t \<and> map ascii_lower q = map ascii_lower p)"
        using Cons by (auto simp: Cons_eq_append_conv map_eq_Cons_conv)
      with IH True Cons show ?thesis by (simp add: fold_char_def)
    next
      case False
      then show ?thesis using Cons none by (auto simp: fold_char_def Cons_eq_append_conv map_eq_Cons_conv)
    qed
  qed
qed

definition server_part :: "string \<Rightarrow> bool" where
  "server_part e \<longleftrightarrow> e = [] \<or> (\<exists>h. e = CHR '':'' # h \<and> h \<noteq> [] \<and> list_all is_server h)"

definition word_ends :: "string \<Rightarrow> bool" where
  "word_ends b \<longleftrightarrow> b = [] \<or> \<not> is_word (hd b)"

lemma mention_tail_iff: "mention_tail v \<noteq> None \<longleftrightarrow> word_ends v"
  by (simp add: mention_tail_def non_word_def word_ends_def Let_def)

lemma find_first_iff:
  "(case List.find (\<lambda>v. f v \<noteq> None) xs of None \<Rightarrow> None | Some v \<Rightarrow> f v) \<noteq> None \<longleftrightarrow> (\<exists>v \<in> set xs. f v \<noteq> None)"
  by (auto simp: find_None_iff dest: find_Some_set split: option.splits)

lemma takeWhile_drop:
  "k \<le> length (takeWhile P t) \<longleftrightarrow> k \<le> length t \<and> list_all P (take k t)"
proof (induction t arbitrary: k)
  case (Cons c t)
  then show ?case by (cases k) auto
qed auto

lemma mention_rest_iff:
  "mention_rest u \<noteq> None \<longleftrightarrow> (\<exists>e b. u = e @ b \<and> server_part e \<and> word_ends b)"
proof -
  define server where "server = (if u \<noteq> [] \<and> hd u = CHR '':'' then takeWhile is_server (tl u) else [])"
  have "mention_rest u \<noteq> None \<longleftrightarrow>
      (\<exists>v \<in> set (map (\<lambda>k. drop (Suc k) u) (rev [1..<Suc (length server)]) @ [u]). mention_tail v \<noteq> None)"
    unfolding mention_rest_def Let_def server_def [symmetric] by (rule find_first_iff)
  also have "\<dots> \<longleftrightarrow> (\<exists>k \<in> {1..length server}. word_ends (drop (Suc k) u)) \<or> word_ends u"
    unfolding mention_tail_iff set_append set_map set_rev set_upt atLeastLessThanSuc_atLeastAtMost by auto
  also have "\<dots> \<longleftrightarrow> (\<exists>e b. u = e @ b \<and> server_part e \<and> word_ends b)"
  proof
    assume "(\<exists>k \<in> {1..length server}. word_ends (drop (Suc k) u)) \<or> word_ends u"
    then show "\<exists>e b. u = e @ b \<and> server_part e \<and> word_ends b"
    proof
      assume "\<exists>k \<in> {1..length server}. word_ends (drop (Suc k) u)"
      then obtain k where k: "1 \<le> k" "k \<le> length server" "word_ends (drop (Suc k) u)" by auto
      then obtain t where u: "u = CHR '':'' # t" "server = takeWhile is_server t"
        by (cases u) (auto simp: server_def split: if_splits)
      with k have "k \<le> length t \<and> list_all is_server (take k t)" by (simp add: takeWhile_drop)
      then have "server_part (CHR '':'' # take k t)" using k(1) by (auto simp: server_part_def)
      moreover have "u = (CHR '':'' # take k t) @ drop (Suc k) u" using u(1) by simp
      ultimately show ?thesis using k(3) by blast
    next
      assume "word_ends u"
      moreover have "server_part []" by (simp add: server_part_def)
      ultimately show ?thesis by (metis append_Nil)
    qed
  next
    assume "\<exists>e b. u = e @ b \<and> server_part e \<and> word_ends b"
    then obtain e b where e: "u = e @ b" "server_part e" "word_ends b" by blast
    show "(\<exists>k \<in> {1..length server}. word_ends (drop (Suc k) u)) \<or> word_ends u"
    proof (cases "e = []")
      case False
      then obtain h where h: "e = CHR '':'' # h" "h \<noteq> []" "list_all is_server h" using e(2) by (auto simp: server_part_def)
      then have "server = takeWhile is_server (h @ b)" using e(1) by (simp add: server_def)
      then have "length h \<le> length server" using h(3) by (simp add: takeWhile_drop)
      moreover have "1 \<le> length h" using h(2) by (cases h) auto
      moreover have "drop (Suc (length h)) u = b" using e(1) h(1) by simp
      ultimately show ?thesis using e(3) by (intro disjI1 bexI [of _ "length h"]) auto
    qed (use e in simp)
  qed
  finally show ?thesis .
qed

text \<open>A mention: the sign, the local part in any case, a server at will, and the end of the word.\<close>

definition mention_here :: "string \<Rightarrow> string \<Rightarrow> bool" where
  "mention_here p t \<longleftrightarrow> (\<exists>q e b. t = CHR ''@'' # q @ e @ b \<and> map ascii_lower q = map ascii_lower p \<and>
    server_part e \<and> word_ends b)"

lemma mention_at_iff:
  assumes "is_ascii t"
  shows "mention_at p t \<noteq> None \<longleftrightarrow> mention_here p t"
proof (cases "\<exists>s. t = CHR ''@'' # s")
  case True
  then obtain s where s: "t = CHR ''@'' # s" by blast
  with assms have asc: "is_ascii s" by simp
  have "Option.bind (fold_prefix p s) mention_rest \<noteq> None \<longleftrightarrow>
      (\<exists>u. fold_prefix p s = Some u \<and> mention_rest u \<noteq> None)"
    by (cases "fold_prefix p s") simp_all
  also have "\<dots> \<longleftrightarrow> mention_here p t"
    unfolding fold_prefix_ascii [OF asc] mention_rest_iff mention_here_def s by auto
  finally show ?thesis by (simp add: mention_at_def s)
next
  case False
  then show ?thesis by (cases t) (auto simp: mention_at_def mention_here_def)
qed

lemma non_word_ascii:
  "is_ascii s \<Longrightarrow> non_word s = (case s of [] \<Rightarrow> None | c # t \<Rightarrow> if is_word c then None else Some ([c], t))"
  by (cases s) (auto simp: non_word_def decode_rune_def byte_at_def Let_def)

lemma mention_match_iff:
  assumes "is_ascii s"
  shows "mention_match p start s \<noteq> None \<longleftrightarrow>
    start \<and> mention_here p s \<or> (\<exists>c t. s = c # t \<and> \<not> is_word c \<and> mention_here p t)"
proof (cases s)
  case (Cons c t)
  with assms have "is_ascii t" by simp
  from mention_at_iff [OF this] mention_at_iff [OF assms] show ?thesis
    using non_word_ascii [OF assms] Cons
    by (auto simp: mention_match_def simp del: not_None_eq split: option.splits if_splits)
qed (simp add: mention_match_def non_word_def mention_at_def mention_here_def)

lemma mention_rest_shorter: "mention_rest u = Some (g, rest) \<Longrightarrow> length rest \<le> length u"
proof -
  have tail: "length rest \<le> length v" if "mention_tail v = Some (g, rest)" for v
    using that by (auto simp: mention_tail_def non_word_def Let_def split: if_splits)
  define tries where "tries = map (\<lambda>k. drop (Suc k) u)
      (rev [1..<Suc (length (if u \<noteq> [] \<and> hd u = CHR '':'' then takeWhile is_server (tl u) else []))]) @ [u]"
  assume "mention_rest u = Some (g, rest)"
  then have "(case List.find (\<lambda>v. mention_tail v \<noteq> None) tries of None \<Rightarrow> None | Some v \<Rightarrow> mention_tail v) = Some (g, rest)"
    by (simp only: mention_rest_def Let_def tries_def)
  then obtain v where v: "List.find (\<lambda>v. mention_tail v \<noteq> None) tries = Some v" "mention_tail v = Some (g, rest)"
    by (auto simp del: not_None_eq split: option.splits)
  then have "v \<in> set tries" using find_Some_set by fast
  then have "length v \<le> length u" unfolding tries_def set_append set_map by auto
  with tail [OF v(2)] show ?thesis by simp
qed

lemma fold_prefix_shorter: "fold_prefix p s = Some t \<Longrightarrow> length t \<le> length s"
  by (induction p arbitrary: s)
    (fastforce simp: fold_char_def bind_eq_Some_conv dest: order_trans split: if_splits)+

lemma mention_match_shorter:
  assumes "mention_match p start s = Some (g, rest)"
  shows "length rest < length s"
proof -
  have at: "length rest < length t" if "mention_at p t = Some (g, rest)" for t g
    using that mention_rest_shorter fold_prefix_shorter
    by (cases t) (fastforce simp: mention_at_def bind_eq_Some_conv split: if_splits)+
  have "length t \<le> length s" if "non_word s = Some (g1, t)" for g1 t
    using that by (auto simp: non_word_def Let_def split: if_splits)
  with assms at show ?thesis
    by (fastforce simp: mention_match_def split: option.splits if_splits)
qed



text \<open>
  The server of a mention is not compared: the same local part on another server counts as the bot. So
  does a name that goes on behind the one of the bot. And what separates two mentions belongs to the
  first, so that the second one stays.
\<close>

lemma other_server_mentioned: "has_mention (matrix_localpart ''@ecto:m.org'') ''@ecto:evil.net hi''"
  by code_simp

lemma longer_name_mentioned:
  "matrix_is_bot_mentioned U H ''@ecto:m.org'' R None ''@ecto:m.org.uk hi'' []"
  by (simp add: matrix_is_bot_mentioned_def contains_def)

lemma second_mention_stays: "strip_user_mention ''@ecto @ecto: hi'' ''@ecto:m.org'' = ''@ecto: hi''"
  by code_simp

end
