(* ===== verification/Matrix.thy ===== *)
theory Matrix
  imports Matrix_Rooms Matrix_Mention Go_Path Base_Channel Media
begin

text \<open>
  \<open>pkg/channels/matrix/matrix.go\<close>: the Matrix adapter over the cache of room kinds and the mentions.
  What the client library answers, downloads, the MIME tables and the files on disk are arguments.
\<close>

subsection \<open>State\<close>

record matrix_config =
  xg_Homeserver :: string
  xg_UserID :: string
  xg_AccessToken :: string
  xg_DeviceID :: string
  xg_JoinOnInvite :: bool
  xg_AllowFrom :: "string list"
  xg_GroupTrigger :: group_trigger
  xg_ReasoningChannelID :: string

text \<open>
  The typing sessions are numbers; kept are the ones whose loop was told to stop and the ones whose stop
  function was called.
\<close>

record typing_sessions =
  ts_sessions :: "string \<rightharpoonup> nat"
  ts_next :: nat
  ts_stopped :: "nat set"
  ts_done :: "nat set"

record matrix_channel =
  mx_base :: base_channel
  mx_config :: matrix_config
  mx_userID :: string
  mx_deviceID :: string
  mx_startTime :: int
  mx_typing :: typing_sessions
  mx_rooms :: room_cache
  mx_mentionR :: "string option"

definition new_matrix_channel ::
  "string option \<Rightarrow> bool \<Rightarrow> int \<Rightarrow> matrix_config \<Rightarrow> string + matrix_channel" where
  "new_matrix_channel clientErr defaultSyncer now cfg =
    (let userID = trim_space (xg_UserID cfg) in
     if trim_space (xg_Homeserver cfg) = [] then Inl ''matrix homeserver is required''
     else if userID = [] then Inl ''matrix user_id is required''
     else if trim_space (xg_AccessToken cfg) = [] then Inl ''matrix access_token is required''
     else
       (case clientErr of
          Some e \<Rightarrow> Inl (''create matrix client: '' @ e)
        | None \<Rightarrow>
            if \<not> defaultSyncer then Inl ''matrix syncer is not *mautrix.DefaultSyncer''
            else
              Inr \<lparr>mx_base = new_base_channel ''matrix'' (xg_AllowFrom cfg)
                     [with_max_message_length 65536, with_group_trigger (xg_GroupTrigger cfg),
                      with_reasoning_channel_id (xg_ReasoningChannelID cfg)],
                   mx_config = cfg, mx_userID = userID, mx_deviceID = xg_DeviceID cfg, mx_startTime = now,
                   mx_typing = \<lparr>ts_sessions = Map.empty, ts_next = 0, ts_stopped = {}, ts_done = {}\<rparr>,
                   mx_rooms = new_room_kind_cache room_kind_cache_max_entries room_kind_cache_ttl,
                   mx_mentionR = localpart_mention_regexp (matrix_localpart userID)\<rparr>))"

definition matrix_start :: "int \<Rightarrow> matrix_channel \<Rightarrow> matrix_channel" where
  "matrix_start now c = c\<lparr>mx_startTime := now, mx_base := set_running True (mx_base c)\<rparr>"

record media_content =
  xc_MsgType :: string
  xc_Body :: string
  xc_URL :: string
  xc_FileName :: string
  xc_MimeType :: string
  xc_Size :: nat

datatype matrix_call =
    RoomMessage string string
  | UploadMedia string string string nat
  | RoomMedia string media_content
  | UserTyping string bool
  | JoinRoom string

subsection \<open>Typing sessions\<close>

text \<open>The number of the new session, unless there is none or the room has no name.\<close>

definition matrix_start_typing :: "string \<Rightarrow> matrix_channel \<Rightarrow> matrix_channel \<times> nat option \<times> string option" where
  "matrix_start_typing chatID c =
    (if \<not> bc_running (mx_base c) then (c, None, None)
     else if trim_space chatID = [] then (c, None, Some ''matrix room ID is empty'')
     else
       let t = mx_typing c; i = ts_next t;
           stopped = (case ts_sessions t chatID of None \<Rightarrow> ts_stopped t | Some j \<Rightarrow> insert j (ts_stopped t))
       in (c\<lparr>mx_typing := t\<lparr>ts_sessions := (ts_sessions t)(chatID \<mapsto> i), ts_next := Suc i, ts_stopped := stopped\<rparr>\<rparr>,
           Some i, None))"

text \<open>The function that ends an indicator; it works once.\<close>

definition matrix_stop_typing :: "string \<Rightarrow> nat \<Rightarrow> matrix_channel \<Rightarrow> matrix_channel \<times> matrix_call list" where
  "matrix_stop_typing chatID i c =
    (let t = mx_typing c in
     if i \<in> ts_done t then (c, [])
     else
       (c\<lparr>mx_typing := t\<lparr>ts_done := insert i (ts_done t), ts_stopped := insert i (ts_stopped t),
            ts_sessions := (if ts_sessions t chatID = Some i then (ts_sessions t)(chatID := None) else ts_sessions t)\<rparr>\<rparr>,
        [UserTyping (trim_space chatID) False]))"

text \<open>The calls of the loop of a session: one at once and one for each tick before it ends.\<close>

definition matrix_typing_loop :: "string \<Rightarrow> nat \<Rightarrow> matrix_call list" where
  "matrix_typing_loop chatID ticks = replicate (Suc ticks) (UserTyping (trim_space chatID) True)"

definition stop_typing_sessions :: "string list \<Rightarrow> matrix_channel \<Rightarrow> matrix_channel \<times> matrix_call list" where
  "stop_typing_sessions order c =
    (let t = mx_typing c in
     (c\<lparr>mx_typing := t\<lparr>ts_sessions := Map.empty, ts_stopped := ts_stopped t \<union> ran (ts_sessions t)\<rparr>\<rparr>,
      map (\<lambda>roomID. UserTyping roomID False) order))"

definition matrix_stop :: "string list \<Rightarrow> matrix_channel \<Rightarrow> matrix_channel \<times> matrix_call list" where
  "matrix_stop order c = stop_typing_sessions order (c\<lparr>mx_base := set_running False (mx_base c)\<rparr>)"

subsection \<open>Kinds and names of media\<close>

definition m_image :: string where "m_image = ''m.image''"
definition m_audio :: string where "m_audio = ''m.audio''"
definition m_video :: string where "m_video = ''m.video''"
definition m_file :: string where "m_file = ''m.file''"

definition matrix_media_kind :: "string \<Rightarrow> string" where
  "matrix_media_kind msgType =
    (if msgType = m_audio then ''audio'' else if msgType = m_video then ''video''
     else if msgType = m_file then ''file'' else ''image'')"

definition matrix_outbound_msg_type :: "unicode \<Rightarrow> string \<Rightarrow> string \<Rightarrow> string \<Rightarrow> string" where
  "matrix_outbound_msg_type U partType filename contentType =
    (let kind = to_lower U (trim_space partType); ct = to_lower U (trim_space contentType);
         ending = to_lower U (trim_space (ext filename))
     in
       if kind = ''image'' then m_image
       else if kind \<in> {''audio'', ''voice''} then m_audio
       else if kind = ''video'' then m_video
       else if kind \<in> {''file'', ''document''} then m_file
       else if has_prefix ''image/'' ct then m_image
       else if has_prefix ''audio/'' ct \<or> ct = ''application/ogg'' \<or> ct = ''application/x-ogg'' then m_audio
       else if has_prefix ''video/'' ct then m_video
       else if ending \<in> {''.jpg'', ''.jpeg'', ''.png'', ''.gif'', ''.webp'', ''.bmp'', ''.svg''} then m_image
       else if ending \<in> {''.mp3'', ''.wav'', ''.ogg'', ''.m4a'', ''.flac'', ''.aac'', ''.wma'', ''.opus''} then m_audio
       else if ending \<in> {''.mp4'', ''.avi'', ''.mov'', ''.webm'', ''.mkv''} then m_video
       else m_file)"

text \<open>The first text of a list that is not empty, or else the default.\<close>

definition first_nonempty :: "string list \<Rightarrow> string \<Rightarrow> string" where
  "first_nonempty xs d = (case List.find (\<lambda>s. s \<noteq> []) xs of None \<Rightarrow> d | Some s \<Rightarrow> s)"

definition matrix_outbound_content ::
  "string \<Rightarrow> string \<Rightarrow> string \<Rightarrow> string \<Rightarrow> nat \<Rightarrow> string \<Rightarrow> media_content" where
  "matrix_outbound_content caption filename msgType contentType bytes uri =
    \<lparr>xc_MsgType = msgType, xc_Body = first_nonempty [trim_space caption, filename] (matrix_media_kind msgType),
     xc_URL = uri, xc_FileName = filename, xc_MimeType = trim_space contentType,
     xc_Size = (if 0 < bytes \<and> bytes \<le> 2 ^ 63 - 1 then bytes else 0)\<rparr>"

text \<open>The MIME tables: the type of an extension, the extensions of a type.\<close>

record mime_tables =
  mt_type :: "string \<Rightarrow> string"
  mt_exts :: "string \<Rightarrow> string list"

definition matrix_media_ext :: "mime_tables \<Rightarrow> string \<Rightarrow> string \<Rightarrow> string \<Rightarrow> string" where
  "matrix_media_ext M filename contentType mediaKind =
    (let ending = trim_space (ext filename) in
     if ending \<noteq> [] then ending
     else if contentType \<noteq> [] \<and> mt_exts M contentType \<noteq> [] then hd (mt_exts M contentType)
     else if mediaKind = ''audio'' then ''.ogg''
     else if mediaKind = ''video'' then ''.mp4''
     else if mediaKind = ''file'' then ''.bin''
     else ''.jpg'')"

definition matrix_media_filename :: "mime_tables \<Rightarrow> string \<Rightarrow> string \<Rightarrow> string \<Rightarrow> string" where
  "matrix_media_filename M label mediaKind contentType =
    (let filename = first_nonempty [trim_space label] mediaKind in
     if ext filename = [] then filename @ matrix_media_ext M [] contentType mediaKind else filename)"

subsection \<open>Sending\<close>

text \<open>
  The n-th call of the library gives a text (the address of an upload) or fails; the context may have
  ended before a part; files on disk have a size and may not open.
\<close>

record matrix_out =
  mo_api :: "nat \<Rightarrow> string option"
  mo_ctxErr :: "nat \<Rightarrow> string option"
  mo_size :: "string \<rightharpoonup> nat"
  mo_opens :: "string \<Rightarrow> bool"
  mo_mime :: mime_tables

definition part_content_type :: "unicode \<Rightarrow> mime_tables \<Rightarrow> media_part \<Rightarrow> media_meta \<Rightarrow> string \<Rightarrow> string" where
  "part_content_type U M part meta filename =
    first_nonempty [trim_space (mp_ContentType part), trim_space (mm_ContentType meta), mt_type M (to_lower U (ext filename))]
      ''application/octet-stream''"

definition part_filename :: "media_part \<Rightarrow> media_meta \<Rightarrow> string \<Rightarrow> string" where
  "part_filename part meta localPath =
    first_nonempty [trim_space (mp_Filename part), trim_space (mm_Filename meta), base_name localPath] ''file''"

fun matrix_send_parts ::
  "unicode \<Rightarrow> matrix_out \<Rightarrow> media_store \<Rightarrow> string \<Rightarrow> nat \<Rightarrow> nat \<Rightarrow> media_part list \<Rightarrow> matrix_call list \<times> send_error option" where
  "matrix_send_parts U A s roomID k n [] = ([], None)"
| "matrix_send_parts U A s roomID k n (part # parts) =
    (case mo_ctxErr A k of
       Some e \<Rightarrow> ([], Some (OtherError e))
     | None \<Rightarrow>
         (case resolve_with_meta s (mp_Ref part) of
            None \<Rightarrow> matrix_send_parts U A s roomID (Suc k) n parts
          | Some (localPath, meta) \<Rightarrow>
              (case mo_size A localPath of
                 None \<Rightarrow> matrix_send_parts U A s roomID (Suc k) n parts
               | Some bytes \<Rightarrow>
                   if \<not> mo_opens A localPath then matrix_send_parts U A s roomID (Suc k) n parts
                   else
                     let filename = part_filename part meta localPath;
                         contentType = part_content_type U (mo_mime A) part meta filename;
                         upload = UploadMedia localPath contentType filename bytes
                     in
                       (case mo_api A n of
                          None \<Rightarrow> ([upload], Some (Wrapped ErrTemporary ''matrix upload media''))
                        | Some uri \<Rightarrow>
                            let msg = RoomMedia roomID (matrix_outbound_content (mp_Caption part) filename
                                  (matrix_outbound_msg_type U (mp_Type part) filename contentType) contentType bytes uri)
                            in
                              if mo_api A (Suc n) = None
                              then ([upload, msg], Some (Wrapped ErrTemporary ''matrix send media''))
                              else
                                let (calls, err) = matrix_send_parts U A s roomID (Suc k) (Suc (Suc n)) parts
                                in (upload # msg # calls, err)))))"

definition matrix_send ::
  "unicode \<Rightarrow> matrix_out \<Rightarrow> media_store option \<Rightarrow> matrix_channel \<Rightarrow> outbound_message \<Rightarrow>
    matrix_call list \<times> send_error option" where
  "matrix_send U A store c msg =
    (let roomID = trim_space (om_ChatID msg); content = trim_space (om_Content msg);
         texts = (if content = [] then [] else [RoomMessage roomID content])
     in
       if \<not> bc_running (mx_base c) then ([], Some (Sentinel ErrNotRunning))
       else if roomID = [] then ([], Some (Wrapped ErrSendFailed ''matrix room ID is empty''))
       else if texts \<noteq> [] \<and> mo_api A 0 = None then (texts, Some (Wrapped ErrTemporary ''matrix send''))
       else if om_Parts msg = [] then (texts, None)
       else
         (case store of
            None \<Rightarrow> (texts, Some (Wrapped ErrSendFailed ''no media store available''))
          | Some s \<Rightarrow>
              let (calls, err) = matrix_send_parts U A s roomID 0 (length texts) (om_Parts msg)
              in (texts @ calls, err)))"

subsection \<open>Inbound events\<close>

text \<open>A message event; \<open>xm_Caption\<close> is what \<open>GetCaption\<close> gives, \<open>xm_File\<close> the address of an encrypted file.\<close>

record matrix_message =
  xm_MsgType :: string
  xm_Body :: string
  xm_FileName :: string
  xm_Caption :: string
  xm_FormattedBody :: string
  xm_URL :: string
  xm_File :: "string option"
  xm_MimeType :: "string option"
  xm_Mentions :: "string set option"
  xm_ReplaceID :: string
  xm_ReplyTo :: string

record matrix_event =
  xe_Sender :: string
  xe_Timestamp :: int
  xe_RoomID :: string
  xe_ID :: string
  xe_Message :: "matrix_message option"

record matrix_env =
  mv_store :: "media_store option"
  mv_disk :: "string set"
  mv_ref :: string
  mv_now :: int
  mv_prefix :: string
  mv_counter :: "64 word"
  mv_html :: html_lib
  mv_mime :: mime_tables
  mv_joined :: "nat option"
  mv_order :: "nat \<Rightarrow> room_entries \<Rightarrow> string list"
  mv_uriOk :: "string \<Rightarrow> bool"
  mv_downloads :: "string \<Rightarrow> bool"
  mv_decrypts :: bool
  mv_mediaDir :: bool
  mv_temp :: "string \<Rightarrow> string option"
  mv_writes :: bool

definition matrix_media_label :: "matrix_message \<Rightarrow> string \<Rightarrow> string" where
  "matrix_media_label m fallback = first_nonempty [trim_space (xm_FileName m), trim_space (xm_Body m)] fallback"

definition matrix_content_type :: "matrix_message \<Rightarrow> string" where
  "matrix_content_type m = (case xm_MimeType m of None \<Rightarrow> [] | Some t \<Rightarrow> trim_space t)"

definition matrix_media_uri :: "matrix_message \<Rightarrow> string" where
  "matrix_media_uri m =
    (if xm_URL m \<noteq> [] then xm_URL m else case xm_File m of None \<Rightarrow> [] | Some url \<Rightarrow> url)"

text \<open>The file a download leaves behind; \<open>None\<close> is an error.\<close>

definition download_media :: "matrix_env \<Rightarrow> matrix_message \<Rightarrow> string \<Rightarrow> string option" where
  "download_media E m mediaKind =
    (let uri = matrix_media_uri m in
     if uri = [] \<or> \<not> mv_uriOk E uri \<or> \<not> mv_downloads E uri then None
     else if xm_File m \<noteq> None \<and> xm_URL m = [] \<and> \<not> mv_decrypts E then None
     else if \<not> mv_mediaDir E then None
     else
       (case mv_temp E (''matrix-media-*'' @
           matrix_media_ext (mv_mime E) (matrix_media_label m mediaKind) (matrix_content_type m) mediaKind) of
          None \<Rightarrow> None
        | Some path \<Rightarrow> if mv_writes E then Some path else None))"

definition matrix_store_media ::
  "matrix_env \<Rightarrow> string \<Rightarrow> string \<Rightarrow> media_meta \<Rightarrow> media_store option \<times> string" where
  "matrix_store_media E scope localPath meta =
    (case mv_store E of
       None \<Rightarrow> (None, localPath)
     | Some s \<Rightarrow>
         (case media_put (insert localPath (mv_disk E)) (mv_ref E) (mv_now E) s localPath meta scope of
            (s', Inr ref) \<Rightarrow> (Some s', ref)
          | (s', Inl _) \<Rightarrow> (Some s', localPath)))"

definition extract_inbound_media ::
  "matrix_env \<Rightarrow> matrix_message \<Rightarrow> string \<Rightarrow> string \<times> string list \<times> media_store option" where
  "extract_inbound_media E m scope =
    (let mediaKind = matrix_media_kind (xm_MsgType m);
         label = matrix_media_label m mediaKind;
         mark = ''['' @ mediaKind @ '': '' @ label @ '']'';
         caption = trim_space (xm_Caption m);
         content = (if caption = [] then mark else caption @ [newline] @ mark)
     in
       case download_media E m mediaKind of
         None \<Rightarrow> (content, [], mv_store E)
       | Some localPath \<Rightarrow>
           let (store', ref) = matrix_store_media E scope localPath
                 \<lparr>mm_Filename = matrix_media_filename (mv_mime E) label mediaKind (matrix_content_type m),
                  mm_ContentType = matrix_content_type m, mm_Source = ''matrix''\<rparr>
           in (content, [ref], store'))"

definition extract_inbound_content ::
  "matrix_env \<Rightarrow> matrix_message \<Rightarrow> string \<Rightarrow> (string \<times> string list \<times> media_store option) option" where
  "extract_inbound_content E m scope =
    (if xm_MsgType m \<in> {''m.text'', ''m.notice''} then Some (xm_Body m, [], mv_store E)
     else if xm_MsgType m \<in> {m_image, m_audio, m_video, m_file} then Some (extract_inbound_media E m scope)
     else None)"

definition matrix_sender :: "unicode \<Rightarrow> string \<Rightarrow> sender_info" where
  "matrix_sender U senderID =
    \<lparr>Platform = ''matrix'', PlatformID = senderID, CanonicalID = build_canonical_id U ''matrix'' senderID,
     Username = senderID, DisplayName = senderID\<rparr>"

definition strip_self_mention :: "matrix_channel \<Rightarrow> string \<Rightarrow> string" where
  "strip_self_mention c s = strip_user_mention_with_regexp s (mx_userID c) (mx_mentionR c)"

definition matrix_trigger ::
  "unicode \<Rightarrow> html_lib \<Rightarrow> matrix_channel \<Rightarrow> matrix_message \<Rightarrow> bool \<Rightarrow> string \<Rightarrow> bool \<times> string" where
  "matrix_trigger U H c m isGroup content =
    (if isGroup then
       let isMentioned = matrix_is_bot_mentioned U H (mx_userID c) (mx_mentionR c) (xm_Mentions m) (xm_Body m) (xm_FormattedBody m)
       in should_respond_in_group (mx_base c) isMentioned (if isMentioned then strip_self_mention c content else content)
     else (True, strip_self_mention c content))"

type_synonym matrix_result = "matrix_channel \<times> media_store option \<times> channel_effect list \<times> 64 word"

text \<open>\<open>None\<close> only when the cache of rooms never finds room.\<close>

definition matrix_handle_message :: "unicode \<Rightarrow> matrix_env \<Rightarrow> matrix_channel \<Rightarrow> matrix_event \<Rightarrow> matrix_result option" where
  "matrix_handle_message U E c evt =
    (let ignored = Some (c, mv_store E, [], mv_counter E); senderID = xe_Sender evt; roomID = xe_RoomID evt in
     if senderID = mx_userID c \<or> xe_Timestamp evt * 1000000 < mx_startTime c then ignored
     else
       (case xe_Message evt of
          None \<Rightarrow> ignored
        | Some m \<Rightarrow>
            if xm_ReplaceID m \<noteq> [] then ignored
            else
              let (scope, n) = build_media_scope (mv_prefix E) (mv_counter E) ''matrix'' roomID (xe_ID evt) in
                (case extract_inbound_content E m scope of
                   None \<Rightarrow> Some (c, mv_store E, [], n)
                 | Some (content, media, store') \<Rightarrow>
                     let sender = matrix_sender U senderID in
                       if (trim_space content = [] \<and> media = []) \<or> \<not> is_allowed_sender U (mx_base c) sender
                       then Some (c, store', [], n)
                       else
                         (case is_group_room (mv_order E) (mv_joined E) (mv_now E) roomID (mx_rooms c) of
                            None \<Rightarrow> None
                          | Some (isGroup, rooms) \<Rightarrow>
                              let c' = c\<lparr>mx_rooms := rooms\<rparr>;
                                  (respond, content') = matrix_trigger U (mv_html E) c' m isGroup (trim_space content)
                              in
                                if \<not> respond \<or> trim_space content' = [] then Some (c', store', [], n)
                                else
                                  Some (c', store', handle_message U (mv_prefix E) n (mx_base c)
                                    (if isGroup then \<lparr>p_Kind = ''group'', p_ID = roomID\<rparr>
                                     else \<lparr>p_Kind = ''direct'', p_ID = senderID\<rparr>)
                                    (xe_ID evt) senderID roomID (trim_space content') media
                                    ([''room_id'' \<mapsto> roomID, ''timestamp'' \<mapsto> format_int (xe_Timestamp evt),
                                      ''is_group'' \<mapsto> (if isGroup then ''true'' else ''false''),
                                      ''sender_raw'' \<mapsto> senderID] ++
                                     (if xm_ReplyTo m = [] then Map.empty else [''reply_to_msg_id'' \<mapsto> xm_ReplyTo m]))
                                    [sender])))))"

text \<open>\<open>handleMemberEvent\<close>: an invitation of the bot is accepted where the configuration says so.\<close>

definition matrix_handle_member :: "matrix_channel \<Rightarrow> string \<Rightarrow> string \<Rightarrow> string \<Rightarrow> matrix_call list" where
  "matrix_handle_member c membership stateKey roomID =
    (if xg_JoinOnInvite (mx_config c) \<and> membership = ''invite'' \<and> stateKey = mx_userID c then [JoinRoom roomID] else [])"

subsection \<open>What is published\<close>

lemma matrix_passed_on:
  assumes "matrix_handle_message U E c evt = Some (c', store', effs, n)" "effs \<noteq> []"
  shows "passed_on U ''matrix'' (mx_base c) effs"
proof -
  have peer: "peer_ok (matrix_sender U user) chat \<lparr>p_Kind = ''direct'', p_ID = user\<rparr>"
      "peer_ok (matrix_sender U user) chat \<lparr>p_Kind = ''group'', p_ID = room\<rparr>" for user chat room
    by (simp_all add: peer_ok_def matrix_sender_def)
  have sender: "Platform (matrix_sender U user) = ''matrix''" "PlatformID (matrix_sender U user) = user"
      "CanonicalID (matrix_sender U user) = build_canonical_id U ''matrix'' user" for user
    by (simp_all add: matrix_sender_def)
  show ?thesis
    using assms
    by (auto simp: matrix_handle_message_def Let_def peer sender split: option.splits if_splits prod.splits
        intro!: passed_onI)
qed

definition matrix_effects :: "unicode \<Rightarrow> matrix_env \<times> matrix_event \<Rightarrow> matrix_channel \<Rightarrow> channel_effect list" where
  "matrix_effects U = (\<lambda>(E, evt) c. case matrix_handle_message U E c evt of None \<Rightarrow> [] | Some (_, _, effs, _) \<Rightarrow> effs)"

interpretation matrix_inbound: inbound_adapter U "''matrix''" mx_base "matrix_effects U" for U
  by unfold_locales (auto simp: matrix_effects_def dest: matrix_passed_on split: option.splits)

subsection \<open>Which events have an effect\<close>

text \<open>
  An event has an effect only when it is new, no edit and not the bot's own, of a sender who is admitted,
  and, in a room known to have more than two members, when it mentions the bot or passes the trigger.
\<close>

theorem matrix_event_gate:
  assumes "matrix_handle_message U E c evt = Some (c', store', effs, n)" "effs \<noteq> []"
  shows "xe_Sender evt \<noteq> mx_userID c \<and> mx_startTime c \<le> xe_Timestamp evt * 1000000 \<and>
    is_allowed_sender U (mx_base c) (matrix_sender U (xe_Sender evt)) \<and>
    (\<exists>m isGroup content scope media. xe_Message evt = Some m \<and> xm_ReplaceID m = [] \<and>
      is_group_room (mv_order E) (mv_joined E) (mv_now E) (xe_RoomID evt) (mx_rooms c) = Some (isGroup, mx_rooms c') \<and>
      extract_inbound_content E m scope = Some (content, media, store') \<and>
      (isGroup \<longrightarrow> matrix_is_bot_mentioned U (mv_html E) (mx_userID c) (mx_mentionR c) (xm_Mentions m) (xm_Body m) (xm_FormattedBody m) \<or>
        (\<exists>t. should_respond_in_group (mx_base c) False (trim_space content) = (True, t))))"
  using assms
  by (auto simp: matrix_handle_message_def matrix_trigger_def Let_def split: option.splits if_splits prod.splits)

subsection \<open>What a send does\<close>

definition deliverable :: "matrix_out \<Rightarrow> media_store \<Rightarrow> media_part \<Rightarrow> bool" where
  "deliverable A s part \<longleftrightarrow>
    (case resolve_with_meta s (mp_Ref part) of
       None \<Rightarrow> False
     | Some (path, _) \<Rightarrow> mo_size A path \<noteq> None \<and> mo_opens A path)"

fun media_pair :: "string \<Rightarrow> matrix_call \<Rightarrow> matrix_call \<Rightarrow> bool" where
  "media_pair roomID (UploadMedia path ct name bytes) (RoomMedia room content) \<longleftrightarrow>
    room = roomID \<and> xc_FileName content = name \<and> xc_MimeType content = trim_space ct \<and> xc_Body content \<noteq> []"
| "media_pair roomID _ _ \<longleftrightarrow> False"

lemma first_nonempty_ok: "d \<noteq> [] \<Longrightarrow> first_nonempty xs d \<noteq> []"
  by (auto simp: first_nonempty_def find_Some_iff split: option.splits)

lemma send_parts_delivers:
  assumes "matrix_send_parts U A s roomID k n parts = (calls, None)"
  shows "\<exists>pairs. calls = concat (map (\<lambda>(u, m). [u, m]) pairs) \<and>
    length pairs = length (filter (deliverable A s) parts) \<and> (\<forall>(u, m) \<in> set pairs. media_pair roomID u m)"
  using assms
proof (induction parts arbitrary: k n calls)
  case (Cons part parts)
  have ctx: "mo_ctxErr A k = None" using Cons.prems by (cases "mo_ctxErr A k") auto
  show ?case
  proof (cases "deliverable A s part")
    case False
    then have "matrix_send_parts U A s roomID (Suc k) n parts = (calls, None)"
      using Cons.prems ctx by (auto simp: deliverable_def split: option.splits if_splits)
    from Cons.IH [OF this] False show ?thesis by simp
  next
    case True
    then obtain path meta bytes where d: "resolve_with_meta s (mp_Ref part) = Some (path, meta)"
        "mo_size A path = Some bytes" "mo_opens A path"
      by (auto simp: deliverable_def split: option.splits)
    define filename where "filename = part_filename part meta path"
    define ct where "ct = part_content_type U (mo_mime A) part meta filename"
    obtain uri calls' where u: "mo_api A n = Some uri" "mo_api A (Suc n) \<noteq> None"
        "matrix_send_parts U A s roomID (Suc k) (Suc (Suc n)) parts = (calls', None)"
        "calls = UploadMedia path ct filename bytes #
          RoomMedia roomID (matrix_outbound_content (mp_Caption part) filename
            (matrix_outbound_msg_type U (mp_Type part) filename ct) ct bytes uri) # calls'"
      using Cons.prems ctx d by (auto simp: Let_def filename_def ct_def split: option.splits if_splits prod.splits)
    from Cons.IH [OF u(3)] obtain pairs where p: "calls' = concat (map (\<lambda>(u, m). [u, m]) pairs)"
        "length pairs = length (filter (deliverable A s) parts)" "\<forall>(u, m) \<in> set pairs. media_pair roomID u m"
      by blast
    have "xc_Body (matrix_outbound_content (mp_Caption part) filename mt ct bytes uri) \<noteq> []" for mt
      by (simp add: matrix_outbound_content_def first_nonempty_ok matrix_media_kind_def)
    then show ?thesis
      using p True u(4)
      by (intro exI [of _ "(UploadMedia path ct filename bytes, RoomMedia roomID (matrix_outbound_content (mp_Caption part)
        filename (matrix_outbound_msg_type U (mp_Type part) filename ct) ct bytes uri)) # pairs"])
        (auto simp: matrix_outbound_content_def)
  qed
qed auto


text \<open>
  A send without an error posts the text, if there is one, and then for every part whose file is there
  an upload and a message of the room with the address of the upload, in order.
\<close>

theorem matrix_send_delivers:
  assumes "matrix_send U A (Some s) c msg = (calls, None)" "bc_running (mx_base c)"
  shows "\<exists>pairs. calls =
      (if trim_space (om_Content msg) = [] then [] else [RoomMessage (trim_space (om_ChatID msg)) (trim_space (om_Content msg))]) @
      concat (map (\<lambda>(u, m). [u, m]) pairs) \<and>
    length pairs = length (filter (deliverable A s) (om_Parts msg)) \<and>
    (\<forall>(u, m) \<in> set pairs. media_pair (trim_space (om_ChatID msg)) u m)"
proof (cases "om_Parts msg = []")
  case True
  with assms show ?thesis
    by (intro exI [of _ "[]"]) (auto simp: matrix_send_def Let_def split: if_splits)
next
  case False
  let ?room = "trim_space (om_ChatID msg)" and ?content = "trim_space (om_Content msg)"
  let ?texts = "if ?content = [] then [] else [RoomMessage ?room ?content]"
  obtain calls' where c: "matrix_send_parts U A s ?room 0 (length ?texts) (om_Parts msg) = (calls', None)"
      "calls = ?texts @ calls'"
    using assms False by (auto simp: matrix_send_def Let_def split: if_splits prod.splits)
  from send_parts_delivers [OF c(1)] c(2) show ?thesis by auto
qed

text \<open>
  When the upload behind a text fails for the time being, \<open>Send\<close> returns that error and the manager
  sends the message again: the room gets the text a second time.
\<close>

lemma matrix_resend_repeats:
  assumes "bc_running (mx_base c)" "trim_space (om_ChatID msg) \<noteq> []" "trim_space (om_Content msg) \<noteq> []"
    and "om_Parts msg = part # parts" "deliverable A s part"
    and "mo_api A 0 \<noteq> None" "mo_api A 1 = None" "mo_ctxErr A 0 = None"
  shows "\<exists>calls. matrix_send U A (Some s) c msg =
    (RoomMessage (trim_space (om_ChatID msg)) (trim_space (om_Content msg)) # calls, Some (Wrapped ErrTemporary ''matrix upload media''))"
  using assms by (auto simp: matrix_send_def deliverable_def Let_def split: option.splits prod.splits)

subsection \<open>Attachments of strangers, indicators of earlier messages\<close>

definition matrix_sample :: matrix_channel where
  "matrix_sample =
    \<lparr>mx_base = set_running True (new_base_channel ''matrix'' [''matrix:@ann:m.org''] []),
     mx_config = \<lparr>xg_Homeserver = ''h'', xg_UserID = ''@ecto:m.org'', xg_AccessToken = ''t'', xg_DeviceID = [],
       xg_JoinOnInvite = False, xg_AllowFrom = [''matrix:@ann:m.org''],
       xg_GroupTrigger = \<lparr>MentionOnly = False, Prefixes = []\<rparr>, xg_ReasoningChannelID = []\<rparr>,
     mx_userID = ''@ecto:m.org'', mx_deviceID = [], mx_startTime = 0,
     mx_typing = \<lparr>ts_sessions = Map.empty, ts_next = 0, ts_stopped = {}, ts_done = {}\<rparr>,
     mx_rooms = new_room_kind_cache 10 10, mx_mentionR = Some ''ecto''\<rparr>"

text \<open>The allow-list is checked behind the download: the file of a stranger is fetched and registered.\<close>

lemma stranger_media_stored:
  assumes "xe_Sender evt = ''@eve:m.org''" "0 \<le> xe_Timestamp evt" "xe_Message evt = Some m" "xm_ReplaceID m = []"
    and "xm_MsgType m = m_file" "download_media E m ''file'' = Some path" "mv_store E = Some s" "mv_ref E = ref"
    and "matrix_handle_message ascii_only E matrix_sample evt = Some (c', store', effs, n)"
  shows "effs = [] \<and> (\<exists>s' meta. store' = Some s' \<and> resolve_with_meta s' ref = Some (path, meta))"
proof -
  have kinds: "m_file \<noteq> ''m.text''" "m_file \<noteq> ''m.notice''" "matrix_media_kind m_file = ''file''"
    by (simp_all add: m_file_def matrix_media_kind_def m_audio_def m_video_def)
  have stranger: "\<not> is_allowed_sender ascii_only (mx_base matrix_sample) (matrix_sender ascii_only ''@eve:m.org'')"
    by code_simp
  have self: "mx_userID matrix_sample \<noteq> ''@eve:m.org''" "mx_startTime matrix_sample = 0"
    by (simp_all add: matrix_sample_def)
  obtain scope k where scope: "build_media_scope (mv_prefix E) (mv_counter E) ''matrix'' (xe_RoomID evt) (xe_ID evt) = (scope, k)"
    by force
  obtain content refs store2 where x: "extract_inbound_content E m scope = Some (content, refs, store2)"
    using assms(5) kinds by (cases "extract_inbound_media E m scope") (auto simp: extract_inbound_content_def)
  have "\<exists>s' meta. store2 = Some s' \<and> resolve_with_meta s' ref = Some (path, meta)"
    using x assms(5-8) kinds
    by (auto simp: extract_inbound_content_def extract_inbound_media_def matrix_store_media_def media_put_def
        register_ref_def resolve_with_meta_def Let_def)
  moreover have "effs = [] \<and> store' = store2"
    using assms(1-4,9) stranger self x scope by (auto simp: matrix_handle_message_def Let_def split: if_splits)
  ultimately show ?thesis by simp
qed

text \<open>
  The function that ends an indicator ends no other loop, but it tells the server that the bot is not
  typing, also while the loop of a later message of the room runs.
\<close>

lemma earlier_stop_clears_indicator:
  assumes "bc_running (mx_base c)" "trim_space chat \<noteq> []"
    and "matrix_start_typing chat c = (c1, Some i, None)" "matrix_start_typing chat c1 = (c2, Some j, None)"
    and "i \<notin> ts_done (mx_typing c)"
    and "matrix_stop_typing chat i c2 = (c3, calls)"
  shows "ts_sessions (mx_typing c3) chat = Some j \<and> calls = [UserTyping (trim_space chat) False]"
  using assms by (auto simp: matrix_start_typing_def matrix_stop_typing_def Let_def split: if_splits)

end
