(* ===== verification/Whatsapp.thy ===== *)
theory Whatsapp
  imports Base_Channel Json
begin

text \<open>
  \<open>pkg/channels/whatsapp/whatsapp.go\<close>: the adapter of a bridge that talks JSON over a web socket. The
  connection is an argument: whether dialling and writing succeed, and what is read.
\<close>

subsection \<open>State\<close>

record whatsapp_config =
  wc_BridgeURL :: string
  wc_UseNative :: bool
  wc_SessionStorePath :: string
  wc_AllowFrom :: "string list"
  wc_ReasoningChannelID :: string

record whatsapp_channel =
  wa_base :: base_channel
  wa_config :: whatsapp_config
  wa_url :: string
  wa_conn :: bool
  wa_connected :: bool

definition new_whatsapp_channel :: "whatsapp_config \<Rightarrow> whatsapp_channel" where
  "new_whatsapp_channel cfg =
    \<lparr>wa_base = new_base_channel ''whatsapp'' (wc_AllowFrom cfg)
       [with_max_message_length 65536, with_reasoning_channel_id (wc_ReasoningChannelID cfg)],
     wa_config = cfg, wa_url = wc_BridgeURL cfg, wa_conn = False, wa_connected = False\<rparr>"

definition whatsapp_start :: "string option \<Rightarrow> whatsapp_channel \<Rightarrow> whatsapp_channel \<times> string option" where
  "whatsapp_start dialErr c =
    (case dialErr of
       Some e \<Rightarrow> (c, Some (''failed to connect to WhatsApp bridge: '' @ e))
     | None \<Rightarrow> (c\<lparr>wa_conn := True, wa_connected := True, wa_base := set_running True (wa_base c)\<rparr>, None))"

definition whatsapp_stop :: "whatsapp_channel \<Rightarrow> whatsapp_channel" where
  "whatsapp_stop c = c\<lparr>wa_conn := False, wa_connected := False, wa_base := set_running False (wa_base c)\<rparr>"

subsection \<open>Sending\<close>

text \<open>The object for the bridge; its keys are printed in order.\<close>

definition whatsapp_payload :: "outbound_message \<Rightarrow> string" where
  "whatsapp_payload msg =
    ''{'' @ quote ''content'' @ '':'' @ quote (om_Content msg) @ '','' @ quote ''to'' @ '':'' @ quote (om_ChatID msg) @ '','' @
    quote ''type'' @ '':'' @ quote ''message'' @ ''}''"

text \<open>What is written to the connection, if anything, and the error.\<close>

definition whatsapp_send ::
  "string option \<Rightarrow> bool \<Rightarrow> whatsapp_channel \<Rightarrow> outbound_message \<Rightarrow> string option \<times> send_error option" where
  "whatsapp_send ctxErr writeOk c msg =
    (if \<not> bc_running (wa_base c) then (None, Some (Sentinel ErrNotRunning))
     else
       (case ctxErr of
          Some e \<Rightarrow> (None, Some (OtherError e))
        | None \<Rightarrow>
            if \<not> wa_conn c then (None, Some (Wrapped ErrTemporary ''whatsapp connection not established''))
            else (Some (whatsapp_payload msg), if writeOk then None else Some (Wrapped ErrTemporary ''whatsapp send''))))"

subsection \<open>Receiving\<close>

text \<open>A member of an object that is a text; a key that occurs twice has its last value.\<close>

definition text_member :: "(string \<times> json) list \<Rightarrow> string \<Rightarrow> string option" where
  "text_member kvs k = (case map_of (rev kvs) k of Some (JStr s) \<Rightarrow> Some s | _ \<Rightarrow> None)"

definition whatsapp_media :: "(string \<times> json) list \<Rightarrow> string list" where
  "whatsapp_media kvs =
    (case map_of (rev kvs) ''media'' of
       Some (JArr vs) \<Rightarrow> concat (map (\<lambda>v. case v of JStr path \<Rightarrow> [path] | _ \<Rightarrow> []) vs)
     | _ \<Rightarrow> [])"

definition whatsapp_sender :: "unicode \<Rightarrow> string \<Rightarrow> string option \<Rightarrow> sender_info" where
  "whatsapp_sender U senderID name =
    no_sender\<lparr>Platform := ''whatsapp'', PlatformID := senderID, CanonicalID := build_canonical_id U ''whatsapp'' senderID,
      DisplayName := (case name of None \<Rightarrow> [] | Some n \<Rightarrow> n)\<rparr>"

definition whatsapp_handle ::
  "unicode \<Rightarrow> string \<Rightarrow> 64 word \<Rightarrow> whatsapp_channel \<Rightarrow> (string \<times> json) list \<Rightarrow> channel_effect list \<times> 64 word" where
  "whatsapp_handle U prefix n c kvs =
    (case text_member kvs ''from'' of
       None \<Rightarrow> ([], n)
     | Some senderID \<Rightarrow>
         let chatID = (case text_member kvs ''chat'' of Some s \<Rightarrow> s | None \<Rightarrow> senderID);
             content = (case text_member kvs ''content'' of Some s \<Rightarrow> s | None \<Rightarrow> []);
             messageID = (case text_member kvs ''id'' of Some s \<Rightarrow> s | None \<Rightarrow> []);
             name = text_member kvs ''from_name'';
             sender = whatsapp_sender U senderID name
         in
           if \<not> is_allowed_sender U (wa_base c) sender then ([], n)
           else
             handle_message U prefix n (wa_base c)
               (if chatID = senderID then \<lparr>p_Kind = ''direct'', p_ID = senderID\<rparr> else \<lparr>p_Kind = ''group'', p_ID = chatID\<rparr>)
               messageID senderID chatID content (whatsapp_media kvs)
               (case name of None \<Rightarrow> Map.empty | Some s \<Rightarrow> [''user_name'' \<mapsto> s]) [sender])"

text \<open>One message of the connection; anything but an object of the type \<open>message\<close> is skipped.\<close>

definition whatsapp_receive ::
  "unicode \<Rightarrow> string \<Rightarrow> 64 word \<Rightarrow> whatsapp_channel \<Rightarrow> string \<Rightarrow> channel_effect list \<times> 64 word" where
  "whatsapp_receive U prefix n c raw =
    (case unmarshal raw of
       Some (JObj kvs) \<Rightarrow>
         if text_member kvs ''type'' = Some ''message'' then whatsapp_handle U prefix n c kvs else ([], n)
     | _ \<Rightarrow> ([], n))"

text \<open>
  The loop that reads, one round after the other: the channel was stopped, there is no connection, or
  a read gave a message or failed. Its result are the effects of every round.
\<close>

datatype listen_round = Stopped | NoConnection | ReadFailed | ReadMessage string

fun whatsapp_listen ::
  "unicode \<Rightarrow> string \<Rightarrow> 64 word \<Rightarrow> whatsapp_channel \<Rightarrow> listen_round list \<Rightarrow> channel_effect list list" where
  "whatsapp_listen U prefix n c [] = []"
| "whatsapp_listen U prefix n c (Stopped # rounds) = []"
| "whatsapp_listen U prefix n c (NoConnection # rounds) = [] # whatsapp_listen U prefix n c rounds"
| "whatsapp_listen U prefix n c (ReadFailed # rounds) = [] # whatsapp_listen U prefix n c rounds"
| "whatsapp_listen U prefix n c (ReadMessage raw # rounds) =
    (case whatsapp_receive U prefix n c raw of (effs, n') \<Rightarrow> effs # whatsapp_listen U prefix n' c rounds)"

subsection \<open>What is published\<close>

lemma whatsapp_passed_on:
  assumes "whatsapp_receive U prefix n c raw = (effs, n')" "effs \<noteq> []"
  shows "passed_on U ''whatsapp'' (wa_base c) effs"
proof -
  have peer: "peer_ok (whatsapp_sender U user name) chat \<lparr>p_Kind = ''direct'', p_ID = user\<rparr>"
      "peer_ok (whatsapp_sender U user name) chat \<lparr>p_Kind = ''group'', p_ID = room\<rparr>" for user chat room name
    by (simp_all add: peer_ok_def whatsapp_sender_def)
  have sender: "Platform (whatsapp_sender U user name) = ''whatsapp''" "PlatformID (whatsapp_sender U user name) = user"
      "CanonicalID (whatsapp_sender U user name) = build_canonical_id U ''whatsapp'' user" for user name
    by (simp_all add: whatsapp_sender_def)
  show ?thesis
    using assms
    by (auto simp: whatsapp_receive_def whatsapp_handle_def Let_def peer sender
        split: option.splits json.splits if_splits prod.splits intro!: passed_onI)
qed

interpretation whatsapp_inbound: inbound_adapter U "''whatsapp''" wa_base
    "\<lambda>x c. fst (whatsapp_receive U (fst x) (fst (snd x)) c (snd (snd x)))" for U
proof
  fix x :: "string \<times> 64 word \<times> string" and c
  obtain effs n' where run: "whatsapp_receive U (fst x) (fst (snd x)) c (snd (snd x)) = (effs, n')" by force
  assume "fst (whatsapp_receive U (fst x) (fst (snd x)) c (snd (snd x))) \<noteq> []"
  then show "passed_on U ''whatsapp'' (wa_base c) (fst (whatsapp_receive U (fst x) (fst (snd x)) c (snd (snd x))))"
    using whatsapp_passed_on [OF run] by (simp add: run)
qed

subsection \<open>What the bridge reads\<close>

text \<open>What the bridge decodes from a payload is the chat and the text of the message, whatever they hold.\<close>

theorem whatsapp_payload_reads:
  "unmarshal (whatsapp_payload msg) =
    Some (JObj [(''content'', JStr (om_Content msg)), (''to'', JStr (om_ChatID msg)), (''type'', JStr ''message'')])"
proof -
  let ?l = "''{'' @ quote ''content'' @ '':'' @ quote (om_Content msg) @ '','' @ quote ''to'' @ '':'' @ quote (om_ChatID msg) @ '','' @
    quote ''type'' @ '':'' @ quote ''message'' @ ''}'' @ []"
  have l: "whatsapp_payload msg = ?l" by (simp add: whatsapp_payload_def)
  obtain n where n: "2 * length ?l + 1 = Suc (Suc (Suc (Suc (Suc n))))"
  proof (rule that)
    have "2 \<le> length ?l" by simp
    then show "2 * length ?l + 1 = Suc (Suc (Suc (Suc (Suc (2 * length ?l - 4)))))" by linarith
  qed
  show ?thesis unfolding l unmarshal_def n parse_brace parse_member by simp
qed

text \<open>
  The library keeps failing once a read has failed, and the loop never dials again: from the first
  error on the channel is deaf until it is stopped.
\<close>

lemma whatsapp_deaf_after_error:
  assumes "\<forall>r \<in> set rounds. r \<noteq> ReadFailed \<longrightarrow> r = Stopped"
  shows "concat (whatsapp_listen U prefix n c (ReadFailed # rounds)) = []"
proof -
  have "concat (whatsapp_listen U prefix n c rs) = []" if "\<forall>r \<in> set rs. r \<noteq> ReadFailed \<longrightarrow> r = Stopped" for rs
    using that by (induction rs) auto
  with assms show ?thesis by simp
qed

end
