(* ===== verification/Whatsapp_Native.thy ===== *)
theory Whatsapp_Native
  imports Whatsapp Utils
begin

text \<open>
  \<open>pkg/channels/whatsapp_native/whatsapp_native.go\<close>: the adapter that speaks to WhatsApp within the
  process. First its life: \<open>Start\<close>, \<open>Stop\<close>, the events of the client and the goroutines they launch, as
  steps between the points where another goroutine can interfere. Then the loop that reconnects, and
  what is received and sent. The client library, the database and the codec of addresses are arguments.
\<close>

subsection \<open>The life of the channel\<close>

text \<open>Where a running \<open>Start\<close> and a running \<open>Stop\<close> are.\<close>

datatype start_point = NotStarting | Resetting | Registered

datatype stop_point = NotStopping | Marked | Waiting

text \<open>
  \<open>na_qr\<close>, \<open>na_loops\<close> and \<open>na_leaving\<close> count goroutines: those that show QR codes, those in
  \<open>reconnectWithBackoff\<close>, and those that have returned from it and still have to call \<open>Done\<close>. \<open>na_wg\<close> is
  the counter of the wait group.
\<close>

record native_state =
  na_stopping :: bool
  na_reconnecting :: bool
  na_wg :: int
  na_client :: bool
  na_canceled :: bool
  na_running :: bool
  na_handler :: bool
  na_qr :: nat
  na_loops :: nat
  na_leaving :: nat
  na_start :: start_point
  na_stop :: stop_point

definition new_native_state :: native_state where
  "new_native_state =
    \<lparr>na_stopping = False, na_reconnecting = False, na_wg = 0, na_client = False, na_canceled = True, na_running = False,
     na_handler = False, na_qr = 0, na_loops = 0, na_leaving = 0, na_start = NotStarting, na_stop = NotStopping\<rparr>"

definition start_reset :: "native_state \<Rightarrow> native_state" where
  "start_reset s = s\<lparr>na_stopping := False, na_reconnecting := False, na_start := Resetting\<rparr>"

definition start_register :: "native_state \<Rightarrow> native_state" where
  "start_register s = s\<lparr>na_canceled := False, na_handler := True, na_client := True, na_start := Registered\<rparr>"

text \<open>The deferred clean-up of a \<open>Start\<close> that fails behind the registration, and its successful end.\<close>

definition start_cleanup :: "native_state \<Rightarrow> native_state" where
  "start_cleanup s = s\<lparr>na_canceled := True, na_client := False, na_start := NotStarting\<rparr>"

definition start_done :: "native_state \<Rightarrow> native_state" where
  "start_done s = s\<lparr>na_running := True, na_start := NotStarting\<rparr>"

text \<open>The device is not paired: a goroutine that shows QR codes is launched, unless the channel is being stopped.\<close>

definition start_qr :: "native_state \<Rightarrow> native_state" where
  "start_qr s =
    (if na_stopping s then start_cleanup s
     else start_done (s\<lparr>na_wg := na_wg s + 1, na_qr := na_qr s + 1\<rparr>))"

definition on_disconnected :: "native_state \<Rightarrow> native_state" where
  "on_disconnected s =
    (if na_reconnecting s then s
     else if na_stopping s then s
     else s\<lparr>na_reconnecting := True, na_wg := na_wg s + 1, na_loops := na_loops s + 1\<rparr>)"

text \<open>\<open>reconnectWithBackoff\<close> returns: its deferred function runs, then the one of the goroutine.\<close>

definition loop_return :: "native_state \<Rightarrow> native_state" where
  "loop_return s = s\<lparr>na_reconnecting := False, na_loops := na_loops s - 1, na_leaving := na_leaving s + 1\<rparr>"

definition loop_done :: "native_state \<Rightarrow> native_state" where
  "loop_done s = s\<lparr>na_wg := na_wg s - 1, na_leaving := na_leaving s - 1\<rparr>"

definition qr_done :: "native_state \<Rightarrow> native_state" where
  "qr_done s = s\<lparr>na_wg := na_wg s - 1, na_qr := na_qr s - 1\<rparr>"

definition stop_mark :: "native_state \<Rightarrow> native_state" where
  "stop_mark s = s\<lparr>na_stopping := True, na_stop := Marked\<rparr>"

definition native_stop_cancel :: "native_state \<Rightarrow> native_state" where
  "native_stop_cancel s = s\<lparr>na_canceled := True, na_stop := Waiting\<rparr>"

definition stop_finish :: "native_state \<Rightarrow> native_state" where
  "stop_finish s = s\<lparr>na_client := False, na_running := False, na_stop := NotStopping\<rparr>"

datatype native_event =
    StartBegins | StartFails | ClientRegistered | ConnectFails | ConnectedPaired | ConnectedUnpaired
  | DisconnectedEvent | LoopReturns | LoopDone | QrDone
  | StopMarks | StopCancels | WaitOver | WaitTimedOut

text \<open>
  The steps. With \<open>orderly\<close>, nobody calls \<open>Start\<close> while a goroutine of an earlier run is left; without,
  it is enough that no other call of \<open>Start\<close> or \<open>Stop\<close> is under way. \<open>Stop\<close> may come at any time.
\<close>

inductive native_step :: "bool \<Rightarrow> native_state \<Rightarrow> native_event \<Rightarrow> native_state \<Rightarrow> bool" for orderly where
  StartBegins: "na_start s = NotStarting \<Longrightarrow> na_stop s = NotStopping \<Longrightarrow> orderly \<longrightarrow> na_wg s = 0 \<Longrightarrow>
    native_step orderly s StartBegins (start_reset s)"
| StartFails: "na_start s = Resetting \<Longrightarrow> native_step orderly s StartFails (s\<lparr>na_start := NotStarting\<rparr>)"
| ClientRegistered: "na_start s = Resetting \<Longrightarrow> native_step orderly s ClientRegistered (start_register s)"
| ConnectFails: "na_start s = Registered \<Longrightarrow> native_step orderly s ConnectFails (start_cleanup s)"
| ConnectedPaired: "na_start s = Registered \<Longrightarrow> native_step orderly s ConnectedPaired (start_done s)"
| ConnectedUnpaired: "na_start s = Registered \<Longrightarrow> native_step orderly s ConnectedUnpaired (start_qr s)"
| DisconnectedEvent: "na_handler s \<Longrightarrow> native_step orderly s DisconnectedEvent (on_disconnected s)"
| LoopReturns: "0 < na_loops s \<Longrightarrow> native_step orderly s LoopReturns (loop_return s)"
| LoopDone: "0 < na_leaving s \<Longrightarrow> native_step orderly s LoopDone (loop_done s)"
| QrDone: "0 < na_qr s \<Longrightarrow> native_step orderly s QrDone (qr_done s)"
| StopMarks: "na_stop s = NotStopping \<Longrightarrow> native_step orderly s StopMarks (stop_mark s)"
| StopCancels: "na_stop s = Marked \<Longrightarrow> native_step orderly s StopCancels (native_stop_cancel s)"
| WaitOver: "na_stop s = Waiting \<Longrightarrow> na_wg s = 0 \<Longrightarrow> native_step orderly s WaitOver (stop_finish s)"
| WaitTimedOut: "na_stop s = Waiting \<Longrightarrow> native_step orderly s WaitTimedOut (stop_finish s)"

inductive_cases native_step_cases: "native_step orderly s e s'"

inductive native_run :: "bool \<Rightarrow> native_event list \<Rightarrow> native_state \<Rightarrow> bool" for orderly where
  native_new: "native_run orderly [] new_native_state"
| native_more: "native_run orderly es s \<Longrightarrow> native_step orderly s e s' \<Longrightarrow> native_run orderly (es @ [e]) s'"

lemmas native_ops = start_reset_def start_register_def start_cleanup_def start_done_def start_qr_def on_disconnected_def
  loop_return_def loop_done_def qr_done_def stop_mark_def native_stop_cancel_def stop_finish_def

text \<open>The counter is the number of goroutines, and a goroutine reconnects exactly if the flag says so.\<close>

definition native_inv :: "native_state \<Rightarrow> bool" where
  "native_inv s \<longleftrightarrow>
    na_wg s = int (na_qr s + na_loops s + na_leaving s) \<and>
    na_loops s = (if na_reconnecting s then 1 else 0) \<and>
    (na_stop s \<noteq> NotStopping \<longrightarrow> na_stopping s) \<and>
    (na_start s = Registered \<longrightarrow> na_handler s)"

lemma native_inv_step:
  assumes "native_step True s e s'" "native_inv s"
  shows "native_inv s'"
  using assms by (cases rule: native_step.cases) (auto simp: native_inv_def native_ops split: if_splits)

lemma native_run_inv: "native_run True es s \<Longrightarrow> native_inv s"
proof (induction rule: native_run.induct)
  case native_new
  show ?case by (simp add: native_inv_def new_native_state_def)
next
  case (native_more es s e s')
  then show ?case using native_inv_step by blast
qed

text \<open>The same steps as a function, to run given sequences of them.\<close>

definition native_apply :: "bool \<Rightarrow> native_event \<Rightarrow> native_state \<Rightarrow> native_state option" where
  "native_apply orderly e s =
    (let step = (\<lambda>ok s'. if ok then Some s' else None) in
     case e of
       StartBegins \<Rightarrow> step (na_start s = NotStarting \<and> na_stop s = NotStopping \<and> (orderly \<longrightarrow> na_wg s = 0)) (start_reset s)
     | StartFails \<Rightarrow> step (na_start s = Resetting) (s\<lparr>na_start := NotStarting\<rparr>)
     | ClientRegistered \<Rightarrow> step (na_start s = Resetting) (start_register s)
     | ConnectFails \<Rightarrow> step (na_start s = Registered) (start_cleanup s)
     | ConnectedPaired \<Rightarrow> step (na_start s = Registered) (start_done s)
     | ConnectedUnpaired \<Rightarrow> step (na_start s = Registered) (start_qr s)
     | DisconnectedEvent \<Rightarrow> step (na_handler s) (on_disconnected s)
     | LoopReturns \<Rightarrow> step (0 < na_loops s) (loop_return s)
     | LoopDone \<Rightarrow> step (0 < na_leaving s) (loop_done s)
     | QrDone \<Rightarrow> step (0 < na_qr s) (qr_done s)
     | StopMarks \<Rightarrow> step (na_stop s = NotStopping) (stop_mark s)
     | StopCancels \<Rightarrow> step (na_stop s = Marked) (native_stop_cancel s)
     | WaitOver \<Rightarrow> step (na_stop s = Waiting \<and> na_wg s = 0) (stop_finish s)
     | WaitTimedOut \<Rightarrow> step (na_stop s = Waiting) (stop_finish s))"

fun native_exec :: "bool \<Rightarrow> native_event list \<Rightarrow> native_state \<Rightarrow> native_state option" where
  "native_exec orderly [] s = Some s"
| "native_exec orderly (e # es) s =
    (case native_apply orderly e s of None \<Rightarrow> None | Some s' \<Rightarrow> native_exec orderly es s')"

lemma native_apply_step: "native_apply orderly e s = Some s' \<longleftrightarrow> native_step orderly s e s'"
proof
  assume "native_apply orderly e s = Some s'"
  then show "native_step orderly s e s'"
    by (cases e) (auto simp: native_apply_def split: if_splits intro: native_step.intros)
next
  assume "native_step orderly s e s'"
  then show "native_apply orderly e s = Some s'"
    by (cases rule: native_step.cases) (simp_all add: native_apply_def)
qed

lemma native_exec_run:
  "native_run orderly es s \<Longrightarrow> native_exec orderly es' s = Some s' \<Longrightarrow> native_run orderly (es @ es') s'"
proof (induction es' arbitrary: es s)
  case (Cons e es')
  then obtain s1 where "native_apply orderly e s = Some s1" "native_exec orderly es' s1 = Some s'"
    by (auto split: option.splits)
  moreover then have "native_run orderly (es @ [e]) s1"
    using Cons.prems(1) native_more native_apply_step by blast
  ultimately show ?case using Cons.IH [of "es @ [e]" s1] by simp
qed simp

text \<open>
  C11: Whatever the client reports and whenever the channel is stopped, a goroutine reconnects exactly
  while the flag says so, and there is at most one; the wait group counts the goroutines, so that
  \<open>Done\<close> never takes it below zero; and from the moment \<open>Stop\<close> has set its mark no step adds to the
  counter, which the wait group forbids while \<open>Stop\<close> waits for it.
\<close>

theorem native_goroutines:
  assumes "native_run True es s"
  shows "na_loops s = (if na_reconnecting s then 1 else 0) \<and>
    na_wg s = int (na_qr s + na_loops s + na_leaving s) \<and>
    (na_stop s \<noteq> NotStopping \<longrightarrow> (\<forall>e s'. native_step True s e s' \<longrightarrow> na_wg s' \<le> na_wg s))"
proof -
  have inv: "native_inv s" using native_run_inv [OF assms] .
  then have "na_wg s' \<le> na_wg s" if "na_stop s \<noteq> NotStopping" "native_step True s e s'" for e s'
    using that by (auto simp: native_inv_def native_ops elim!: native_step_cases split: if_splits)
  with inv show ?thesis by (simp add: native_inv_def)
qed

lemma native_goroutines_witness:
  "\<exists>s s'. native_run True [StartBegins, ClientRegistered, ConnectedUnpaired, DisconnectedEvent, StopMarks] s \<and>
    native_step True s DisconnectedEvent s' \<and> na_loops s = 1 \<and> na_qr s = 1 \<and> na_wg s = 2 \<and> na_wg s' \<le> 2"
proof -
  let ?es = "[StartBegins, ClientRegistered, ConnectedUnpaired, DisconnectedEvent, StopMarks]"
  let ?s = "the (native_exec True ?es new_native_state)"
  have ex: "native_exec True ?es new_native_state = Some ?s"
    by (simp add: native_apply_def new_native_state_def native_ops)
  have run: "native_run True ?es ?s" using native_exec_run [OF native_new ex] by simp
  have step: "native_step True ?s DisconnectedEvent ?s"
    by (simp add: native_apply_step [symmetric] native_apply_def new_native_state_def native_ops)
  have st: "na_stop ?s \<noteq> NotStopping" "na_reconnecting ?s" "na_qr ?s = 1" "na_leaving ?s = 0"
    by (simp_all add: native_apply_def new_native_state_def native_ops)
  have all: "na_loops ?s = (if na_reconnecting ?s then 1 else 0)" "na_wg ?s = int (na_qr ?s + na_loops ?s + na_leaving ?s)"
      "na_wg ?s \<le> na_wg ?s"
    using native_goroutines [OF run] st(1) step by blast+
  then have "na_loops ?s = 1" "na_wg ?s = 2" using st by simp_all
  with run step st show ?thesis by (metis order_refl)
qed

text \<open>
  \<open>Start\<close> resets the flags "so a restarted channel behaves correctly". Behind a \<open>Stop\<close> whose wait timed out
  this starts a second reconnecting goroutine beside the one that is left.
\<close>

lemma restart_behind_timeout:
  "\<exists>s. native_run False
    [StartBegins, ClientRegistered, ConnectedPaired, DisconnectedEvent, StopMarks, StopCancels, WaitTimedOut,
     StartBegins, ClientRegistered, ConnectedPaired, DisconnectedEvent] s \<and> na_loops s = 2"
proof -
  let ?es = "[StartBegins, ClientRegistered, ConnectedPaired, DisconnectedEvent, StopMarks, StopCancels, WaitTimedOut,
     StartBegins, ClientRegistered, ConnectedPaired, DisconnectedEvent]"
  let ?s = "the (native_exec False ?es new_native_state)"
  have "native_exec False ?es new_native_state = Some ?s" "na_loops ?s = 2"
    by (simp_all add: native_apply_def new_native_state_def native_ops)
  then show ?thesis using native_exec_run [OF native_new] by fastforce
qed

text \<open>A \<open>Stop\<close> that overlaps with \<open>Start\<close> for a paired device leaves a channel that says it runs, without a client.\<close>

lemma stop_within_start:
  "\<exists>s. native_run True
    [StartBegins, ClientRegistered, StopMarks, StopCancels, WaitOver, ConnectedPaired] s \<and> na_running s \<and> \<not> na_client s"
proof -
  let ?es = "[StartBegins, ClientRegistered, StopMarks, StopCancels, WaitOver, ConnectedPaired]"
  let ?s = "the (native_exec True ?es new_native_state)"
  have "native_exec True ?es new_native_state = Some ?s" "na_running ?s \<and> \<not> na_client ?s"
    by (simp_all add: native_apply_def new_native_state_def native_ops)
  then show ?thesis using native_exec_run [OF native_new] by fastforce
qed

subsection \<open>Reconnecting\<close>

text \<open>Durations are nanoseconds; doubling them in \<open>float64\<close> is exact in this range.\<close>

definition reconnectInitial :: int where "reconnectInitial = 5 * 10 ^ 9"

definition reconnectMax :: int where "reconnectMax = 5 * 60 * 10 ^ 9"

definition next_backoff :: "int \<Rightarrow> int" where
  "next_backoff backoff =
    (if backoff < reconnectMax then let n = 2 * backoff in if n > reconnectMax then reconnectMax else n else backoff)"

text \<open>
  One round of the loop: the run context is done, the client is gone, \<open>Connect\<close> succeeds, or it fails and
  the wait behind it is cut by the end of the context or not. The result are the waits begun, and
  whether the loop has returned within the rounds.
\<close>

datatype connect_round = RunDone | ClientGone | Reconnected | ConnectFailed bool

fun reconnect_with_backoff :: "int \<Rightarrow> connect_round list \<Rightarrow> int list \<times> bool" where
  "reconnect_with_backoff backoff [] = ([], False)"
| "reconnect_with_backoff backoff (RunDone # rounds) = ([], True)"
| "reconnect_with_backoff backoff (ClientGone # rounds) = ([], True)"
| "reconnect_with_backoff backoff (Reconnected # rounds) = ([], True)"
| "reconnect_with_backoff backoff (ConnectFailed aborted # rounds) =
    (if aborted then ([backoff], True)
     else let (waits, returned) = reconnect_with_backoff (next_backoff backoff) rounds in (backoff # waits, returned))"

lemma next_backoff_capped: "next_backoff (min reconnectMax b) = min reconnectMax (2 * b)" if "0 < b"
  using that by (auto simp: next_backoff_def reconnectMax_def min_def)

lemma reconnect_waits_from:
  "0 < b \<Longrightarrow> i < length (fst (reconnect_with_backoff (min reconnectMax b) rounds)) \<Longrightarrow>
    fst (reconnect_with_backoff (min reconnectMax b) rounds) ! i = min reconnectMax (b * 2 ^ i)"
proof (induction rounds arbitrary: b i)
  case (Cons r rounds)
  show ?case
  proof (cases "\<exists>aborted. r = ConnectFailed aborted")
    case True
    then obtain aborted where r: "r = ConnectFailed aborted" by blast
    show ?thesis
    proof (cases i)
      case (Suc j)
      then have nc: "\<not> aborted" using Cons.prems r by (cases aborted) auto
      have "j < length (fst (reconnect_with_backoff (min reconnectMax (2 * b)) rounds))"
        using Cons.prems r nc Suc by (simp add: next_backoff_capped split: prod.splits)
      then have "fst (reconnect_with_backoff (min reconnectMax (2 * b)) rounds) ! j = min reconnectMax (2 * b * 2 ^ j)"
        using Cons.IH [of "2 * b" j] Cons.prems(1) by simp
      moreover obtain waits ret where "reconnect_with_backoff (min reconnectMax (2 * b)) rounds = (waits, ret)" by force
      ultimately show ?thesis using r nc Suc Cons.prems(1) by (simp add: next_backoff_capped mult_ac)
    qed (use r in \<open>simp split: prod.splits\<close>)
  next
    case False
    with Cons.prems show ?thesis by (cases r) auto
  qed
qed simp

text \<open>The first wait takes five seconds, each further one twice as long, up to five minutes.\<close>

lemma reconnect_waits:
  assumes "i < length (fst (reconnect_with_backoff reconnectInitial rounds))"
  shows "fst (reconnect_with_backoff reconnectInitial rounds) ! i = min (300 * 10 ^ 9) (5 * 10 ^ 9 * 2 ^ i)"
  using reconnect_waits_from [of reconnectInitial i rounds] assms
  by (simp add: reconnectInitial_def reconnectMax_def)

text \<open>A loop whose context is done returns in its next round, with no more than one wait begun.\<close>

lemma reconnect_returns:
  assumes "\<forall>r \<in> set rounds. r \<noteq> ConnectFailed False" "rounds \<noteq> []"
  shows "snd (reconnect_with_backoff b rounds)" "length (fst (reconnect_with_backoff b rounds)) \<le> 1"
proof -
  obtain r rest where "rounds = r # rest" using assms(2) by (cases rounds) auto
  with assms(1) show "snd (reconnect_with_backoff b rounds)" "length (fst (reconnect_with_backoff b rounds)) \<le> 1"
    by (cases r; auto)+
qed

subsection \<open>Messages received\<close>

text \<open>The addresses of an event are given as texts; a text message has a conversation and perhaps an extended text.\<close>

record native_message =
  ne_Sender :: string
  ne_Chat :: string
  ne_ChatServer :: string
  ne_ID :: string
  ne_PushName :: string
  ne_Message :: "(string \<times> string option) option"

definition new_native_channel :: "string list \<Rightarrow> string \<Rightarrow> base_channel \<times> string" where
  "new_native_channel allowFrom storePath =
    (new_base_channel ''whatsapp_native'' allowFrom [with_max_message_length 65536],
     if storePath = [] then ''whatsapp'' else storePath)"

definition native_sender :: "unicode \<Rightarrow> native_message \<Rightarrow> sender_info" where
  "native_sender U evt =
    no_sender\<lparr>Platform := ''whatsapp'', PlatformID := ne_Sender evt,
      CanonicalID := build_canonical_id U ''whatsapp'' (ne_Sender evt), DisplayName := ne_PushName evt\<rparr>"

definition native_content :: "(rune \<Rightarrow> bool) \<Rightarrow> string \<times> string option \<Rightarrow> string" where
  "native_content isGraphic m =
    sanitize_message_content isGraphic
      (if fst m = [] then (case snd m of Some extended \<Rightarrow> extended | None \<Rightarrow> fst m) else fst m)"

definition native_incoming ::
  "unicode \<Rightarrow> (rune \<Rightarrow> bool) \<Rightarrow> string \<Rightarrow> 64 word \<Rightarrow> base_channel \<Rightarrow> native_message \<Rightarrow> channel_effect list \<times> 64 word" where
  "native_incoming U isGraphic prefix n c evt =
    (case ne_Message evt of
       None \<Rightarrow> ([], n)
     | Some m \<Rightarrow>
         let content = native_content isGraphic m;
             in_group = ne_ChatServer evt = ''g.us'';
             kind = (if in_group then ''group'' else ''direct'');
             metadata = ((if ne_PushName evt \<noteq> [] then [''message_id'' \<mapsto> ne_ID evt, ''user_name'' \<mapsto> ne_PushName evt]
               else [''message_id'' \<mapsto> ne_ID evt]) :: string \<rightharpoonup> string)
               (''peer_kind'' \<mapsto> kind, ''peer_id'' \<mapsto> (if in_group then ne_Chat evt else ne_Sender evt));
             sender = native_sender U evt
         in
           if content = [] then ([], n)
           else if \<not> is_allowed_sender U c sender then ([], n)
           else
             handle_message U prefix n c \<lparr>p_Kind = kind, p_ID = ne_Chat evt\<rparr> (ne_ID evt) (ne_Sender evt) (ne_Chat evt)
               content [] metadata [sender])"

lemma native_passed_on:
  assumes "native_incoming U g prefix n c evt = (effs, n')" "effs \<noteq> []"
  shows "passed_on U ''whatsapp'' c effs"
proof -
  have peer: "peer_ok sender (ne_Chat evt) \<lparr>p_Kind = if b then ''group'' else ''direct'', p_ID = ne_Chat evt\<rparr>" for sender b
    by (simp add: peer_ok_def)
  show ?thesis
    using assms peer [of "native_sender U evt" "ne_ChatServer evt = ''g.us''"]
    by (auto simp: native_incoming_def native_sender_def Let_def split: option.splits if_splits intro!: passed_onI)
qed

interpretation native_inbound: inbound_adapter U "''whatsapp''" "\<lambda>c. c"
    "\<lambda>x c. fst (native_incoming U (fst x) (fst (snd x)) (fst (snd (snd x))) c (snd (snd (snd x))))" for U
proof
  fix x :: "(rune \<Rightarrow> bool) \<times> string \<times> 64 word \<times> native_message" and c
  let ?run = "native_incoming U (fst x) (fst (snd x)) (fst (snd (snd x))) c (snd (snd (snd x)))"
  obtain effs n' where run: "?run = (effs, n')" by force
  assume "fst ?run \<noteq> []"
  then show "passed_on U ''whatsapp'' c (fst ?run)"
    using native_passed_on [OF run] by (simp add: run)
qed

text \<open>
  In a direct chat the message and its metadata name different peers: the one is the chat, the other the
  sender. Where the owner writes into the chat with someone else they differ.
\<close>

lemma handled_peer:
  assumes "PublishInboundMessage im \<in> set (fst (handle_message U prefix n c peer mid sid chat content media md opts))"
  shows "im_Peer im = peer \<and> im_Metadata im = md"
proof -
  have no: "PublishInboundMessage im \<notin> set (typing_effects c chat)" "PublishInboundMessage im \<notin> set (reaction_effects c chat mid)"
    using effects_publish by (fastforce simp: list_all_iff)+
  obtain scope n' where sc: "build_media_scope prefix n (bc_name c) chat mid = (scope, n')" by force
  show ?thesis
    using assms no by (simp add: handle_message_def Let_def sc split: if_splits)
qed

lemma direct_peer_differs:
  assumes "PublishInboundMessage im \<in> set (fst (native_incoming U g prefix n c evt))" "ne_ChatServer evt \<noteq> ''g.us''"
  shows "p_Kind (im_Peer im) = ''direct'' \<and> p_ID (im_Peer im) = ne_Chat evt \<and> im_Metadata im ''peer_id'' = Some (ne_Sender evt)"
proof (cases "ne_Message evt")
  case None
  with assms show ?thesis by (simp add: native_incoming_def)
next
  case (Some m)
  show ?thesis
  proof (cases "native_content g m = [] \<or> \<not> is_allowed_sender U c (native_sender U evt)")
    case True
    with Some have "fst (native_incoming U g prefix n c evt) = []" by (auto simp: native_incoming_def Let_def)
    with assms show ?thesis by simp
  next
    case False
    with assms Some show ?thesis
      by (auto simp: native_incoming_def Let_def dest!: handled_peer)
  qed
qed

subsection \<open>Messages sent\<close>

text \<open>\<open>types.ParseJID\<close>, \<open>types.NewJID\<close> for the default server, and \<open>strconv.Quote\<close> are arguments.\<close>

definition parse_jid :: "(string \<Rightarrow> string + 'jid) \<Rightarrow> (string \<Rightarrow> 'jid) \<Rightarrow> string \<Rightarrow> string + 'jid" where
  "parse_jid parseJID newJID s0 =
    (let s = trim_space s0 in
     if s = [] then Inl ''empty chat id''
     else if contains ''@'' s then parseJID s
     else Inr (newJID s))"

record native_client =
  nc_connected :: bool
  nc_paired :: bool

text \<open>What is handed to the client, if anything, and the error.\<close>

definition native_send ::
  "(string \<Rightarrow> string + 'jid) \<Rightarrow> (string \<Rightarrow> 'jid) \<Rightarrow> (string \<Rightarrow> string) \<Rightarrow> string option \<Rightarrow> bool \<Rightarrow> base_channel \<Rightarrow>
    native_client option \<Rightarrow> outbound_message \<Rightarrow> ('jid \<times> string) option \<times> send_error option" where
  "native_send parseJID newJID goQuote ctxErr sendOk c client msg =
    (if \<not> bc_running c then (None, Some (Sentinel ErrNotRunning))
     else
       (case ctxErr of
          Some e \<Rightarrow> (None, Some (OtherError e))
        | None \<Rightarrow>
            (case client of
               None \<Rightarrow> (None, Some (Wrapped ErrTemporary ''whatsapp connection not established''))
             | Some cl \<Rightarrow>
                 if \<not> nc_connected cl then (None, Some (Wrapped ErrTemporary ''whatsapp connection not established''))
                 else if \<not> nc_paired cl then (None, Some (Wrapped ErrTemporary ''whatsapp not yet paired (QR login pending)''))
                 else
                   (case parse_jid parseJID newJID (om_ChatID msg) of
                      Inl e \<Rightarrow> (None, Some (OtherError (''invalid chat id '' @ goQuote (om_ChatID msg) @ '': '' @ e)))
                    | Inr jid \<Rightarrow>
                        (Some (jid, om_Content msg), if sendOk then None else Some (Wrapped ErrTemporary ''whatsapp send''))))))"

text \<open>No error means that the text was handed on unchanged, to the address the chat id stands for.\<close>

lemma native_send_hands_on:
  assumes "native_send parseJID newJID q ctxErr sendOk c client msg = (sent, None)"
  shows "\<exists>jid. parse_jid parseJID newJID (om_ChatID msg) = Inr jid \<and> sent = Some (jid, om_Content msg) \<and> sendOk"
  using assms by (auto simp: native_send_def split: if_splits option.splits sum.splits)

text \<open>
  Whatever fails while the channel runs and is not cancelled counts as a failure for the time being, except
  an address that cannot be read: the manager does not send those again.
\<close>

lemma native_send_retried:
  assumes "bc_running c" "native_send parseJID newJID q None sendOk c client msg = (sent, Some err)"
  shows "(\<exists>m. err = Wrapped ErrTemporary m) \<or> (\<exists>e m. parse_jid parseJID newJID (om_ChatID msg) = Inl e \<and> err = OtherError m)"
  using assms by (auto simp: native_send_def split: if_splits option.splits sum.splits)

text \<open>A text that already is an address is read back as the chat an incoming message came from.\<close>

lemma reply_jid:
  assumes "trim_space (ne_Chat evt) = ne_Chat evt" "contains ''@'' (ne_Chat evt)" "parseJID (ne_Chat evt) = Inr jid"
  shows "parse_jid parseJID newJID (ne_Chat evt) = Inr jid"
  using assms by (cases "ne_Chat evt") (auto simp: parse_jid_def contains_def)

end
