(* ===== verification/Adapters.thy ===== *)
theory Adapters
  imports Telegram Discord Slack Line Irc Matrix Whatsapp Whatsapp_Native
begin

text \<open>
  All adapters side by side: what each publishes, through the contract \<open>inbound_adapter\<close> that every one of
  them meets, and which of their messages share a session.
\<close>

datatype adapter_event =
    TelegramGets telegram_env "tg_message option" telegram_channel
  | DiscordGets discord_session discord_env "discord_message option" discord_channel
  | SlackGets slack_env slack_event slack_channel
  | LineGets line_env line_event line_channel
  | IrcGets irc_env string "string list" irc_channel
  | MatrixGets matrix_env matrix_event matrix_channel
  | WhatsappGets string "64 word" string whatsapp_channel
  | NativeGets "rune \<Rightarrow> bool" string "64 word" native_message base_channel

fun adapter_effects :: "unicode \<Rightarrow> adapter_event \<Rightarrow> channel_effect list" where
  "adapter_effects U (TelegramGets E m c) = telegram_effects U (E, m) c"
| "adapter_effects U (DiscordGets S E m c) = fst (snd (discord_handle_message U S E c m))"
| "adapter_effects U (SlackGets E ev c) = fst (snd (snd (slack_dispatch U E c ev)))"
| "adapter_effects U (LineGets E ev c) = line_effects U (E, ev) c"
| "adapter_effects U (IrcGets E nick params c) = irc_effects U (E, nick, params) c"
| "adapter_effects U (MatrixGets E ev c) = matrix_effects U (E, ev) c"
| "adapter_effects U (WhatsappGets prefix n raw c) = fst (whatsapp_receive U prefix n c raw)"
| "adapter_effects U (NativeGets isGraphic prefix n m c) = fst (native_incoming U isGraphic prefix n c m)"

fun adapter_base :: "adapter_event \<Rightarrow> base_channel" where
  "adapter_base (TelegramGets E m c) = tg_base c"
| "adapter_base (DiscordGets S E m c) = dd_base c"
| "adapter_base (SlackGets E ev c) = sk_base c"
| "adapter_base (LineGets E ev c) = ln_base c"
| "adapter_base (IrcGets E nick params c) = ir_base c"
| "adapter_base (MatrixGets E ev c) = mx_base c"
| "adapter_base (WhatsappGets prefix n raw c) = wa_base c"
| "adapter_base (NativeGets isGraphic prefix n m c) = c"

fun adapter_name :: "adapter_event \<Rightarrow> string" where
  "adapter_name (TelegramGets E m c) = ''telegram''"
| "adapter_name (DiscordGets S E m c) = ''discord''"
| "adapter_name (SlackGets E ev c) = ''slack''"
| "adapter_name (LineGets E ev c) = ''line''"
| "adapter_name (IrcGets E nick params c) = ''irc''"
| "adapter_name (MatrixGets E ev c) = ''matrix''"
| "adapter_name (WhatsappGets prefix n raw c) = ''whatsapp''"
| "adapter_name (NativeGets isGraphic prefix n m c) = ''whatsapp_native''"

text \<open>The platform of the senders; both adapters for WhatsApp use the same one.\<close>

definition adapter_platform :: "adapter_event \<Rightarrow> string" where
  "adapter_platform a = (if adapter_name a = ''whatsapp_native'' then ''whatsapp'' else adapter_name a)"

lemma adapter_published:
  assumes "PublishInboundMessage im \<in> set (adapter_effects U a)"
  shows "inbound_wf U (adapter_platform a) (adapter_base a) im"
proof (cases a)
  case (TelegramGets E m c)
  then show ?thesis using assms telegram_inbound.published_well_formed [of im U "(E, m)" c] by (simp add: adapter_platform_def)
next
  case (DiscordGets S E m c)
  then show ?thesis using assms discord_inbound.published_well_formed [of im U "(S, E, m)" c] by (simp add: adapter_platform_def)
next
  case (SlackGets E ev c)
  then show ?thesis using assms slack_inbound.published_well_formed [of im U "(E, ev)" c] by (simp add: adapter_platform_def)
next
  case (LineGets E ev c)
  then show ?thesis using assms line_inbound.published_well_formed [of im U "(E, ev)" c] by (simp add: adapter_platform_def)
next
  case (IrcGets E nick params c)
  then show ?thesis using assms irc_inbound.published_well_formed [of im U "(E, nick, params)" c] by (simp add: adapter_platform_def)
next
  case (MatrixGets E ev c)
  then show ?thesis using assms matrix_inbound.published_well_formed [of im U "(E, ev)" c] by (simp add: adapter_platform_def)
next
  case (WhatsappGets prefix n raw c)
  then show ?thesis using assms whatsapp_inbound.published_well_formed [of im U "(prefix, n, raw)" c]
    by (simp add: adapter_platform_def)
next
  case (NativeGets g prefix n m c)
  then show ?thesis using assms native_inbound.published_well_formed [of im U "(g, prefix, n, m)" c]
    by (simp add: adapter_platform_def)
qed

text \<open>A channel has the name its constructor gives it, and no name has a colon.\<close>

definition named :: "adapter_event \<Rightarrow> bool" where
  "named a \<longleftrightarrow> bc_name (adapter_base a) = adapter_name a"

lemma adapter_name_colon: "CHR '':'' \<notin> set (adapter_name a)"
  by (cases a) simp_all

lemma constructed_names:
  "new_telegram_channel urlOk envProxy newBot tc = Inr tg \<Longrightarrow> bc_name (tg_base tg) = ''telegram''"
  "new_discord_channel urlOk envProxy sessionErr dc = Inr dd \<Longrightarrow> bc_name (dd_base dd) = ''discord''"
  "new_matrix_channel clientErr defaultSyncer now mc = Inr mx \<Longrightarrow> bc_name (mx_base mx) = ''matrix''"
  "new_slack_channel sc = Inr sk \<Longrightarrow> bc_name (sk_base sk) = ''slack''"
  "new_irc_channel ic = Inr ir \<Longrightarrow> bc_name (ir_base ir) = ''irc''"
  "new_line_channel lc = Inr le \<Longrightarrow> bc_name (ln_base le) = ''line''"
  "bc_name (wa_base (new_whatsapp_channel wc)) = ''whatsapp''"
  "bc_name (fst (new_native_channel allow path)) = ''whatsapp_native''"
  by (auto simp: new_telegram_channel_def new_discord_channel_def new_matrix_channel_def new_slack_channel_def new_irc_channel_def new_line_channel_def new_whatsapp_channel_def
      new_native_channel_def new_base_channel_def with_max_message_length_def with_reasoning_channel_id_def
      with_group_trigger_def Let_def split: if_splits option.splits sum.splits)

lemma sessions_of_adapters:
  assumes "PublishInboundMessage im \<in> set (adapter_effects U a)" "named a"
    and "PublishInboundMessage im' \<in> set (adapter_effects U a')" "named a'"
  shows "im_SessionKey im = im_SessionKey im' \<longleftrightarrow> adapter_name a = adapter_name a' \<and> im_ChatID im = im_ChatID im'"
  using session_key_inject [OF adapter_published [OF assms(1)] adapter_published [OF assms(3)]] assms
    adapter_published [OF assms(1)] adapter_published [OF assms(3)] adapter_name_colon
  by (simp add: named_def inbound_wf_def)

end
