(* ===== verification/Spec2Isabelle.thy ===== *)
theory Spec2Isabelle
  imports Manager_Lifecycle Bridge_Runs Cron_Runs Services Search_Cache Skills Registry Prompt Logs Media_Cleaner Upgrade Health Config Service_Install Agent_Cli Adapters
begin

text \<open>
  EctoClaw is a gateway between chat platforms and a coding agent that runs as a child process.
  Channel adapters (\<open>pkg/channels\<close>) turn what arrives on a platform into inbound messages on the
  message bus (\<open>pkg/bus\<close>). The bridge (\<open>pkg/bridge\<close>) takes them off, runs slash commands
  (\<open>pkg/commands\<close>), or invokes the agent through a provider (\<open>pkg/providers\<close>) in the session of the
  conversation, and puts the answer, with the files it names registered in the media store
  (\<open>pkg/media\<close>), back on the bus. The channel manager dispatches outbound messages to one worker per
  channel, which splits long ones and sends them with retries. Beside this run a scheduler
  (\<open>pkg/cron\<close>), a periodic check (\<open>pkg/heartbeat\<close>) and the command line (\<open>cmd/ectoclaw\<close>), which among
  other things searches and installs skills (\<open>pkg/skills\<close>).

  \<^bold>\<open>Conventions.\<close> A Go string is a list of bytes, a \<open>string\<close>; runes appear where the code converts
  to them. A struct is a \<open>record\<close> with the field names of the source behind a short prefix, an
  enumeration a \<open>datatype\<close>, \<open>int64\<close> an \<open>int\<close> whose sums are wrapped (\<open>wrap64\<close>). An error is a
  value of a sum or option type, a call that never returns is \<open>None\<close>. Mutable state is passed
  explicitly; what several goroutines do is a step relation whose steps are the parts of a call
  between two points where another goroutine can interfere. The clock, random identifiers, the
  order of a map iteration, the answers of the network and the failures of system calls are
  arguments. Calls of the logger are left out; the logger itself is in Logs.

  \<^bold>\<open>The theories, by the code they model.\<close>
    \<^item> Prelude: machine integers and lemmas on lists and maps. Go_Strings, Go_Numbers, Go_Runes,
      Go_Path, Go_Chan, Json, Json_Struct: what the program uses of the standard library
      (\<open>strings\<close>, \<open>strconv\<close>, \<open>utf8\<close>, \<open>path/filepath\<close>, channels, \<open>encoding/json\<close>), as definitions
      with characteristic lemmas, among them that printing JSON is read back, that encoding runes is
      decoded, and that \<open>Clean\<close> is idempotent.
    \<^item> Identity: \<open>pkg/identity\<close> and the message types of \<open>pkg/bus/types.go\<close>. Canonical ids and the
      matching of allow-list entries.
    \<^item> Split: \<open>pkg/channels/split.go\<close>. The loop is a \<open>partial_function\<close>, because it need not end.
    \<^item> Bus: \<open>pkg/bus/bus.go\<close>. Publishing, consuming and closing as small steps; delivery in order and
      progress after closing hold in every reachable state.
    \<^item> Base_Channel, Manager, Manager_Lifecycle: \<open>pkg/channels/base.go\<close>, \<open>errors.go\<close>, \<open>errutil.go\<close>,
      \<open>registry.go\<close>, \<open>manager.go\<close>. The gate every inbound message passes, typing indicators and
      reactions, retries, and the workers with the dispatcher from start to stop.
    \<^item> Commands: \<open>pkg/commands\<close>. Parsing, registry and execution of slash commands.
    \<^item> Stores: \<open>pkg/fileutil\<close>, \<open>pkg/bridge/sessions.go\<close>, \<open>pkg/state\<close>. Atomic writes over every
      intermediate state of the disk, and two stores on top of them; the locale \<open>file_store\<close> holds what
      saving and loading a value guarantee and is interpreted for the sessions, the last channel and
      (in Cron_Runs) the jobs.
    \<^item> Output, Media, Media_Cleaner, Bridge, Bridge_Runs: \<open>pkg/bridge/output.go\<close>, \<open>pkg/media/store.go\<close> and
      \<open>pkg/bridge/loop.go\<close>. The media store refines an abstract map (locale \<open>media_interface\<close>);
      Media_Cleaner has the goroutine that expires its entries. A
      handler of a message is a sequence of phases, and a run interleaves the phases of all handlers.
    \<^item> Cron, Cron_Runs: \<open>pkg/cron/service.go\<close>. Jobs, their next runs and the ticks of the scheduler.
    \<^item> Providers: \<open>pkg/providers\<close>. One attempt of either agent, the idle timer, and the attempts of an
      invocation (locales \<open>atomic_runner\<close>, \<open>steady_runner\<close>).
    \<^item> Services: \<open>pkg/heartbeat\<close> and the handlers that \<open>cmd/ectoclaw/internal/gateway\<close> connects.
    \<^item> Search_Cache, Skills, Registry: \<open>pkg/skills\<close> and the install command. Cached searches, the list
      of installed skills, search over registries, installation.
    \<^item> Http, Zip, Utils: \<open>pkg/utils\<close>. Requests with retries, downloads, archives, safe names.
    \<^item> Prompt, Logs: \<open>pkg/bridge/prompt.go\<close>, \<open>history.go\<close>, \<open>pkg/logger\<close>, \<open>pkg/providers/invokelog.go\<close>. The
      system prompt, log lines, the traces of invocations and the daily history.
    \<^item> Go_Regex, Markdown: the few regular expressions of the adapters as matchers, with find and
      replace over them, and the Markdown that several adapters rewrite.
    \<^item> Telegram_Format, Telegram, Discord, Slack, Line, Irc, Matrix_Rooms, Matrix_Mention, Matrix,
      Whatsapp, Whatsapp_Native: the adapters under \<open>pkg/channels\<close>. Each has its construction, start
      and stop, what its \<open>Send\<close> hands to the client library, and the handler of what arrives.
      Whatsapp_Native has the goroutines around the client as a step relation. Every adapter interprets
      the locale \<open>inbound_adapter\<close> of Base_Channel, and Adapters puts them side by side.
    \<^item> Config: \<open>pkg/config\<close>. Health: \<open>pkg/health\<close> with the shared HTTP server.
    \<^item> Upgrade, Service_Install, Agent_Cli: the commands \<open>upgrade\<close>, \<open>service\<close> and \<open>agent\<close> under
      \<open>cmd/ectoclaw/internal\<close>.

  \<^bold>\<open>What the theorems show.\<close> The properties are numbered; each stands after a text that states it.
  They say which senders get through, in which form every adapter publishes what it receives, and
  that a handler touches its own conversation only, that a session has one invocation at a time and
  a message one reply, that messages keep their order from the bus to the workers, that stores
  survive restarts and crashes, that attempts, retries, chunks and caches keep their bounds, that
  archives, installations and upgrades change what they should and nothing else, and where
  optimised code agrees with a plain definition. Some state what the code does where it differs
  from what is meant; theorems without a number record further such cases.

  \<^bold>\<open>Bounds and fuel.\<close> Only the JSON reader takes fuel; \<open>unmarshal\<close> gives it twice the length of the
  text and one more, and \<open>unmarshal_marshal\<close> shows this to suffice for every printed value. The loops
  of \<open>SplitMessage\<close>, of the texts of \<open>telegram.Send\<close> and of the eviction in the Matrix cache are partial
  functions: that they return is a theorem (for \<open>SplitMessage\<close> under a condition, with its divergence
  where the condition fails). All other loops are structural or have a measure. A loop that waits
  for the world, such as the one that reconnects, runs over the list of what it meets.

  \<^bold>\<open>Not modelled.\<close> What the client libraries of the platforms do is an argument, and so are the cron
  expressions and the reader of YAML. Construction of the parts, flags, what commands print,
  listening on sockets and signals in \<open>cmd/ectoclaw\<close> are glue. The records of the configuration hold
  the fields the components read; its default values and the environment are arguments. The native
  WhatsApp adapter opens its database and prints QR codes without a model here.
\<close>

text \<open>
  C10: Whatever adapter publishes a message, it carries the name of its channel, the platform and the
  canonical identity of its sender, whom the allow-list of that channel admits, a peer of one of the
  three kinds, and the session \<open>channel:chat\<close>; and two messages share a session only if they come from the
  same adapter and the same chat.
\<close>

theorem adapters_publish_well_formed:
  assumes "PublishInboundMessage im \<in> set (adapter_effects U a)" "named a"
    and "PublishInboundMessage im' \<in> set (adapter_effects U a')" "named a'"
  shows "inbound_wf U (adapter_platform a) (adapter_base a) im \<and>
    (im_SessionKey im = im_SessionKey im' \<longleftrightarrow> adapter_name a = adapter_name a' \<and> im_ChatID im = im_ChatID im')"
  using adapter_published [OF assms(1)] sessions_of_adapters [OF assms] by blast

theorem adapters_publish_well_formed_witness:
  "\<exists>(im :: inbound_message) (im' :: inbound_message). im_SessionKey im = ''slack:C1'' \<and> im_SessionKey im' = ''slack:C1/17.5'' \<and>
    im_SenderID im = im_SenderID im' \<and> im_ChatID im \<noteq> im_ChatID im'"
proof -
  let ?a = "SlackGets slack_sample_env (MessageEvent slack_sample_message) slack_sample"
  let ?b = "SlackGets slack_sample_env (AppMentionEvent slack_sample_message) slack_sample"
  have named: "named ?a" "named ?b" by (simp_all add: named_def slack_sample_def new_base_channel_def set_running_def)
  have "list_ex (\<lambda>e. case e of PublishInboundMessage im \<Rightarrow> im_SessionKey im = ''slack:C1'' \<and> im_SenderID im = ''slack:U1''
      | _ \<Rightarrow> False) (fst (snd (snd (slack_dispatch ascii_only slack_sample_env slack_sample (MessageEvent slack_sample_message)))))"
    and "list_ex (\<lambda>e. case e of PublishInboundMessage im \<Rightarrow> im_SessionKey im = ''slack:C1/17.5'' \<and> im_SenderID im = ''slack:U1''
      | _ \<Rightarrow> False) (fst (snd (snd (slack_dispatch ascii_only slack_sample_env slack_sample (AppMentionEvent slack_sample_message)))))"
    by code_simp+
  then obtain im im' where im: "PublishInboundMessage im \<in> set (adapter_effects ascii_only ?a)"
      "im_SessionKey im = ''slack:C1''" "im_SenderID im = ''slack:U1''"
    and im': "PublishInboundMessage im' \<in> set (adapter_effects ascii_only ?b)"
      "im_SessionKey im' = ''slack:C1/17.5''" "im_SenderID im' = ''slack:U1''"
    unfolding list_ex_published adapter_effects.simps by blast
  have "im_SessionKey im \<noteq> im_SessionKey im'" using im(2) im'(2) by simp
  then have "im_ChatID im \<noteq> im_ChatID im'"
    using adapters_publish_well_formed [OF im(1) named(1) im'(1) named(2)] by simp
  moreover have "im_SenderID im = im_SenderID im'" using im(3) im'(3) by simp
  ultimately show ?thesis using im(2) im'(2) by blast
qed

end
